(* ===== verification/Rpcxx_Prelude.thy ===== *)
theory Rpcxx_Prelude
  imports Main "HOL-Library.Word" "HOL-Library.Char_ord" "HOL-Library.List_Lexorder"
begin

text \<open>
  The prelude of the development: names for the C++ integer types, the collections of facts the
  component proofs share, decimal printing and reading (\<^verbatim>\<open>std::to_string\<close>,
  \<^verbatim>\<open>std::to_chars\<close>, \<^verbatim>\<open>std::from_chars\<close>), bytes against characters, and generic lemmas on
  strictly sorted association lists.

  Strings are \<^typ>\<open>string\<close> values: a \<^typ>\<open>char\<close> is one byte, and the list order of
  \<^theory_text>\<open>List_Lexorder\<close> over the order of \<^theory_text>\<open>Char_ord\<close> is the byte-wise lexicographic order of
  \<^verbatim>\<open>std::string_view::operator<\<close>.
\<close>

unbundle bit_operations_syntax

type_synonym u8 = "8 word"
type_synonym u16 = "16 word"
type_synonym u32 = "32 word"
type_synonym u64 = "64 word"

named_theorems objs \<open>laws of sorted objects\<close>
named_theorems wf_rules \<open>introduction rules for well-formedness\<close>

subsection \<open>Bytes and characters\<close>

definition byte_of :: "char \<Rightarrow> u8" where
  "byte_of c = word_of_nat (of_char c)"

definition chr_of :: "u8 \<Rightarrow> char" where
  "chr_of w = char_of (unat w)"

lemma chr_of_byte_of [simp]: "chr_of (byte_of c) = c"
proof -
  have "of_char c < (2 ^ 8 :: nat)" using nat_of_char_less_256 [of c] by simp
  then have "unat (word_of_nat (of_char c) :: u8) = of_char c"
    by (simp add: unat_of_nat take_bit_nat_eq_self)
  then show ?thesis by (simp add: chr_of_def byte_of_def)
qed

lemma byte_of_chr_of [simp]: "byte_of (chr_of w) = w"
proof -
  have "unat w < 256" using unsigned_less [of w, where 'a = nat] by simp
  then have "of_char (char_of (unat w)) = unat w" by simp
  then show ?thesis by (simp add: chr_of_def byte_of_def)
qed

lemma map_chr_byte [simp]: "map chr_of (map byte_of s) = s"
  by (induction s) auto

subsection \<open>Decimal numbers\<close>

definition digit_chr :: "nat \<Rightarrow> char" where
  "digit_chr d = char_of (48 + d)"

fun nat_str :: "nat \<Rightarrow> string" where
  "nat_str n = (if n < 10 then [digit_chr n] else nat_str (n div 10) @ [digit_chr (n mod 10)])"

declare nat_str.simps [simp del]

definition int_str :: "int \<Rightarrow> string" where
  "int_str i = (if i < 0 then CHR ''-'' # nat_str (nat (- i)) else nat_str (nat i))"

definition is_digit :: "char \<Rightarrow> bool" where
  "is_digit c \<longleftrightarrow> CHR ''0'' \<le> c \<and> c \<le> CHR ''9''"

definition digit_val :: "char \<Rightarrow> nat" where
  "digit_val c = of_char c - 48"

definition str_nat :: "string \<Rightarrow> nat" where
  "str_nat s = foldl (\<lambda>n c. 10 * n + digit_val c) 0 s"

lemma of_char_digit [simp]: "d < 10 \<Longrightarrow> of_char (digit_chr d) = (48 + d :: nat)"
  by (simp add: digit_chr_def)

lemma is_digit_chr [simp]: "d < 10 \<Longrightarrow> is_digit (digit_chr d)"
  by (simp add: is_digit_def less_eq_char_def)

lemma digit_val_chr [simp]: "d < 10 \<Longrightarrow> digit_val (digit_chr d) = d"
  by (simp add: digit_val_def)

lemma nat_str_ne [simp]: "nat_str n \<noteq> []"
  by (subst nat_str.simps) simp

lemma nat_str_digits: "list_all is_digit (nat_str n)"
proof (induction n rule: nat_str.induct)
  case (1 n)
  then show ?case by (subst nat_str.simps) auto
qed

lemma str_nat_snoc: "str_nat (s @ [c]) = 10 * str_nat s + digit_val c"
  by (simp add: str_nat_def)

lemma str_nat_nat_str [simp]: "str_nat (nat_str n) = n"
proof (induction n rule: nat_str.induct)
  case (1 n)
  show ?case
  proof (cases "n < 10")
    case True
    then show ?thesis by (subst nat_str.simps) (simp add: str_nat_def)
  next
    case False
    with "1.IH" show ?thesis by (subst nat_str.simps) (simp add: str_nat_snoc)
  qed
qed

subsection \<open>Signed values of words\<close>

lemma sint_uint_eq:
  "sint (w :: 'a::len word) = (if 2 * uint w < 2 ^ LENGTH('a) then uint w else uint w - 2 ^ LENGTH('a))"
proof -
  obtain n where n: "LENGTH('a) = Suc n" by (meson len_gt_0 gr0_implies_Suc)
  have b: "0 \<le> uint w" "uint w < 2 * 2 ^ n" using uint_bounded [of w] n by simp_all
  have "sint w = (uint w + 2 ^ n) mod (2 * 2 ^ n) - 2 ^ n"
    by (simp add: sint_uint n signed_take_bit_eq_take_bit_shift take_bit_eq_mod)
  also have "(uint w + 2 ^ n) mod (2 * 2 ^ n) = (if uint w < 2 ^ n then uint w + 2 ^ n else uint w - 2 ^ n)"
  proof (cases "uint w < 2 ^ n")
    case False
    then have "(uint w + 2 ^ n) mod (2 * 2 ^ n) = (uint w - 2 ^ n + 2 * 2 ^ n) mod (2 * 2 ^ n)" by (simp add: add.commute)
    also have "\<dots> = (uint w - 2 ^ n) mod (2 * 2 ^ n)" by (rule mod_add_self2)
    also have "\<dots> = uint w - 2 ^ n" using False b by (intro mod_pos_pos_trivial) simp_all
    finally show ?thesis using False by simp
  qed (use b in simp)
  finally show ?thesis by (simp add: n)
qed

lemma sint_nonneg_eq: "0 \<le> sint (w :: 'a::len word) \<Longrightarrow> sint w = uint w"
  by (metis sint_uint_eq uint_bounded diff_ge_0_iff_ge not_le)

lemma sint_eq_uint_iff: "sint (w :: 'a::len word) = uint v \<longleftrightarrow> w = v \<and> 0 \<le> sint w"
proof
  assume a: "sint w = uint v"
  then have "0 \<le> sint w" by simp
  with a sint_nonneg_eq [of w] show "w = v \<and> 0 \<le> sint w" by (simp add: word_uint_eq_iff)
qed (auto simp: sint_nonneg_eq)

subsection \<open>Strictly sorted association lists\<close>

abbreviation sorted_keys :: "('k::linorder \<times> 'v) list \<Rightarrow> bool" where
  "sorted_keys kvs \<equiv> sorted_wrt (<) (map fst kvs)"

lemma sorted_keys_Cons [simp]:
  "sorted_keys (p # ps) \<longleftrightarrow> (\<forall>q \<in> set ps. fst p < fst q) \<and> sorted_keys ps"
  by auto

lemma sorted_keys_append:
  "sorted_keys (ps @ qs) \<longleftrightarrow>
     sorted_keys ps \<and> sorted_keys qs \<and> (\<forall>p \<in> set ps. \<forall>q \<in> set qs. fst p < fst q)"
  by (auto simp: sorted_wrt_append)

lemma sorted_keys_distinct: "sorted_keys kvs \<Longrightarrow> distinct (map fst kvs)"
  by (induction kvs) auto

lemma sorted_keys_nth_less:
  "sorted_keys kvs \<Longrightarrow> i < j \<Longrightarrow> j < length kvs \<Longrightarrow> fst (kvs ! i) < fst (kvs ! j)"
  using sorted_wrt_nth_less [of "(<)" "map fst kvs" i j] by simp

text \<open>Two strictly sorted lists with the same lookups are equal.\<close>

lemma sorted_keys_ext:
  assumes "sorted_keys xs" "sorted_keys ys" "map_of xs = map_of ys"
  shows "xs = ys"
  using assms
proof (induction xs arbitrary: ys)
  case Nil
  then show ?case by (cases ys) (auto dest: fun_cong [of _ _ "fst (hd ys)"])
next
  case (Cons p xs)
  obtain k v where p: "p = (k, v)" by (cases p)
  have some: "map_of ys k = Some v" using Cons.prems(3) p by (metis map_of_Cons_code(2))
  then obtain q ys' where ys: "ys = q # ys'" by (cases ys) auto
  obtain k' v' where q: "q = (k', v')" by (cases q)
  have "map_of ys k' = Some v'" using ys q by simp
  then have "map_of (p # xs) k' = Some v'" by (simp only: Cons.prems(3))
  then have "k' = k \<or> k' \<in> fst ` set xs"
    using p by (auto simp: dom_map_of_conv_image_fst [symmetric] split: if_splits)
  moreover have "k = k' \<or> k \<in> fst ` set ys'"
    using some ys q by (auto simp: dom_map_of_conv_image_fst [symmetric] split: if_splits)
  ultimately have kk: "k = k'" using Cons.prems(1,2) p ys q by fastforce
  with some ys q have vv: "v' = v" by simp
  have nx: "map_of xs k = None" using Cons.prems(1) p by (auto simp: map_of_eq_None_iff)
  have ny: "map_of ys' k = None" using Cons.prems(2) ys q kk by (auto simp: map_of_eq_None_iff)
  have "map_of xs = map_of ys'"
  proof
    fix a
    show "map_of xs a = map_of ys' a"
      using fun_cong [OF Cons.prems(3), of a] nx ny p ys q kk by (cases "a = k") auto
  qed
  then have "xs = ys'" using Cons.IH Cons.prems(1,2) ys by simp
  with p ys q kk vv show ?case by simp
qed

end
