(* ===== verification/Trace_Frame.thy ===== *)
theory Trace_Frame
  imports Rpcxx_Prelude
begin

text \<open>
  Keys and trace frames (\<^verbatim>\<open>key.hpp\<close>, \<^verbatim>\<open>trace_frame.hpp\<close> and the \<^verbatim>\<open>JsonKey\<close> of
  \<^verbatim>\<open>pointer.hpp\<close>). A frame is a node with a back pointer to its parent; the default constructed
  frame is the root and carries no key of its own. Printing a trace walks from the root to the
  frame, which the C++ does by writing forward pointers while it follows the back pointers.
\<close>

subsection \<open>Keys\<close>

text \<open>
  A key is a string (its \<^verbatim>\<open>str\<close> pointer is set) or an index (\<^verbatim>\<open>str\<close> is null and \<^verbatim>\<open>size\<close> holds
  the index). \<^verbatim>\<open>jv::Key\<close> and \<^verbatim>\<open>jv::JsonKey\<close> have the same layout and the same constructors, so
  one datatype models both.
\<close>

datatype jv_key = KStr string | KIdx u32

definition key_Visit :: "(string \<Rightarrow> 'r) \<Rightarrow> (u32 \<Rightarrow> 'r) \<Rightarrow> jv_key \<Rightarrow> 'r" where
  "key_Visit kf ixf k = (case k of KStr s \<Rightarrow> kf s | KIdx i \<Rightarrow> ixf i)"

definition key_IsString :: "jv_key \<Rightarrow> bool" where
  "key_IsString k = (case k of KStr _ \<Rightarrow> True | KIdx _ \<Rightarrow> False)"

lemma key_Visit_simps [simp]:
  "key_Visit kf ixf (KStr s) = kf s" "key_Visit kf ixf (KIdx i) = ixf i"
  by (simp_all add: key_Visit_def)

subsection \<open>Frames\<close>

datatype frame = RootFrame | Frame jv_key frame

text \<open>
  \<^verbatim>\<open>prepareWalk\<close>: \<open>chain\<close> is the list of nodes reachable through the \<^verbatim>\<open>next\<close> pointers from the
  current node. When the parent is the root, the walk starts at \<^verbatim>\<open>root->next\<close>, so the root's own
  (default) key is not visited; a frame without a parent gives the empty walk.
\<close>

fun prep_loop :: "frame \<Rightarrow> jv_key list \<Rightarrow> jv_key list" where
  "prep_loop RootFrame chain = chain"
| "prep_loop (Frame k prev) chain = prep_loop prev (k # chain)"

fun prepareWalk :: "frame \<Rightarrow> jv_key list" where
  "prepareWalk RootFrame = []"
| "prepareWalk (Frame k prev) = prep_loop prev [k]"

definition trace_key :: "jv_key \<Rightarrow> string" where
  "trace_key = key_Visit (\<lambda>key. ''.'' @ key) (\<lambda>idx. ''.['' @ nat_str (unat idx) @ '']'')"

fun walk_append :: "jv_key list \<Rightarrow> string \<Rightarrow> string" where
  "walk_append [] result = result"
| "walk_append (k # ks) result = walk_append ks (result @ trace_key k)"

definition PrintTrace :: "frame \<Rightarrow> string" where
  "PrintTrace fr = walk_append (prepareWalk fr) []"

text \<open>\<^verbatim>\<open>JsonException(TraceFrame const&)\<close> adds a separator to a non-empty trace.\<close>

definition exc_trace :: "frame \<Rightarrow> string" where
  "exc_trace fr = (let trace = PrintTrace fr in if trace \<noteq> [] then trace @ '': '' else trace)"

subsection \<open>The walk against the path\<close>

text \<open>The keys from the root to the frame, by plain recursion.\<close>

fun frame_path :: "frame \<Rightarrow> jv_key list" where
  "frame_path RootFrame = []"
| "frame_path (Frame k prev) = frame_path prev @ [k]"

lemma prep_loop_path: "prep_loop fr chain = frame_path fr @ chain"
  by (induction fr chain rule: prep_loop.induct) auto

lemma prepareWalk_path: "prepareWalk fr = frame_path fr"
  by (cases fr) (simp_all add: prep_loop_path)

lemma walk_append_concat: "walk_append ks r = r @ concat (map trace_key ks)"
  by (induction ks arbitrary: r) auto

lemma PrintTrace_path: "PrintTrace fr = concat (map trace_key (frame_path fr))"
  by (simp add: PrintTrace_def walk_append_concat prepareWalk_path)

lemma PrintTrace_Frame: "PrintTrace (Frame k fr) = PrintTrace fr @ trace_key k"
  by (simp add: PrintTrace_path)

lemma PrintTrace_Root [simp]: "PrintTrace RootFrame = []"
  by (simp add: PrintTrace_path)

lemma exc_trace_Root [simp]: "exc_trace RootFrame = []"
  by (simp add: exc_trace_def)

end
