(* ===== verification/Json_Value.thy ===== *)
theory Json_Value
  imports Trace_Frame "HOL-Library.Multiset"
begin

text \<open>
  The document model of \<^verbatim>\<open>data.hpp\<close> and \<^verbatim>\<open>json_view.hpp\<close>: the tagged union \<^verbatim>\<open>Data\<close>, type masks,
  the exceptions, the constructors of \<^verbatim>\<open>JsonView\<close> and its checked accessors. A view's array and
  object pointers are followed, so a view is the tree below it; the user flags word of \<^verbatim>\<open>Data\<close> is
  left out (the library only copies it). A double is its 64 bit IEEE representation.
\<close>

subsection \<open>Type masks\<close>

type_synonym type_mask = u16

definition t_null :: type_mask where "t_null = 0"
definition t_binary :: type_mask where "t_binary = push_bit 0 1"
definition t_boolean :: type_mask where "t_boolean = push_bit 1 1"
definition t_number :: type_mask where "t_number = push_bit 2 1"
definition t_string :: type_mask where "t_string = push_bit 3 1"
definition t_signed :: type_mask where "t_signed = push_bit 4 1"
definition t_unsigned :: type_mask where "t_unsigned = push_bit 5 1"
definition t_array :: type_mask where "t_array = push_bit 6 1"
definition t_object :: type_mask where "t_object = push_bit 7 1"
definition t_discarded :: type_mask where "t_discarded = push_bit 8 1"
definition t_custom :: type_mask where "t_custom = push_bit 9 1"
definition t_any_integer :: type_mask where "t_any_integer = t_signed OR t_unsigned"
definition t_any_number :: type_mask where "t_any_number = t_number OR t_signed OR t_unsigned"

lemmas t_defs = t_null_def t_binary_def t_boolean_def t_number_def t_string_def t_signed_def
  t_unsigned_def t_array_def t_object_def t_discarded_def t_custom_def t_any_integer_def
  t_any_number_def

subsection \<open>Values\<close>

datatype json =
    JNull
  | JBool bool
  | JSigned u64
  | JUnsigned u64
  | JNumber u64
  | JString string
  | JBinary string
  | JArray "json list"
  | JObject "(string \<times> json) list"
  | JDiscarded string
  | JCustom u64 u32

type_synonym json_pair = "string \<times> json"

fun GetType :: "json \<Rightarrow> type_mask" where
  "GetType JNull = t_null"
| "GetType (JBool _) = t_boolean"
| "GetType (JSigned _) = t_signed"
| "GetType (JUnsigned _) = t_unsigned"
| "GetType (JNumber _) = t_number"
| "GetType (JString _) = t_string"
| "GetType (JBinary _) = t_binary"
| "GetType (JArray _) = t_array"
| "GetType (JObject _) = t_object"
| "GetType (JDiscarded _) = t_discarded"
| "GetType (JCustom _ _) = t_custom"

definition Is :: "json \<Rightarrow> type_mask \<Rightarrow> bool" where
  "Is j t = (if t \<noteq> 0 then GetType j AND t \<noteq> 0 else GetType j = 0)"

text \<open>Induction over a document with the members of an object as premises.\<close>

lemma json_induct [case_names Null Bool Signed Unsigned Number String Binary Array Object
    Discarded Custom]:
  assumes "P JNull" "\<And>b. P (JBool b)" "\<And>i. P (JSigned i)" "\<And>u. P (JUnsigned u)"
    "\<And>d. P (JNumber d)" "\<And>s. P (JString s)" "\<And>s. P (JBinary s)"
    "\<And>xs. (\<And>x. x \<in> set xs \<Longrightarrow> P x) \<Longrightarrow> P (JArray xs)"
    "\<And>kvs. (\<And>k v. (k, v) \<in> set kvs \<Longrightarrow> P v) \<Longrightarrow> P (JObject kvs)"
    "\<And>s. P (JDiscarded s)" "\<And>p n. P (JCustom p n)"
  shows "P j"
proof (induction j)
  case (JObject kvs)
  then show ?case using assms(9) by (metis snds.intros snd_conv)
qed (use assms in auto)

lemma size_member [simp, termination_simp]:
  "(k, v) \<in> set kvs \<Longrightarrow> size v < Suc (size_list (size_prod (\<lambda>_. 0) size) kvs)"
  by (induction kvs) auto

lemma size_member_snd [termination_simp]:
  "p \<in> set kvs \<Longrightarrow> size (snd p) < Suc (size_list (size_prod (\<lambda>_. 0) size) kvs)"
  by (cases p) simp

subsection \<open>Exceptions\<close>

text \<open>
  The exception classes of \<^verbatim>\<open>json_view.hpp\<close> and \<^verbatim>\<open>parse.hpp\<close> with their fields, and the standard
  exceptions the library throws. The first field of the JSON exceptions is the printed trace.
\<close>

datatype jv_error =
    TypeMissmatch string type_mask type_mask \<comment> \<open>trace, wanted, was\<close>
  | KeyError string string \<comment> \<open>trace, missing\<close>
  | IndexError string u32 u32 \<comment> \<open>trace, wanted, actual size\<close>
  | IntRangeError string bool u64 u64 u64 \<comment> \<open>trace, is unsigned, was, min, max\<close>
  | ForeignError string string \<comment> \<open>trace, message of the nested exception\<close>
  | DepthError
  | ParsingError string nat \<comment> \<open>message, position\<close>
  | BadAlloc
  | RuntimeError string
  | OutOfRange string

definition throwMissmatch :: "json \<Rightarrow> type_mask \<Rightarrow> frame \<Rightarrow> jv_error" where
  "throwMissmatch j wanted fr = TypeMissmatch (exc_trace fr) wanted (GetType j)"

definition throwKeyError :: "string \<Rightarrow> frame \<Rightarrow> jv_error" where
  "throwKeyError key fr = KeyError (exc_trace fr) key"

fun data_size :: "json \<Rightarrow> u32" where
  "data_size (JString s) = word_of_nat (length s)"
| "data_size (JBinary s) = word_of_nat (length s)"
| "data_size (JArray xs) = word_of_nat (length xs)"
| "data_size (JObject kvs) = word_of_nat (length kvs)"
| "data_size (JDiscarded s) = word_of_nat (length s)"
| "data_size (JCustom _ n) = n"
| "data_size _ = 0"

definition throwIndexError :: "json \<Rightarrow> u32 \<Rightarrow> frame \<Rightarrow> jv_error" where
  "throwIndexError j key fr = IndexError (exc_trace fr) key (data_size j)"

definition throwIntRangeError :: "json \<Rightarrow> u64 \<Rightarrow> u64 \<Rightarrow> frame \<Rightarrow> jv_error" where
  "throwIntRangeError j mn mx fr =
     (case j of
        JSigned i \<Rightarrow> IntRangeError (exc_trace fr) False i mn mx
      | JUnsigned u \<Rightarrow> IntRangeError (exc_trace fr) True u mn mx
      | _ \<Rightarrow> IntRangeError (exc_trace fr) False 0 mn mx)"

definition depth_Check :: "nat \<Rightarrow> jv_error option" where
  "depth_Check depth = (if depth = 0 then Some DepthError else None)"

definition AssertType :: "json \<Rightarrow> type_mask \<Rightarrow> frame \<Rightarrow> jv_error + unit" where
  "AssertType j wanted fr = (if Is j wanted then Inr () else Inl (throwMissmatch j wanted fr))"

definition PrintType :: "type_mask \<Rightarrow> string" where
  "PrintType t =
     (if t = t_array then ''array''
      else if t = t_string then ''string''
      else if t = t_object then ''object''
      else if t = t_null then ''null''
      else if t = t_signed then ''signed''
      else if t = t_boolean then ''boolean''
      else if t = t_unsigned then ''unsigned''
      else if t = t_binary then ''binary''
      else if t = t_discarded then ''discarded''
      else if t = t_number then ''number''
      else if t = t_custom then ''custom''
      else ''<invalid>'')"

definition GetTypeName :: "json \<Rightarrow> string" where
  "GetTypeName j = PrintType (GetType j)"

end
