(* ===== verification/Sorted_Object.thy ===== *)
theory Sorted_Object
  imports Json_Value
begin

text \<open>
  Objects as arrays of pairs sorted by key: the binary search \<^verbatim>\<open>detail::sortedFind\<close>, the
  \<^verbatim>\<open>std::lower_bound\<close> the insertion uses, \<^verbatim>\<open>SortedInsertJson\<close> of \<^verbatim>\<open>algo.hpp\<close>, and the sorting and
  deduplicating constructor of \<^verbatim>\<open>JsonView\<close>. The locale \<open>sorted_object\<close> is the interface the
  parsers, converters and dumpers rely on; it is interpreted on the code's own two operations.
\<close>

subsection \<open>Binary searches\<close>

text \<open>The index of the middle element found, or \<^verbatim>\<open>nullptr\<close>.\<close>

function sortedFind :: "(string \<times> 'v) list \<Rightarrow> nat \<Rightarrow> nat \<Rightarrow> string \<Rightarrow> nat option" where
  "sortedFind object first len key =
     (if len > 0 then
        let half = len div 2; middle = first + half in
        if fst (object ! middle) < key then
          sortedFind object (Suc middle) (len - half - 1) key
        else if fst (object ! middle) = key then Some middle
        else sortedFind object first half key
      else None)"
  by pat_completeness auto
termination
  by (relation "measure (\<lambda>(ob, first, len, key). len)") auto

declare sortedFind.simps [simp del]

text \<open>\<^verbatim>\<open>std::lower_bound\<close> by key, as the half-interval search of the standard library.\<close>

function lower_bound :: "(string \<times> 'v) list \<Rightarrow> nat \<Rightarrow> nat \<Rightarrow> string \<Rightarrow> nat" where
  "lower_bound object first len key =
     (if len > 0 then
        let half = len div 2; middle = first + half in
        if fst (object ! middle) < key then lower_bound object (Suc middle) (len - half - 1) key
        else lower_bound object first half key
      else first)"
  by pat_completeness auto
termination
  by (relation "measure (\<lambda>(ob, first, len, key). len)") auto

declare lower_bound.simps [simp del]

text \<open>
  \<^verbatim>\<open>SortedInsertJson(JsonPair*, unsigned, JsonPair const&, size_t)\<close>: the first \<^verbatim>\<open>size\<close> pairs of
  the storage are the list; the result is the storage up to the returned size. \<^verbatim>\<open>memmove\<close> of the
  tail by one pair makes room for the new entry.
\<close>

definition SortedInsertJson :: "(string \<times> 'v) list \<Rightarrow> string \<Rightarrow> 'v \<Rightarrow> (string \<times> 'v) list" where
  "SortedInsertJson storage key v =
     (let pos = lower_bound storage 0 (length storage) key in
      if pos = length storage then storage @ [(key, v)]
      else if fst (storage ! pos) = key then storage[pos := (fst (storage ! pos), v)]
      else take pos storage @ (key, v) # drop pos storage)"

subsection \<open>Correctness of the searches\<close>

lemma sortedFind_correct:
  assumes "sorted_keys ob" "first + len \<le> length ob"
  shows "(case sortedFind ob first len key of
            Some i \<Rightarrow> first \<le> i \<and> i < first + len \<and> fst (ob ! i) = key
          | None \<Rightarrow> \<forall>i. first \<le> i \<and> i < first + len \<longrightarrow> fst (ob ! i) \<noteq> key)"
  using assms
proof (induction ob first len key rule: sortedFind.induct)
  case (1 ob first len key)
  define half where "half = len div 2"
  show ?case
  proof (cases "len > 0")
    case False
    then show ?thesis by (subst sortedFind.simps) auto
  next
    case True
    then have h: "half < len" by (simp add: half_def)
    consider (lt) "fst (ob ! (first + half)) < key" | (eq) "fst (ob ! (first + half)) = key"
      | (gt) "key < fst (ob ! (first + half))" by (meson linorder_less_linear)
    then show ?thesis
    proof cases
      case lt
      have low: "fst (ob ! i) \<noteq> key" if "i \<le> first + half" for i
        using sorted_keys_nth_less [OF "1.prems"(1), of i "first + half"] that lt h "1.prems"(2)
        by (cases "i = first + half") auto
      have "sortedFind ob first len key = sortedFind ob (Suc (first + half)) (len - half - 1) key"
        using True lt by (subst sortedFind.simps) (simp add: half_def Let_def)
      then show ?thesis
        using "1.IH"(1) [OF True half_def refl] lt "1.prems" h low
        by (auto split: option.splits simp: not_le) (metis Suc_le_eq not_le)
    next
      case eq
      then have "sortedFind ob first len key = Some (first + half)"
        using True by (subst sortedFind.simps) (simp add: half_def Let_def)
      then show ?thesis using eq h by simp
    next
      case gt
      have high: "fst (ob ! i) \<noteq> key" if "first + half \<le> i" "i < first + len" for i
        using sorted_keys_nth_less [OF "1.prems"(1), of "first + half" i] that gt "1.prems"(2)
        by (cases "i = first + half") auto
      have ng: "\<not> fst (ob ! (first + half)) < key" "fst (ob ! (first + half)) \<noteq> key"
        using gt by auto
      have "sortedFind ob first len key = sortedFind ob first half key"
        using True ng by (subst sortedFind.simps) (simp add: half_def Let_def)
      moreover have "case sortedFind ob first half key of
            Some i \<Rightarrow> first \<le> i \<and> i < first + half \<and> fst (ob ! i) = key
          | None \<Rightarrow> \<forall>i. first \<le> i \<and> i < first + half \<longrightarrow> fst (ob ! i) \<noteq> key"
        using "1.IH"(2) [OF True half_def refl ng] "1.prems" h by simp
      ultimately show ?thesis using h high by (fastforce split: option.splits simp: not_le)
    qed
  qed
qed

lemma lower_bound_correct:
  assumes "sorted_keys ob" "first + len \<le> length ob"
  shows "first \<le> lower_bound ob first len key \<and> lower_bound ob first len key \<le> first + len
    \<and> (\<forall>i. first \<le> i \<and> i < lower_bound ob first len key \<longrightarrow> fst (ob ! i) < key)
    \<and> (\<forall>i. lower_bound ob first len key \<le> i \<and> i < first + len \<longrightarrow> key \<le> fst (ob ! i))"
  using assms
proof (induction ob first len key rule: lower_bound.induct)
  case (1 ob first len key)
  define half where "half = len div 2"
  show ?case
  proof (cases "len > 0")
    case False
    then show ?thesis by (subst (1 2 3 4) lower_bound.simps) auto
  next
    case True
    then have h: "half < len" by (simp add: half_def)
    show ?thesis
    proof (cases "fst (ob ! (first + half)) < key")
      case lt: True
      have low: "fst (ob ! i) < key" if "i \<le> first + half" for i
        using sorted_keys_nth_less [OF "1.prems"(1), of i "first + half"] that lt h "1.prems"(2)
        by (cases "i = first + half") (auto intro: less_trans)
      have eq: "lower_bound ob first len key = lower_bound ob (Suc (first + half)) (len - half - 1) key"
        using True lt by (subst lower_bound.simps) (simp add: half_def Let_def)
      show ?thesis
        using "1.IH"(1) [OF True half_def refl] lt "1.prems" h low
        by (auto simp: eq) (metis Suc_le_eq not_le)
    next
      case ge: False
      have high: "key \<le> fst (ob ! i)" if "first + half \<le> i" "i < first + len" for i
        using sorted_keys_nth_less [OF "1.prems"(1), of "first + half" i] that ge "1.prems"(2)
        by (cases "i = first + half") auto
      have eq: "lower_bound ob first len key = lower_bound ob first half key"
        using True ge by (subst lower_bound.simps) (simp add: half_def Let_def)
      show ?thesis
        using "1.IH"(2) [OF True half_def refl] ge "1.prems" h high
        by (auto simp: eq) (metis not_le)
    qed
  qed
qed

text \<open>The two halves an insertion position splits a sorted object into.\<close>

lemma lower_bound_split:
  assumes "sorted_keys ob" and "n = lower_bound ob 0 (length ob) key"
  shows "n \<le> length ob" "\<forall>p \<in> set (take n ob). fst p < key" "\<forall>p \<in> set (drop n ob). key \<le> fst p"
proof -
  note c = lower_bound_correct [OF assms(1), of 0 "length ob" key, folded assms(2)]
  show "n \<le> length ob" using c by simp
  show "\<forall>p \<in> set (take n ob). fst p < key"
  proof
    fix p assume "p \<in> set (take n ob)"
    then obtain i where "i < n" "i < length ob" "p = ob ! i" by (auto simp: in_set_conv_nth)
    then show "fst p < key" using c by simp
  qed
  show "\<forall>p \<in> set (drop n ob). key \<le> fst p"
  proof
    fix p assume "p \<in> set (drop n ob)"
    then obtain i where "i < length ob - n" "p = ob ! (n + i)" by (auto simp: in_set_conv_nth)
    then show "key \<le> fst p" using c by simp
  qed
qed

subsection \<open>Lookup and insertion against finite maps\<close>

definition object_find :: "(string \<times> 'v) list \<Rightarrow> string \<Rightarrow> 'v option" where
  "object_find ob key = map_option (\<lambda>i. snd (ob ! i)) (sortedFind ob 0 (length ob) key)"

lemma object_find_map_of:
  assumes "sorted_keys ob"
  shows "object_find ob key = map_of ob key"
proof (cases "sortedFind ob 0 (length ob) key")
  case None
  then have "key \<notin> fst ` set ob"
    using sortedFind_correct [OF assms, of 0 "length ob" key]
    by (auto simp: in_set_conv_nth image_iff) (metis fst_conv)
  then show ?thesis using None by (simp add: object_find_def) (metis map_of_eq_None_iff)
next
  case (Some i)
  then have i: "i < length ob" "fst (ob ! i) = key"
    using sortedFind_correct [OF assms, of 0 "length ob" key] by auto
  then have "(key, snd (ob ! i)) \<in> set ob" by (metis nth_mem prod.collapse)
  then have "map_of ob key = Some (snd (ob ! i))"
    using sorted_keys_distinct [OF assms] by simp
  then show ?thesis using Some by (simp add: object_find_def)
qed

lemma SortedInsertJson_cases:
  assumes "sorted_keys ob"
  obtains pre post where "\<forall>p \<in> set pre. fst p < key" "\<forall>p \<in> set post. key < fst p"
    "SortedInsertJson ob key v = pre @ (key, v) # post"
    "ob = pre @ post \<or> (\<exists>w. ob = pre @ (key, w) # post)"
proof -
  define n where "n = lower_bound ob 0 (length ob) key"
  note s = lower_bound_split [OF assms n_def]
  have srt: "sorted_keys (drop n ob)" using assms by (metis append_take_drop_id sorted_keys_append)
  show thesis
  proof (cases "drop n ob")
    case Nil
    then have len: "n = length ob" using s(1) by simp
    then have "SortedInsertJson ob key v = ob @ [(key, v)]"
      by (simp add: SortedInsertJson_def n_def [symmetric])
    then show thesis using that [of ob "[]"] s(2) len by simp
  next
    case (Cons q qs)
    then have n: "n < length ob" by (metis drop_eq_Nil list.simps(3) not_le)
    with Cons have q: "ob ! n = q" and qs: "drop (Suc n) ob = qs"
      by (auto simp: Cons_nth_drop_Suc [symmetric])
    have gt: "\<forall>p \<in> set qs. fst q < fst p" using srt Cons by simp
    have split: "ob = take n ob @ q # qs" using Cons by (metis append_take_drop_id)
    show thesis
    proof (cases "fst q = key")
      case True
      then have "SortedInsertJson ob key v = take n ob @ (key, v) # qs"
        using n q qs by (simp add: SortedInsertJson_def n_def [symmetric] upd_conv_take_nth_drop)
      moreover have "ob = take n ob @ (key, snd q) # qs" using split True by (cases q) auto
      ultimately show thesis using that [of "take n ob" qs] s(2) gt True by blast
    next
      case False
      then have kq: "key < fst q" using s(3) Cons by (auto simp: order_le_less)
      have "SortedInsertJson ob key v = take n ob @ (key, v) # q # qs"
        using n q False Cons by (simp add: SortedInsertJson_def n_def [symmetric])
      moreover have "\<forall>p \<in> set (q # qs). key < fst p" using kq gt by (auto intro: less_trans)
      ultimately show thesis using that [of "take n ob" "q # qs"] s(2) split by blast
    qed
  qed
qed

subsection \<open>The interface of sorted objects\<close>

text \<open>
  What the clients (parsers, converters, patches) use: insertion into and lookup in a sorted
  object, with the laws they rely on.
\<close>

locale sorted_object =
  fixes ins :: "(string \<times> 'v) list \<Rightarrow> string \<Rightarrow> 'v \<Rightarrow> (string \<times> 'v) list"
    and look :: "(string \<times> 'v) list \<Rightarrow> string \<Rightarrow> 'v option"
  assumes ins_sorted: "sorted_keys ob \<Longrightarrow> sorted_keys (ins ob k v)"
    and ins_map_of: "sorted_keys ob \<Longrightarrow> map_of (ins ob k v) = (map_of ob)(k \<mapsto> v)"
    and look_map_of: "sorted_keys ob \<Longrightarrow> look ob k = map_of ob k"
begin

lemma look_ins: "sorted_keys ob \<Longrightarrow> look (ins ob k v) k' = (if k' = k then Some v else look ob k')"
  by (simp add: look_map_of ins_map_of ins_sorted)

lemma inserts_sorted: "sorted_keys ob \<Longrightarrow> sorted_keys (foldl (\<lambda>acc (k, v). ins acc k v) ob kvs)"
  by (induction kvs arbitrary: ob) (auto simp: ins_sorted)

lemma inserts_map_of:
  "sorted_keys ob \<Longrightarrow> map_of (foldl (\<lambda>acc (k, v). ins acc k v) ob kvs) = map_of ob ++ map_of (rev kvs)"
  by (induction kvs arbitrary: ob) (auto simp: ins_sorted ins_map_of map_add_upd_left)

text \<open>Inserting the members of a sorted object in any order rebuilds that object.\<close>

lemma inserts_rebuild:
  assumes "sorted_keys ob" "mset kvs = mset ob"
  shows "foldl (\<lambda>acc (k, v). ins acc k v) [] kvs = ob"
proof -
  have d: "distinct (map fst kvs)"
    using assms by (metis mset_map mset_eq_imp_distinct_iff sorted_keys_distinct)
  have "map_of (rev kvs) = map_of ob"
    using d assms(2) sorted_keys_distinct [OF assms(1)]
    by (subst map_of_inject_set) (auto simp: rev_map [symmetric] dest: mset_eq_setD)
  then show ?thesis
    using assms(1) inserts_map_of [of "[]" kvs] inserts_sorted [of "[]" kvs]
    by (intro sorted_keys_ext) auto
qed

lemma inserts_mono: "sorted_keys ob \<Longrightarrow> foldl (\<lambda>acc (k, v). ins acc k v) [] ob = ob"
  by (rule inserts_rebuild) simp_all

text \<open>The last value written for a key is the one found.\<close>

lemma look_inserts:
  "look (foldl (\<lambda>acc (k, v). ins acc k v) [] kvs) k = map_of (rev kvs) k"
  using look_map_of [OF inserts_sorted [of "[]" kvs]] inserts_map_of [of "[]" kvs] by simp

end

lemma map_of_mid:
  "\<forall>p \<in> set pre. fst p < (k::string) \<Longrightarrow> map_of (pre @ (k, v) # post) = (map_of (pre @ post))(k \<mapsto> v)"
  by (induction pre) (auto simp: fun_eq_iff)

lemma map_of_mid_same:
  "\<forall>p \<in> set pre. fst p < (k::string) \<Longrightarrow>
     map_of (pre @ (k, v) # post) = (map_of (pre @ (k, w) # post))(k \<mapsto> v)"
  by (induction pre) (auto simp: fun_eq_iff)

lemma SortedInsertJson_sorted:
  assumes "sorted_keys ob"
  shows "sorted_keys (SortedInsertJson ob key v)"
proof -
  obtain pre post where c: "\<forall>p \<in> set pre. fst p < key" "\<forall>p \<in> set post. key < fst p"
    "SortedInsertJson ob key v = pre @ (key, v) # post"
    "ob = pre @ post \<or> (\<exists>w. ob = pre @ (key, w) # post)"
    using SortedInsertJson_cases [OF assms] .
  have "sorted_keys pre \<and> sorted_keys post" using assms c(4) by (auto simp: sorted_wrt_append)
  then show ?thesis using c(1-3) by (auto simp: sorted_wrt_append intro: less_trans)
qed

lemma SortedInsertJson_map_of:
  assumes "sorted_keys ob"
  shows "map_of (SortedInsertJson ob key v) = (map_of ob)(key \<mapsto> v)"
  using assms by (rule SortedInsertJson_cases [where key = key and v = v])
    (auto simp: map_of_mid map_of_mid_same simp del: map_of_append)

interpretation ob: sorted_object SortedInsertJson object_find
  by unfold_locales
    (simp_all add: SortedInsertJson_sorted SortedInsertJson_map_of object_find_map_of)

lemma SortedInsertJson_length:
  assumes "sorted_keys ob"
  shows "length (SortedInsertJson ob key v) \<le> Suc (length ob)"
  using assms by (rule SortedInsertJson_cases [where key = key and v = v]) auto

lemma SortedInsertJson_set:
  assumes "sorted_keys ob"
  shows "set (SortedInsertJson ob key v) \<subseteq> insert (key, v) (set ob)"
  using assms by (rule SortedInsertJson_cases [where key = key and v = v]) auto

subsection \<open>The sorting constructor\<close>

text \<open>
  \<^verbatim>\<open>JsonView(JsonPair*, unsigned)\<close> sorts the pairs with \<^verbatim>\<open>std::sort\<close> and drops all but the first
  pair of every run of equal keys with \<^verbatim>\<open>std::unique\<close>. The order \<^verbatim>\<open>std::sort\<close> leaves equal keys in
  is not specified, so it is a parameter: any function with \<open>sorts\<close>.
\<close>

definition sorts :: "((string \<times> 'v) list \<Rightarrow> (string \<times> 'v) list) \<Rightarrow> bool" where
  "sorts srt \<longleftrightarrow> (\<forall>kvs. mset (srt kvs) = mset kvs \<and> sorted (map fst (srt kvs)))"

fun unique_keys :: "(string \<times> 'v) list \<Rightarrow> (string \<times> 'v) list" where
  "unique_keys [] = []"
| "unique_keys [p] = [p]"
| "unique_keys (p # q # ps) =
     (if fst p = fst q then unique_keys (p # ps) else p # unique_keys (q # ps))"

definition JsonView_obj :: "((string \<times> json) list \<Rightarrow> (string \<times> json) list) \<Rightarrow> json_pair list \<Rightarrow> json" where
  "JsonView_obj srt object = JObject (unique_keys (srt object))"

lemma unique_keys_hd: "unique_keys (p # ps) \<noteq> [] \<and> hd (unique_keys (p # ps)) = p"
  by (induction "p # ps" arbitrary: p ps rule: unique_keys.induct) auto

lemma unique_keys_set: "set (unique_keys kvs) \<subseteq> set kvs"
  by (induction kvs rule: unique_keys.induct) auto

lemma unique_keys_keys: "fst ` set (unique_keys kvs) = fst ` set kvs"
  by (induction kvs rule: unique_keys.induct) auto

lemma unique_keys_sorted: "sorted (map fst kvs) \<Longrightarrow> sorted_keys (unique_keys kvs)"
proof (induction kvs rule: unique_keys.induct)
  case (3 p q ps)
  show ?case
  proof (cases "fst p = fst q")
    case True
    with 3 show ?thesis by auto
  next
    case False
    have "\<forall>r \<in> set (unique_keys (q # ps)). fst q \<le> fst r"
      using 3(3) unique_keys_set [of "q # ps"] by fastforce
    moreover have "fst p < fst q" using 3(3) False by auto
    ultimately show ?thesis using 3 False by (auto intro: less_le_trans)
  qed
qed auto

lemma unique_keys_map_of: "sorted (map fst kvs) \<Longrightarrow> map_of (unique_keys kvs) = map_of kvs"
  by (induction kvs rule: unique_keys.induct) (auto simp: fun_eq_iff)

lemma unique_keys_distinct: "distinct (map fst kvs) \<Longrightarrow> unique_keys kvs = kvs"
  by (induction kvs rule: unique_keys.induct) auto

text \<open>For pairwise different keys the result does not depend on the sort.\<close>

lemma JsonView_obj_distinct:
  assumes "sorts srt" "distinct (map fst kvs)"
  shows "JsonView_obj srt kvs = JObject (foldl (\<lambda>acc (k, v). SortedInsertJson acc k v) [] kvs)"
proof -
  have m: "mset (srt kvs) = mset kvs" and s: "sorted (map fst (srt kvs))"
    using assms(1) by (simp_all add: sorts_def)
  then have d: "distinct (map fst (srt kvs))"
    using assms(2) by (metis mset_map mset_eq_imp_distinct_iff)
  then have "sorted_keys (srt kvs)"
    using unique_keys_sorted [OF s] unique_keys_distinct [OF d] by simp
  then have "foldl (\<lambda>acc (k, v). SortedInsertJson acc k v) [] kvs = srt kvs"
    using m by (intro ob.inserts_rebuild) simp_all
  then show ?thesis using d by (simp add: JsonView_obj_def unique_keys_distinct)
qed

lemma sorts_sort_key: "sorts (sort_key fst)"
  by (simp add: sorts_def)

subsection \<open>Properties\<close>

text \<open>
  the binary search \<^verbatim>\<open>sortedFind\<close> on an object sorted by key finds exactly the value a linear
  lookup finds, and finds nothing exactly when the key is absent.
\<close>

theorem sortedFind_is_lookup:
  assumes "sorted_keys ob"
  shows "object_find ob key = map_of ob key"
  using assms by (rule object_find_map_of)

theorem sortedFind_is_lookup_witness:
  "object_find [(''a'', 1::nat), (''ab'', 2), (''b'', 3)] ''ab'' = Some 2"
  using sortedFind_is_lookup [of "[(''a'', 1::nat), (''ab'', 2), (''b'', 3)]" "''ab''"] by simp

text \<open>
  C35: \<^verbatim>\<open>SortedInsertJson\<close> keeps an object strictly sorted by key, makes the new key findable with
  the new value (replacing an old one), and leaves what every other key finds unchanged.
\<close>

theorem SortedInsertJson_correct:
  assumes "sorted_keys ob"
  shows "sorted_keys (SortedInsertJson ob key v) \<and>
    object_find (SortedInsertJson ob key v) key' = (if key' = key then Some v else object_find ob key')"
  using assms by (simp add: ob.ins_sorted ob.look_ins)

theorem SortedInsertJson_correct_witness:
  "object_find (SortedInsertJson [(''a'', 1::nat), (''c'', 3)] ''b'' 2) ''b'' = Some 2 \<and>
   object_find (SortedInsertJson [(''a'', 1::nat), (''c'', 3)] ''b'' 2) ''c'' = object_find [(''a'', 1), (''c'', 3)] ''c''"
  using SortedInsertJson_correct [of "[(''a'', 1::nat), (''c'', 3)]" "''b''" 2 "''b''"]
    SortedInsertJson_correct [of "[(''a'', 1::nat), (''c'', 3)]" "''b''" 2 "''c''"] by simp

text \<open>
  whatever admissible \<^verbatim>\<open>std::sort\<close> is used, the object constructor yields a strictly sorted
  object with exactly the given keys, each with one of the values given for it, and with pairwise
  different keys it is the object that inserting the pairs one by one builds.
\<close>

theorem JsonView_obj_correct:
  assumes "sorts srt"
  shows "\<exists>kvs'. JsonView_obj srt kvs = JObject kvs' \<and> sorted_keys kvs' \<and> set kvs' \<subseteq> set kvs
    \<and> fst ` set kvs' = fst ` set kvs
    \<and> (distinct (map fst kvs) \<longrightarrow> kvs' = foldl (\<lambda>acc (k, v). SortedInsertJson acc k v) [] kvs)"
proof -
  have m: "set (srt kvs) = set kvs" and s: "sorted (map fst (srt kvs))"
    using assms by (auto simp: sorts_def dest: mset_eq_setD)
  show ?thesis
    using unique_keys_sorted [OF s] unique_keys_set [of "srt kvs"] unique_keys_keys [of "srt kvs"] m
      JsonView_obj_distinct [OF assms, of kvs] by (simp add: JsonView_obj_def)
qed

theorem JsonView_obj_correct_witness:
  "\<exists>kvs'. JsonView_obj (sort_key fst) [(''b'', JNull), (''a'', JBool True), (''b'', JBool True)] = JObject kvs'
    \<and> sorted_keys kvs' \<and> fst ` set kvs' = {''a'', ''b''}"
  using JsonView_obj_correct [OF sorts_sort_key, of "[(''b'', JNull), (''a'', JBool True), (''b'', JBool True)]"]
  by auto

end
