(* ===== verification/Json_Access.thy ===== *)
theory Json_Access
  imports Sorted_Object
begin

text \<open>
  The constructors and checked accessors of \<^verbatim>\<open>JsonView\<close>, the messages of the exceptions
  (\<^verbatim>\<open>json_view.cpp\<close>), and the shape every document the library builds has: objects strictly sorted,
  all sizes within 32 bits.
\<close>

subsection \<open>Constructors\<close>

text \<open>
  \<^verbatim>\<open>JsonView(const char*, int64_t len)\<close>: with \<^verbatim>\<open>len == -1\<close> the string ends at the first NUL.
  The integral constructor widens by signedness.
\<close>

definition view_cstr :: "string \<Rightarrow> int \<Rightarrow> json" where
  "view_cstr str len =
     (let n = (if len = -1 then length (takeWhile (\<lambda>c. c \<noteq> CHR 0x00) str)
               else unat (word_of_int len :: u32))
      in JString (take n str))"

definition view_signed :: "'a::len word \<Rightarrow> json" where
  "view_signed val = JSigned (signed val)"

definition view_unsigned :: "'a::len word \<Rightarrow> json" where
  "view_unsigned val = JUnsigned (unsigned val)"

definition EmptyObject :: json where "EmptyObject = JObject []"

definition EmptyArray :: json where "EmptyArray = JArray []"

subsection \<open>Checked accessors\<close>

fun array_of :: "json \<Rightarrow> json list" where
  "array_of (JArray xs) = xs"
| "array_of _ = []"

fun object_of :: "json \<Rightarrow> json_pair list" where
  "object_of (JObject kvs) = kvs"
| "object_of _ = []"

fun string_of :: "json \<Rightarrow> string" where
  "string_of (JString s) = s"
| "string_of (JBinary s) = s"
| "string_of (JDiscarded s) = s"
| "string_of _ = []"

definition GetString :: "json \<Rightarrow> frame \<Rightarrow> jv_error + string" where
  "GetString j fr = (case AssertType j t_string fr of Inl e \<Rightarrow> Inl e | Inr _ \<Rightarrow> Inr (string_of j))"

definition GetBinary :: "json \<Rightarrow> frame \<Rightarrow> jv_error + string" where
  "GetBinary j fr = (case AssertType j t_binary fr of Inl e \<Rightarrow> Inl e | Inr _ \<Rightarrow> Inr (string_of j))"

definition GetDiscardReason :: "json \<Rightarrow> jv_error + string" where
  "GetDiscardReason j =
     (case AssertType j t_discarded RootFrame of Inl e \<Rightarrow> Inl e | Inr _ \<Rightarrow> Inr (string_of j))"

definition Size :: "json \<Rightarrow> jv_error + u32" where
  "Size j =
     (case AssertType j (t_array OR t_object OR t_string OR t_binary) RootFrame of
        Inl e \<Rightarrow> Inl e | Inr _ \<Rightarrow> Inr (data_size j))"

definition Find_idx :: "json \<Rightarrow> u32 \<Rightarrow> frame \<Rightarrow> jv_error + json option" where
  "Find_idx j idx fr =
     (case AssertType j t_array fr of
        Inl e \<Rightarrow> Inl e
      | Inr _ \<Rightarrow> if data_size j \<le> idx then Inr None else Inr (Some (array_of j ! unat idx)))"

definition At_idx :: "json \<Rightarrow> u32 \<Rightarrow> frame \<Rightarrow> jv_error + json" where
  "At_idx j idx fr =
     (case Find_idx j idx fr of
        Inl e \<Rightarrow> Inl e
      | Inr (Some v) \<Rightarrow> Inr v
      | Inr None \<Rightarrow> Inl (throwIndexError j idx fr))"

definition FindVal :: "json \<Rightarrow> string \<Rightarrow> frame \<Rightarrow> jv_error + json option" where
  "FindVal j key fr =
     (case AssertType j t_object fr of
        Inl e \<Rightarrow> Inl e
      | Inr _ \<Rightarrow> Inr (object_find (object_of j) key))"

definition At_key :: "json \<Rightarrow> string \<Rightarrow> frame \<Rightarrow> jv_error + json" where
  "At_key j key fr =
     (case FindVal j key fr of
        Inl e \<Rightarrow> Inl e
      | Inr (Some v) \<Rightarrow> Inr v
      | Inr None \<Rightarrow> Inl (throwKeyError key fr))"

text \<open>
  \<^verbatim>\<open>Value(key, default, frame)\<close> converts a found member with \<open>conv\<close> (\<^verbatim>\<open>Get<U>\<close>) under the frame
  extended by the key. The inner lookup and the index variant's type check take no frame, as in
  the source.
\<close>

definition Value_key ::
    "(json \<Rightarrow> frame \<Rightarrow> jv_error + 'u) \<Rightarrow> json \<Rightarrow> string \<Rightarrow> 'u \<Rightarrow> frame \<Rightarrow> jv_error + 'u" where
  "Value_key conv j key adefault fr =
     (case AssertType j t_object fr of
        Inl e \<Rightarrow> Inl e
      | Inr _ \<Rightarrow>
          (case FindVal j key RootFrame of
             Inl e \<Rightarrow> Inl e
           | Inr (Some v) \<Rightarrow> conv v (Frame (KStr key) fr)
           | Inr None \<Rightarrow> Inr adefault))"

definition Value_idx ::
    "(json \<Rightarrow> frame \<Rightarrow> jv_error + 'u) \<Rightarrow> json \<Rightarrow> u32 \<Rightarrow> 'u \<Rightarrow> frame \<Rightarrow> jv_error + 'u" where
  "Value_idx conv j idx adefault fr =
     (case AssertType j t_array RootFrame of
        Inl e \<Rightarrow> Inl e
      | Inr _ \<Rightarrow>
          if idx < data_size j then conv (array_of j ! unat idx) (Frame (KIdx idx) fr)
          else Inr adefault)"

subsection \<open>Exception messages\<close>

text \<open>
  \<^verbatim>\<open>printMask\<close> runs a bit from 1 up to \<^verbatim>\<open>t_discarded\<close>, so the custom bit is never printed.
\<close>

definition printMask :: "type_mask \<Rightarrow> string" where
  "printMask wanted =
     (if wanted = 0 then ''null''
      else foldl (\<lambda>msg i.
             let single = wanted AND push_bit i 1 in
             if single \<noteq> 0 then (if msg \<noteq> [] then msg @ ''|'' else msg) @ PrintType single
             else msg) [] [0..<9])"

fun what :: "jv_error \<Rightarrow> string" where
  "what (KeyError trace missing) = trace @ ''key not found: '' @ missing"
| "what (IndexError trace wanted actual) =
     trace @ ''index not found: '' @ nat_str (unat wanted) @ '' (was size: '' @ nat_str (unat actual) @ '')''"
| "what (TypeMissmatch trace wanted was) =
     trace @ ''type missmatch: (was: '' @ PrintType was @ '' => wanted: '' @ printMask wanted @ '')''"
| "what (IntRangeError trace uns was mn mx) =
     trace @ ''integer '' @ (if uns then nat_str (unat was) else int_str (sint was))
       @ '' could not fit in range: ['' @ int_str (sint mn) @ '' - '' @ nat_str (unat mx) @ '']''"
| "what (ForeignError trace nested) = trace @ nested"
| "what DepthError = ''Json is too deep''"
| "what (ParsingError msg _) = msg"
| "what BadAlloc = ''std::bad_alloc''"
| "what (RuntimeError msg) = msg"
| "what (OutOfRange msg) = msg"

subsection \<open>Well-formed documents\<close>

text \<open>
  What the 32 bit \<^verbatim>\<open>size\<close> field can hold, with every object strictly sorted by key: the shape
  lookups rely on.
\<close>

fun wf_json :: "json \<Rightarrow> bool" where
  "wf_json (JString s) \<longleftrightarrow> length s < 2 ^ 32"
| "wf_json (JBinary s) \<longleftrightarrow> length s < 2 ^ 32"
| "wf_json (JDiscarded s) \<longleftrightarrow> length s < 2 ^ 32"
| "wf_json (JArray xs) \<longleftrightarrow> length xs < 2 ^ 32 \<and> list_all wf_json xs"
| "wf_json (JObject kvs) \<longleftrightarrow>
     length kvs < 2 ^ 32 \<and> sorted_keys kvs \<and> list_all (\<lambda>p. wf_json (snd p)) kvs"
| "wf_json _ \<longleftrightarrow> True"

fun height :: "json \<Rightarrow> nat" where
  "height (JArray xs) = Suc (foldr max (map height xs) 0)"
| "height (JObject kvs) = Suc (foldr max (map (\<lambda>p. height (snd p)) kvs) 0)"
| "height _ = 1"

lemma foldr_max_le [simp]: "foldr max ns (0::nat) \<le> d \<longleftrightarrow> (\<forall>n \<in> set ns. n \<le> d)"
  by (induction ns) auto

lemma height_JArray_le: "height (JArray xs) \<le> d \<longleftrightarrow> 0 < d \<and> (\<forall>x \<in> set xs. height x \<le> d - 1)"
  by (cases d) auto

lemma height_JObject_le:
  "height (JObject kvs) \<le> d \<longleftrightarrow> 0 < d \<and> (\<forall>(k, v) \<in> set kvs. height v \<le> d - 1)"
  by (cases d) auto

lemma height_pos: "0 < height j"
  by (cases j) auto

lemma wf_JArray: "wf_json (JArray xs) \<longleftrightarrow> length xs < 2 ^ 32 \<and> (\<forall>x \<in> set xs. wf_json x)"
  by (simp add: list_all_iff)

lemma wf_JObject:
  "wf_json (JObject kvs) \<longleftrightarrow> length kvs < 2 ^ 32 \<and> sorted_keys kvs \<and> (\<forall>(k, v) \<in> set kvs. wf_json v)"
  by (auto simp: list_all_iff)

lemma wf_member [wf_rules]: "wf_json (JObject kvs) \<Longrightarrow> (k, v) \<in> set kvs \<Longrightarrow> wf_json v"
  by (auto simp: list_all_iff)

lemma wf_element [wf_rules]: "wf_json (JArray xs) \<Longrightarrow> i < length xs \<Longrightarrow> wf_json (xs ! i)"
  by (simp add: list_all_iff)

text \<open>
  Integers up to their signedness tag: a signed integer that is not negative and the unsigned
  integer of the same value are written and compared as one.
\<close>

fun canon :: "json \<Rightarrow> json" where
  "canon (JSigned i) = (if 0 \<le> sint i then JUnsigned i else JSigned i)"
| "canon (JArray xs) = JArray (map canon xs)"
| "canon (JObject kvs) = JObject (map (\<lambda>(k, v). (k, canon v)) kvs)"
| "canon j = j"

lemma GetType_eq_iff [simp]:
  "GetType j = t_null \<longleftrightarrow> j = JNull"
  "GetType j = t_array \<longleftrightarrow> (\<exists>xs. j = JArray xs)"
  "GetType j = t_object \<longleftrightarrow> (\<exists>kvs. j = JObject kvs)"
  "GetType j = t_string \<longleftrightarrow> (\<exists>s. j = JString s)"
  by (cases j; simp add: t_defs)+

lemma Is_simps [simp]:
  "Is j t_null \<longleftrightarrow> j = JNull"
  "Is j t_boolean \<longleftrightarrow> (\<exists>b. j = JBool b)"
  "Is j t_string \<longleftrightarrow> (\<exists>s. j = JString s)"
  "Is j t_binary \<longleftrightarrow> (\<exists>s. j = JBinary s)"
  "Is j t_array \<longleftrightarrow> (\<exists>xs. j = JArray xs)"
  "Is j t_object \<longleftrightarrow> (\<exists>kvs. j = JObject kvs)"
  "Is j t_discarded \<longleftrightarrow> (\<exists>s. j = JDiscarded s)"
  by (cases j; simp add: Is_def t_defs)+

lemma AssertType_array [simp]: "AssertType (JArray xs) t_array fr = Inr ()"
  by (simp add: AssertType_def)

lemma AssertType_object [simp]: "AssertType (JObject kvs) t_object fr = Inr ()"
  by (simp add: AssertType_def)

lemma data_size_le_iff:
  "length xs < 2 ^ 32 \<Longrightarrow> (word_of_nat (length xs) :: u32) \<le> idx \<longleftrightarrow> length xs \<le> unat idx"
  by (simp add: word_le_nat_alt unat_of_nat take_bit_nat_eq_self)

lemma At_key_object:
  "sorted_keys kvs \<Longrightarrow> At_key (JObject kvs) key fr =
     (case map_of kvs key of Some v \<Rightarrow> Inr v | None \<Rightarrow> Inl (throwKeyError key fr))"
  by (simp add: At_key_def FindVal_def object_find_map_of split: option.splits)

subsection \<open>Properties\<close>

text \<open>
  \<^verbatim>\<open>At(key)\<close> on a well-formed view: on an object it returns the member's value or throws
  \<^verbatim>\<open>KeyError\<close> naming the missing key under the printed trace; on anything else it throws
  \<^verbatim>\<open>TypeMissmatch\<close> with the wanted and the actual type.
\<close>

theorem At_key_correct:
  assumes "wf_json j"
  shows "At_key j key fr =
    (case j of
       JObject kvs \<Rightarrow> (case map_of kvs key of
           Some v \<Rightarrow> Inr v | None \<Rightarrow> Inl (KeyError (exc_trace fr) key))
     | _ \<Rightarrow> Inl (TypeMissmatch (exc_trace fr) t_object (GetType j)))"
proof (cases j)
  case (JObject kvs)
  with assms have "sorted_keys kvs" by simp
  then show ?thesis by (simp add: JObject At_key_object throwKeyError_def split: option.split)
qed (simp_all add: At_key_def FindVal_def AssertType_def throwMissmatch_def)

theorem At_key_correct_witness:
  "At_key (JObject [(''a'', JNull), (''b'', JBool True)]) ''c'' (Frame (KStr ''x'') RootFrame)
     = Inl (KeyError ''.x: '' ''c'')"
  using At_key_correct [of "JObject [(''a'', JNull), (''b'', JBool True)]" "''c''" "Frame (KStr ''x'') RootFrame"]
  by (simp add: exc_trace_def PrintTrace_Frame trace_key_def)

text \<open>
  \<^verbatim>\<open>At(idx)\<close> on a well-formed view: on an array it returns the element exactly for an index
  below the size and otherwise throws \<^verbatim>\<open>IndexError\<close> with the index and the actual size; it never
  reads outside the array.
\<close>

theorem At_idx_correct:
  assumes "wf_json j"
  shows "At_idx j idx fr =
    (case j of
       JArray xs \<Rightarrow> if unat idx < length xs then Inr (xs ! unat idx)
                    else Inl (IndexError (exc_trace fr) idx (word_of_nat (length xs)))
     | _ \<Rightarrow> Inl (TypeMissmatch (exc_trace fr) t_array (GetType j)))"
proof (cases j)
  case (JArray xs)
  then have "length xs < 2 ^ 32" using assms by simp
  note le = data_size_le_iff [OF this, of idx]
  show ?thesis
    by (simp add: JArray At_idx_def Find_idx_def le throwIndexError_def not_le)
qed (simp_all add: At_idx_def Find_idx_def AssertType_def throwMissmatch_def)

theorem At_idx_correct_witness:
  "At_idx (JArray [JNull, JBool True]) 2 RootFrame = Inl (IndexError [] 2 2)"
  using At_idx_correct [of "JArray [JNull, JBool True]" 2 RootFrame] by simp

end
