(* ===== verification/Json_Pointer.thy ===== *)
theory Json_Pointer
  imports Json_Access
begin

text \<open>
  JSON pointers (\<^verbatim>\<open>pointer.hpp\<close>, \<^verbatim>\<open>pointer.cpp\<close>): parsing with escapes and percent encoding, joining,
  sub-pointers, and following a pointer in a document.

  The parser writes unescaped characters into a storage string and cuts its tokens out of it; the
  token array has one slot per token counted beforehand. A slot the parser never writes is raw
  arena memory: \<open>None\<close> here.
\<close>

subsection \<open>Parsing\<close>

text \<open>\<^verbatim>\<open>std::from_chars\<close> into an \<^verbatim>\<open>unsigned\<close>: the number and the unread rest, or an error code.\<close>

definition from_chars_u32 :: "string \<Rightarrow> (u32 \<times> string) option" where
  "from_chars_u32 raw =
     (let ds = takeWhile is_digit raw in
      if ds = [] \<or> 2 ^ 32 \<le> str_nat ds then None
      else Some (word_of_nat (str_nat ds), dropWhile is_digit raw))"

definition parseOne_key :: "string \<Rightarrow> bool \<Rightarrow> jv_error + jv_key" where
  "parseOne_key raw onlyNumbers =
     (if raw = [] then Inr (KStr [])
      else if onlyNumbers then
        (case from_chars_u32 raw of
           None \<Rightarrow> Inl (RuntimeError ''Invalid number on JsonPointer'')
         | Some (idx, rest) \<Rightarrow>
             if rest \<noteq> [] then Inl (RuntimeError ''Invalid number on JsonPointer'')
             else Inr (KIdx idx))
      else Inr (KStr raw))"

definition needPercentEncode :: "char \<Rightarrow> bool" where
  "needPercentEncode c \<longleftrightarrow>
     \<not> (is_digit c \<or> (CHR ''A'' \<le> c \<and> c \<le> CHR ''Z'') \<or> (CHR ''a'' \<le> c \<and> c \<le> CHR ''z'')
        \<or> c = CHR ''-'' \<or> c = CHR ''.'' \<or> c = CHR ''_'' \<or> c = CHR ''~'')"

definition hex_val :: "char \<Rightarrow> nat option" where
  "hex_val h =
     (if is_digit h then Some (of_char h - 48)
      else if CHR ''A'' \<le> h \<and> h \<le> CHR ''F'' then Some (of_char h - 65 + 10)
      else if CHR ''a'' \<le> h \<and> h \<le> CHR ''f'' then Some (of_char h - 97 + 10)
      else None)"

definition percentDecode :: "char \<Rightarrow> char \<Rightarrow> jv_error + char" where
  "percentDecode a b =
     (case hex_val a of
        None \<Rightarrow> Inl (RuntimeError ''Invalid percent encoding in Json Pointer'')
      | Some x \<Rightarrow>
          (case hex_val b of
             None \<Rightarrow> Inl (RuntimeError ''Invalid percent encoding in Json Pointer'')
           | Some y \<Rightarrow> Inr (char_of (16 * x + y))))"

record tok_state =
  storage :: string \<comment> \<open>the characters written so far, \<^verbatim>\<open>ptr\<close> of them\<close>
  last_pos :: nat
  toks :: "jv_key list"
  escape :: bool
  onlyNumbers :: bool
  overread :: bool \<comment> \<open>a token was read from behind the written characters; what follows has no meaning\<close>

definition tok_append :: "char \<Rightarrow> tok_state \<Rightarrow> tok_state" where
  "tok_append ch s = s\<lparr>storage := storage s @ [ch]\<rparr>"

text \<open>Subtraction of \<^verbatim>\<open>size_t\<close>.\<close>

definition size_minus :: "nat \<Rightarrow> nat \<Rightarrow> nat" where
  "size_minus a b = (if b \<le> a then a - b else 2 ^ 64 + a - b)"

text \<open>
  The lambda \<^verbatim>\<open>add_token\<close>: terminate, cut the token out of the storage, reset for the next. The state
  is returned with the exception too: it tells what was written before.
\<close>

definition add_token :: "tok_state \<Rightarrow> jv_error option \<times> tok_state" where
  "add_token s =
     (let s1 = tok_append (CHR 0x00) s; ptr = length (storage s1);
          len = size_minus (size_minus ptr (last_pos s1)) 1;
          s2 = s1\<lparr>overread := overread s1 \<or> ptr < last_pos s1 + len\<rparr> in
      case parseOne_key (take len (drop (last_pos s1) (storage s1))) (onlyNumbers s1) of
        Inl e \<Rightarrow> (Some e, s2)
      | Inr key \<Rightarrow> (None, s2\<lparr>toks := toks s2 @ [key], last_pos := ptr + 1, onlyNumbers := True\<rparr>))"

text \<open>
  The loop of \<^verbatim>\<open>parseTokens\<close>; the list is what is left of the source after \<^verbatim>\<open>idx\<close>. The end of the
  body (\<^verbatim>\<open>if (idx == len) add_token()\<close>) is skipped by the \<^verbatim>\<open>continue\<close> of the percent branch.
\<close>

definition tok_finish :: "string \<Rightarrow> tok_state \<Rightarrow> jv_error option \<times> tok_state" where
  "tok_finish rest s = (if rest = [] then add_token s else (None, s))"

fun parseTokens_loop :: "char \<Rightarrow> bool \<Rightarrow> string \<Rightarrow> tok_state \<Rightarrow> jv_error option \<times> tok_state" where
  "parseTokens_loop sep isUri [] s = (None, s)"
| "parseTokens_loop sep isUri (ch # rest) s =
     (let s1 = (if \<not> is_digit ch then s\<lparr>onlyNumbers := False\<rparr> else s) in
      case (if ch = sep then add_token s1 else (None, s1)) of
        (Some e, s2) \<Rightarrow> (Some e, s2)
      | (None, s2) \<Rightarrow>
          if escape s2 then
            if ch = CHR ''0'' then
              (case tok_finish rest (tok_append (CHR ''~'') s2) of
                 (Some e, s3) \<Rightarrow> (Some e, s3) | (None, s3) \<Rightarrow> parseTokens_loop sep isUri rest s3)
            else if ch = CHR ''1'' then
              (case tok_finish rest (tok_append sep s2) of
                 (Some e, s3) \<Rightarrow> (Some e, s3) | (None, s3) \<Rightarrow> parseTokens_loop sep isUri rest s3)
            else (Some (RuntimeError ''Invalid escape in Json Pointer''), s2)
          else if ch = CHR ''~'' then
            (case tok_finish rest (s2\<lparr>escape := True\<rparr>) of
               (Some e, s3) \<Rightarrow> (Some e, s3) | (None, s3) \<Rightarrow> parseTokens_loop sep isUri rest s3)
          else if isUri \<and> ch = CHR ''%'' then
            (case rest of
               a # b # rest' \<Rightarrow>
                 (case percentDecode a b of
                    Inl e \<Rightarrow> (Some e, s2)
                  | Inr c \<Rightarrow> parseTokens_loop sep isUri rest' (tok_append c s2))
             | _ \<Rightarrow> (Some (RuntimeError ''Percent encoding missing tail in Json Pointer''), s2))
          else if isUri \<and> needPercentEncode ch then
            (Some (RuntimeError ''Percent encode missing in Json Pointer''), s2)
          else
            (case tok_finish rest (tok_append ch s2) of
               (Some e, s3) \<Rightarrow> (Some e, s3) | (None, s3) \<Rightarrow> parseTokens_loop sep isUri rest s3))"

definition tok_init :: tok_state where
  "tok_init = \<lparr>storage = [], last_pos = 0, toks = [], escape = False, onlyNumbers = True, overread = False\<rparr>"

text \<open>The whole run: the exception, if any, and the state at the end of the writes.\<close>

definition parseTokens_run :: "char \<Rightarrow> string \<Rightarrow> jv_error option \<times> tok_state" where
  "parseTokens_run sep src =
     (let isUri = (hd src = CHR ''#'');
          skip = (if isUri then 1 else 0) + (if hd src = sep then 1 else 0) in
      parseTokens_loop sep isUri (drop skip src) tok_init)"

definition parseTokens :: "char \<Rightarrow> string \<Rightarrow> jv_error + jv_key list" where
  "parseTokens sep src =
     (case parseTokens_run sep src of (Some e, _) \<Rightarrow> Inl e | (None, s) \<Rightarrow> Inr (toks s))"

definition token_count :: "char \<Rightarrow> string \<Rightarrow> nat" where
  "token_count sep p = length (filter (\<lambda>c. c = sep) p) + (if hd p \<noteq> sep then 1 else 0)"

definition FromString :: "string \<Rightarrow> char \<Rightarrow> jv_error + jv_key option list" where
  "FromString p sep =
     (if p = [] then Inr []
      else if 2 ^ 32 - 1 \<le> length p then Inl (RuntimeError ''json pointer is too big'')
      else
        (case parseTokens sep p of
           Inl e \<Rightarrow> Inl e
         | Inr ks \<Rightarrow> Inr (map Some ks @ replicate (token_count sep p - length ks) None)))"

subsection \<open>Joining\<close>

definition hexDigits :: string where "hexDigits = ''0123456789ABCDEF''"

definition PercentEncode :: "char \<Rightarrow> string" where
  "PercentEncode c =
     (let u = of_char c :: nat in [CHR ''%'', hexDigits ! (u div 16), hexDigits ! (u mod 16)])"

fun writeString_key :: "bool \<Rightarrow> string \<Rightarrow> string" where
  "writeString_key uri [] = []"
| "writeString_key uri (ch # str) =
     (if ch = CHR ''~'' then ''~0''
      else if ch = CHR ''/'' then ''~1''
      else if uri \<and> needPercentEncode ch then PercentEncode ch
      else [ch]) @ writeString_key uri str"

definition writeNumber :: "u32 \<Rightarrow> string" where
  "writeNumber num = nat_str (unat num)"

fun Join :: "char \<Rightarrow> bool \<Rightarrow> jv_key list \<Rightarrow> string" where
  "Join sep uri [] = []"
| "Join sep uri (part # ptr) =
     key_Visit (\<lambda>key. sep # writeString_key uri key) (\<lambda>idx. sep # writeNumber idx) part
       @ Join sep uri ptr"

definition npos :: u32 where "npos = - 1"

definition SubPtr :: "jv_key list \<Rightarrow> u32 \<Rightarrow> u32 \<Rightarrow> jv_error + jv_key list" where
  "SubPtr keys begn len =
     (let size = (word_of_nat (length keys) :: u32) in
      if size \<le> begn then
        Inl (OutOfRange (''JsonPointer SubPtr(): '' @ nat_str (unat begn) @ '' >= '' @ nat_str (unat size)))
      else
        let left = size - begn in
        Inr (take (unat (if left < len then left else len)) (drop (unat begn) keys)))"

subsection \<open>Following a pointer\<close>

text \<open>
  \<^verbatim>\<open>JsonView::Find(JsonPointer)\<close>: each step checks the type of the current node under a frame that
  holds the step's key.
\<close>

fun Find_ptr :: "json \<Rightarrow> jv_key list \<Rightarrow> frame \<Rightarrow> jv_error + json option" where
  "Find_ptr current [] fr = Inr (Some current)"
| "Find_ptr current (part # ptr) fr =
     (case key_Visit (\<lambda>key. FindVal current key (Frame (KStr key) fr))
                     (\<lambda>idx. Find_idx current idx (Frame (KIdx idx) fr)) part of
        Inl e \<Rightarrow> Inl e
      | Inr None \<Rightarrow> Inr None
      | Inr (Some next) \<Rightarrow> Find_ptr next ptr fr)"

text \<open>\<^verbatim>\<open>JsonException(JsonPointer const&)\<close>: the trace of an exception raised on a pointer.\<close>

definition exc_trace_ptr :: "jv_key list \<Rightarrow> string" where
  "exc_trace_ptr ptr =
     (let trace = Join (CHR ''.'') False ptr in if trace \<noteq> [] then trace @ '': '' else trace)"


subsection \<open>Deep iteration\<close>

text \<open>
  \<^verbatim>\<open>detail::doDeepIterate\<close>: \<open>keys\<close> is the stack of keys, the callback sees it with each leaf, may
  change its own state and may throw.
\<close>

type_synonym 's leaf_cb = "jv_key list \<Rightarrow> json \<Rightarrow> 's \<Rightarrow> jv_error + 's"

fun doDeepIterate :: "json \<Rightarrow> jv_key list \<Rightarrow> 's leaf_cb \<Rightarrow> nat \<Rightarrow> 's \<Rightarrow> jv_error + 's"
and iter_members :: "json_pair list \<Rightarrow> jv_key list \<Rightarrow> 's leaf_cb \<Rightarrow> nat \<Rightarrow> 's \<Rightarrow> jv_error + 's"
and iter_elems :: "json list \<Rightarrow> u32 \<Rightarrow> jv_key list \<Rightarrow> 's leaf_cb \<Rightarrow> nat \<Rightarrow> 's \<Rightarrow> jv_error + 's" where
  "doDeepIterate view keys cb depth s =
     (case depth_Check depth of
        Some e \<Rightarrow> Inl e
      | None \<Rightarrow>
          (case view of
             JObject kvs \<Rightarrow> iter_members kvs keys cb (depth - 1) s
           | JArray xs \<Rightarrow> iter_elems xs 0 keys cb (depth - 1) s
           | _ \<Rightarrow> cb keys view s))"
| "iter_members [] keys cb depth s = Inr s"
| "iter_members ((k, v) # kvs) keys cb depth s =
     (case doDeepIterate v (keys @ [KStr k]) cb depth s of
        Inl e \<Rightarrow> Inl e | Inr s' \<Rightarrow> iter_members kvs keys cb depth s')"
| "iter_elems [] idx keys cb depth s = Inr s"
| "iter_elems (v # vs) idx keys cb depth s =
     (case doDeepIterate v (keys @ [KIdx idx]) cb depth s of
        Inl e \<Rightarrow> Inl e | Inr s' \<Rightarrow> iter_elems vs (idx + 1) keys cb depth s')"

definition DeepIterate :: "json \<Rightarrow> 's leaf_cb \<Rightarrow> nat \<Rightarrow> 's \<Rightarrow> jv_error + 's" where
  "DeepIterate view cb depth s = doDeepIterate view [] cb depth s"


subsection \<open>Bounds of the parser's writes\<close>

text \<open>
  What a part of the run may have done to the buffers: so many tokens, so many characters, and no
  read from behind them when the separator is not the escape character.
\<close>

definition within :: "nat \<Rightarrow> nat \<Rightarrow> tok_state \<Rightarrow> tok_state \<Rightarrow> bool" where
  "within n m s s' \<longleftrightarrow> length (toks s') \<le> length (toks s) + n \<and> length (storage s') \<le> length (storage s) + m"

definition readable :: "tok_state \<Rightarrow> bool" where
  "readable s \<longleftrightarrow> last_pos s \<le> length (storage s) \<and> \<not> overread s"

lemma within_trans: "within n m s s' \<Longrightarrow> within n' m' s' s'' \<Longrightarrow> n + n' \<le> k \<Longrightarrow> m + m' \<le> l \<Longrightarrow> within k l s s''"
  by (simp add: within_def)

lemma within_refl [simp]: "within n m s s"
  by (simp add: within_def)

lemma within_append [simp]: "within n m s (tok_append c s) \<longleftrightarrow> 1 \<le> m"
  by (auto simp: within_def tok_append_def)

lemma size_minus_token: "l \<le> n \<Longrightarrow> size_minus (size_minus (Suc n) l) 1 = n - l"
  by (simp add: size_minus_def Suc_diff_le)

lemma add_token_within: "within 1 1 s (snd (add_token s))"
  by (simp add: within_def add_token_def tok_append_def Let_def split: sum.split)

lemma add_token_reads: "readable s \<Longrightarrow> \<not> overread (snd (add_token s))"
  by (simp add: readable_def add_token_def tok_append_def size_minus_token [unfolded One_nat_def] Let_def split: sum.split)

lemma tok_finish_within:
  "within (if rest = [] then 1 else 0) (if rest = [] then 1 else 0) s (snd (tok_finish rest s))"
  using add_token_within [of s] by (simp add: tok_finish_def)

lemma tok_finish_reads:
  "readable s \<Longrightarrow> \<not> overread (snd (tok_finish rest s)) \<and> (rest \<noteq> [] \<longrightarrow> readable (snd (tok_finish rest s)))"
  using add_token_reads [of s] by (simp add: tok_finish_def readable_def)

definition sep_count :: "char \<Rightarrow> string \<Rightarrow> nat" where
  "sep_count sep src = length (filter (\<lambda>c. c = sep) src)"

lemma sep_count_simps [simp]:
  "sep_count sep [] = 0" "sep_count sep (c # cs) = (if c = sep then 1 else 0) + sep_count sep cs"
  by (simp_all add: sep_count_def)

definition tail_slot :: "string \<Rightarrow> nat" where
  "tail_slot src = (if src = [] then 0 else 1)"

text \<open>The end of the loop's body and what comes after it.\<close>

lemma finish_and_go_within:
  assumes "\<And>s3. tok_finish rest t = (None, s3) \<Longrightarrow>
       within (sep_count sep rest + tail_slot rest) (length rest + sep_count sep rest + tail_slot rest) s3 (snd (go s3))"
  shows "within (sep_count sep rest + 1) (length rest + sep_count sep rest + 1) t
    (snd (case tok_finish rest t of (Some e, s3) \<Rightarrow> (Some e, s3) | (None, s3) \<Rightarrow> go s3))"
proof -
  obtain x s3 where f: "tok_finish rest t = (x, s3)" by fastforce
  have w: "within (if rest = [] then 1 else 0) (if rest = [] then 1 else 0) t s3"
    using tok_finish_within [of rest t] f by simp
  show ?thesis
  proof (cases x)
    case None
    then have "within (sep_count sep rest + tail_slot rest) (length rest + sep_count sep rest + tail_slot rest) s3 (snd (go s3))"
      using assms f by simp
    from within_trans [OF w this] show ?thesis using f None by (simp add: tail_slot_def split: if_splits)
  next
    case (Some e)
    from within_trans [OF w within_refl [of 0 0]] show ?thesis
      using f Some by (simp split: if_splits)
  qed
qed

lemma parseTokens_loop_within:
  "within (sep_count sep src + tail_slot src) (length src + sep_count sep src + tail_slot src) s
     (snd (parseTokens_loop sep isUri src s))"
proof (induction sep isUri src s rule: parseTokens_loop.induct)
  case (2 sep isUri ch rest s)
  define s1 where "s1 = (if \<not> is_digit ch then s\<lparr>onlyNumbers := False\<rparr> else s)"
  have w1: "within 0 0 s s1" by (simp add: within_def s1_def)
  obtain x s2 where s2: "(if ch = sep then add_token s1 else (None, s1)) = (x, s2)" by fastforce
  define k :: nat where "k = (if ch = sep then 1 else 0)"
  have w2: "within k k s s2"
    using within_trans [OF w1 add_token_within [of s1]] s2 w1 by (auto simp: k_def split: if_splits)
  let ?r = "parseTokens_loop sep isUri (ch # rest) s"
  have step_up: "within (sep_count sep (ch # rest) + 1) (length (ch # rest) + sep_count sep (ch # rest) + 1) s s'"
    if "within (sep_count sep rest + 1) (length rest + sep_count sep rest + 2) s2 s'" for s'
    by (rule within_trans [OF w2 that]) (simp_all add: k_def)
  have body: "within (sep_count sep rest + 1) (length rest + sep_count sep rest + 2) s2 s'"
    if "within 0 1 s2 t" "within (sep_count sep rest + 1) (length rest + sep_count sep rest + 1) t s'" for t s'
    by (rule within_trans [OF that]) simp_all
  note run = parseTokens_loop.simps(2) [of sep isUri ch rest s, folded s1_def, unfolded Let_def s2 prod.case]
  show ?case
  proof (cases x)
    case (Some e)
    with run w2 show ?thesis by (simp add: within_def k_def tail_slot_def)
  next
    case None
    note ih = "2.IH" [OF s1_def s2 [symmetric] None]
    let ?go = "\<lambda>s3. parseTokens_loop sep isUri rest s3"
    have fin: "within (sep_count sep rest + 1) (length rest + sep_count sep rest + 2) s2
        (snd (case tok_finish rest t of (Some e, s3) \<Rightarrow> (Some e, s3) | (None, s3) \<Rightarrow> ?go s3))"
      if "within 0 1 s2 t" "\<And>s3. tok_finish rest t = (None, s3) \<Longrightarrow>
        within (sep_count sep rest + tail_slot rest) (length rest + sep_count sep rest + tail_slot rest) s3 (snd (?go s3))" for t
      by (rule body [OF that(1)], rule finish_and_go_within, rule that(2))
    consider (e0) "escape s2" "ch = CHR ''0''" | (e1) "escape s2" "ch = CHR ''1''"
      | (bad) "escape s2" "ch \<noteq> CHR ''0''" "ch \<noteq> CHR ''1''" | (til) "\<not> escape s2" "ch = CHR ''~''"
      | (perc) "\<not> escape s2" "ch \<noteq> CHR ''~''" "isUri" "ch = CHR ''%''"
      | (enc) "\<not> escape s2" "ch \<noteq> CHR ''~''" "\<not> (isUri \<and> ch = CHR ''%'')" "isUri \<and> needPercentEncode ch"
      | (ord) "\<not> escape s2" "ch \<noteq> CHR ''~''" "\<not> (isUri \<and> ch = CHR ''%'')" "\<not> (isUri \<and> needPercentEncode ch)"
      by blast
    then have "within (sep_count sep rest + 1) (length rest + sep_count sep rest + 2) s2 (snd ?r)"
    proof cases
      case e0
      show ?thesis using fin [of "tok_append (CHR ''~'') s2"] ih(1) [OF e0 sym refl] run e0 None by simp
    next
      case e1
      show ?thesis using fin [of "tok_append sep s2"] ih(2) [OF e1(1) _ e1(2) sym refl] run e1 None by simp
    next
      case til
      show ?thesis using fin [of "s2\<lparr>escape := True\<rparr>"] ih(3) [OF til sym refl] run til None by (simp add: within_def)
    next
      case perc
      show ?thesis
      proof (cases "\<exists>a b rest' c. rest = a # b # rest' \<and> percentDecode a b = Inr c")
        case True
        then obtain a b rest' c where r: "rest = a # b # rest'" "percentDecode a b = Inr c" by blast
        have "within (sep_count sep rest' + tail_slot rest') (length rest' + sep_count sep rest' + tail_slot rest')
            (tok_append c s2) (snd (parseTokens_loop sep isUri rest' (tok_append c s2)))"
          using ih(4) [OF perc(1,2) _ r(1) refl r(2)] perc(3,4) by simp
        from within_trans [of 0 1, OF _ this] show ?thesis
          using run perc r None by (simp add: tail_slot_def split: if_splits)
      next
        case False
        then show ?thesis using run perc None by (auto split: list.split sum.split)
      qed
    next
      case ord
      have "snd ?r = snd (case tok_finish rest (tok_append ch s2) of (Some e, s3) \<Rightarrow> (Some e, s3) | (None, s3) \<Rightarrow> ?go s3)"
        using run ord None by auto
      then show ?thesis using fin [of "tok_append ch s2"] ih(5) [OF ord sym refl] by simp
    qed (use run None in simp_all)
    from step_up [OF this] show ?thesis by (simp add: tail_slot_def)
  qed
qed (simp add: tail_slot_def)

text \<open>
  Right after a separator the next token begins one behind what is written; a character is appended
  before the end of the loop's body looks at it, unless the separator is the escape character.
\<close>

definition behind :: "tok_state \<Rightarrow> bool" where
  "behind s \<longleftrightarrow> last_pos s \<le> Suc (length (storage s)) \<and> \<not> overread s"

lemma behind_append: "behind s \<Longrightarrow> readable (tok_append c s)"
  by (simp add: behind_def readable_def tok_append_def)

lemma add_token_behind: "readable s \<Longrightarrow> behind (snd (add_token s))"
  by (simp add: readable_def behind_def add_token_def tok_append_def size_minus_token [unfolded One_nat_def] Let_def split: sum.split)

lemma finish_and_go_reads:
  assumes "readable t" "\<And>s3. tok_finish rest t = (None, s3) \<Longrightarrow> rest \<noteq> [] \<Longrightarrow> readable s3 \<Longrightarrow> \<not> overread (snd (go s3))"
    "\<And>s3. rest = [] \<Longrightarrow> go s3 = (None, s3)"
  shows "\<not> overread (snd (case tok_finish rest t of (Some e, s3) \<Rightarrow> (Some e, s3) | (None, s3) \<Rightarrow> go s3))"
proof -
  obtain x s3 where f: "tok_finish rest t = (x, s3)" by fastforce
  then show ?thesis
    using tok_finish_reads [OF assms(1), of rest] assms(2,3) by (cases x; cases "rest = []") auto
qed

lemma parseTokens_loop_reads:
  "sep \<noteq> CHR ''~'' \<Longrightarrow> readable s \<Longrightarrow> \<not> overread (snd (parseTokens_loop sep isUri src s))"
proof (induction sep isUri src s rule: parseTokens_loop.induct)
  case (2 sep isUri ch rest s)
  define s1 where "s1 = (if \<not> is_digit ch then s\<lparr>onlyNumbers := False\<rparr> else s)"
  have r1: "readable s1" using "2.prems"(2) by (simp add: readable_def s1_def)
  obtain x s2 where s2: "(if ch = sep then add_token s1 else (None, s1)) = (x, s2)" by fastforce
  have b: "behind s2"
    using add_token_behind [OF r1] s2 r1 by (auto simp: behind_def readable_def split: if_splits)
  then have a: "readable (tok_append c s2)" and o: "\<not> overread s2" for c
    using behind_append by (auto simp: behind_def)
  let ?r = "parseTokens_loop sep isUri (ch # rest) s"
  let ?go = "\<lambda>s3. parseTokens_loop sep isUri rest s3"
  note run = parseTokens_loop.simps(2) [of sep isUri ch rest s, folded s1_def, unfolded Let_def s2 prod.case]
  show ?case
  proof (cases x)
    case (Some e)
    with run o show ?thesis by simp
  next
    case None
    note ih = "2.IH" [OF s1_def s2 [symmetric] None]
    have fin: "\<not> overread (snd (case tok_finish rest t of (Some e, s3) \<Rightarrow> (Some e, s3) | (None, s3) \<Rightarrow> ?go s3))"
      if "readable t" "\<And>s3. tok_finish rest t = (None, s3) \<Longrightarrow> readable s3 \<Longrightarrow> \<not> overread (snd (?go s3))" for t
      by (rule finish_and_go_reads [OF that(1)]) (simp_all add: that(2))
    consider (e0) "escape s2" "ch = CHR ''0''" | (e1) "escape s2" "ch = CHR ''1''"
      | (bad) "escape s2" "ch \<noteq> CHR ''0''" "ch \<noteq> CHR ''1''" | (til) "\<not> escape s2" "ch = CHR ''~''"
      | (perc) "\<not> escape s2" "ch \<noteq> CHR ''~''" "isUri" "ch = CHR ''%''"
      | (enc) "\<not> escape s2" "ch \<noteq> CHR ''~''" "\<not> (isUri \<and> ch = CHR ''%'')" "isUri \<and> needPercentEncode ch"
      | (ord) "\<not> escape s2" "ch \<noteq> CHR ''~''" "\<not> (isUri \<and> ch = CHR ''%'')" "\<not> (isUri \<and> needPercentEncode ch)"
      by blast
    then show ?thesis
    proof cases
      case e0
      show ?thesis using fin [OF a, of "CHR ''~''"] ih(1) [OF e0 sym refl "2.prems"(1)] run e0 None by simp
    next
      case e1
      show ?thesis using fin [OF a, of sep] ih(2) [OF e1(1) _ e1(2) sym refl "2.prems"(1)] run e1 None by simp
    next
      case til
      have "readable (s2\<lparr>escape := True\<rparr>)"
        using s2 til(2) "2.prems"(1) r1 by (auto simp: readable_def split: if_splits)
      then show ?thesis using fin [of "s2\<lparr>escape := True\<rparr>"] ih(3) [OF til sym refl "2.prems"(1)] run til None by simp
    next
      case perc
      show ?thesis
      proof (cases "\<exists>a b rest' c. rest = a # b # rest' \<and> percentDecode a b = Inr c")
        case True
        then obtain a b rest' c where r: "rest = a # b # rest'" "percentDecode a b = Inr c" by blast
        then show ?thesis using ih(4) [OF perc(1,2) _ r(1) refl r(2) "2.prems"(1) a] perc run None by simp
      next
        case False
        then show ?thesis using run perc None o by (auto split: list.split sum.split)
      qed
    next
      case ord
      have "snd ?r = snd (case tok_finish rest (tok_append ch s2) of (Some e, s3) \<Rightarrow> (Some e, s3) | (None, s3) \<Rightarrow> ?go s3)"
        using run ord None by auto
      then show ?thesis using fin [OF a, of ch] ih(5) [OF ord sym refl "2.prems"(1)] by simp
    qed (use run None o in simp_all)
  qed
qed (simp add: readable_def)

subsection \<open>Plain pointers\<close>

text \<open>The reference reading of a pointer without escapes: split it at the separators.\<close>

fun split_on :: "char \<Rightarrow> string \<Rightarrow> string list" where
  "split_on sep [] = [[]]"
| "split_on sep (c # cs) =
     (if c = sep then [] # split_on sep cs
      else (case split_on sep cs of [] \<Rightarrow> [[c]] | seg # segs \<Rightarrow> (c # seg) # segs))"

lemma split_on_ne [simp]: "split_on sep cs \<noteq> []"
  by (cases cs) (auto split: list.splits)

lemma split_on_length: "length (split_on sep cs) = Suc (length (filter (\<lambda>c. c = sep) cs))"
  by (induction cs) (auto split: list.splits)

definition tok_text :: "tok_state \<Rightarrow> string" where
  "tok_text s = drop (last_pos s) (storage s)"

definition tok_ok :: "tok_state \<Rightarrow> bool" where
  "tok_ok s \<longleftrightarrow> \<not> escape s \<and> last_pos s \<le> length (storage s)"

lemma add_token_text:
  assumes "tok_ok s"
  shows "add_token s = (case parseOne_key (tok_text s) (onlyNumbers s) of
     Inl e \<Rightarrow> (Some e, s\<lparr>storage := storage s @ [CHR 0x00]\<rparr>)
   | Inr k \<Rightarrow> (None, s\<lparr>storage := storage s @ [CHR 0x00], toks := toks s @ [k],
        last_pos := length (storage s) + 2, onlyNumbers := True\<rparr>))"
  using assms
  by (simp add: add_token_def tok_append_def tok_text_def tok_ok_def size_minus_token [unfolded One_nat_def]
      Let_def split: sum.split)

definition outcome_toks :: "jv_error option \<times> tok_state \<Rightarrow> jv_error + jv_key list" where
  "outcome_toks r = (case r of (Some e, s) \<Rightarrow> Inl e | (None, s) \<Rightarrow> Inr (toks s))"

lemma outcome_toks_simps [simp]: "outcome_toks (Some e, s) = Inl e" "outcome_toks (None, s) = Inr (toks s)"
  by (simp_all add: outcome_toks_def)

lemma parseOne_key_text [simp]: "parseOne_key raw False = Inr (KStr raw)"
  by (simp add: parseOne_key_def)

lemma parseTokens_loop_plain:
  assumes "src \<noteq> []" "CHR ''~'' \<notin> set src" "\<not> is_digit sep" "tok_ok s"
  shows "outcome_toks (parseTokens_loop sep False src s) =
    (let segs = split_on sep src; segs' = (tok_text s @ hd segs) # tl segs;
         num = (list_all is_digit (last segs) \<and> (length segs = 1 \<longrightarrow> onlyNumbers s)) in
     case parseOne_key (last segs') num of
       Inl e \<Rightarrow> Inl e
     | Inr k \<Rightarrow> Inr (toks s @ map KStr (butlast segs') @ [k]))"
  using assms
proof (induction src arbitrary: s)
  case (Cons c src)
  define s1 where "s1 = (if \<not> is_digit c then s\<lparr>onlyNumbers := False\<rparr> else s)"
  define s2 where "s2 = (if c = sep then s1\<lparr>storage := storage s @ [CHR 0x00], toks := toks s @ [KStr (tok_text s)],
     last_pos := length (storage s) + 2, onlyNumbers := True\<rparr> else s1)"
  have ok1: "tok_ok s1" and t1: "tok_text s1 = tok_text s" "toks s1 = toks s" "storage s1 = storage s" "last_pos s1 = last_pos s"
    "onlyNumbers s1 = (is_digit c \<and> onlyNumbers s)" "escape s1 = escape s"
    using Cons.prems(4) by (auto simp: s1_def tok_ok_def tok_text_def)
  have step: "(if c = sep then add_token s1 else (None, s1)) = (None, s2)"
    using Cons.prems(3) by (auto simp: s2_def add_token_text [OF ok1] t1)
  define s3 where "s3 = tok_append c s2"
  have esc: "\<not> escape s2" using Cons.prems(4) by (auto simp: s2_def t1 tok_ok_def)
  have nt: "c \<noteq> CHR ''~''" using Cons.prems(2) by auto
  have run: "parseTokens_loop sep False (c # src) s =
     (case tok_finish src s3 of (Some e, s4) \<Rightarrow> (Some e, s4) | (None, s4) \<Rightarrow> parseTokens_loop sep False src s4)"
    using step esc nt by (simp add: s1_def [symmetric] s3_def)
  have ok3: "tok_ok s3" and t3: "tok_text s3 = (if c = sep then [] else tok_text s @ [c])"
    "toks s3 = (if c = sep then toks s @ [KStr (tok_text s)] else toks s)"
    "onlyNumbers s3 = (if c = sep then True else is_digit c \<and> onlyNumbers s)"
    using ok1 by (auto simp: s3_def s2_def tok_ok_def tok_text_def tok_append_def t1)
  show ?case
  proof (cases "src = []")
    case True
    have "outcome_toks (parseTokens_loop sep False (c # src) s) =
       (case parseOne_key (tok_text s3) (onlyNumbers s3) of Inl e \<Rightarrow> Inl e | Inr k \<Rightarrow> Inr (toks s3 @ [k]))"
      unfolding run by (simp add: True tok_finish_def add_token_text [OF ok3] split: sum.split)
    then show ?thesis
      by (cases "c = sep") (simp_all add: True t3 Let_def id_def split: sum.split del: parseTokens_loop.simps)
  next
    case False
    then have "parseTokens_loop sep False (c # src) s = parseTokens_loop sep False src s3"
      unfolding run by (simp add: tok_finish_def)
    then show ?thesis
      using Cons.IH [OF False _ Cons.prems(3) ok3] Cons.prems(2)
      by (cases "split_on sep src") (auto simp: t3 Let_def conj_ac split: sum.split simp del: parseTokens_loop.simps)
  qed
qed simp


lemma parseTokens_plain:
  assumes "p \<noteq> []" "p \<noteq> [sep]" "hd p \<noteq> CHR ''#''" "CHR ''~'' \<notin> set p" "\<not> is_digit sep"
  shows "parseTokens sep p =
    (let segs = split_on sep (if hd p = sep then tl p else p) in
     case parseOne_key (last segs) (list_all is_digit (last segs)) of
       Inl e \<Rightarrow> Inl e | Inr k \<Rightarrow> Inr (map KStr (butlast segs) @ [k]))"
proof -
  define src where "src = (if hd p = sep then tl p else p)"
  have ne: "src \<noteq> []" using assms(1,2) by (cases p) (auto simp: src_def)
  have nt: "CHR ''~'' \<notin> set src" using assms(1,4) by (cases p) (auto simp: src_def)
  have d: "drop ((if hd p = CHR ''#'' then 1 else 0) + (if hd p = sep then 1 else 0)) p = src"
    using assms(3) by (auto simp: src_def drop_Suc)
  have i: "tok_ok tok_init" "tok_text tok_init = []" "toks tok_init = []" "onlyNumbers tok_init"
    by (simp_all add: tok_ok_def tok_text_def tok_init_def)
  have "parseTokens sep p = outcome_toks (parseTokens_loop sep False src tok_init)"
    using assms(3) d by (simp add: parseTokens_def parseTokens_run_def outcome_toks_def Let_def)
  also have "\<dots> = (let segs = split_on sep src in
     case parseOne_key (last segs) (list_all is_digit (last segs)) of
       Inl e \<Rightarrow> Inl e | Inr k \<Rightarrow> Inr (map KStr (butlast segs) @ [k]))"
    using parseTokens_loop_plain [OF ne nt assms(5) i(1)]
    by (cases "split_on sep src") (simp_all add: i Let_def split: sum.split)
  finally show ?thesis by (simp add: src_def)
qed

lemma token_count_split:
  "p \<noteq> [] \<Longrightarrow> token_count sep p = length (split_on sep (if hd p = sep then tl p else p))"
  by (cases p) (auto simp: token_count_def split_on_length split: list.split)

lemma FromString_plain:
  assumes "p \<noteq> []" "p \<noteq> [sep]" "hd p \<noteq> CHR ''#''" "CHR ''~'' \<notin> set p" "\<not> is_digit sep"
    "length p < 2 ^ 32 - 1"
  shows "FromString p sep =
    (let segs = split_on sep (if hd p = sep then tl p else p) in
     case parseOne_key (last segs) (list_all is_digit (last segs)) of
       Inl e \<Rightarrow> Inl e | Inr k \<Rightarrow> Inr (map (\<lambda>s. Some (KStr s)) (butlast segs) @ [Some k]))"
proof -
  have "Suc (length (split_on sep x) - Suc 0) = length (split_on sep x)" for x
    by (cases "split_on sep x") simp_all
  with assms(1,6) show ?thesis
    by (simp add: FromString_def parseTokens_plain [OF assms(1-5)] token_count_split Let_def split: sum.split)
qed

subsection \<open>Join and parse\<close>

definition key_text :: "jv_key \<Rightarrow> string" where
  "key_text k = (case k of KStr s \<Rightarrow> s | KIdx i \<Rightarrow> nat_str (unat i))"

text \<open>
  The pointers printing and parsing agree on: no escapes are needed, every index is the last key,
  and a string in the last place does not look like a number.
\<close>

definition plain_key :: "jv_key \<Rightarrow> bool" where
  "plain_key k \<longleftrightarrow> (case k of KStr s \<Rightarrow> CHR ''~'' \<notin> set s \<and> CHR ''/'' \<notin> set s | KIdx _ \<Rightarrow> True)"

definition plain_pointer :: "jv_key list \<Rightarrow> bool" where
  "plain_pointer keys \<longleftrightarrow> keys \<noteq> [] \<and> keys \<noteq> [KStr []] \<and> list_all plain_key keys
     \<and> list_all key_IsString (butlast keys)
     \<and> (case last keys of KStr s \<Rightarrow> s = [] \<or> \<not> list_all is_digit s | KIdx _ \<Rightarrow> True)"

lemma nat_str_plain: "CHR ''~'' \<notin> set (nat_str n)" "CHR ''/'' \<notin> set (nat_str n)"
  using nat_str_digits [of n] by (auto simp: list_all_iff is_digit_def less_eq_char_def)

lemma plain_key_text:
  "plain_key k \<Longrightarrow> CHR ''~'' \<notin> set (key_text k) \<and> CHR ''/'' \<notin> set (key_text k)"
  by (simp add: plain_key_def key_text_def nat_str_plain split: jv_key.splits)

lemma writeString_plain:
  "CHR ''~'' \<notin> set s \<Longrightarrow> CHR ''/'' \<notin> set s \<Longrightarrow> writeString_key False s = s"
  by (induction s) auto

lemma Join_plain:
  "list_all plain_key keys \<Longrightarrow>
     Join (CHR ''/'') False keys = concat (map (\<lambda>k. CHR ''/'' # key_text k) keys)"
  by (induction keys)
    (auto simp: key_text_def plain_key_def writeNumber_def writeString_plain split: jv_key.splits)

lemma split_on_text:
  "sep \<notin> set s \<Longrightarrow> split_on sep (s @ rest) = (s @ hd (split_on sep rest)) # tl (split_on sep rest)"
  by (induction s) (auto split: list.split)

lemma split_on_join:
  "list_all plain_key (k # ks) \<Longrightarrow>
     split_on (CHR ''/'') (key_text k @ concat (map (\<lambda>k. CHR ''/'' # key_text k) ks))
       = map key_text (k # ks)"
proof (induction ks arbitrary: k)
  case Nil
  then show ?case using split_on_text [of "CHR ''/''" "key_text k" "[]"] plain_key_text [of k] by simp
next
  case (Cons k' ks)
  have "split_on (CHR ''/'') (key_text k' @ concat (map (\<lambda>k. CHR ''/'' # key_text k) ks))
     = map key_text (k' # ks)" using Cons.prems by (intro Cons.IH) simp
  then show ?case using Cons.prems plain_key_text [of k]
    by (simp add: split_on_text [of "CHR ''/''" "key_text k"])
qed

lemma takeWhile_digits [simp]: "list_all is_digit s \<Longrightarrow> takeWhile is_digit s = s"
  by (induction s) auto

lemma dropWhile_digits [simp]: "list_all is_digit s \<Longrightarrow> dropWhile is_digit s = []"
  by (induction s) auto

lemma from_chars_nat_str [simp]: "from_chars_u32 (nat_str (unat (i :: u32))) = Some (i, [])"
proof -
  have "\<not> 4294967296 \<le> unat i" using unsigned_less [of i, where 'a = nat] by simp
  then show ?thesis by (simp add: from_chars_u32_def nat_str_digits)
qed

lemma parseOne_key_index [simp]: "parseOne_key (nat_str (unat (i :: u32))) True = Inr (KIdx i)"
  by (simp add: parseOne_key_def)

lemma FromString_Join_plain:
  assumes "plain_pointer keys" "length (Join (CHR ''/'') False keys) < 2 ^ 32 - 1"
  shows "FromString (Join (CHR ''/'') False keys) (CHR ''/'') = Inr (map Some keys)"
proof -
  from assms(1) obtain k ks where keys: "keys = k # ks" by (cases keys) (auto simp: plain_pointer_def)
  have pk: "list_all plain_key keys" using assms(1) by (simp add: plain_pointer_def)
  define p where "p = Join (CHR ''/'') False keys"
  have p: "p = CHR ''/'' # key_text k @ concat (map (\<lambda>k. CHR ''/'' # key_text k) ks)"
    using Join_plain [OF pk] by (simp add: p_def keys)
  have tilde: "CHR ''~'' \<notin> set p"
    using pk plain_key_text unfolding Join_plain [OF pk] p_def by (auto simp: list_all_iff)
  have k0: "key_text k \<noteq> [] \<or> ks \<noteq> []"
    using assms(1) by (cases k) (auto simp: plain_pointer_def keys key_text_def)
  then have ne: "p \<noteq> [CHR ''/'']" by (cases ks) (auto simp: p)
  have segs: "split_on (CHR ''/'') (tl p) = map key_text keys"
    using split_on_join [of k ks] pk by (simp add: p keys)
  have strs: "map (\<lambda>s. Some (KStr s)) (map key_text (butlast keys)) = map Some (butlast keys)"
    using assms(1) by (auto simp: plain_pointer_def list_all_iff key_IsString_def key_text_def split: jv_key.splits)
  have last: "parseOne_key (key_text (last keys)) (list_all is_digit (key_text (last keys))) = Inr (last keys)"
    using assms(1) by (cases "last keys")
      (auto simp: plain_pointer_def key_text_def nat_str_digits parseOne_key_def [of "[]"])
  have hd: "p \<noteq> []" "hd p = CHR ''/''" by (simp_all add: p)
  have nd: "\<not> is_digit (CHR ''/'')" by (simp add: is_digit_def less_eq_char_def)
  have "FromString p (CHR ''/'') =
     (case parseOne_key (last (map key_text keys)) (list_all is_digit (last (map key_text keys))) of
       Inl e \<Rightarrow> Inl e
     | Inr k \<Rightarrow> Inr (map (\<lambda>s. Some (KStr s)) (butlast (map key_text keys)) @ [Some k]))"
    using FromString_plain [OF hd(1) ne _ tilde nd] assms(2) by (simp add: hd segs p_def [symmetric] Let_def)
  also have "\<dots> = Inr (map Some (butlast keys) @ [Some (last keys)])"
    using last strs by (simp add: keys last_map map_butlast [symmetric] del: map_map list.map)
  also have "\<dots> = Inr (map Some keys)"
    by (cases ks rule: rev_cases) (simp_all add: keys)
  finally show ?thesis by (simp add: p_def)
qed


subsection \<open>Percent encoding\<close>

lemma hex_val_digits: "n < 16 \<Longrightarrow> hex_val (hexDigits ! n) = Some n"
proof -
  have "list_all (\<lambda>n. hex_val (hexDigits ! n) = Some n) [0..<16]"
    by (simp add: hexDigits_def hex_val_def is_digit_def less_eq_char_def upt_rec)
  then show "n < 16 \<Longrightarrow> hex_val (hexDigits ! n) = Some n" by (simp add: list_all_iff)
qed

lemma percent_roundtrip:
  "PercentEncode c = [CHR ''%'', a, b] \<Longrightarrow> percentDecode a b = Inr c"
proof -
  define u where "u = (of_char c :: nat)"
  have "u < 256" using nat_of_char_less_256 [of c] by (simp add: u_def)
  then have h: "u div 16 < 16" "u mod 16 < 16" by simp_all
  moreover have "char_of u = c" by (simp add: u_def)
  ultimately show "PercentEncode c = [CHR ''%'', a, b] \<Longrightarrow> percentDecode a b = Inr c"
    by (auto simp: PercentEncode_def percentDecode_def hex_val_digits u_def [symmetric] Let_def)
qed

subsection \<open>Paths of a document\<close>

text \<open>The keys that lead from a document to a node below it.\<close>

inductive has_path :: "json \<Rightarrow> jv_key list \<Rightarrow> json \<Rightarrow> bool" where
  here: "has_path j [] j"
| member: "(k, v) \<in> set kvs \<Longrightarrow> has_path v keys w \<Longrightarrow> has_path (JObject kvs) (KStr k # keys) w"
| element: "unat i < length xs \<Longrightarrow> has_path (xs ! unat i) keys w \<Longrightarrow> has_path (JArray xs) (KIdx i # keys) w"

inductive_simps has_path_Nil [simp]: "has_path j [] w"
inductive_simps has_path_KStr: "has_path j (KStr k # keys) w"
inductive_simps has_path_KIdx: "has_path j (KIdx i # keys) w"

lemma FindVal_Some:
  assumes "wf_json j"
  shows "FindVal j k fr = Inr (Some v) \<longleftrightarrow> (\<exists>kvs. j = JObject kvs \<and> (k, v) \<in> set kvs)"
proof (cases j)
  case (JObject kvs)
  with assms have s: "sorted_keys kvs" by simp
  show ?thesis
    using sorted_keys_distinct [OF s]
    by (auto simp: JObject FindVal_def object_find_map_of [OF s])
qed (simp_all add: FindVal_def AssertType_def)

lemma Find_idx_Some:
  assumes "wf_json j"
  shows "Find_idx j i fr = Inr (Some v) \<longleftrightarrow>
    (\<exists>xs. j = JArray xs \<and> unat i < length xs \<and> v = xs ! unat i)"
proof (cases j)
  case (JArray xs)
  then have "length xs < 2 ^ 32" using assms by simp
  from data_size_le_iff [OF this, of i] show ?thesis by (auto simp: JArray Find_idx_def not_le)
qed (simp_all add: Find_idx_def AssertType_def)

lemma Find_ptr_path:
  "wf_json j \<Longrightarrow> Find_ptr j keys fr = Inr (Some v) \<longleftrightarrow> has_path j keys v"
proof (induction keys arbitrary: j)
  case Nil
  then show ?case by auto
next
  case (Cons part keys)
  have sub: "wf_json w" if "FindVal j k fr' = Inr (Some w) \<or> Find_idx j i fr' = Inr (Some w)" for w k i fr'
    using that Cons.prems by (auto simp: FindVal_Some Find_idx_Some simp del: wf_json.simps intro: wf_rules)
  show ?case
  proof (cases part)
    case (KStr k)
    have "Find_ptr j (part # keys) fr = Inr (Some v) \<longleftrightarrow>
      (\<exists>w. FindVal j k (Frame (KStr k) fr) = Inr (Some w) \<and> Find_ptr w keys fr = Inr (Some v))"
      by (simp add: KStr split: sum.split option.split)
    also have "\<dots> \<longleftrightarrow> (\<exists>w. FindVal j k (Frame (KStr k) fr) = Inr (Some w) \<and> has_path w keys v)"
      using Cons.IH sub by blast
    also have "\<dots> \<longleftrightarrow> has_path j (part # keys) v"
      by (auto simp: KStr has_path_KStr FindVal_Some [OF Cons.prems])
    finally show ?thesis .
  next
    case (KIdx i)
    have "Find_ptr j (part # keys) fr = Inr (Some v) \<longleftrightarrow>
      (\<exists>w. Find_idx j i (Frame (KIdx i) fr) = Inr (Some w) \<and> Find_ptr w keys fr = Inr (Some v))"
      by (simp add: KIdx split: sum.split option.split)
    also have "\<dots> \<longleftrightarrow> (\<exists>w. Find_idx j i (Frame (KIdx i) fr) = Inr (Some w) \<and> has_path w keys v)"
      using Cons.IH sub by blast
    also have "\<dots> \<longleftrightarrow> has_path j (part # keys) v"
      by (auto simp: KIdx has_path_KIdx Find_idx_Some [OF Cons.prems])
    finally show ?thesis .
  qed
qed

subsection \<open>Leaves\<close>

text \<open>The leaves of a document with their paths, in document order.\<close>

definition is_leaf :: "json \<Rightarrow> bool" where
  "is_leaf j \<longleftrightarrow> (case j of JObject _ \<Rightarrow> False | JArray _ \<Rightarrow> False | _ \<Rightarrow> True)"

fun leaves :: "json \<Rightarrow> (jv_key list \<times> json) list"
and leaves_members :: "json_pair list \<Rightarrow> (jv_key list \<times> json) list"
and leaves_elems :: "u32 \<Rightarrow> json list \<Rightarrow> (jv_key list \<times> json) list" where
  "leaves (JObject kvs) = leaves_members kvs"
| "leaves (JArray xs) = leaves_elems 0 xs"
| "leaves j = [([], j)]"
| "leaves_members [] = []"
| "leaves_members ((k, v) # kvs) = map (\<lambda>(ks, w). (KStr k # ks, w)) (leaves v) @ leaves_members kvs"
| "leaves_elems idx [] = []"
| "leaves_elems idx (v # vs) = map (\<lambda>(ks, w). (KIdx idx # ks, w)) (leaves v) @ leaves_elems (idx + 1) vs"

fun run_leaves :: "'s leaf_cb \<Rightarrow> jv_key list \<Rightarrow> (jv_key list \<times> json) list \<Rightarrow> 's \<Rightarrow> jv_error + 's" where
  "run_leaves cb keys [] s = Inr s"
| "run_leaves cb keys ((ks, v) # ls) s =
     (case cb (keys @ ks) v s of Inl e \<Rightarrow> Inl e | Inr s' \<Rightarrow> run_leaves cb keys ls s')"

lemma run_leaves_append:
  "run_leaves cb keys (xs @ ys) s =
     (case run_leaves cb keys xs s of Inl e \<Rightarrow> Inl e | Inr s' \<Rightarrow> run_leaves cb keys ys s')"
  by (induction cb keys xs s rule: run_leaves.induct) (auto split: sum.split)

lemma run_leaves_key:
  "run_leaves cb keys (map (\<lambda>(ks, w). (k # ks, w)) ls) s = run_leaves cb (keys @ [k]) ls s"
  by (induction cb "keys @ [k]" ls s rule: run_leaves.induct) (auto split: sum.split)

lemma doDeepIterate_leaves:
  "height view \<le> depth \<Longrightarrow> doDeepIterate view keys cb depth s = run_leaves cb keys (leaves view) s"
  "(\<forall>(k, v) \<in> set kvs. height v \<le> depth) \<Longrightarrow>
     iter_members kvs keys cb depth s = run_leaves cb keys (leaves_members kvs) s"
  "(\<forall>v \<in> set vs. height v \<le> depth) \<Longrightarrow>
     iter_elems vs idx keys cb depth s = run_leaves cb keys (leaves_elems idx vs) s"
proof (induction view keys cb depth s and kvs keys cb depth s and vs idx keys cb depth s
    rule: doDeepIterate_iter_members_iter_elems.induct)
  case (1 view keys cb depth s)
  then show ?case
    by (cases view)
      (simp_all add: depth_Check_def height_JArray_le height_JObject_le del: height.simps(1,2) split: sum.split)
next
  case (3 k v kvs keys cb depth s)
  then show ?case by (auto simp: run_leaves_append run_leaves_key split: sum.split)
next
  case (5 v vs idx keys cb depth s)
  then show ?case by (auto simp: run_leaves_append run_leaves_key split: sum.split)
qed simp_all

lemma leaves_elems_iff:
  "n + length xs \<le> 2 ^ 32 \<Longrightarrow> (ks, w) \<in> set (leaves_elems (word_of_nat n) xs) \<longleftrightarrow>
     (\<exists>i ks'. ks = KIdx i # ks' \<and> n \<le> unat i \<and> unat i < n + length xs
        \<and> (ks', w) \<in> set (leaves (xs ! (unat i - n))))"
proof (induction xs arbitrary: n)
  case (Cons x xs)
  have w: "word_of_nat n + 1 = (word_of_nat (Suc n) :: u32)" by simp
  have un: "unat (word_of_nat n :: u32) = n"
    using Cons.prems by (simp add: unat_of_nat take_bit_nat_eq_self)
  have nth: "(x # xs) ! (unat i - n) = xs ! (unat i - Suc n)" if "Suc n \<le> unat i" for i :: u32
    using that by (simp add: nth_Cons')
  have sp: "(\<exists>i ks'. ks = KIdx i # ks' \<and> n \<le> unat i \<and> unat i < n + length (x # xs)
        \<and> (ks', w) \<in> set (leaves ((x # xs) ! (unat i - n)))) \<longleftrightarrow>
      (\<exists>ks'. ks = KIdx (word_of_nat n) # ks' \<and> (ks', w) \<in> set (leaves x)) \<or>
      (\<exists>i ks'. ks = KIdx i # ks' \<and> Suc n \<le> unat i \<and> unat i < Suc n + length xs
        \<and> (ks', w) \<in> set (leaves (xs ! (unat i - Suc n))))" (is "?L \<longleftrightarrow> ?A \<or> ?B")
  proof
    assume ?L
    then obtain i ks' where i: "ks = KIdx i # ks'" "n \<le> unat i" "unat i < n + length (x # xs)"
      "(ks', w) \<in> set (leaves ((x # xs) ! (unat i - n)))" by blast
    show "?A \<or> ?B"
    proof (cases "unat i = n")
      case True
      then have "i = word_of_nat n" by (simp flip: True)
      then show ?thesis using i True by simp
    next
      case False
      then show ?thesis using i nth [of i] by auto
    qed
  next
    assume "?A \<or> ?B"
    then show ?L
    proof
      assume ?A
      then show ?L using un by force
    next
      assume ?B
      then obtain i ks' where i: "ks = KIdx i # ks'" "Suc n \<le> unat i" "unat i < Suc n + length xs"
        "(ks', w) \<in> set (leaves (xs ! (unat i - Suc n)))" by blast
      then show ?L using nth [of i] by (intro exI [of _ i] exI [of _ ks']) simp
    qed
  qed
  show ?case
    using Cons.IH [of "Suc n"] Cons.prems by (simp only: sp leaves_elems.simps w) auto
qed auto

lemma leaves_members_iff:
  "(ks, w) \<in> set (leaves_members kvs) \<longleftrightarrow>
     (\<exists>k v ks'. ks = KStr k # ks' \<and> (k, v) \<in> set kvs \<and> (ks', w) \<in> set (leaves v))"
  by (induction kvs) (fastforce+)

inductive_simps has_path_JObject: "has_path (JObject kvs) ks w"
inductive_simps has_path_JArray: "has_path (JArray xs) ks w"

lemma leaves_path:
  "wf_json j \<Longrightarrow> (ks, w) \<in> set (leaves j) \<longleftrightarrow> has_path j ks w \<and> is_leaf w"
proof (induction j arbitrary: ks rule: json_induct)
  case (Array xs)
  have len: "0 + length xs \<le> 2 ^ 32" using Array.prems by simp
  have sub: "(ks', w) \<in> set (leaves (xs ! i)) \<longleftrightarrow> has_path (xs ! i) ks' w \<and> is_leaf w"
    if "i < length xs" for i ks'
    using Array.IH Array.prems that by (simp add: list_all_iff)
  have "(ks, w) \<in> set (leaves_elems 0 xs) \<longleftrightarrow>
     (\<exists>i ks'. ks = KIdx i # ks' \<and> unat i < length xs \<and> (ks', w) \<in> set (leaves (xs ! unat i)))"
    using leaves_elems_iff [OF len, of ks w] by simp
  also have "\<dots> \<longleftrightarrow> has_path (JArray xs) ks w \<and> is_leaf w"
    using sub by (auto simp: is_leaf_def has_path_JArray)
  finally show ?case by simp
next
  case (Object kvs)
  have sub: "(ks', w) \<in> set (leaves v) \<longleftrightarrow> has_path v ks' w \<and> is_leaf w"
    if "(k, v) \<in> set kvs" for k v ks'
    using Object.IH [OF that] wf_member [OF Object.prems that] by simp
  have "(ks, w) \<in> set (leaves_members kvs) \<longleftrightarrow> has_path (JObject kvs) ks w \<and> is_leaf w"
    unfolding leaves_members_iff
    using sub by (auto simp: is_leaf_def has_path_JObject) blast
  then show ?case by simp
qed (auto simp: is_leaf_def elim: has_path.cases)

subsection \<open>Where the parser departs from the pointer syntax\<close>

text \<open>
  Only the last token can be an index, an escape is never closed, the pointer \<open>''/''\<close> and a URI
  pointer that ends in an encoded character leave a slot unwritten, and a URI pointer may not
  contain the separator.
\<close>

lemmas FromString_run = FromString_def parseTokens_def parseTokens_run_def size_minus_def Let_def tok_init_def tok_finish_def
  add_token_def tok_append_def parseOne_key_def token_count_def is_digit_def less_eq_char_def
  from_chars_u32_def str_nat_def digit_val_def needPercentEncode_def percentDecode_def hex_val_def

lemma pointer_middle_index:
  "FromString ''/1/2'' (CHR ''/'') = Inr [Some (KStr ''1''), Some (KIdx 2)]"
  by (simp add: FromString_run)

lemma pointer_escape_not_closed:
  "FromString (Join (CHR ''/'') False [KStr ''a~b'']) (CHR ''/'')
     = Inl (RuntimeError ''Invalid escape in Json Pointer'')"
  by (simp add: FromString_run)

lemma pointer_slash_unwritten: "FromString ''/'' (CHR ''/'') = Inr [None]"
  by (simp add: FromString_run)

lemma pointer_uri_separator:
  "FromString ''#/a'' (CHR ''/'') = Inl (RuntimeError ''Percent encode missing in Json Pointer'')"
  by (simp add: FromString_run)

lemma pointer_uri_tail: "FromString ''#a%41'' (CHR ''/'') = Inr [None]"
  by (simp add: FromString_run)

subsection \<open>Properties\<close>

text \<open>
  a pointer string without escapes reads as its segments between separators: all but the last
  are string keys, the last is an index when it is all digits (an error when the number does not
  fit 32 bits) and a string key otherwise, and every slot of the token array is written.
\<close>

theorem FromString_correct:
  assumes "p \<noteq> []" "p \<noteq> [sep]" "hd p \<noteq> CHR ''#''" "CHR ''~'' \<notin> set p" "\<not> is_digit sep"
    "length p < 2 ^ 32 - 1"
  shows "FromString p sep =
    (let segs = split_on sep (if hd p = sep then tl p else p) in
     case parseOne_key (last segs) (list_all is_digit (last segs)) of
       Inl e \<Rightarrow> Inl e | Inr k \<Rightarrow> Inr (map (\<lambda>s. Some (KStr s)) (butlast segs) @ [Some k]))"
  using assms by (rule FromString_plain)

theorem FromString_correct_witness:
  "FromString ''/a/b/7'' (CHR ''/'') = Inr [Some (KStr ''a''), Some (KStr ''b''), Some (KIdx 7)]"
  using FromString_correct [of "''/a/b/7''" "CHR ''/''"]
  by (simp add: is_digit_def less_eq_char_def parseOne_key_def from_chars_u32_def str_nat_def digit_val_def)

text \<open>
  \<^verbatim>\<open>Join\<close> and \<^verbatim>\<open>FromString\<close> round trip on every pointer whose string keys need no escape, whose
  indices are in the last place, and whose last string key does not read as a number.
\<close>

theorem Join_FromString_roundtrip:
  assumes "plain_pointer keys" "length (Join (CHR ''/'') False keys) < 2 ^ 32 - 1"
  shows "FromString (Join (CHR ''/'') False keys) (CHR ''/'') = Inr (map Some keys)"
  using assms by (rule FromString_Join_plain)

theorem Join_FromString_roundtrip_witness:
  "FromString (Join (CHR ''/'') False [KStr ''a'', KStr [], KIdx 12]) (CHR ''/'')
     = Inr [Some (KStr ''a''), Some (KStr []), Some (KIdx 12)]"
  using Join_FromString_roundtrip [of "[KStr ''a'', KStr [], KIdx 12]"]
  by (simp add: plain_pointer_def plain_key_def key_IsString_def writeNumber_def nat_str.simps)

text \<open>
  C36: the parser stays inside its two buffers on every input, also on those it rejects and up to
  the exception, URIs and escapes included: it writes at most as many tokens as were counted
  beforehand and at most as many characters as the storage has reserved; and, unless the separator
  is the escape character, every token is read from characters that were written.
\<close>

theorem parseTokens_in_bounds:
  assumes "p \<noteq> []"
  shows "case parseTokens_run sep p of (x, s) \<Rightarrow>
    length (toks s) \<le> token_count sep p \<and> length (storage s) \<le> length p + 1 + token_count sep p \<and>
    (sep \<noteq> CHR ''~'' \<longrightarrow> \<not> overread s)"
proof -
  define skip :: nat where "skip = (if hd p = CHR ''#'' then 1 else 0) + (if hd p = sep then 1 else 0)"
  have r: "parseTokens_run sep p = parseTokens_loop sep (hd p = CHR ''#'') (drop skip p) tok_init"
    by (simp add: parseTokens_run_def skip_def)
  obtain c cs where p: "p = c # cs" using assms by (cases p) auto
  have f: "sep_count sep (drop k cs) \<le> sep_count sep cs" for k
  proof -
    have "sep_count sep cs = sep_count sep (take k cs) + sep_count sep (drop k cs)"
      unfolding sep_count_def by (metis append_take_drop_id filter_append length_append)
    then show ?thesis by simp
  qed
  have "sep_count sep (drop skip p) + tail_slot (drop skip p) \<le> token_count sep p \<and> length (drop skip p) \<le> length p"
    using f [of 1] unfolding p
    by (auto simp: p skip_def token_count_def tail_slot_def simp flip: sep_count_def)
  moreover have "within (sep_count sep (drop skip p) + tail_slot (drop skip p))
      (length (drop skip p) + sep_count sep (drop skip p) + tail_slot (drop skip p)) tok_init (snd (parseTokens_run sep p))"
    unfolding r by (rule parseTokens_loop_within)
  moreover have "sep \<noteq> CHR ''~'' \<Longrightarrow> \<not> overread (snd (parseTokens_run sep p))"
    unfolding r by (rule parseTokens_loop_reads) (simp_all add: readable_def tok_init_def)
  ultimately show ?thesis by (auto simp: within_def tok_init_def split: prod.split)
qed

theorem parseTokens_in_bounds_witness:
  "length (storage (snd (parseTokens_run (CHR ''/'') ''/ab/7~''))) \<le> 10 \<and>
   fst (parseTokens_run (CHR ''/'') ''/ab/~7'') = Some (RuntimeError ''Invalid escape in Json Pointer'') \<and>
   length (toks (snd (parseTokens_run (CHR ''/'') ''/ab/~7''))) \<le> 2"
proof -
  have "token_count (CHR ''/'') ''/ab/7~'' = 2" "token_count (CHR ''/'') ''/ab/~7'' = 2"
    by (simp_all add: token_count_def)
  moreover have "fst (parseTokens_run (CHR ''/'') ''/ab/~7'') = Some (RuntimeError ''Invalid escape in Json Pointer'')"
    by (simp add: FromString_run)
  ultimately show ?thesis
    using parseTokens_in_bounds [of "''/ab/7~''" "CHR ''/''"] parseTokens_in_bounds [of "''/ab/~7''" "CHR ''/''"]
    by (simp add: case_prod_unfold)
qed

text \<open>With the escape character as separator the length of a token wraps around.\<close>

lemma tilde_separator_overreads: "overread (snd (parseTokens_run (CHR ''~'') ''a~''))"
  by (simp add: FromString_run)

text \<open>
  following a pointer from a well-formed document succeeds exactly along the paths the
  document has, and yields the node at the end of the path.
\<close>

theorem Find_ptr_correct:
  assumes "wf_json j"
  shows "Find_ptr j keys fr = Inr (Some v) \<longleftrightarrow> has_path j keys v"
  using assms by (rule Find_ptr_path)

theorem Find_ptr_correct_witness:
  "has_path (JObject [(''a'', JArray [JNull, JBool True])]) [KStr ''a'', KIdx 1] (JBool True)"
  using Find_ptr_correct [of "JObject [(''a'', JArray [JNull, JBool True])]" "[KStr ''a'', KIdx 1]" RootFrame "JBool True"]
  by (simp add: FindVal_def Find_idx_def AssertType_def object_find_def sortedFind.simps word_le_nat_alt)

text \<open>
  C37: \<^verbatim>\<open>DeepIterate\<close> with enough depth runs the callback once for each leaf, in document order and
  with the leaf's path, until the callback throws; the visited pairs are exactly the paths of the
  document that end in a leaf.
\<close>

theorem DeepIterate_correct:
  assumes "wf_json view" "height view \<le> depth"
  shows "DeepIterate view cb depth s = run_leaves cb [] (leaves view) s
    \<and> (\<forall>ks w. (ks, w) \<in> set (leaves view) \<longleftrightarrow> has_path view ks w \<and> is_leaf w)"
  unfolding DeepIterate_def by (intro conjI allI doDeepIterate_leaves(1) leaves_path assms)

theorem DeepIterate_correct_witness:
  "DeepIterate (JObject [(''a'', JArray [JNull, JBool True])]) (\<lambda>ks w acc. Inr (acc @ [ks])) 3 []
     = Inr [[KStr ''a'', KIdx 0], [KStr ''a'', KIdx 1]]"
  using DeepIterate_correct [of "JObject [(''a'', JArray [JNull, JBool True])]" 3
      "\<lambda>ks w acc. Inr (acc @ [ks])" "[]"] by simp

end
