(* ===== verification/Ieee_Double.thy ===== *)
theory Ieee_Double
  imports Rpcxx_Prelude
begin

text \<open>
  The double arithmetic the library performs (comparison against a margin, conversion of integers,
  widening of \<^verbatim>\<open>float\<close>), on IEEE 754 bit patterns. A finite double is an integer multiple of
  \<open>2 ^ -1074\<close>; the datatype keeps that integer, so sums and differences are exact integers rounded
  once, half to even, to 53 significant bits. The sign of a zero is not kept: nothing the library
  does with a computed double depends on it.
\<close>

subsection \<open>Decoding\<close>

datatype dbl = DNaN | DInf bool | DFin int

definition dbl_sign :: "u64 \<Rightarrow> bool" where
  "dbl_sign w \<longleftrightarrow> 2 ^ 63 \<le> unat w"

definition dbl_exp :: "u64 \<Rightarrow> nat" where
  "dbl_exp w = unat w div 2 ^ 52 mod 2 ^ 11"

definition dbl_frac :: "u64 \<Rightarrow> nat" where
  "dbl_frac w = unat w mod 2 ^ 52"

definition dbl_of :: "u64 \<Rightarrow> dbl" where
  "dbl_of w =
     (let s = dbl_sign w; e = dbl_exp w; f = dbl_frac w;
          m = (if e = 0 then f else (2 ^ 52 + f) * 2 ^ (e - 1)) in
      if e = 2047 then (if f = 0 then DInf s else DNaN)
      else DFin (if s then - int m else int m))"

definition dbl_isnan :: "u64 \<Rightarrow> bool" where
  "dbl_isnan w \<longleftrightarrow> dbl_of w = DNaN"

definition dbl_isinf :: "u64 \<Rightarrow> bool" where
  "dbl_isinf w \<longleftrightarrow> (case dbl_of w of DInf _ \<Rightarrow> True | _ \<Rightarrow> False)"

subsection \<open>Rounding\<close>

fun excess_bits :: "nat \<Rightarrow> nat" where
  "excess_bits n = (if n < 2 ^ 53 then 0 else Suc (excess_bits (n div 2)))"

declare excess_bits.simps [simp del]

definition round_even :: "nat \<Rightarrow> nat \<Rightarrow> nat" where
  "round_even n k =
     (let q = n div 2 ^ k; r = n mod 2 ^ k in
      if 2 * r < 2 ^ k \<or> (2 * r = 2 ^ k \<and> even q) then q else q + 1)"

text \<open>The first magnitude past the finite doubles, \<open>2 ^ 1024\<close> in units of \<open>2 ^ -1074\<close>.\<close>

definition dbl_limit :: nat where "dbl_limit = 2 ^ 2098"

definition dbl_round :: "int \<Rightarrow> dbl" where
  "dbl_round i =
     (let n = nat \<bar>i\<bar>; k = excess_bits n;
          v = (if k = 0 then n else round_even n k * 2 ^ k) in
      if dbl_limit \<le> v then DInf (i < 0) else DFin (if i < 0 then - int v else int v))"

subsection \<open>Operations\<close>

text \<open>\<^verbatim>\<open>static_cast<double>\<close> of an integer.\<close>

definition dbl_of_int :: "int \<Rightarrow> dbl" where
  "dbl_of_int i = dbl_round (i * 2 ^ 1074)"

definition dbl_sub :: "dbl \<Rightarrow> dbl \<Rightarrow> dbl" where
  "dbl_sub a b =
     (case (a, b) of
        (DFin x, DFin y) \<Rightarrow> dbl_round (x - y)
      | (DInf s, DFin _) \<Rightarrow> DInf s
      | (DFin _, DInf s) \<Rightarrow> DInf (\<not> s)
      | (DInf s, DInf t) \<Rightarrow> if s = t then DNaN else DInf s
      | _ \<Rightarrow> DNaN)"

definition dbl_abs :: "dbl \<Rightarrow> dbl" where
  "dbl_abs a = (case a of DNaN \<Rightarrow> DNaN | DInf _ \<Rightarrow> DInf False | DFin x \<Rightarrow> DFin \<bar>x\<bar>)"

definition dbl_less :: "dbl \<Rightarrow> dbl \<Rightarrow> bool" where
  "dbl_less a b \<longleftrightarrow>
     (case (a, b) of
        (DFin x, DFin y) \<Rightarrow> x < y
      | (DInf s, DFin _) \<Rightarrow> s
      | (DFin _, DInf s) \<Rightarrow> \<not> s
      | (DInf s, DInf t) \<Rightarrow> s \<and> \<not> t
      | _ \<Rightarrow> False)"

text \<open>The comparison \<^verbatim>\<open>std::abs(a - b) < margin\<close>.\<close>

definition dbl_near :: "dbl \<Rightarrow> dbl \<Rightarrow> dbl \<Rightarrow> bool" where
  "dbl_near margin a b \<longleftrightarrow> dbl_less (dbl_abs (dbl_sub a b)) margin"

lemma excess_bits_0 [simp]: "excess_bits 0 = 0"
  by (simp add: excess_bits.simps)

lemma dbl_round_0 [simp]: "dbl_round 0 = DFin 0"
  by (simp add: dbl_round_def dbl_limit_def)

lemma dbl_round_minus:
  "dbl_round (- i) = (case dbl_round i of DFin x \<Rightarrow> DFin (- x) | DInf s \<Rightarrow> DInf (\<not> s) | DNaN \<Rightarrow> DNaN)"
proof (cases "i = 0")
  case False
  then show ?thesis by (auto simp: dbl_round_def Let_def)
qed simp

lemma dbl_abs_sub_commute: "dbl_abs (dbl_sub a b) = dbl_abs (dbl_sub b a)"
proof (cases a; cases b)
  fix x y assume "a = DFin x" "b = DFin y"
  then show ?thesis
    using dbl_round_minus [of "x - y"] by (auto simp: dbl_sub_def dbl_abs_def split: dbl.split)
qed (simp_all add: dbl_sub_def dbl_abs_def)

lemma dbl_near_commute: "dbl_near margin a b \<longleftrightarrow> dbl_near margin b a"
  by (simp add: dbl_near_def dbl_abs_sub_commute [of a b])

lemma dbl_near_refl:
  "dbl_less (DFin 0) margin \<Longrightarrow> dbl_near margin (DFin x) (DFin x)"
  by (simp add: dbl_near_def dbl_sub_def dbl_abs_def)

lemma dbl_near_nan [simp]: "\<not> dbl_near margin DNaN b" "\<not> dbl_near margin a DNaN"
  by (cases a; simp add: dbl_near_def dbl_sub_def dbl_abs_def dbl_less_def)+

lemma dbl_near_inf [simp]: "\<not> dbl_near margin (DInf s) (DFin y)" "\<not> dbl_near margin (DFin x) (DInf s)"
  if "margin \<noteq> DInf True" for margin
  by (cases margin; simp add: dbl_near_def dbl_sub_def dbl_abs_def dbl_less_def)+

subsection \<open>Widening of floats\<close>

text \<open>
  \<^verbatim>\<open>float\<close> to \<^verbatim>\<open>double\<close> on bit patterns: the exponent is rebiased by 896, a subnormal float is
  normalised, infinities and NaNs keep their class.
\<close>

function norm_shift :: "nat \<Rightarrow> nat" where
  "norm_shift f = (if f = 0 \<or> 2 ^ 23 \<le> f then 0 else Suc (norm_shift (2 * f)))"
  by pat_completeness auto
termination by (relation "measure (\<lambda>f. 2 ^ 23 - f)") auto

declare norm_shift.simps [simp del]

definition dbl_pack :: "bool \<Rightarrow> nat \<Rightarrow> nat \<Rightarrow> u64" where
  "dbl_pack s e f = word_of_nat ((if s then 2 ^ 63 else 0) + e * 2 ^ 52 + f)"

definition float_widen :: "u32 \<Rightarrow> u64" where
  "float_widen w =
     (let s = (2 ^ 31 \<le> unat w); e = unat w div 2 ^ 23 mod 2 ^ 8; f = unat w mod 2 ^ 23 in
      if e = 255 then dbl_pack s 2047 (if f = 0 then 0 else 2 ^ 51 + (f mod 2 ^ 22) * 2 ^ 29)
      else if e = 0 then
        (if f = 0 then dbl_pack s 0 0
         else let k = norm_shift f in dbl_pack s (897 - k) ((f * 2 ^ k - 2 ^ 23) * 2 ^ 29))
      else dbl_pack s (e + 896) (f * 2 ^ 29))"

text \<open>The value of a float, in the same units of \<open>2 ^ -1074\<close>.\<close>

definition flt_of :: "u32 \<Rightarrow> dbl" where
  "flt_of w =
     (let s = (2 ^ 31 \<le> unat w); e = unat w div 2 ^ 23 mod 2 ^ 8; f = unat w mod 2 ^ 23;
          m = (if e = 0 then f else (2 ^ 23 + f) * 2 ^ (e - 1)) * 2 ^ 925 in
      if e = 255 then (if f = 0 then DInf s else DNaN)
      else DFin (if s then - int m else int m))"

lemma dbl_pack_fields:
  assumes "e < 2048" "f < 2 ^ 52"
  shows "dbl_sign (dbl_pack s e f) = s" "dbl_exp (dbl_pack s e f) = e" "dbl_frac (dbl_pack s e f) = f"
proof -
  have m: "e * 2 ^ 52 + f < 2 ^ 63" using assms by simp
  then have u: "unat (dbl_pack s e f) = (if s then 2 ^ 63 else 0) + e * 2 ^ 52 + f"
    unfolding dbl_pack_def by (subst unat_of_nat) (simp add: take_bit_nat_eq_self)
  show "dbl_sign (dbl_pack s e f) = s" using m by (simp add: dbl_sign_def u)
  define h :: nat where "h = (if s then 2048 else 0) + e"
  have u': "unat (dbl_pack s e f) = f + h * 2 ^ 52" by (simp add: u h_def)
  have "(f + h * 2 ^ 52) div 2 ^ 52 = h" using assms(2) by simp
  moreover have "h mod 2 ^ 11 = e" using assms(1) by (simp add: h_def)
  ultimately show "dbl_exp (dbl_pack s e f) = e" by (simp only: dbl_exp_def u')
  show "dbl_frac (dbl_pack s e f) = f" using assms(2) by (simp add: dbl_frac_def u')
qed

lemma dbl_of_pack:
  assumes "0 < e" "e < 2047" "f < 2 ^ 52" "(2 ^ 52 + f) * 2 ^ (e - 1) = m"
  shows "dbl_of (dbl_pack s e f) = DFin (if s then - int m else int m)"
  using assms by (simp add: dbl_of_def dbl_pack_fields)

lemma norm_shift_bounds:
  "0 < f \<Longrightarrow> f < 2 ^ 23 \<Longrightarrow>
     2 ^ 23 \<le> f * 2 ^ norm_shift f \<and> f * 2 ^ norm_shift f < 2 ^ 24 \<and> norm_shift f \<le> 23"
proof (induction f rule: norm_shift.induct)
  case (1 f)
  have eq: "norm_shift f = Suc (norm_shift (2 * f))" using 1 by (subst norm_shift.simps) simp
  show ?case
  proof (cases "2 * f < 2 ^ 23")
    case True
    have b: "2 ^ 23 \<le> 2 * f * 2 ^ norm_shift (2 * f) \<and> 2 * f * 2 ^ norm_shift (2 * f) < 2 ^ 24"
      using 1 True by simp
    have "norm_shift f < 24"
    proof (rule ccontr)
      assume "\<not> norm_shift f < 24"
      then have "(2::nat) ^ 24 \<le> 2 ^ norm_shift f" by (intro power_increasing) simp_all
      also have "\<dots> \<le> f * 2 ^ norm_shift f" using 1(2) by simp
      finally show False using b eq by (simp add: ac_simps)
    qed
    with b show ?thesis by (simp add: eq ac_simps)
  next
    case False
    then have "norm_shift (2 * f) = 0" by (subst norm_shift.simps) simp
    with False 1(3) show ?thesis by (simp add: eq)
  qed
qed

text \<open>
  the conversion of a single precision float to a double keeps its value: normal and
  subnormal numbers, zeros and infinities exactly, and NaN as NaN.
\<close>

theorem float_widen_exact: "dbl_of (float_widen w) = flt_of w"
proof -
  define s e f where sef: "s = (2 ^ 31 \<le> unat w)" "e = unat w div 2 ^ 23 mod 2 ^ 8" "f = unat w mod 2 ^ 23"
  have b: "e < 256" "f < 2 ^ 23" by (simp_all add: sef)
  note fl = float_widen_def [of w, folded sef] flt_of_def [of w, folded sef]
  consider "e = 255" | "e = 0" "f = 0" | "e = 0" "0 < f" | "0 < e" "e < 255" using b by linarith
  then show ?thesis
  proof cases
    case 1
    have "2 ^ 51 + (f mod 2 ^ 22) * 2 ^ 29 < 2 ^ 52"
      using mod_less_divisor [of "2 ^ 22" f] by simp
    then show ?thesis using 1 by (simp add: fl dbl_of_def dbl_pack_fields)
  next
    case 2
    then show ?thesis by (simp add: fl dbl_of_def dbl_pack_fields)
  next
    case 3
    define k where "k = norm_shift f"
    have k: "2 ^ 23 \<le> f * 2 ^ k" "f * 2 ^ k < 2 ^ 24" "k \<le> 23"
      using norm_shift_bounds [OF 3(2) b(2)] by (simp_all add: k_def)
    define g where "g = f * 2 ^ k - 2 ^ 23"
    have g: "g < 2 ^ 23" "2 ^ 23 + g = f * 2 ^ k" using k by (simp_all add: g_def)
    have p: "(896 - k) + 29 + k = (925::nat)" using k(3) by simp
    have "(2 ^ 52 + g * 2 ^ 29) * 2 ^ (896 - k) = (2 ^ 23 + g) * 2 ^ ((896 - k) + 29)"
      by (simp add: power_add algebra_simps)
    also have "\<dots> = f * 2 ^ k * 2 ^ ((896 - k) + 29)" by (simp only: g(2))
    also have "\<dots> = f * 2 ^ ((896 - k) + 29 + k)" unfolding power_add by (simp only: mult.commute mult.left_commute)
    finally have v: "(2 ^ 52 + g * 2 ^ 29) * 2 ^ (896 - k) = f * 2 ^ 925" by (simp only: p)
    have "float_widen w = dbl_pack s (897 - k) (g * 2 ^ 29)"
      using 3 by (simp add: fl k_def [symmetric] g_def)
    moreover have "dbl_of (dbl_pack s (897 - k) (g * 2 ^ 29)) = DFin (if s then - int (f * 2 ^ 925) else int (f * 2 ^ 925))"
      using k(3) g(1) v by (intro dbl_of_pack) (simp_all del: power_Suc)
    moreover have "flt_of w = DFin (if s then - int (f * 2 ^ 925) else int (f * 2 ^ 925))"
      using 3 by (simp only: fl Let_def) simp
    ultimately show ?thesis by simp
  next
    case 4
    have "(2 ^ 52 + f * 2 ^ 29) * 2 ^ (e + 895) = (2 ^ 23 + f) * 2 ^ (e + 895 + 29)"
      by (simp add: power_add algebra_simps)
    moreover have "e + 895 + 29 = (e - 1) + 925" using 4 by simp
    ultimately have v: "(2 ^ 52 + f * 2 ^ 29) * 2 ^ (e + 895) = (2 ^ 23 + f) * 2 ^ (e - 1) * 2 ^ 925"
      by (simp only: power_add mult.assoc)
    have "float_widen w = dbl_pack s (e + 896) (f * 2 ^ 29)" using 4 by (simp add: fl)
    moreover have "dbl_of (dbl_pack s (e + 896) (f * 2 ^ 29))
        = DFin (if s then - int ((2 ^ 23 + f) * 2 ^ (e - 1) * 2 ^ 925) else int ((2 ^ 23 + f) * 2 ^ (e - 1) * 2 ^ 925))"
      using 4 b(2) v by (intro dbl_of_pack) (simp_all add: add.commute)
    moreover have "flt_of w
        = DFin (if s then - int ((2 ^ 23 + f) * 2 ^ (e - 1) * 2 ^ 925) else int ((2 ^ 23 + f) * 2 ^ (e - 1) * 2 ^ 925))"
      using 4 by (simp only: fl Let_def) simp
    ultimately show ?thesis by simp
  qed
qed

end
