(* ===== verification/Json_Algo.thy ===== *)
theory Json_Algo
  imports Json_Pointer Ieee_Double
begin

text \<open>
  The tree algorithms of \<^verbatim>\<open>algo.cpp\<close>: deep copies, comparison with a margin, flattening; and the
  allocation helpers of \<^verbatim>\<open>json_view.hpp\<close> they go through.

  An arena is seen by its clients as a sequence of requests: the state is the list of the sizes
  handed out so far, and \<open>oom\<close>, a parameter, decides from the history whether the next request
  fails. What a block contains is the value built in it.
\<close>

subsection \<open>Requests to an arena\<close>

type_synonym arena_log = "nat list"
type_synonym arena_policy = "nat list \<Rightarrow> nat \<Rightarrow> bool"

definition arena_alloc :: "arena_policy \<Rightarrow> nat \<Rightarrow> arena_log \<Rightarrow> jv_error + arena_log" where
  "arena_alloc oom sz a = (if oom a sz then Inl BadAlloc else Inr (a @ [sz]))"

definition null_arena :: arena_policy where
  "null_arena = (\<lambda>a sz. True)"

text \<open>\<^verbatim>\<open>NullArena\<close> refuses every request; a roomy arena refuses none.\<close>

definition roomy_arena :: arena_policy where
  "roomy_arena = (\<lambda>a sz. False)"

definition CopyString :: "arena_policy \<Rightarrow> string \<Rightarrow> arena_log \<Rightarrow> jv_error + string \<times> arena_log" where
  "CopyString oom src a =
     (if src = [] then Inr ([], a)
      else (case arena_alloc oom (length src) a of Inl e \<Rightarrow> Inl e | Inr a' \<Rightarrow> Inr (src, a')))"

definition MakeArrayOf :: "arena_policy \<Rightarrow> nat \<Rightarrow> arena_log \<Rightarrow> jv_error + arena_log" where
  "MakeArrayOf oom n a = (if n = 0 then Inr a else arena_alloc oom (16 * n) a)"

definition MakeObjectOf :: "arena_policy \<Rightarrow> nat \<Rightarrow> arena_log \<Rightarrow> jv_error + arena_log" where
  "MakeObjectOf oom n a = (if n = 0 then Inr a else arena_alloc oom (32 * n) a)"

subsection \<open>Copy\<close>

definition NoCopyStrings :: nat where "NoCopyStrings = 1"
definition NoCopyBinary :: nat where "NoCopyBinary = 2"

text \<open>\<open>keep\<close> is the test \<^verbatim>\<open>flags & NoCopyStrings\<close> on the template argument.\<close>

definition copy_key :: "bool \<Rightarrow> arena_policy \<Rightarrow> string \<Rightarrow> arena_log \<Rightarrow> jv_error + string \<times> arena_log" where
  "copy_key keep oom key a = (if keep then Inr (key, a) else CopyString oom key a)"

fun doCopy :: "bool \<Rightarrow> arena_policy \<Rightarrow> json \<Rightarrow> nat \<Rightarrow> arena_log \<Rightarrow> jv_error + json \<times> arena_log"
and copy_elems :: "bool \<Rightarrow> arena_policy \<Rightarrow> json list \<Rightarrow> nat \<Rightarrow> arena_log \<Rightarrow> jv_error + json list \<times> arena_log"
and copy_members :: "bool \<Rightarrow> arena_policy \<Rightarrow> json_pair list \<Rightarrow> nat \<Rightarrow> arena_log \<Rightarrow> jv_error + json_pair list \<times> arena_log"
where
  "doCopy keep oom src depth a =
     (case depth_Check depth of
        Some e \<Rightarrow> Inl e
      | None \<Rightarrow>
          (case src of
             JBinary s \<Rightarrow>
               if keep then Inr (src, a)
               else (case CopyString oom s a of Inl e \<Rightarrow> Inl e | Inr (s', a') \<Rightarrow> Inr (JBinary s', a'))
           | JString s \<Rightarrow>
               if keep then Inr (src, a)
               else (case CopyString oom s a of Inl e \<Rightarrow> Inl e | Inr (s', a') \<Rightarrow> Inr (JString s', a'))
           | JArray xs \<Rightarrow>
               (case MakeArrayOf oom (length xs) a of
                  Inl e \<Rightarrow> Inl e
                | Inr a' \<Rightarrow>
                    (case copy_elems keep oom xs (depth - 1) a' of
                       Inl e \<Rightarrow> Inl e | Inr (ys, a'') \<Rightarrow> Inr (JArray ys, a'')))
           | JObject kvs \<Rightarrow>
               (case MakeObjectOf oom (length kvs) a of
                  Inl e \<Rightarrow> Inl e
                | Inr a' \<Rightarrow>
                    (case copy_members keep oom kvs (depth - 1) a' of
                       Inl e \<Rightarrow> Inl e | Inr (ys, a'') \<Rightarrow> Inr (JObject ys, a'')))
           | _ \<Rightarrow> Inr (src, a)))"
| "copy_elems keep oom [] depth a = Inr ([], a)"
| "copy_elems keep oom (x # xs) depth a =
     (case doCopy keep oom x depth a of
        Inl e \<Rightarrow> Inl e
      | Inr (y, a') \<Rightarrow>
          (case copy_elems keep oom xs depth a' of
             Inl e \<Rightarrow> Inl e | Inr (ys, a'') \<Rightarrow> Inr (y # ys, a'')))"
| "copy_members keep oom [] depth a = Inr ([], a)"
| "copy_members keep oom ((k, v) # kvs) depth a =
     (case copy_key keep oom k a of
        Inl e \<Rightarrow> Inl e
      | Inr (k', a1) \<Rightarrow>
          (case doCopy keep oom v depth a1 of
             Inl e \<Rightarrow> Inl e
           | Inr (v', a2) \<Rightarrow>
               (case copy_members keep oom kvs depth a2 of
                  Inl e \<Rightarrow> Inl e | Inr (ys, a3) \<Rightarrow> Inr ((k', v') # ys, a3))))"

declare doCopy.simps(1) [simp del]

definition Copy :: "arena_policy \<Rightarrow> json \<Rightarrow> nat \<Rightarrow> nat \<Rightarrow> arena_log \<Rightarrow> jv_error + json \<times> arena_log" where
  "Copy oom src depth flags a = doCopy (flags = NoCopyStrings) oom src depth a"

subsection \<open>DeepEqual\<close>

text \<open>\<^verbatim>\<open>DEFAULT_MARGIN\<close>, ten times the epsilon of doubles.\<close>

definition DEFAULT_MARGIN :: u64 where
  "DEFAULT_MARGIN = dbl_pack False 974 (2 ^ 50)"

fun int_value :: "json \<Rightarrow> int option" where
  "int_value (JSigned i) = Some (sint i)"
| "int_value (JUnsigned u) = Some (uint u)"
| "int_value _ = None"

fun int_bits :: "json \<Rightarrow> u64" where
  "int_bits (JSigned i) = i"
| "int_bits (JUnsigned u) = u"
| "int_bits _ = 0"

text \<open>The two integer cases: a double on the other side, or two integers compared by their bits.\<close>

definition equal_int :: "json \<Rightarrow> json \<Rightarrow> u64 \<Rightarrow> bool" where
  "equal_int lhs rhs margin =
     (case rhs of
        JNumber d \<Rightarrow> dbl_near (dbl_of margin) (dbl_of d) (dbl_of_int (the (int_value lhs)))
      | _ \<Rightarrow>
          if Is rhs (t_signed OR t_unsigned) then
            (if int_bits lhs = int_bits rhs then
               (if GetType lhs \<noteq> GetType rhs then 0 \<le> sint (int_bits lhs) \<and> 0 \<le> sint (int_bits rhs)
                else True)
             else False)
          else False)"

definition equal_number :: "u64 \<Rightarrow> json \<Rightarrow> u64 \<Rightarrow> bool" where
  "equal_number d rhs margin =
     (case rhs of
        JNumber d' \<Rightarrow>
          if dbl_isnan d then dbl_isnan d'
          else if dbl_isinf d then dbl_isinf d'
          else dbl_near (dbl_of margin) (dbl_of d) (dbl_of d')
      | _ \<Rightarrow>
          (case int_value rhs of
             Some i \<Rightarrow> dbl_near (dbl_of margin) (dbl_of d) (dbl_of_int i)
           | None \<Rightarrow> False))"

fun DeepEqual :: "json \<Rightarrow> json \<Rightarrow> nat \<Rightarrow> u64 \<Rightarrow> jv_error + bool"
and equal_elems :: "json list \<Rightarrow> json list \<Rightarrow> nat \<Rightarrow> u64 \<Rightarrow> jv_error + bool"
and equal_members :: "json_pair list \<Rightarrow> json_pair list \<Rightarrow> nat \<Rightarrow> u64 \<Rightarrow> jv_error + bool" where
  "DeepEqual lhs rhs depth margin =
     (case depth_Check depth of
        Some e \<Rightarrow> Inl e
      | None \<Rightarrow>
          (case lhs of
             JSigned _ \<Rightarrow> Inr (equal_int lhs rhs margin)
           | JUnsigned _ \<Rightarrow> Inr (equal_int lhs rhs margin)
           | JArray xs \<Rightarrow>
               (case rhs of
                  JArray ys \<Rightarrow> if length xs \<noteq> length ys then Inr False
                               else equal_elems xs ys (depth - 1) margin
                | _ \<Rightarrow> Inr False)
           | JNumber d \<Rightarrow> Inr (equal_number d rhs margin)
           | JObject kvs \<Rightarrow>
               (case rhs of
                  JObject kvs' \<Rightarrow> if length kvs \<noteq> length kvs' then Inr False
                                  else equal_members kvs kvs' (depth - 1) margin
                | _ \<Rightarrow> Inr False)
           | JBool b \<Rightarrow> Inr (case rhs of JBool b' \<Rightarrow> b = b' | _ \<Rightarrow> False)
           | JBinary s \<Rightarrow> Inr (case rhs of JBinary s' \<Rightarrow> length s = length s' \<and> s = s' | _ \<Rightarrow> False)
           | JString s \<Rightarrow> Inr (case rhs of JString s' \<Rightarrow> length s = length s' \<and> s = s' | _ \<Rightarrow> False)
           | _ \<Rightarrow> Inr (GetType rhs = GetType lhs)))"
| "equal_elems [] ys depth margin = Inr True"
| "equal_elems (x # xs) ys depth margin =
     (case DeepEqual x (hd ys) depth margin of
        Inl e \<Rightarrow> Inl e
      | Inr b \<Rightarrow> if \<not> b then Inr False else equal_elems xs (tl ys) depth margin)"
| "equal_members [] ys depth margin = Inr True"
| "equal_members ((k, v) # kvs) ys depth margin =
     (if k \<noteq> fst (hd ys) then Inr False
      else (case DeepEqual v (snd (hd ys)) depth margin of
              Inl e \<Rightarrow> Inl e
            | Inr b \<Rightarrow> if \<not> b then Inr False else equal_members kvs (tl ys) depth margin))"

declare DeepEqual.simps(1) [simp del]

subsection \<open>Flatten\<close>

text \<open>
  Each leaf becomes a pair under its joined path, pushed in document order; the result is tagged
  as sorted without being sorted. The requests of the growing vectors (\<^verbatim>\<open>result\<close>, the key stack)
  are not recorded, only those for the strings and values that end up in the result.
\<close>

definition flatten_cb :: "arena_policy \<Rightarrow> (json_pair list \<times> arena_log) leaf_cb" where
  "flatten_cb oom ptr item s =
     (case s of (result, a) \<Rightarrow>
        (case CopyString oom (Join (CHR ''/'') False ptr) a of
           Inl e \<Rightarrow> Inl e
         | Inr (k, a1) \<Rightarrow>
             (case Copy oom item 300 0 a1 of
                Inl e \<Rightarrow> Inl e
              | Inr (v, a2) \<Rightarrow> Inr (result @ [(k, v)], a2))))"

definition Flatten :: "arena_policy \<Rightarrow> json \<Rightarrow> nat \<Rightarrow> arena_log \<Rightarrow> jv_error + json \<times> arena_log" where
  "Flatten oom src depth a =
     (case depth_Check depth of
        Some e \<Rightarrow> Inl e
      | None \<Rightarrow>
          (case AssertType src t_object RootFrame of
             Inl e \<Rightarrow> Inl e
           | Inr _ \<Rightarrow>
               (case DeepIterate src (flatten_cb oom) depth ([], a) of
                  Inl e \<Rightarrow> Inl e
                | Inr (result, a') \<Rightarrow> Inr (JObject result, a'))))"

subsection \<open>What a copy is and asks for\<close>

lemma alloc_simps:
  "CopyString oom s a = Inr (s', a') \<Longrightarrow> s' = s"
  by (auto simp: CopyString_def split: if_splits sum.splits)

lemma copy_key_same: "copy_key keep oom s a = Inr (s', a') \<Longrightarrow> s' = s"
  by (auto simp: copy_key_def dest: alloc_simps split: if_splits)

lemma doCopy_same:
  "doCopy keep oom src depth a = Inr (src', a') \<Longrightarrow> src' = src"
  "copy_elems keep oom xs depth a = Inr (xs', a') \<Longrightarrow> xs' = xs"
  "copy_members keep oom kvs depth a = Inr (kvs', a') \<Longrightarrow> kvs' = kvs"
proof (induction keep oom src depth a and keep oom xs depth a and keep oom kvs depth a
    arbitrary: src' a' and xs' a' and kvs' a' rule: doCopy_copy_elems_copy_members.induct)
  case (1 keep oom src depth a)
  then show ?case
    by (cases src)
      (auto simp: doCopy.simps(1) depth_Check_def split: if_splits sum.splits dest: alloc_simps)
next
  case (3 keep oom x xs depth a)
  then show ?case by (auto split: sum.splits)
next
  case (5 keep oom k v kvs depth a)
  then obtain k' a1 v' a2 ys a3 where r: "copy_key keep oom k a = Inr (k', a1)"
    "doCopy keep oom v depth a1 = Inr (v', a2)" "copy_members keep oom kvs depth a2 = Inr (ys, a3)"
    "kvs' = (k', v') # ys"
    by (auto split: sum.splits)
  then show ?case using 5(1) [OF r(1) refl r(2)] 5(2) [OF r(1) refl r(2) refl r(3)] copy_key_same [OF r(1)]
    by simp
qed auto

definition str_req :: "bool \<Rightarrow> string \<Rightarrow> nat list" where
  "str_req keep s = (if keep \<or> s = [] then [] else [length s])"

fun copy_reqs :: "bool \<Rightarrow> json \<Rightarrow> nat list" where
  "copy_reqs keep (JString s) = str_req keep s"
| "copy_reqs keep (JBinary s) = str_req keep s"
| "copy_reqs keep (JArray xs) =
     (if xs = [] then [] else [16 * length xs]) @ concat (map (copy_reqs keep) xs)"
| "copy_reqs keep (JObject kvs) =
     (if kvs = [] then [] else [32 * length kvs]) @
       concat (map (\<lambda>(k, v). str_req keep k @ copy_reqs keep v) kvs)"
| "copy_reqs keep _ = []"

lemma roomy [simp]:
  "arena_alloc roomy_arena n a = Inr (a @ [n])"
  "CopyString roomy_arena s a = Inr (s, a @ str_req False s)"
  "copy_key keep roomy_arena s a = Inr (s, a @ str_req keep s)"
  "MakeArrayOf roomy_arena n a = Inr (a @ (if n = 0 then [] else [16 * n]))"
  "MakeObjectOf roomy_arena n a = Inr (a @ (if n = 0 then [] else [32 * n]))"
  by (auto simp: arena_alloc_def CopyString_def copy_key_def MakeArrayOf_def MakeObjectOf_def
      str_req_def roomy_arena_def)

lemma doCopy_roomy:
  "doCopy keep roomy_arena src depth a =
      (if height src \<le> depth then Inr (src, a @ copy_reqs keep src) else Inl DepthError)"
  "copy_elems keep roomy_arena xs depth a =
      (if \<forall>x \<in> set xs. height x \<le> depth then Inr (xs, a @ concat (map (copy_reqs keep) xs))
       else Inl DepthError)"
  "copy_members keep roomy_arena kvs depth a =
      (if \<forall>(k, v) \<in> set kvs. height v \<le> depth
       then Inr (kvs, a @ concat (map (\<lambda>(k, v). str_req keep k @ copy_reqs keep v) kvs))
       else Inl DepthError)"
proof (induction keep "roomy_arena" src depth a and keep "roomy_arena" xs depth a
    and keep "roomy_arena" kvs depth a rule: doCopy_copy_elems_copy_members.induct)
  case (1 keep src depth a)
  show ?case
  proof (cases "depth = 0")
    case True
    then show ?thesis using height_pos [of src] by (simp add: doCopy.simps(1) depth_Check_def)
  next
    case False
    then show ?thesis using 1
      by (cases src) (auto simp: doCopy.simps(1) depth_Check_def height_JArray_le height_JObject_le str_req_def
          simp del: height.simps(1,2))
  qed
next
  case (3 keep x xs depth a)
  then show ?case by (cases "height x \<le> depth") auto
next
  case (5 keep k v kvs depth a)
  then show ?case by (cases "height v \<le> depth") auto
qed simp_all

text \<open>
  What a copy asks for with any arena: the requests in order, up to the first value that lies too deep,
  and whether there is one.
\<close>

definition and_then :: "nat list \<times> bool \<Rightarrow> nat list \<times> bool \<Rightarrow> nat list \<times> bool" where
  "and_then w w' = (if snd w then w else (fst w @ fst w', snd w'))"

fun copy_walk :: "bool \<Rightarrow> nat \<Rightarrow> json \<Rightarrow> nat list \<times> bool"
and walk_elems :: "bool \<Rightarrow> nat \<Rightarrow> json list \<Rightarrow> nat list \<times> bool"
and walk_members :: "bool \<Rightarrow> nat \<Rightarrow> json_pair list \<Rightarrow> nat list \<times> bool" where
  "copy_walk keep depth (JArray xs) =
     (if depth = 0 then ([], True)
      else and_then (if xs = [] then [] else [16 * length xs], False) (walk_elems keep (depth - 1) xs))"
| "copy_walk keep depth (JObject kvs) =
     (if depth = 0 then ([], True)
      else and_then (if kvs = [] then [] else [32 * length kvs], False) (walk_members keep (depth - 1) kvs))"
| "copy_walk keep depth j = (if depth = 0 then ([], True) else (copy_reqs keep j, False))"
| "walk_elems keep depth [] = ([], False)"
| "walk_elems keep depth (x # xs) = and_then (copy_walk keep depth x) (walk_elems keep depth xs)"
| "walk_members keep depth [] = ([], False)"
| "walk_members keep depth ((k, v) # kvs) =
     and_then (str_req keep k, False) (and_then (copy_walk keep depth v) (walk_members keep depth kvs))"

text \<open>Whether the arena grants a list of requests, one after the other.\<close>

fun grants :: "arena_policy \<Rightarrow> arena_log \<Rightarrow> nat list \<Rightarrow> bool" where
  "grants oom a [] \<longleftrightarrow> True"
| "grants oom a (n # ns) \<longleftrightarrow> \<not> oom a n \<and> grants oom (a @ [n]) ns"

lemma grants_append [simp]: "grants oom a (ns @ ms) \<longleftrightarrow> grants oom a ns \<and> grants oom (a @ ns) ms"
  by (induction oom a ns rule: grants.induct) auto

lemma grants_roomy [simp]: "grants roomy_arena a ns"
  by (induction roomy_arena a ns rule: grants.induct) (auto simp: roomy_arena_def)

definition outcome :: "arena_policy \<Rightarrow> 'a \<Rightarrow> arena_log \<Rightarrow> nat list \<times> bool \<Rightarrow> jv_error + 'a \<times> arena_log" where
  "outcome oom x a w =
     (if \<not> grants oom a (fst w) then Inl BadAlloc else if snd w then Inl DepthError else Inr (x, a @ fst w))"

lemma requests:
  "CopyString oom s a = outcome oom s a (str_req False s, False)"
  "copy_key keep oom s a = outcome oom s a (str_req keep s, False)"
  "MakeArrayOf oom n a = map_sum id snd (outcome oom () a (if n = 0 then [] else [16 * n], False))"
  "MakeObjectOf oom n a = map_sum id snd (outcome oom () a (if n = 0 then [] else [32 * n], False))"
  by (auto simp: outcome_def CopyString_def copy_key_def str_req_def arena_alloc_def MakeArrayOf_def MakeObjectOf_def)

lemma outcome_then:
  "(case outcome oom x a w of Inl e \<Rightarrow> Inl e | Inr (y, a') \<Rightarrow>
      (case outcome oom z a' w' of Inl e \<Rightarrow> Inl e | Inr (u, a'') \<Rightarrow> Inr (f y u, a''))) =
   outcome oom (f x z) a (and_then w w')"
  by (auto simp: outcome_def and_then_def)

lemma copy_outcome:
  "doCopy keep oom src depth a = outcome oom src a (copy_walk keep depth src)"
  "copy_elems keep oom xs depth a = outcome oom xs a (walk_elems keep depth xs)"
  "copy_members keep oom kvs depth a = outcome oom kvs a (walk_members keep depth kvs)"
proof (induction keep oom src depth a and keep oom xs depth a and keep oom kvs depth a
    rule: doCopy_copy_elems_copy_members.induct)
  case (1 keep oom src depth a)
  show ?case
  proof (cases "depth = 0")
    case True
    then show ?thesis by (cases src) (simp_all add: doCopy.simps(1) depth_Check_def outcome_def)
  next
    case False
    then show ?thesis using 1
      by (cases src) (auto simp: doCopy.simps(1) depth_Check_def requests outcome_def and_then_def str_req_def)
  qed
next
  case (3 keep oom x xs depth a)
  then show ?case by (auto simp: outcome_def and_then_def)
next
  case (5 keep oom k v kvs depth a)
  then show ?case by (auto simp: requests outcome_def and_then_def)
qed (simp_all add: outcome_def)

lemma walk_depth:
  "snd (copy_walk keep depth src) \<longleftrightarrow> depth < height src"
  "snd (walk_elems keep depth xs) \<longleftrightarrow> (\<exists>x \<in> set xs. depth < height x)"
  "snd (walk_members keep depth kvs) \<longleftrightarrow> (\<exists>(k, v) \<in> set kvs. depth < height v)"
proof (induction keep depth src and keep depth xs and keep depth kvs rule: copy_walk_walk_elems_walk_members.induct)
  case (1 keep depth xs)
  show ?case
  proof (cases depth)
    case 0
    then show ?thesis using height_pos [of "JArray xs"] by simp
  next
    case (Suc d)
    have "depth < height (JArray xs) \<longleftrightarrow> \<not> height (JArray xs) \<le> Suc d" by (simp only: Suc not_le)
    with 1 Suc show ?thesis by (simp add: height_JArray_le and_then_def not_le case_prod_unfold del: height.simps)
  qed
next
  case (2 keep depth kvs)
  show ?case
  proof (cases depth)
    case 0
    then show ?thesis using height_pos [of "JObject kvs"] by simp
  next
    case (Suc d)
    have "depth < height (JObject kvs) \<longleftrightarrow> \<not> height (JObject kvs) \<le> Suc d" by (simp only: Suc not_le)
    with 2 Suc show ?thesis by (simp add: height_JObject_le and_then_def not_le case_prod_unfold del: height.simps)
  qed
qed (auto simp: and_then_def)

lemma walk_reqs:
  "height src \<le> depth \<Longrightarrow> fst (copy_walk keep depth src) = copy_reqs keep src"
  "\<forall>x \<in> set xs. height x \<le> depth \<Longrightarrow> fst (walk_elems keep depth xs) = concat (map (copy_reqs keep) xs)"
  "\<forall>(k, v) \<in> set kvs. height v \<le> depth \<Longrightarrow>
     fst (walk_members keep depth kvs) = concat (map (\<lambda>(k, v). str_req keep k @ copy_reqs keep v) kvs)"
proof (induction keep depth src and keep depth xs and keep depth kvs rule: copy_walk_walk_elems_walk_members.induct)
  case (1 keep depth xs)
  then show ?case using height_pos [of "JArray xs"]
    by (cases depth) (auto simp: and_then_def height_JArray_le simp del: height.simps)
next
  case (2 keep depth kvs)
  then show ?case using height_pos [of "JObject kvs"]
    by (cases depth) (auto simp: and_then_def height_JObject_le simp del: height.simps)
qed (auto simp: and_then_def walk_depth)

lemma Copy_flags:
  "Copy oom src depth NoCopyBinary a = Copy oom src depth 0 a"
  by (simp add: Copy_def NoCopyBinary_def NoCopyStrings_def)

subsection \<open>DeepEqual as an equality\<close>

lemmas DeepEqual_con =
  DeepEqual.simps(1) [of JNull, unfolded json.case]
  DeepEqual.simps(1) [of "JBool b" for b, unfolded json.case]
  DeepEqual.simps(1) [of "JSigned i" for i, unfolded json.case]
  DeepEqual.simps(1) [of "JUnsigned i" for i, unfolded json.case]
  DeepEqual.simps(1) [of "JNumber d" for d, unfolded json.case]
  DeepEqual.simps(1) [of "JString s" for s, unfolded json.case]
  DeepEqual.simps(1) [of "JBinary s" for s, unfolded json.case]
  DeepEqual.simps(1) [of "JArray xs" for xs, unfolded json.case]
  DeepEqual.simps(1) [of "JObject kvs" for kvs, unfolded json.case]
  DeepEqual.simps(1) [of "JDiscarded s" for s, unfolded json.case]
  DeepEqual.simps(1) [of "JCustom p n" for p n, unfolded json.case]

lemma DEFAULT_MARGIN_value: "dbl_of DEFAULT_MARGIN = DFin (10 * 2 ^ 1022)"
  unfolding DEFAULT_MARGIN_def by (subst dbl_of_pack [OF _ _ _ refl]) simp_all

lemma int_value_bits: "int_value lhs \<noteq> None \<Longrightarrow> Is lhs (t_signed OR t_unsigned)"
  by (cases lhs) (simp_all add: Is_def t_defs)

lemma Is_integer [simp]: "Is j (t_signed OR t_unsigned) \<longleftrightarrow> int_value j \<noteq> None"
  by (cases j) (simp_all add: Is_def t_defs)

lemma equal_int_ints:
  assumes "int_value lhs = Some i" "int_value rhs = Some k"
  shows "equal_int lhs rhs margin \<longleftrightarrow> i = k"
proof -
  have "t_signed \<noteq> t_unsigned" by (simp add: t_defs)
  then show ?thesis using assms
    by (cases lhs; cases rhs)
      (auto simp: equal_int_def sint_eq_uint_iff eq_commute [of "uint _" "sint _"]
        dest: signed_word_eqI unsigned_word_eqI)
qed

lemma equal_int_sym:
  assumes "int_value lhs = Some i" "int_value rhs = Some k"
  shows "equal_int lhs rhs margin = equal_int rhs lhs margin"
  using equal_int_ints [OF assms] equal_int_ints [OF assms(2,1)] by auto

lemma equal_mixed:
  "int_value lhs = Some i \<Longrightarrow> equal_int lhs (JNumber d) margin = equal_number d lhs margin"
  by (cases lhs) (auto simp: equal_int_def equal_number_def)

lemma equal_int_other:
  "int_value rhs = None \<Longrightarrow> (\<And>d. rhs \<noteq> JNumber d) \<Longrightarrow> \<not> equal_int lhs rhs margin"
  by (cases rhs) (auto simp: equal_int_def)

lemma equal_number_other:
  "int_value rhs = None \<Longrightarrow> (\<And>d. rhs \<noteq> JNumber d) \<Longrightarrow> \<not> equal_number d rhs margin"
  by (cases rhs) (auto simp: equal_number_def)

definition margin_ok :: "u64 \<Rightarrow> bool" where
  "margin_ok margin \<longleftrightarrow> (\<exists>m > 0. dbl_of margin = DFin m)"

lemma margin_ok_default: "margin_ok DEFAULT_MARGIN"
  by (simp add: margin_ok_def DEFAULT_MARGIN_value)

lemma equal_number_sym:
  assumes "margin_ok margin"
  shows "equal_number d (JNumber d') margin = equal_number d' (JNumber d) margin"
proof -
  obtain m where m: "dbl_of margin = DFin m" using assms by (auto simp: margin_ok_def)
  show ?thesis
    by (cases "dbl_of d"; cases "dbl_of d'")
      (auto simp: equal_number_def dbl_isnan_def dbl_isinf_def m dbl_near_commute [of _ "DFin _" "DFin _"])
qed

lemma equal_number_refl:
  "margin_ok margin \<Longrightarrow> equal_number d (JNumber d) margin"
  by (cases "dbl_of d")
    (auto simp: equal_number_def dbl_isnan_def dbl_isinf_def margin_ok_def dbl_less_def intro!: dbl_near_refl)

lemma DeepEqual_refl:
  assumes m: "margin_ok margin"
  shows "height lhs \<le> depth \<Longrightarrow> DeepEqual lhs lhs depth margin = Inr True"
proof (induction lhs arbitrary: depth rule: json_induct)
  case (Array xs)
  have "\<forall>x \<in> set ys. DeepEqual x x (depth - 1) margin = Inr True \<Longrightarrow>
      equal_elems ys ys (depth - 1) margin = Inr True" for ys
    by (induction ys) auto
  moreover have "0 < depth" "\<forall>x \<in> set xs. height x \<le> depth - 1"
    using Array.prems unfolding height_JArray_le by blast+
  ultimately show ?case using Array.IH by (simp add: DeepEqual_con depth_Check_def)
next
  case (Object kvs)
  have "\<forall>(k, v) \<in> set ys. DeepEqual v v (depth - 1) margin = Inr True \<Longrightarrow>
      equal_members ys ys (depth - 1) margin = Inr True" for ys
    by (induction ys) auto
  moreover have "0 < depth" "\<forall>(k, v) \<in> set kvs. height v \<le> depth - 1"
    using Object.prems unfolding height_JObject_le by blast+
  ultimately show ?case using Object.IH
    by (simp add: DeepEqual_con depth_Check_def case_prod_unfold) (metis prod.collapse)
qed (simp_all add: DeepEqual_con depth_Check_def equal_int_ints equal_number_refl [OF m])

lemma equal_elems_sym:
  "length xs = length ys \<Longrightarrow> (\<And>x y. x \<in> set xs \<Longrightarrow> DeepEqual x y d m = DeepEqual y x d m) \<Longrightarrow>
     equal_elems xs ys d m = equal_elems ys xs d m"
proof (induction xs ys rule: list_induct2)
  case (Cons x xs y ys)
  have "DeepEqual x y d m = DeepEqual y x d m" by (rule Cons.prems) simp
  moreover have "equal_elems xs ys d m = equal_elems ys xs d m" by (rule Cons.IH, rule Cons.prems) simp
  ultimately show ?case by (simp split: sum.split)
qed simp

lemma equal_members_sym:
  "length xs = length ys \<Longrightarrow> (\<And>k x y. (k, x) \<in> set xs \<Longrightarrow> DeepEqual x y d m = DeepEqual y x d m) \<Longrightarrow>
     equal_members xs ys d m = equal_members ys xs d m"
proof (induction xs ys rule: list_induct2)
  case (Cons x xs y ys)
  have "DeepEqual (snd x) (snd y) d m = DeepEqual (snd y) (snd x) d m"
    using Cons.prems [of "fst x" "snd x"] by simp
  moreover have "equal_members xs ys d m = equal_members ys xs d m"
    using Cons.prems by (intro Cons.IH) auto
  ultimately show ?case by (cases x; cases y) (simp split: sum.split)
qed simp

lemma DeepEqual_sym:
  assumes m: "margin_ok margin"
  shows "DeepEqual lhs rhs depth margin = DeepEqual rhs lhs depth margin"
proof (induction lhs arbitrary: rhs depth rule: json_induct)
  case (Array xs)
  have "length ys = length xs \<Longrightarrow> equal_elems xs ys d margin = equal_elems ys xs d margin" for ys d
    using Array by (intro equal_elems_sym) auto
  note eq = this
  show ?case
  proof (cases rhs)
    case (JArray ys)
    show ?thesis
      using eq [of ys "depth - 1"] by (cases "length ys = length xs") (simp_all add: JArray DeepEqual_con depth_Check_def)
  qed (simp_all add: DeepEqual_con depth_Check_def equal_int_other equal_number_other t_defs)
next
  case (Object kvs)
  have "length ys = length kvs \<Longrightarrow> equal_members kvs ys d margin = equal_members ys kvs d margin" for ys d
    using Object by (intro equal_members_sym) auto
  note eq = this
  show ?case
  proof (cases rhs)
    case (JObject ys)
    show ?thesis
      using eq [of ys "depth - 1"] by (cases "length ys = length kvs") (simp_all add: JObject DeepEqual_con depth_Check_def)
  qed (simp_all add: DeepEqual_con depth_Check_def equal_int_other equal_number_other t_defs)
next
  case (Signed i)
  show ?case
    using equal_int_sym [of "JSigned i" _ rhs _ margin]
    by (cases rhs) (simp_all add: DeepEqual_con depth_Check_def equal_int_other equal_mixed t_defs)
next
  case (Unsigned i)
  show ?case
    using equal_int_sym [of "JUnsigned i" _ rhs _ margin]
    by (cases rhs) (simp_all add: DeepEqual_con depth_Check_def equal_int_other equal_mixed t_defs)
next
  case (Number d)
  show ?case
  proof (cases rhs)
    case (JNumber d')
    then show ?thesis using equal_number_sym [OF m, of d d'] by (auto simp: DeepEqual_con depth_Check_def)
  qed (simp_all add: DeepEqual_con depth_Check_def equal_number_other equal_mixed t_defs)
qed (case_tac rhs; simp add: DeepEqual_con depth_Check_def equal_int_other equal_number_other eq_commute t_defs)+


text \<open>Documents of the types whose comparison is exact.\<close>

fun exact_doc :: "json \<Rightarrow> bool" where
  "exact_doc (JNumber _) \<longleftrightarrow> False"
| "exact_doc (JDiscarded _) \<longleftrightarrow> False"
| "exact_doc (JCustom _ _) \<longleftrightarrow> False"
| "exact_doc (JArray xs) \<longleftrightarrow> list_all exact_doc xs"
| "exact_doc (JObject kvs) \<longleftrightarrow> list_all (\<lambda>p. exact_doc (snd p)) kvs"
| "exact_doc _ \<longleftrightarrow> True"

lemma canon_int_eq:
  "int_value lhs = Some i \<Longrightarrow> int_value rhs = Some k \<Longrightarrow> canon lhs = canon rhs \<longleftrightarrow> i = k"
  by (cases lhs; cases rhs)
    (auto simp: sint_eq_uint_iff eq_commute [of "uint _" "sint _"] dest: signed_word_eqI unsigned_word_eqI)

lemma canon_not_int:
  "int_value lhs = Some i \<Longrightarrow> int_value rhs = None \<Longrightarrow> canon lhs \<noteq> canon rhs"
  by (cases lhs; cases rhs) auto

lemma canon_simple [simp]:
  "JNull = canon j \<longleftrightarrow> j = JNull" "JBool b = canon j \<longleftrightarrow> j = JBool b"
  "JString s = canon j \<longleftrightarrow> j = JString s" "JBinary s = canon j \<longleftrightarrow> j = JBinary s"
  by (cases j; auto)+

lemma equal_elems_exact:
  "length xs = length ys \<Longrightarrow> (\<And>x y. x \<in> set xs \<Longrightarrow> y \<in> set ys \<Longrightarrow> DeepEqual x y d m = Inr (canon x = canon y)) \<Longrightarrow>
     equal_elems xs ys d m = Inr (map canon xs = map canon ys)"
  by (induction xs ys rule: list_induct2) auto

lemma equal_members_exact:
  "length xs = length ys \<Longrightarrow>
     (\<And>k x k' y. (k, x) \<in> set xs \<Longrightarrow> (k', y) \<in> set ys \<Longrightarrow> DeepEqual x y d m = Inr (canon x = canon y)) \<Longrightarrow>
     equal_members xs ys d m = Inr (map (\<lambda>(k, v). (k, canon v)) xs = map (\<lambda>(k, v). (k, canon v)) ys)"
proof (induction xs ys rule: list_induct2)
  case (Cons x xs y ys)
  have "DeepEqual (snd x) (snd y) d m = Inr (canon (snd x) = canon (snd y))"
    using Cons.prems [of "fst x" "snd x" "fst y" "snd y"] by simp
  moreover have "equal_members xs ys d m = Inr (map (\<lambda>(k, v). (k, canon v)) xs = map (\<lambda>(k, v). (k, canon v)) ys)"
    using Cons.prems by (intro Cons.IH) auto
  ultimately show ?case by (cases x; cases y) simp
qed simp

lemma DeepEqual_exact:
  "exact_doc lhs \<Longrightarrow> exact_doc rhs \<Longrightarrow> height lhs \<le> depth \<Longrightarrow>
     DeepEqual lhs rhs depth margin = Inr (canon lhs = canon rhs)"
proof (induction lhs arbitrary: rhs depth rule: json_induct)
  case (Array xs)
  have h: "0 < depth" "\<forall>x \<in> set xs. height x \<le> depth - 1"
    using Array.prems(3) unfolding height_JArray_le by blast+
  show ?case
  proof (cases rhs)
    case (JArray ys)
    have "length xs = length ys \<Longrightarrow> equal_elems xs ys (depth - 1) margin = Inr (map canon xs = map canon ys)"
      using Array h JArray by (intro equal_elems_exact) (auto simp: list_all_iff)
    then show ?thesis using h(1) by (auto simp: JArray DeepEqual_con depth_Check_def dest: map_eq_imp_length_eq)
  qed (use h(1) in \<open>auto simp: DeepEqual_con depth_Check_def\<close>)
next
  case (Object kvs)
  have h: "0 < depth" "\<forall>(k, v) \<in> set kvs. height v \<le> depth - 1"
    using Object.prems(3) unfolding height_JObject_le by blast+
  show ?case
  proof (cases rhs)
    case (JObject ys)
    have "length kvs = length ys \<Longrightarrow> equal_members kvs ys (depth - 1) margin
        = Inr (map (\<lambda>(k, v). (k, canon v)) kvs = map (\<lambda>(k, v). (k, canon v)) ys)"
      using Object h JObject by (intro equal_members_exact) (fastforce simp: list_all_iff)+
    then show ?thesis using h(1) by (auto simp: JObject DeepEqual_con depth_Check_def dest: map_eq_imp_length_eq)
  qed (use h(1) in \<open>auto simp: DeepEqual_con depth_Check_def\<close>)
next
  case (Signed i)
  then show ?case
    using canon_int_eq [of "JSigned i" "sint i" rhs] canon_not_int [of "JSigned i" "sint i" rhs]
      equal_int_ints [of "JSigned i" "sint i" rhs] equal_int_other [of rhs "JSigned i" margin]
    by (cases rhs) (auto simp: DeepEqual_con depth_Check_def)
next
  case (Unsigned i)
  then show ?case
    using canon_int_eq [of "JUnsigned i" "uint i" rhs] canon_not_int [of "JUnsigned i" "uint i" rhs]
      equal_int_ints [of "JUnsigned i" "uint i" rhs] equal_int_other [of rhs "JUnsigned i" margin]
    by (cases rhs) (auto simp: DeepEqual_con depth_Check_def)
qed (auto simp: DeepEqual_con depth_Check_def split: json.split)

subsection \<open>Flatten\<close>

lemma leaf_height: "(ks, w) \<in> set (leaves j) \<Longrightarrow> height w = 1"
  "(ks, w) \<in> set (leaves_members kvs) \<Longrightarrow> height w = 1"
  "(ks, w) \<in> set (leaves_elems idx xs) \<Longrightarrow> height w = 1"
  by (induction j and kvs and idx xs arbitrary: ks and ks and ks
      rule: leaves_leaves_members_leaves_elems.induct) auto

definition flat_pair :: "jv_key list \<times> json \<Rightarrow> json_pair" where
  "flat_pair = (\<lambda>(ks, w). (Join (CHR ''/'') False ks, w))"

lemma flatten_run:
  "\<forall>(ks, w) \<in> set ls. height w = 1 \<Longrightarrow>
     run_leaves (flatten_cb roomy_arena) [] ls (result, a) =
       Inr (result @ map flat_pair ls,
         a @ concat (map (\<lambda>(k, w). str_req False k @ copy_reqs False w) (map flat_pair ls)))"
proof (induction ls arbitrary: result a)
  case (Cons l ls)
  obtain ks w where l: "l = (ks, w)" by (cases l)
  have "Copy roomy_arena w 300 0 a' = Inr (w, a' @ copy_reqs False w)" for a'
    using Cons.prems by (simp add: l Copy_def NoCopyStrings_def doCopy_roomy)
  then show ?case using Cons by (simp add: l flatten_cb_def flat_pair_def)
qed simp

lemma Flatten_roomy:
  assumes "height (JObject kvs) \<le> depth"
  shows "\<exists>a'. Flatten roomy_arena (JObject kvs) depth a = Inr (JObject (map flat_pair (leaves (JObject kvs))), a')"
proof -
  have "0 < depth" using assms by (metis height_pos less_le_trans)
  moreover have "DeepIterate (JObject kvs) (flatten_cb roomy_arena) depth ([], a)
      = run_leaves (flatten_cb roomy_arena) [] (leaves (JObject kvs)) ([], a)"
    unfolding DeepIterate_def by (rule doDeepIterate_leaves(1) [OF assms])
  moreover have "\<forall>(ks, w) \<in> set (leaves (JObject kvs)). height w = 1"
    using leaf_height(1) by fast
  ultimately show ?thesis
    by (simp add: Flatten_def depth_Check_def flatten_run AssertType_def del: leaves.simps height.simps)
qed


text \<open>The flattened object is tagged as sorted but is not: its own lookup misses a member.\<close>

lemma flatten_not_sorted:
  "\<exists>a. Flatten roomy_arena (JObject [(''a'', JObject [(''x'', JNull)]), (''a.b'', JNull)]) 3 [] =
     Inr (JObject [(''/a/x'', JNull), (''/a.b'', JNull)], a)"
  "object_find [(''/a/x'', JNull), (''/a.b'', JNull)] ''/a/x'' = None"
proof -
  show "\<exists>a. Flatten roomy_arena (JObject [(''a'', JObject [(''x'', JNull)]), (''a.b'', JNull)]) 3 [] =
     Inr (JObject [(''/a/x'', JNull), (''/a.b'', JNull)], a)"
    using Flatten_roomy [of "[(''a'', JObject [(''x'', JNull)]), (''a.b'', JNull)]" 3 "[]"]
    by (simp add: flat_pair_def)
  show "object_find [(''/a/x'', JNull), (''/a.b'', JNull)] ''/a/x'' = None"
    by (simp add: object_find_def sortedFind.simps less_char_def)
qed

subsection \<open>Properties\<close>

text \<open>
  C32: a copy, for every arena: it asks for the blocks of the non-empty containers, strings and keys in
  document order. It throws \<^verbatim>\<open>bad_alloc\<close> exactly when the arena refuses one of them, at the first it
  refuses; otherwise it throws \<^verbatim>\<open>DepthError\<close> exactly when the document is higher than the depth, after
  the requests of what lies before the first value that is too deep; otherwise the copy is the
  document, and the requests are those of the whole document.
\<close>

theorem Copy_correct:
  "Copy oom src depth flags a =
     (let (reqs, deep) = copy_walk (flags = NoCopyStrings) depth src in
      if \<not> grants oom a reqs then Inl BadAlloc else if deep then Inl DepthError else Inr (src, a @ reqs)) \<and>
   (snd (copy_walk (flags = NoCopyStrings) depth src) \<longleftrightarrow> depth < height src) \<and>
   (height src \<le> depth \<longrightarrow>
     fst (copy_walk (flags = NoCopyStrings) depth src) = copy_reqs (flags = NoCopyStrings) src)"
  by (simp add: Copy_def copy_outcome outcome_def case_prod_unfold walk_depth walk_reqs)

theorem Copy_correct_witness:
  "Copy (\<lambda>a n. length a = 3) (JObject [(''k'', JArray [JNull, JString ''ab''])]) 3 0 [] = Inl BadAlloc \<and>
   Copy (\<lambda>a n. length a = 4) (JObject [(''k'', JArray [JNull, JString ''ab''])]) 3 0 []
     = Inr (JObject [(''k'', JArray [JNull, JString ''ab''])], [32, 1, 32, 2]) \<and>
   fst (copy_walk False 3 (JObject [(''k'', JArray [JNull, JString ''ab''])])) = [32, 1, 32, 2]"
  using Copy_correct [of "\<lambda>a n. length a = 3" "JObject [(''k'', JArray [JNull, JString ''ab''])]" 3 0 "[]"]
    Copy_correct [of "\<lambda>a n. length a = 4" "JObject [(''k'', JArray [JNull, JString ''ab''])]" 3 0 "[]"]
  by (simp add: str_req_def NoCopyStrings_def and_then_def)

text \<open>
  \<^verbatim>\<open>DeepEqual\<close> with a positive finite margin (the default one included) is symmetric in its
  result and its exceptions, and reflexive within the depth, infinities and NaN included.
\<close>

theorem DeepEqual_refl_sym:
  assumes "margin_ok margin"
  shows "DeepEqual lhs rhs depth margin = DeepEqual rhs lhs depth margin \<and>
    (height lhs \<le> depth \<longrightarrow> DeepEqual lhs lhs depth margin = Inr True)"
  using DeepEqual_sym [OF assms] DeepEqual_refl [OF assms] by blast

theorem DeepEqual_refl_sym_witness:
  "DeepEqual (JArray [JNumber 0]) (JArray [JNumber 0]) 2 DEFAULT_MARGIN = Inr True"
  using DeepEqual_refl_sym [OF margin_ok_default, of "JArray [JNumber 0]" "JArray [JNumber 0]" 2] by simp

text \<open>
  C33: on documents without doubles (and without discarded or custom values) \<^verbatim>\<open>DeepEqual\<close> decides
  equality of the documents up to the signedness tag of integers of the same value; a large
  unsigned integer never equals the negative integer of the same bits.
\<close>

theorem DeepEqual_decides_equality:
  assumes "exact_doc lhs" "exact_doc rhs" "height lhs \<le> depth"
  shows "DeepEqual lhs rhs depth margin = Inr (canon lhs = canon rhs)"
  using assms by (rule DeepEqual_exact)

theorem DeepEqual_decides_equality_witness:
  "DeepEqual (JArray [JSigned 5, JUnsigned (- 1)]) (JArray [JUnsigned 5, JSigned (- 1)]) 2 0 = Inr False"
  using DeepEqual_decides_equality [of "JArray [JSigned 5, JUnsigned (- 1)]" "JArray [JUnsigned 5, JSigned (- 1)]" 2 0]
  by simp

text \<open>
  \<^verbatim>\<open>Flatten\<close> of an object within the depth lists every leaf of the document once, in document
  order, under the joined keys of its path.
\<close>

theorem Flatten_correct:
  assumes "height (JObject kvs) \<le> depth"
  shows "\<exists>a'. Flatten roomy_arena (JObject kvs) depth a = Inr (JObject (map flat_pair (leaves (JObject kvs))), a')"
  using assms by (rule Flatten_roomy)

theorem Flatten_correct_witness:
  "\<exists>a'. Flatten roomy_arena (JObject [(''a'', JArray [JNull, JBool True])]) 3 [] =
     Inr (JObject [(''/a/0'', JNull), (''/a/1'', JBool True)], a')"
  using Flatten_correct [of "[(''a'', JArray [JNull, JBool True])]" 3 "[]"]
  by (simp add: flat_pair_def writeNumber_def nat_str.simps digit_chr_def char_of_def bit_0)

end
