(* ===== verification/Json_Sax.thy ===== *)
theory Json_Sax
  imports Json_Algo
begin

text \<open>
  The JSON text parser (\<^verbatim>\<open>parse_json.cpp\<close>). The tokenizer is RapidJSON's reader, which is not part
  of the repository: it is a parameter that turns a text into the events it reports to the handler,
  the buffer as its in-situ decoding leaves it, and possibly an error. The handler, a stack machine
  that builds the document in an arena, is modelled event by event.
\<close>

subsection \<open>The handler's state\<close>

datatype sax_tag = TagVal | TagArr | TagObj

text \<open>
  A frame holds a block of the arena by its tag (a union in the code, of which the tag selects the
  member), its capacity, how many cells are in use and the last key seen. A cell is \<^const>\<open>None\<close> until
  something is written to it. Capacities stay far below the 32 bits of the field, since a block of
  that many elements does not fit in memory. A write outside a block sets \<^verbatim>\<open>overrun\<close>.
\<close>

record sax_frame =
  arr_block :: "json option list"
  obj_block :: "json_pair option list"
  fsize :: nat
  cap :: nat
  cur_key :: string
  tag :: sax_tag

record sax_state =
  stack :: "sax_frame list"
  result :: json
  current :: sax_frame
  sax_log :: arena_log
  overrun :: bool

definition empty_frame :: sax_frame where
  "empty_frame = \<lparr>arr_block = [], obj_block = [], fsize = 0, cap = 0, cur_key = [], tag = TagVal\<rparr>"

definition sax_init :: "arena_log \<Rightarrow> sax_state" where
  "sax_init a = \<lparr>stack = [], result = JNull, current = empty_frame, sax_log = a, overrun = False\<rparr>"

subsection \<open>Blocks\<close>

text \<open>A store, \<^verbatim>\<open>memcpy\<close> and \<^verbatim>\<open>memmove\<close>; nothing when they leave the blocks they work on.\<close>

definition put_cell :: "nat \<Rightarrow> 'a \<Rightarrow> 'a option list \<Rightarrow> 'a option list option" where
  "put_cell i v blk = (if i < length blk then Some (blk[i := Some v]) else None)"

definition copy_cells :: "'a option list \<Rightarrow> 'a option list \<Rightarrow> nat \<Rightarrow> 'a option list option" where
  "copy_cells dst src n =
     (if n \<le> length dst \<and> n \<le> length src then Some (take n src @ drop n dst) else None)"

definition move_cells :: "nat \<Rightarrow> nat \<Rightarrow> nat \<Rightarrow> 'a option list \<Rightarrow> 'a option list option" where
  "move_cells dst src n blk =
     (if dst + n \<le> length blk \<and> src + n \<le> length blk
      then Some (take dst blk @ take n (drop src blk) @ drop (dst + n) blk) else None)"

text \<open>What the cells in use hold.\<close>

definition arr_items :: "sax_frame \<Rightarrow> json list" where
  "arr_items f = map the (take (fsize f) (arr_block f))"

definition obj_items :: "sax_frame \<Rightarrow> json_pair list" where
  "obj_items f = map the (take (fsize f) (obj_block f))"

text \<open>\<^verbatim>\<open>newCap\<close>: two at first, then twice the old capacity.\<close>

definition grow_cap :: "nat \<Rightarrow> nat" where
  "grow_cap c = (if c \<noteq> 0 then c * 2 else 2)"

text \<open>The new block, with the cells in use of the old one, if there is an old one.\<close>

definition grow_block :: "nat \<Rightarrow> 'a option list \<Rightarrow> nat \<Rightarrow> 'a option list option" where
  "grow_block newCap blk n =
     (if blk \<noteq> [] then copy_cells (replicate newCap None) blk n else Some (replicate newCap None))"

definition grow_array :: "arena_policy \<Rightarrow> sax_frame \<Rightarrow> arena_log \<Rightarrow> jv_error + sax_frame option \<times> arena_log" where
  "grow_array oom f a =
     (if fsize f = cap f then
        (case MakeArrayOf oom (grow_cap (cap f)) a of
           Inl e \<Rightarrow> Inl e
         | Inr a' \<Rightarrow>
             Inr (map_option (\<lambda>b. f\<lparr>arr_block := b, cap := grow_cap (cap f)\<rparr>)
                    (grow_block (grow_cap (cap f)) (arr_block f) (fsize f)), a'))
      else Inr (Some f, a))"

definition grow_object :: "arena_policy \<Rightarrow> sax_frame \<Rightarrow> arena_log \<Rightarrow> jv_error + sax_frame option \<times> arena_log" where
  "grow_object oom f a =
     (if fsize f = cap f then
        (case MakeObjectOf oom (grow_cap (cap f)) a of
           Inl e \<Rightarrow> Inl e
         | Inr a' \<Rightarrow>
             Inr (map_option (\<lambda>b. f\<lparr>obj_block := b, cap := grow_cap (cap f)\<rparr>)
                    (grow_block (grow_cap (cap f)) (obj_block f) (fsize f)), a'))
      else Inr (Some f, a))"

text \<open>\<^verbatim>\<open>SortedInsertJson\<close> on a block of which \<open>n\<close> cells are in use: the block and the new size.\<close>

definition SortedInsertJson_block ::
    "json_pair option list \<Rightarrow> nat \<Rightarrow> string \<Rightarrow> json \<Rightarrow> (json_pair option list \<times> nat) option" where
  "SortedInsertJson_block blk n key v =
     (let pos = lower_bound (map the (take n blk)) 0 n key in
      if pos = n then map_option (\<lambda>b. (b, n + 1)) (put_cell n (key, v) blk)
      else if fst (the (blk ! pos)) = key then
        map_option (\<lambda>b. (b, n)) (put_cell pos (fst (the (blk ! pos)), v) blk)
      else
        (case move_cells (pos + 1) pos (n - pos) blk of
           None \<Rightarrow> None
         | Some b \<Rightarrow> map_option (\<lambda>b'. (b', n + 1)) (put_cell pos (key, v) b)))"

definition appendToArray :: "arena_policy \<Rightarrow> json \<Rightarrow> sax_state \<Rightarrow> jv_error + sax_state" where
  "appendToArray oom view s =
     (case grow_array oom (current s) (sax_log s) of
        Inl e \<Rightarrow> Inl e
      | Inr (None, a) \<Rightarrow> Inr (s\<lparr>sax_log := a, overrun := True\<rparr>)
      | Inr (Some f, a) \<Rightarrow>
          (case put_cell (fsize f) view (arr_block f) of
             None \<Rightarrow> Inr (s\<lparr>sax_log := a, overrun := True\<rparr>)
           | Some b \<Rightarrow> Inr (s\<lparr>current := f\<lparr>arr_block := b, fsize := fsize f + 1\<rparr>, sax_log := a\<rparr>)))"

definition appendToObject :: "arena_policy \<Rightarrow> json \<Rightarrow> sax_state \<Rightarrow> jv_error + sax_state" where
  "appendToObject oom view s =
     (case grow_object oom (current s) (sax_log s) of
        Inl e \<Rightarrow> Inl e
      | Inr (None, a) \<Rightarrow> Inr (s\<lparr>sax_log := a, overrun := True\<rparr>)
      | Inr (Some f, a) \<Rightarrow>
          (case SortedInsertJson_block (obj_block f) (fsize f) (cur_key f) view of
             None \<Rightarrow> Inr (s\<lparr>sax_log := a, overrun := True\<rparr>)
           | Some (b, n) \<Rightarrow> Inr (s\<lparr>current := f\<lparr>obj_block := b, fsize := n\<rparr>, sax_log := a\<rparr>)))"

definition doAdd :: "arena_policy \<Rightarrow> json \<Rightarrow> sax_state \<Rightarrow> jv_error + sax_state" where
  "doAdd oom view s =
     (case tag (current s) of
        TagVal \<Rightarrow> Inr (s\<lparr>result := view\<rparr>)
      | TagObj \<Rightarrow> appendToObject oom view s
      | TagArr \<Rightarrow> appendToArray oom view s)"

definition sax_Push :: "nat \<Rightarrow> sax_state \<Rightarrow> jv_error + sax_state" where
  "sax_Push maxDepth s =
     (if length (stack s) = maxDepth then Inl DepthError
      else Inr (s\<lparr>stack := current s # stack s, current := empty_frame\<rparr>))"

text \<open>
  \<^verbatim>\<open>Pop\<close> of an empty stack is undefined in the code; the reader reports an end only after its
  start, and here the state stays as it is.
\<close>

definition sax_Pop :: "sax_state \<Rightarrow> sax_frame \<times> sax_state" where
  "sax_Pop s =
     (case stack s of
        [] \<Rightarrow> (current s, s)
      | f # fs \<Rightarrow> (current s, s\<lparr>current := f, stack := fs\<rparr>))"

subsection \<open>Events\<close>

datatype sax_event =
    EvNull
  | EvBool bool
  | EvInt u32
  | EvUint u32
  | EvInt64 u64
  | EvUint64 u64
  | EvDouble u64
  | EvString string
  | EvKey string
  | EvRawNumber string
  | EvStartArray
  | EvEndArray nat
  | EvStartObject
  | EvEndObject nat

definition StartArray :: "nat \<Rightarrow> sax_state \<Rightarrow> jv_error + sax_state" where
  "StartArray maxDepth s =
     (case sax_Push maxDepth s of
        Inl e \<Rightarrow> Inl e
      | Inr s' \<Rightarrow> Inr (s'\<lparr>current := (current s')\<lparr>tag := TagArr\<rparr>\<rparr>))"

definition StartObject :: "nat \<Rightarrow> sax_state \<Rightarrow> jv_error + sax_state" where
  "StartObject maxDepth s =
     (case sax_Push maxDepth s of
        Inl e \<Rightarrow> Inl e
      | Inr s' \<Rightarrow> Inr (s'\<lparr>current := (current s')\<lparr>tag := TagObj\<rparr>\<rparr>))"

definition EndArray :: "arena_policy \<Rightarrow> sax_state \<Rightarrow> jv_error + sax_state" where
  "EndArray oom s = (case sax_Pop s of (was, s') \<Rightarrow> doAdd oom (JArray (arr_items was)) s')"

definition EndObject :: "arena_policy \<Rightarrow> sax_state \<Rightarrow> jv_error + sax_state" where
  "EndObject oom s = (case sax_Pop s of (was, s') \<Rightarrow> doAdd oom (JObject (obj_items was)) s')"

text \<open>
  One event. Every callback returns true, except that of a raw number, which makes the reader stop.
\<close>

definition sax_step :: "arena_policy \<Rightarrow> nat \<Rightarrow> sax_event \<Rightarrow> sax_state \<Rightarrow> jv_error + sax_state" where
  "sax_step oom maxDepth ev s =
     (case ev of
        EvNull \<Rightarrow> doAdd oom JNull s
      | EvBool v \<Rightarrow> doAdd oom (JBool v) s
      | EvInt v \<Rightarrow> doAdd oom (view_signed v) s
      | EvUint v \<Rightarrow> doAdd oom (view_unsigned v) s
      | EvInt64 v \<Rightarrow> doAdd oom (view_signed v) s
      | EvUint64 v \<Rightarrow> doAdd oom (view_unsigned v) s
      | EvDouble v \<Rightarrow> doAdd oom (JNumber v) s
      | EvString str \<Rightarrow> doAdd oom (JString str) s
      | EvKey str \<Rightarrow> Inr (s\<lparr>current := (current s)\<lparr>cur_key := str\<rparr>\<rparr>)
      | EvRawNumber _ \<Rightarrow> Inr s
      | EvStartArray \<Rightarrow> StartArray maxDepth s
      | EvEndArray _ \<Rightarrow> EndArray oom s
      | EvStartObject \<Rightarrow> StartObject maxDepth s
      | EvEndObject _ \<Rightarrow> EndObject oom s)"

definition sax_continues :: "sax_event \<Rightarrow> bool" where
  "sax_continues ev = (case ev of EvRawNumber _ \<Rightarrow> False | _ \<Rightarrow> True)"

fun sax_run :: "arena_policy \<Rightarrow> nat \<Rightarrow> sax_event list \<Rightarrow> sax_state \<Rightarrow> jv_error + sax_state" where
  "sax_run oom maxDepth [] s = Inr s"
| "sax_run oom maxDepth (ev # evs) s =
     (case sax_step oom maxDepth ev s of
        Inl e \<Rightarrow> Inl e
      | Inr s' \<Rightarrow> if sax_continues ev then sax_run oom maxDepth evs s' else Inr s')"

subsection \<open>Entry points\<close>

definition at_step :: "nat \<times> nat \<Rightarrow> char \<Rightarrow> nat \<times> nat" where
  "at_step lc ch = (case lc of (line, col) \<Rightarrow> if ch = CHR 0x0A then (line + 1, 0) else (line, col + 1))"

definition atOffset :: "string \<Rightarrow> nat \<Rightarrow> string" where
  "atOffset src offs =
     (case foldl at_step (0, 0) (take offs src) of (line, col) \<Rightarrow>
        '' @ line('' @ nat_str line @ '') col('' @ nat_str col @ '')'')"

text \<open>What the reader does with a buffer; \<open>parse_error\<close> is the English message and the offset.\<close>

record rapid_result =
  events :: "sax_event list"
  decoded :: string
  parse_error :: "(string \<times> nat) option"

type_synonym rapid_reader = "string \<Rightarrow> rapid_result"

text \<open>\<^verbatim>\<open>LimitedStream\<close>: past the end the stream reads as NUL and does not move.\<close>

definition ls_Peek :: "string \<Rightarrow> nat \<Rightarrow> char" where
  "ls_Peek buf pos = (if pos = length buf then CHR 0x00 else buf ! pos)"

definition ls_Take :: "string \<Rightarrow> nat \<Rightarrow> char \<times> nat" where
  "ls_Take buf pos = (if pos = length buf then (CHR 0x00, pos) else (buf ! pos, pos + 1))"

text \<open>
  \<^verbatim>\<open>parseOwnedBuff\<close>: the position is computed on the buffer after the in-situ decoding. The
  reader's own requests to the arena are not counted.
\<close>

definition parseOwnedBuff ::
    "rapid_reader \<Rightarrow> arena_policy \<Rightarrow> string \<Rightarrow> nat \<Rightarrow> arena_log \<Rightarrow> jv_error + json \<times> arena_log" where
  "parseOwnedBuff reader oom buff maxDepth a =
     (let r = reader buff in
      case sax_run oom maxDepth (events r) (sax_init a) of
        Inl e \<Rightarrow> Inl e
      | Inr s \<Rightarrow>
          (case parse_error r of
             Some (msg, offs) \<Rightarrow> Inl (ParsingError (msg @ atOffset (decoded r) offs) offs)
           | None \<Rightarrow> Inr (result s, sax_log s)))"

definition ParseJsonInPlace ::
    "rapid_reader \<Rightarrow> arena_policy \<Rightarrow> string \<Rightarrow> nat \<Rightarrow> arena_log \<Rightarrow> jv_error + json \<times> arena_log" where
  "ParseJsonInPlace reader oom buff maxDepth a = parseOwnedBuff reader oom buff maxDepth a"

definition ParseJson ::
    "rapid_reader \<Rightarrow> arena_policy \<Rightarrow> string \<Rightarrow> nat \<Rightarrow> arena_log \<Rightarrow> jv_error + json \<times> arena_log" where
  "ParseJson reader oom json maxDepth a =
     (case arena_alloc oom (length json + 1) a of
        Inl e \<Rightarrow> Inl e
      | Inr a' \<Rightarrow> parseOwnedBuff reader oom json maxDepth a')"

text \<open>
  The overload that reads chunks from a \<^verbatim>\<open>membuff::In\<close> until one is empty. The growth of the
  buffer is not counted.
\<close>

definition ParseJson_In ::
    "rapid_reader \<Rightarrow> arena_policy \<Rightarrow> string list \<Rightarrow> nat \<Rightarrow> arena_log \<Rightarrow> jv_error + json \<times> arena_log" where
  "ParseJson_In reader oom chunks maxDepth a =
     parseOwnedBuff reader oom (concat (takeWhile (\<lambda>c. c \<noteq> []) chunks)) maxDepth a"

text \<open>\<open>contents\<close> is what opening the file gives: its chunks, or nothing.\<close>

definition ParseJsonFile ::
    "rapid_reader \<Rightarrow> arena_policy \<Rightarrow> string \<Rightarrow> string list option \<Rightarrow> nat \<Rightarrow> arena_log
       \<Rightarrow> jv_error + json \<times> arena_log" where
  "ParseJsonFile reader oom file contents maxDepth a =
     (case contents of
        None \<Rightarrow> Inl (ParsingError (''Could not open: '' @ file) 0)
      | Some chunks \<Rightarrow>
          (case ParseJson_In reader oom chunks maxDepth a of
             Inl (ParsingError msg pos) \<Rightarrow> Inl (ParsingError (file @ '': '' @ msg) pos)
           | res \<Rightarrow> res))"

subsection \<open>Trees of events\<close>

text \<open>
  The event sequences of documents, with duplicate keys and any member order: a leaf is one event
  with a value of its own.
\<close>

datatype sax_tree = SLeaf sax_event | SArr "sax_tree list" | SObj "(string \<times> sax_tree) list"

fun leaf_value :: "sax_event \<Rightarrow> json option" where
  "leaf_value EvNull = Some JNull"
| "leaf_value (EvBool b) = Some (JBool b)"
| "leaf_value (EvInt v) = Some (view_signed v)"
| "leaf_value (EvUint v) = Some (view_unsigned v)"
| "leaf_value (EvInt64 v) = Some (view_signed v)"
| "leaf_value (EvUint64 v) = Some (view_unsigned v)"
| "leaf_value (EvDouble v) = Some (JNumber v)"
| "leaf_value (EvString s) = Some (JString s)"
| "leaf_value _ = None"

lemma size_sax_member [termination_simp]:
  "(k, v) \<in> set kvs \<Longrightarrow> size v < Suc (size_list (size_prod (\<lambda>_. 0) size) kvs)"
  for v :: sax_tree
  by (induction kvs) fastforce+

fun tree_ok :: "sax_tree \<Rightarrow> bool" where
  "tree_ok (SLeaf ev) \<longleftrightarrow> leaf_value ev \<noteq> None"
| "tree_ok (SArr ts) \<longleftrightarrow> (\<forall>t \<in> set ts. tree_ok t)"
| "tree_ok (SObj kts) \<longleftrightarrow> (\<forall>(k, t) \<in> set kts. tree_ok t)"

fun tree_events :: "sax_tree \<Rightarrow> sax_event list" where
  "tree_events (SLeaf ev) = [ev]"
| "tree_events (SArr ts) = EvStartArray # concat (map tree_events ts) @ [EvEndArray (length ts)]"
| "tree_events (SObj kts) =
     EvStartObject # concat (map (\<lambda>(k, t). EvKey k # tree_events t) kts) @ [EvEndObject (length kts)]"

fun tree_value :: "sax_tree \<Rightarrow> json" where
  "tree_value (SLeaf ev) = the (leaf_value ev)"
| "tree_value (SArr ts) = JArray (map tree_value ts)"
| "tree_value (SObj kts) =
     JObject (foldl (\<lambda>acc (k, v). SortedInsertJson acc k v) [] (map (\<lambda>(k, t). (k, tree_value t)) kts))"

text \<open>How many containers are open at once.\<close>

fun tree_depth :: "sax_tree \<Rightarrow> nat" where
  "tree_depth (SLeaf ev) = 0"
| "tree_depth (SArr ts) = Suc (foldr max (map tree_depth ts) 0)"
| "tree_depth (SObj kts) = Suc (foldr max (map (\<lambda>(k, t). tree_depth t) kts) 0)"

subsection \<open>The handler's invariant\<close>

definition holds :: "'a option list \<Rightarrow> nat \<Rightarrow> nat \<Rightarrow> bool" where
  "holds blk n c \<longleftrightarrow> n \<le> c \<and> length blk = c \<and> (\<forall>i < n. blk ! i \<noteq> None)"

definition frame_inv :: "sax_frame \<Rightarrow> bool" where
  "frame_inv f \<longleftrightarrow>
     (case tag f of
        TagVal \<Rightarrow> fsize f = 0 \<and> cap f = 0 \<and> arr_block f = [] \<and> obj_block f = []
      | TagArr \<Rightarrow> holds (arr_block f) (fsize f) (cap f) \<and> obj_block f = []
      | TagObj \<Rightarrow> holds (obj_block f) (fsize f) (cap f) \<and> arr_block f = [] \<and> sorted_keys (obj_items f))"

definition sax_inv :: "nat \<Rightarrow> sax_state \<Rightarrow> bool" where
  "sax_inv maxDepth s \<longleftrightarrow> \<not> overrun s \<and>
     length (stack s) \<le> maxDepth \<and> frame_inv (current s) \<and> (\<forall>f \<in> set (stack s). frame_inv f)"

lemma frame_inv_empty [simp]: "frame_inv (empty_frame\<lparr>tag := t\<rparr>)" "frame_inv empty_frame"
  by (cases t) (simp_all add: frame_inv_def empty_frame_def holds_def obj_items_def)

lemma frame_inv_fields [simp]: "frame_inv (f\<lparr>cur_key := k\<rparr>) = frame_inv f"
  by (cases "tag f") (simp_all add: frame_inv_def obj_items_def)

lemma holds_take: "holds blk n c \<Longrightarrow> take n blk = map Some (map the (take n blk))"
  by (auto simp: holds_def list_eq_iff_nth_eq)

lemma holds_grow:
  assumes "holds blk n n"
  obtains b where "grow_block (grow_cap n) blk n = Some b" and "holds b n (grow_cap n)"
    and "take n b = take n blk" and "n < grow_cap n"
proof -
  have c: "length blk = n" "n < grow_cap n" using assms by (auto simp: holds_def grow_cap_def)
  define b where "b = take n blk @ drop n (replicate (grow_cap n) None)"
  have "grow_block (grow_cap n) blk n = Some b"
    using c by (auto simp: grow_block_def copy_cells_def b_def)
  moreover have "holds b n (grow_cap n)" using assms c by (auto simp: holds_def b_def nth_append)
  moreover have "take n b = take n blk" using c by (simp add: b_def)
  ultimately show thesis using that c by simp
qed

lemma holds_put:
  assumes "holds blk n c" and "n < c"
  shows "put_cell n v blk = Some (blk[n := Some v])" and "holds (blk[n := Some v]) (Suc n) c"
    and "map the (take (Suc n) (blk[n := Some v])) = map the (take n blk) @ [v]"
  using assms by (auto simp: put_cell_def holds_def less_Suc_eq take_Suc_conv_app_nth)

lemma holds_insert:
  assumes h: "holds blk n c" and n: "n < c" and srt: "sorted_keys (map the (take n blk))"
  obtains b m where "SortedInsertJson_block blk n key v = Some (b, m)" and "holds b m c"
    and "map the (take m b) = SortedInsertJson (map the (take n blk)) key v"
proof -
  define kvs where "kvs = map the (take n blk)"
  have len: "length kvs = n" "length blk = c" "n \<le> c" using h by (auto simp: kvs_def holds_def)
  have t: "take n blk = map Some kvs" using holds_take [OF h] by (simp add: kvs_def)
  have blk: "blk = map Some kvs @ drop n blk" using t by (metis append_take_drop_id)
  define pos where "pos = lower_bound kvs 0 n key"
  have pos: "pos \<le> n" using lower_bound_correct [of kvs 0 n key] srt len by (simp add: kvs_def pos_def)
  have at: "blk ! i = Some (kvs ! i)" if "i < n" for i using blk that len by (metis length_map nth_append nth_map)
  show thesis
  proof (cases "pos = n")
    case True
    with holds_put [OF h n] show thesis
      by (intro that [of "blk[n := Some (key, v)]" "Suc n"])
        (simp_all add: SortedInsertJson_block_def SortedInsertJson_def kvs_def [symmetric] pos_def [symmetric] len Let_def)
  next
    case False
    then have p: "pos < n" using pos by simp
    show thesis
    proof (cases "fst (kvs ! pos) = key")
      case True
      have "take n (blk[pos := Some (key, v)]) = map Some (kvs[pos := (key, v)])"
        using p t by (simp add: take_update_swap map_update)
      moreover have "holds (blk[pos := Some (key, v)]) n c"
        using h p by (auto simp: holds_def nth_list_update)
      ultimately show thesis
        using p len True at
        by (intro that [of "blk[pos := Some (key, v)]" n])
          (auto simp: SortedInsertJson_block_def SortedInsertJson_def kvs_def [symmetric] pos_def [symmetric]
            Let_def put_cell_def comp_def)
    next
      case other: False
      define b where "b = map Some (take pos kvs) @ Some (key, v) # map Some (drop pos kvs) @ drop (Suc n) blk"
      have m: "move_cells (pos + 1) pos (n - pos) blk =
          Some (take (Suc pos) blk @ take (n - pos) (drop pos blk) @ drop (Suc n) blk)"
        using p n len by (simp add: move_cells_def)
      have "take (n - pos) (drop pos blk) = map Some (drop pos kvs)"
        using t p by (metis drop_map drop_take)
      moreover have "take (Suc pos) blk = map Some (take (Suc pos) kvs)"
        using t p by (metis Suc_leI min.absorb1 take_map take_take)
      ultimately have "put_cell pos (key, v) (take (Suc pos) blk @ take (n - pos) (drop pos blk) @ drop (Suc n) blk) = Some b"
        using p len by (simp add: put_cell_def b_def take_Suc_conv_app_nth list_update_append)
      then have "SortedInsertJson_block blk n key v = Some (b, Suc n)"
        using False other p len at [OF p] m
        by (simp add: SortedInsertJson_block_def kvs_def [symmetric] pos_def [symmetric] Let_def)
      moreover have tk: "take (Suc n) b = map Some (take pos kvs @ (key, v) # drop pos kvs)"
        using p len by (simp add: b_def Suc_diff_le)
      moreover have "holds b (Suc n) c"
      proof -
        have "length b = c" using p n len by (simp add: b_def)
        moreover have "b ! i \<noteq> None" if "i < Suc n" for i
          using arg_cong [OF tk, of "\<lambda>l. l ! i"] that p len by (auto simp: nth_append nth_Cons')
        ultimately show ?thesis using n by (simp add: holds_def)
      qed
      ultimately show thesis
        using other False p len by (intro that [of b "Suc n"])
          (simp_all add: SortedInsertJson_def kvs_def [symmetric] pos_def [symmetric] Let_def comp_def)
    qed
  qed
qed

text \<open>An addition to the open container: the arena refuses, or the cells in use hold one more element.\<close>

definition adds :: "(sax_frame \<Rightarrow> sax_frame \<Rightarrow> bool) \<Rightarrow> arena_policy \<Rightarrow> sax_state \<Rightarrow> jv_error + sax_state \<Rightarrow> bool" where
  "adds R oom s res \<longleftrightarrow>
     (case res of
        Inl e \<Rightarrow> e = BadAlloc \<and> oom \<noteq> roomy_arena
      | Inr s' \<Rightarrow> R (current s) (current s') \<and> frame_inv (current s') \<and> cur_key (current s') = cur_key (current s) \<and>
          tag (current s') = tag (current s) \<and> stack s' = stack s \<and> result s' = result s \<and> overrun s' = overrun s)"

lemma alloc_result:
  "MakeArrayOf oom n a = Inl e \<Longrightarrow> e = BadAlloc \<and> oom \<noteq> roomy_arena"
  "MakeObjectOf oom n a = Inl e \<Longrightarrow> e = BadAlloc \<and> oom \<noteq> roomy_arena"
  by (auto simp: MakeArrayOf_def MakeObjectOf_def arena_alloc_def roomy_arena_def split: if_splits)

text \<open>Room is made: the same elements, in a frame that is not full.\<close>

lemma grow_array_room:
  assumes "frame_inv f" and "tag f = TagArr"
  shows "case grow_array oom f a of
      Inl e \<Rightarrow> e = BadAlloc \<and> oom \<noteq> roomy_arena
    | Inr (None, a') \<Rightarrow> False
    | Inr (Some g, a') \<Rightarrow> holds (arr_block g) (fsize g) (cap g) \<and> fsize g < cap g \<and> obj_block g = [] \<and>
        tag g = TagArr \<and> cur_key g = cur_key f \<and> fsize g = fsize f \<and> arr_items g = arr_items f"
proof -
  have h: "holds (arr_block f) (fsize f) (cap f)" and ob: "obj_block f = []"
    using assms by (simp_all add: frame_inv_def)
  show ?thesis
  proof (cases "fsize f = cap f")
    case True
    obtain b where b: "grow_block (grow_cap (cap f)) (arr_block f) (cap f) = Some b"
        "holds b (cap f) (grow_cap (cap f))" "take (cap f) b = take (cap f) (arr_block f)" "cap f < grow_cap (cap f)"
      using holds_grow h True by metis
    with True ob assms(2) show ?thesis
      by (auto simp: grow_array_def arr_items_def dest: alloc_result split: sum.splits)
  next
    case False
    with h ob assms(2) show ?thesis by (simp add: grow_array_def holds_def)
  qed
qed

lemma grow_object_room:
  assumes "frame_inv f" and "tag f = TagObj"
  shows "case grow_object oom f a of
      Inl e \<Rightarrow> e = BadAlloc \<and> oom \<noteq> roomy_arena
    | Inr (None, a') \<Rightarrow> False
    | Inr (Some g, a') \<Rightarrow> holds (obj_block g) (fsize g) (cap g) \<and> fsize g < cap g \<and> arr_block g = [] \<and>
        tag g = TagObj \<and> cur_key g = cur_key f \<and> fsize g = fsize f \<and> obj_items g = obj_items f"
proof -
  have h: "holds (obj_block f) (fsize f) (cap f)" and ob: "arr_block f = []"
    using assms by (simp_all add: frame_inv_def)
  show ?thesis
  proof (cases "fsize f = cap f")
    case True
    obtain b where b: "grow_block (grow_cap (cap f)) (obj_block f) (cap f) = Some b"
        "holds b (cap f) (grow_cap (cap f))" "take (cap f) b = take (cap f) (obj_block f)" "cap f < grow_cap (cap f)"
      using holds_grow h True by metis
    with True ob assms(2) show ?thesis
      by (auto simp: grow_object_def obj_items_def dest: alloc_result split: sum.splits)
  next
    case False
    with h ob assms(2) show ?thesis by (simp add: grow_object_def holds_def)
  qed
qed

lemma appendToArray_adds:
  assumes "frame_inv (current s)" and "tag (current s) = TagArr"
  shows "adds (\<lambda>f g. arr_items g = arr_items f @ [v] \<and> obj_items g = obj_items f) oom s (appendToArray oom v s)"
proof (cases "grow_array oom (current s) (sax_log s)")
  case (Inl e)
  with grow_array_room [OF assms, of oom "sax_log s"] show ?thesis by (simp add: appendToArray_def adds_def)
next
  case (Inr p)
  obtain g a where p: "p = (Some g, a)" and h: "holds (arr_block g) (fsize g) (cap g)" "fsize g < cap g"
    and g: "obj_block g = []" "tag g = TagArr" "cur_key g = cur_key (current s)" "arr_items g = arr_items (current s)"
    using grow_array_room [OF assms, of oom "sax_log s"] Inr by (auto split: option.splits prod.splits)
  have ob: "obj_block (current s) = []" using assms by (simp add: frame_inv_def)
  from holds_put [OF h, of v] g ob assms(2) show ?thesis
    by (simp add: appendToArray_def Inr p adds_def frame_inv_def arr_items_def obj_items_def)
qed

lemma appendToObject_adds:
  assumes "frame_inv (current s)" and "tag (current s) = TagObj"
  shows "adds (\<lambda>f g. obj_items g = SortedInsertJson (obj_items f) (cur_key f) v \<and> arr_items g = arr_items f) oom s
     (appendToObject oom v s)"
proof (cases "grow_object oom (current s) (sax_log s)")
  case (Inl e)
  with grow_object_room [OF assms, of oom "sax_log s"] show ?thesis by (simp add: appendToObject_def adds_def)
next
  case (Inr p)
  obtain g a where p: "p = (Some g, a)" and h: "holds (obj_block g) (fsize g) (cap g)" "fsize g < cap g"
    and g: "arr_block g = []" "tag g = TagObj" "cur_key g = cur_key (current s)" "obj_items g = obj_items (current s)"
    using grow_object_room [OF assms, of oom "sax_log s"] Inr by (auto split: option.splits prod.splits)
  have ob: "arr_block (current s) = []" and srt: "sorted_keys (obj_items (current s))"
    using assms by (simp_all add: frame_inv_def)
  have "sorted_keys (map the (take (fsize g) (obj_block g)))" using srt g(4) by (simp only: obj_items_def)
  then obtain b m where ins: "SortedInsertJson_block (obj_block g) (fsize g) (cur_key g) v = Some (b, m)" "holds b m (cap g)"
      "map the (take m b) = SortedInsertJson (obj_items (current s)) (cur_key (current s)) v"
    using holds_insert [OF h, of "cur_key g" v] g(3,4) by (metis obj_items_def)
  have "sorted_keys (SortedInsertJson (obj_items (current s)) (cur_key (current s)) v)"
    using srt by (rule ob.ins_sorted)
  with ins g ob assms(2) show ?thesis
    by (simp add: appendToObject_def Inr p adds_def frame_inv_def arr_items_def obj_items_def)
qed

subsection \<open>The abstract builder\<close>

text \<open>
  The builder without an arena: a frame is the list of its elements, there are no blocks and no
  requests. The handler refines it: it makes the same transitions and can only add \<^verbatim>\<open>bad_alloc\<close>.
\<close>

type_synonym abs_frame = "json list \<times> json_pair list \<times> string \<times> sax_tag"
type_synonym abs_state = "abs_frame list \<times> json \<times> abs_frame"

definition abs_frame_of :: "sax_frame \<Rightarrow> abs_frame" where
  "abs_frame_of f = (arr_items f, obj_items f, cur_key f, tag f)"

definition abs_of :: "sax_state \<Rightarrow> abs_state" where
  "abs_of s = (map abs_frame_of (stack s), result s, abs_frame_of (current s))"

fun abs_add :: "json \<Rightarrow> abs_state \<Rightarrow> abs_state" where
  "abs_add v (stk, r, (as, os, k, TagVal)) = (stk, v, (as, os, k, TagVal))"
| "abs_add v (stk, r, (as, os, k, TagArr)) = (stk, r, (as @ [v], os, k, TagArr))"
| "abs_add v (stk, r, (as, os, k, TagObj)) = (stk, r, (as, SortedInsertJson os k v, k, TagObj))"

definition abs_push :: "nat \<Rightarrow> sax_tag \<Rightarrow> abs_state \<Rightarrow> abs_state option" where
  "abs_push D t st =
     (case st of (stk, r, cur) \<Rightarrow> if length stk = D then None else Some (cur # stk, r, ([], [], [], t)))"

definition abs_pop :: "(abs_frame \<Rightarrow> json) \<Rightarrow> abs_state \<Rightarrow> abs_state" where
  "abs_pop val st =
     (case st of
        ([], r, cur) \<Rightarrow> abs_add (val cur) st
      | (f # stk, r, cur) \<Rightarrow> abs_add (val cur) (stk, r, f))"

definition abs_step :: "nat \<Rightarrow> sax_event \<Rightarrow> abs_state \<Rightarrow> abs_state option" where
  "abs_step D ev st =
     (case ev of
        EvKey key \<Rightarrow> (case st of (stk, r, (as, os, k, t)) \<Rightarrow> Some (stk, r, (as, os, key, t)))
      | EvRawNumber _ \<Rightarrow> Some st
      | EvStartArray \<Rightarrow> abs_push D TagArr st
      | EvStartObject \<Rightarrow> abs_push D TagObj st
      | EvEndArray _ \<Rightarrow> Some (abs_pop (\<lambda>f. JArray (fst f)) st)
      | EvEndObject _ \<Rightarrow> Some (abs_pop (\<lambda>f. JObject (fst (snd f))) st)
      | _ \<Rightarrow> Some (abs_add (the (leaf_value ev)) st))"

fun abs_run :: "nat \<Rightarrow> sax_event list \<Rightarrow> abs_state \<Rightarrow> abs_state option" where
  "abs_run D [] st = Some st"
| "abs_run D (ev # evs) st =
     (case abs_step D ev st of
        None \<Rightarrow> None
      | Some st' \<Rightarrow> if sax_continues ev then abs_run D evs st' else Some st')"

definition refines :: "nat \<Rightarrow> arena_policy \<Rightarrow> jv_error + sax_state \<Rightarrow> abs_state option \<Rightarrow> bool" where
  "refines D oom res ab \<longleftrightarrow>
     (case res of
        Inr s' \<Rightarrow> ab = Some (abs_of s') \<and> sax_inv D s'
      | Inl e \<Rightarrow> (e = BadAlloc \<and> oom \<noteq> roomy_arena) \<or> (e = DepthError \<and> ab = None))"

lemma doAdd_refines: "sax_inv D s \<Longrightarrow> refines D oom (doAdd oom v s) (Some (abs_add v (abs_of s)))"
proof (cases "tag (current s)")
  case TagVal
  assume "sax_inv D s"
  with TagVal show ?thesis by (simp add: refines_def doAdd_def abs_of_def abs_frame_of_def sax_inv_def)
next
  case TagArr
  assume inv: "sax_inv D s"
  then have "frame_inv (current s)" by (simp add: sax_inv_def)
  from appendToArray_adds [OF this TagArr, of v oom] inv TagArr show ?thesis
    by (auto simp: refines_def doAdd_def adds_def abs_of_def abs_frame_of_def sax_inv_def split: sum.splits)
next
  case TagObj
  assume inv: "sax_inv D s"
  then have "frame_inv (current s)" by (simp add: sax_inv_def)
  from appendToObject_adds [OF this TagObj, of v oom] inv TagObj show ?thesis
    by (auto simp: refines_def doAdd_def adds_def abs_of_def abs_frame_of_def sax_inv_def split: sum.splits)
qed

lemma items_empty [simp]:
  "arr_items (empty_frame\<lparr>tag := t\<rparr>) = []" "obj_items (empty_frame\<lparr>tag := t\<rparr>) = []"
  by (simp_all add: arr_items_def obj_items_def empty_frame_def)

lemma items_key [simp]: "arr_items (f\<lparr>cur_key := k\<rparr>) = arr_items f" "obj_items (f\<lparr>cur_key := k\<rparr>) = obj_items f"
  by (simp_all add: arr_items_def obj_items_def)

lemma sax_step_refines:
  assumes inv: "sax_inv D s"
  shows "refines D oom (sax_step oom D ev s) (abs_step D ev (abs_of s))"
proof -
  have add: "refines D oom (doAdd oom v t) (Some (abs_add v (abs_of t)))" if "sax_inv D t" for v t
    using that by (rule doAdd_refines)
  have pop: "refines D oom (case sax_Pop s of (was, s') \<Rightarrow> doAdd oom (vl was) s') (Some (abs_pop val (abs_of s)))"
    if "\<And>f. val (abs_frame_of f) = vl f" for vl val
  proof (cases "stack s")
    case Nil
    then show ?thesis using add [OF inv, of "vl (current s)"] that by (simp add: sax_Pop_def abs_pop_def abs_of_def)
  next
    case (Cons f fs)
    then have "sax_inv D (s\<lparr>current := f, stack := fs\<rparr>)" using inv by (simp add: sax_inv_def)
    from add [OF this, of "vl (current s)"] Cons that show ?thesis
      by (simp add: sax_Pop_def abs_pop_def abs_of_def)
  qed
  have push: "refines D oom (StartArray D s) (abs_push D TagArr (abs_of s))"
    "refines D oom (StartObject D s) (abs_push D TagObj (abs_of s))"
    using inv by (auto simp: StartArray_def StartObject_def sax_Push_def refines_def abs_push_def abs_of_def
        abs_frame_of_def sax_inv_def) (simp_all add: empty_frame_def)
  have key: "refines D oom (Inr (s\<lparr>current := (current s)\<lparr>cur_key := k\<rparr>\<rparr>)) (abs_step D (EvKey k) (abs_of s))" for k
    using inv by (simp add: refines_def abs_step_def abs_of_def abs_frame_of_def sax_inv_def)
  have raw: "refines D oom (Inr s) (Some (abs_of s))" using inv by (simp add: refines_def)
  show ?thesis
    using add [OF inv] push raw key pop [of "\<lambda>f. JArray (fst f)" "\<lambda>f. JArray (arr_items f)"]
      pop [of "\<lambda>f. JObject (fst (snd f))" "\<lambda>f. JObject (obj_items f)"]
    by (cases ev) (simp_all add: sax_step_def abs_step_def EndArray_def EndObject_def abs_frame_of_def)
qed

lemma sax_run_refines:
  "sax_inv D s \<Longrightarrow> refines D oom (sax_run oom D evs s) (abs_run D evs (abs_of s))"
proof (induction evs arbitrary: s)
  case (Cons ev evs)
  note step = sax_step_refines [OF Cons.prems, of oom ev]
  show ?case
  proof (cases "sax_step oom D ev s")
    case (Inl e)
    then show ?thesis using step by (auto simp: refines_def)
  next
    case (Inr s')
    then have "abs_step D ev (abs_of s) = Some (abs_of s')" and "sax_inv D s'"
      using step by (simp_all add: refines_def)
    then show ?thesis using Cons.IH [of s'] Inr by (simp add: refines_def)
  qed
qed (simp add: refines_def)

lemma sax_inv_init: "sax_inv D (sax_init a)"
  by (simp add: sax_inv_def sax_init_def)

definition abs_init :: abs_state where
  "abs_init = ([], JNull, ([], [], [], TagVal))"

lemma abs_of_init [simp]: "abs_of (sax_init a) = abs_init"
  by (simp add: abs_of_def sax_init_def abs_frame_of_def empty_frame_def abs_init_def arr_items_def obj_items_def)

subsection \<open>Building a tree\<close>

lemma abs_leaf:
  "leaf_value ev = Some v \<Longrightarrow> abs_step D ev st = Some (abs_add v st) \<and> sax_continues ev"
  by (cases ev) (auto simp: abs_step_def sax_continues_def)

definition depth_fits :: "nat \<Rightarrow> nat \<Rightarrow> abs_state \<Rightarrow> bool" where
  "depth_fits D n st \<longleftrightarrow> length (fst st) + n \<le> D"

lemma abs_add_stack [simp]: "fst (abs_add v st) = fst st"
  by (cases "(v, st)" rule: abs_add.cases) auto

definition runs_as :: "nat \<Rightarrow> sax_tree \<Rightarrow> bool" where
  "runs_as D t \<longleftrightarrow> (\<forall>st rest. length (fst st) \<le> D \<longrightarrow> abs_run D (tree_events t @ rest) st =
     (if length (fst st) + tree_depth t \<le> D then abs_run D rest (abs_add (tree_value t) st) else None))"

lemma abs_run_elems:
  assumes "\<forall>t \<in> set ts. runs_as D t" "length stk \<le> D"
  shows "abs_run D (concat (map tree_events ts) @ rest) (stk, r, (as, os, k, TagArr)) =
    (if \<forall>t \<in> set ts. length stk + tree_depth t \<le> D
     then abs_run D rest (stk, r, (as @ map tree_value ts, os, k, TagArr)) else None)"
  using assms
proof (induction ts arbitrary: as)
  case (Cons t ts)
  then show ?case by (simp add: runs_as_def)
qed simp

lemma abs_run_members:
  assumes "\<forall>(k, t) \<in> set kts. runs_as D t" "length stk \<le> D"
  shows "\<exists>k'. abs_run D (concat (map (\<lambda>(k, t). EvKey k # tree_events t) kts) @ rest) (stk, r, (as, os, k, TagObj)) =
    (if \<forall>(k, t) \<in> set kts. length stk + tree_depth t \<le> D
     then abs_run D rest (stk, r, (as, foldl (\<lambda>acc (k, v). SortedInsertJson acc k v) os
        (map (\<lambda>(k, t). (k, tree_value t)) kts), k', TagObj)) else None)"
  using assms
proof (induction kts arbitrary: os k)
  case (Cons p kts)
  obtain k1 t where p: "p = (k1, t)" by (cases p)
  have t: "runs_as D t" using Cons.prems p by simp
  obtain k' where k': "abs_run D (concat (map (\<lambda>(k, t). EvKey k # tree_events t) kts) @ rest)
       (stk, r, (as, SortedInsertJson os k1 (tree_value t), k1, TagObj)) =
    (if \<forall>(k, t) \<in> set kts. length stk + tree_depth t \<le> D
     then abs_run D rest (stk, r, (as, foldl (\<lambda>acc (k, v). SortedInsertJson acc k v)
        (SortedInsertJson os k1 (tree_value t)) (map (\<lambda>(k, t). (k, tree_value t)) kts), k', TagObj)) else None)"
    using Cons.IH [of "SortedInsertJson os k1 (tree_value t)" k1] Cons.prems by auto
  then show ?case using t Cons.prems(2)
    by (intro exI [of _ k']) (simp add: p runs_as_def abs_step_def sax_continues_def)
qed auto

lemma tree_depth_le:
  "Suc (foldr max ns 0) + m \<le> D \<longleftrightarrow> Suc m \<le> D \<and> (\<forall>n \<in> set ns. Suc m + n \<le> D)" for ns :: "nat list"
  by (induction ns) auto

lemma tree_depth_SArr:
  "m + tree_depth (SArr ts) \<le> D \<longleftrightarrow> Suc m \<le> D \<and> (\<forall>t \<in> set ts. Suc m + tree_depth t \<le> D)"
  using tree_depth_le [of "map tree_depth ts" m D] by (simp add: add.commute)

lemma tree_depth_SObj:
  "m + tree_depth (SObj kts) \<le> D \<longleftrightarrow> Suc m \<le> D \<and> (\<forall>(k, t) \<in> set kts. Suc m + tree_depth t \<le> D)"
  using tree_depth_le [of "map (\<lambda>(k, t). tree_depth t) kts" m D] by (simp add: add.commute case_prod_unfold)

lemma abs_run_tree: "tree_ok t \<Longrightarrow> runs_as D t"
proof (induction t rule: tree_value.induct)
  case (1 ev)
  then show ?case using abs_leaf [of ev] by (auto simp: runs_as_def)
next
  case (2 ts)
  have ih: "\<forall>t \<in> set ts. runs_as D t" using 2 by simp
  show ?case
    unfolding runs_as_def
  proof (intro allI impI)
    fix st :: abs_state and rest
    assume le: "length (fst st) \<le> D"
    obtain stk r cur where st: "st = (stk, r, cur)" by (cases st)
    show "abs_run D (tree_events (SArr ts) @ rest) st =
      (if length (fst st) + tree_depth (SArr ts) \<le> D then abs_run D rest (abs_add (tree_value (SArr ts)) st) else None)"
    proof (cases "length stk = D")
      case True
      then show ?thesis by (simp add: st abs_step_def abs_push_def)
    next
      case False
      then have "length (cur # stk) \<le> D" using le st by simp
      from abs_run_elems [OF ih this, of "EvEndArray (length ts) # rest" r "[]" "[]" "[]"]
      show ?thesis using False le unfolding st fst_conv tree_depth_SArr
        by (auto simp: abs_step_def abs_push_def abs_pop_def sax_continues_def simp del: tree_depth.simps)
    qed
  qed
next
  case (3 kts)
  have ih: "\<forall>(k, t) \<in> set kts. runs_as D t" using 3 by auto
  show ?case
    unfolding runs_as_def
  proof (intro allI impI)
    fix st :: abs_state and rest
    assume le: "length (fst st) \<le> D"
    obtain stk r cur where st: "st = (stk, r, cur)" by (cases st)
    show "abs_run D (tree_events (SObj kts) @ rest) st =
      (if length (fst st) + tree_depth (SObj kts) \<le> D then abs_run D rest (abs_add (tree_value (SObj kts)) st) else None)"
    proof (cases "length stk = D")
      case True
      then show ?thesis by (simp add: st abs_step_def abs_push_def)
    next
      case False
      then have "length (cur # stk) \<le> D" using le st by simp
      from abs_run_members [OF ih this, of "EvEndObject (length kts) # rest" r "[]" "[]" "[]"]
      show ?thesis using False le unfolding st fst_conv tree_depth_SObj
        by (auto simp: abs_step_def abs_push_def abs_pop_def sax_continues_def simp del: tree_depth.simps)
    qed
  qed
qed


lemma tree_value_sorted: "tree_value (SObj kts) = JObject kvs \<Longrightarrow> sorted_keys kvs"
  using ob.inserts_sorted [of "[]"] by auto

lemma SaxHandler_parses:
  assumes "tree_ok t" "events (reader buff) = tree_events t" "parse_error (reader buff) = None"
  shows "if tree_depth t \<le> maxDepth
    then \<exists>a'. ParseJsonInPlace reader roomy_arena buff maxDepth a = Inr (tree_value t, a')
    else ParseJsonInPlace reader roomy_arena buff maxDepth a = Inl DepthError"
proof -
  have i: "abs_of (sax_init a) = ([], JNull, ([], [], [], TagVal))" by (simp add: abs_init_def)
  have ab: "abs_run maxDepth (tree_events t) (abs_of (sax_init a)) =
      (if tree_depth t \<le> maxDepth then Some ([], tree_value t, ([], [], [], TagVal)) else None)"
    using abs_run_tree [OF assms(1), of maxDepth, unfolded runs_as_def, rule_format, of "abs_of (sax_init a)" "[]"]
    by (simp add: abs_init_def)
  have r: "refines maxDepth roomy_arena (sax_run roomy_arena maxDepth (tree_events t) (sax_init a))
      (abs_run maxDepth (tree_events t) (abs_of (sax_init a)))" using sax_inv_init by (rule sax_run_refines)
  show ?thesis
  proof (cases "sax_run roomy_arena maxDepth (tree_events t) (sax_init a)")
    case (Inl e)
    then show ?thesis using r ab assms(2)
      by (auto simp: refines_def ParseJsonInPlace_def parseOwnedBuff_def Let_def split: if_splits)
  next
    case (Inr s)
    then have "tree_depth t \<le> maxDepth" "result s = tree_value t"
      using r ab by (auto simp: refines_def abs_of_def split: if_splits)
    then show ?thesis using Inr assms(2,3) by (simp add: ParseJsonInPlace_def parseOwnedBuff_def Let_def)
  qed
qed

subsection \<open>Properties\<close>

text \<open>
  whatever events the tokenizer reports and whenever the arena refuses, the handler never puts
  an element past the block it has allocated, keeps every object it builds sorted by key, and never
  has more than \<^verbatim>\<open>maxDepth\<close> containers open.
\<close>

theorem SaxHandler_in_bounds:
  assumes "sax_run oom maxDepth evs (sax_init a) = Inr s"
  shows "sax_inv maxDepth s"
  using sax_run_refines [OF sax_inv_init [of maxDepth a], of oom evs] assms by (simp add: refines_def)

theorem SaxHandler_in_bounds_witness:
  "\<exists>s. sax_run roomy_arena 2 [EvStartArray, EvNull, EvNull, EvNull] (sax_init []) = Inr s \<and> sax_inv 2 s
     \<and> cap (current s) = 4"
proof -
  obtain s where s: "sax_run roomy_arena 2 [EvStartArray, EvNull, EvNull, EvNull] (sax_init []) = Inr s"
    "cap (current s) = 4"
    by (simp add: sax_step_def sax_continues_def StartArray_def sax_Push_def sax_init_def doAdd_def
        appendToArray_def grow_array_def grow_block_def copy_cells_def put_cell_def empty_frame_def grow_cap_def)
  then show ?thesis using SaxHandler_in_bounds [OF s(1)] by blast
qed

text \<open>
  C11: the handler refines the builder that has neither arena nor blocks. On every sequence of events, for
  every arena, it ends in the state of the builder, with no write outside a block, every block in use
  filled up to its size and every object sorted by key; or it throws \<^verbatim>\<open>DepthError\<close>, and then the builder
  refuses the depth, or \<^verbatim>\<open>bad_alloc\<close>, and that only with an arena that can refuse.
\<close>

theorem SaxHandler_refines_builder:
  "case sax_run oom maxDepth evs (sax_init a) of
     Inr s \<Rightarrow> abs_run maxDepth evs abs_init = Some (abs_of s) \<and> \<not> overrun s \<and> sax_inv maxDepth s
   | Inl e \<Rightarrow> (e = BadAlloc \<and> oom \<noteq> roomy_arena) \<or> (e = DepthError \<and> abs_run maxDepth evs abs_init = None)"
  using sax_run_refines [OF sax_inv_init [of maxDepth a], of oom evs]
  by (auto simp: refines_def sax_inv_def split: sum.splits)

text \<open>
  C12: when the tokenizer reports the events of a document, the parser returns that document, with
  every object sorted and a repeated key keeping its last value, exactly if its containers nest no
  deeper than \<^verbatim>\<open>maxDepth\<close>, and throws \<^verbatim>\<open>DepthError\<close> otherwise.
\<close>

theorem ParseJson_builds_document:
  assumes "tree_ok t" "events (reader buff) = tree_events t" "parse_error (reader buff) = None"
  shows "if tree_depth t \<le> maxDepth
    then \<exists>a'. ParseJsonInPlace reader roomy_arena buff maxDepth a = Inr (tree_value t, a')
    else ParseJsonInPlace reader roomy_arena buff maxDepth a = Inl DepthError"
  using assms by (rule SaxHandler_parses)

theorem ParseJson_builds_document_witness:
  "\<exists>a'. ParseJsonInPlace (\<lambda>s. \<lparr>events = tree_events (SObj [(''b'', SLeaf EvNull), (''a'', SLeaf (EvUint 1)),
        (''b'', SLeaf (EvBool True))]), decoded = s, parse_error = None\<rparr>) roomy_arena ''text'' 1 []
     = Inr (JObject [(''a'', JUnsigned 1), (''b'', JBool True)], a')"
  using ParseJson_builds_document [of "SObj [(''b'', SLeaf EvNull), (''a'', SLeaf (EvUint 1)), (''b'', SLeaf (EvBool True))]"
      "\<lambda>s. \<lparr>events = tree_events (SObj [(''b'', SLeaf EvNull), (''a'', SLeaf (EvUint 1)),
        (''b'', SLeaf (EvBool True))]), decoded = s, parse_error = None\<rparr>" "''text''" 1 "[]"]
  by (simp add: view_unsigned_def SortedInsertJson_def lower_bound.simps)

end
