(* ===== verification/Json_Dump.thy ===== *)
theory Json_Dump
  imports Json_Sax
begin

text \<open>
  The JSON text writer (\<^verbatim>\<open>dump_json.cpp\<close>): \<^verbatim>\<open>visit\<close> walks a document and calls RapidJSON's writer,
  which is a parameter from the calls to a text. The text round trip is proved from what RapidJSON
  documents of its writer and reader, stated as \<open>event_law\<close> and \<open>rereads\<close>.
\<close>

subsection \<open>Writer calls\<close>

datatype wr_event =
    WrNull
  | WrBool bool
  | WrDouble u64
  | WrRawNumber string
  | WrString string
  | WrKey string
  | WrStartArray
  | WrEndArray nat
  | WrStartObject
  | WrEndObject nat

text \<open>The types without a case of their own (binary, discarded, custom) are written as null.\<close>

fun visit_leaf :: "json \<Rightarrow> wr_event" where
  "visit_leaf (JNumber d) = WrDouble d"
| "visit_leaf (JSigned i) = WrRawNumber (int_str (sint i))"
| "visit_leaf (JUnsigned u) = WrRawNumber (int_str (uint u))"
| "visit_leaf (JString s) = WrString s"
| "visit_leaf (JBool b) = WrBool b"
| "visit_leaf _ = WrNull"

text \<open>
  \<^verbatim>\<open>assert(!key.empty())\<close> ends the process unless the library was built with \<^verbatim>\<open>NDEBUG\<close>, the
  parameter \<open>ndebug\<close>; an exception is the other way not to return.
\<close>

datatype dump_fail = DumpThrows jv_error | AssertionFailed

fun visit :: "bool \<Rightarrow> json \<Rightarrow> nat \<Rightarrow> wr_event list \<Rightarrow> dump_fail + wr_event list"
and visit_elems :: "bool \<Rightarrow> json list \<Rightarrow> nat \<Rightarrow> wr_event list \<Rightarrow> dump_fail + wr_event list"
and visit_members :: "bool \<Rightarrow> json_pair list \<Rightarrow> nat \<Rightarrow> wr_event list \<Rightarrow> dump_fail + wr_event list" where
  "visit ndebug (JArray xs) depth wr =
     (case depth_Check depth of
        Some e \<Rightarrow> Inl (DumpThrows e)
      | None \<Rightarrow>
          (case visit_elems ndebug xs (depth - 1) (wr @ [WrStartArray]) of
             Inl e \<Rightarrow> Inl e | Inr wr' \<Rightarrow> Inr (wr' @ [WrEndArray (length xs)])))"
| "visit ndebug (JObject kvs) depth wr =
     (case depth_Check depth of
        Some e \<Rightarrow> Inl (DumpThrows e)
      | None \<Rightarrow>
          (case visit_members ndebug kvs (depth - 1) (wr @ [WrStartObject]) of
             Inl e \<Rightarrow> Inl e | Inr wr' \<Rightarrow> Inr (wr' @ [WrEndObject (length kvs)])))"
| "visit ndebug json depth wr =
     (case depth_Check depth of
        Some e \<Rightarrow> Inl (DumpThrows e)
      | None \<Rightarrow> Inr (wr @ [visit_leaf json]))"
| "visit_elems ndebug [] depth wr = Inr wr"
| "visit_elems ndebug (i # is) depth wr =
     (case visit ndebug i depth wr of Inl e \<Rightarrow> Inl e | Inr wr' \<Rightarrow> visit_elems ndebug is depth wr')"
| "visit_members ndebug [] depth wr = Inr wr"
| "visit_members ndebug ((key, v) # kvs) depth wr =
     (if key = [] \<and> \<not> ndebug then Inl AssertionFailed
      else (case visit ndebug v depth (wr @ [WrKey key]) of
        Inl e \<Rightarrow> Inl e | Inr wr' \<Rightarrow> visit_members ndebug kvs depth wr'))"

record dump_options =
  pretty :: bool
  maxDepth :: nat
  indentChar :: char
  indent :: nat

definition default_options :: dump_options where
  "default_options = \<lparr>pretty = False, maxDepth = 300, indentChar = CHR '' '', indent = 4\<rparr>"

text \<open>The writers: the pretty one with its indent, and the basic one.\<close>

record rapid_writers =
  pretty_writer :: "char \<Rightarrow> nat \<Rightarrow> wr_event list \<Rightarrow> string"
  basic_writer :: "wr_event list \<Rightarrow> string"

definition DumpJsonInto :: "bool \<Rightarrow> rapid_writers \<Rightarrow> string \<Rightarrow> json \<Rightarrow> dump_options \<Rightarrow> dump_fail + string" where
  "DumpJsonInto ndebug w buf json opts =
     (case visit ndebug json (maxDepth opts) [] of
        Inl e \<Rightarrow> Inl e
      | Inr wr \<Rightarrow>
          Inr (buf @ (if pretty opts then pretty_writer w (indentChar opts) (indent opts) wr
                      else basic_writer w wr)))"

definition DumpJson :: "bool \<Rightarrow> rapid_writers \<Rightarrow> json \<Rightarrow> dump_options \<Rightarrow> dump_fail + string" where
  "DumpJson ndebug w json opts = DumpJsonInto ndebug w [] json opts"

subsection \<open>The calls for a document\<close>

fun wr_events :: "json \<Rightarrow> wr_event list" where
  "wr_events (JArray xs) = WrStartArray # concat (map wr_events xs) @ [WrEndArray (length xs)]"
| "wr_events (JObject kvs) =
     WrStartObject # concat (map (\<lambda>(k, v). WrKey k # wr_events v) kvs) @ [WrEndObject (length kvs)]"
| "wr_events j = [visit_leaf j]"

text \<open>
  Without empty keys the calls are those of the document when its height is within the depth; an
  empty key is written by a library built with \<^verbatim>\<open>NDEBUG\<close> and otherwise fails its assertion, if the
  depth has not been refused before.
\<close>

fun keys_ok :: "json \<Rightarrow> bool" where
  "keys_ok (JArray xs) \<longleftrightarrow> (\<forall>x \<in> set xs. keys_ok x)"
| "keys_ok (JObject kvs) \<longleftrightarrow> (\<forall>(k, v) \<in> set kvs. k \<noteq> [] \<and> keys_ok v)"
| "keys_ok _ \<longleftrightarrow> True"

lemma visit_events:
  "ndebug \<or> keys_ok json \<Longrightarrow>
     visit ndebug json depth wr = (if height json \<le> depth then Inr (wr @ wr_events json) else Inl (DumpThrows DepthError))"
  "ndebug \<or> (\<forall>x \<in> set xs. keys_ok x) \<Longrightarrow> visit_elems ndebug xs depth wr =
     (if \<forall>x \<in> set xs. height x \<le> depth then Inr (wr @ concat (map wr_events xs)) else Inl (DumpThrows DepthError))"
  "ndebug \<or> (\<forall>(k, v) \<in> set kvs. k \<noteq> [] \<and> keys_ok v) \<Longrightarrow> visit_members ndebug kvs depth wr =
     (if \<forall>(k, v) \<in> set kvs. height v \<le> depth
      then Inr (wr @ concat (map (\<lambda>(k, v). WrKey k # wr_events v) kvs)) else Inl (DumpThrows DepthError))"
proof (induction ndebug json depth wr and ndebug xs depth wr and ndebug kvs depth wr
    rule: visit_visit_elems_visit_members.induct)
  case (1 ndebug xs depth wr)
  then show ?case by (auto simp: depth_Check_def height_JArray_le simp del: height.simps(1))
next
  case (2 ndebug kvs depth wr)
  then show ?case by (auto simp: depth_Check_def height_JObject_le simp del: height.simps(2))
next
  case (5 ndebug v vs depth wr)
  then show ?case by (cases "height v \<le> depth") auto
next
  case (7 ndebug k v kvs depth wr)
  then show ?case by (cases "height v \<le> depth") (auto intro: bexI [rotated])
qed (auto simp: depth_Check_def)

lemma visit_asserts:
  "visit False json depth wr = Inr wr' \<Longrightarrow> keys_ok json"
  "visit_elems False xs depth wr = Inr wr' \<Longrightarrow> x \<in> set xs \<Longrightarrow> keys_ok x"
  "visit_members False kvs depth wr = Inr wr' \<Longrightarrow> (k, v) \<in> set kvs \<Longrightarrow> k \<noteq> [] \<and> keys_ok v"
proof (induction False json depth wr and False xs depth wr and False kvs depth wr
    arbitrary: wr' and wr' x and wr' k v rule: visit_visit_elems_visit_members.induct)
qed (auto split: option.splits sum.splits if_splits)

subsection \<open>Reading the text back\<close>

text \<open>
  What RapidJSON documents: the reader reports, for a text the writer made, one event for each call
  to the writer. A number written as an integer that fits 64 bits comes back as an integer event of
  that value; NaN and the infinities are written as null. The reader runs without
  \<^verbatim>\<open>kParseFullPrecisionFlag\<close>, for which RapidJSON promises a double within 3 units in the last place of the
  one written: \<open>rd\<close> says which.
\<close>

definition int_json :: "int \<Rightarrow> json" where
  "int_json i = (if i < 0 then JSigned (word_of_int i) else JUnsigned (word_of_int i))"

definition finite_dbl :: "u64 \<Rightarrow> bool" where
  "finite_dbl d \<longleftrightarrow> (case dbl_of d of DFin _ \<Rightarrow> True | _ \<Rightarrow> False)"

definition near_ulp :: "u64 \<Rightarrow> u64 \<Rightarrow> bool" where
  "near_ulp d d' \<longleftrightarrow> finite_dbl d' \<and> \<bar>int (unat d') - int (unat d)\<bar> \<le> 3"

definition event_law :: "(u64 \<Rightarrow> u64) \<Rightarrow> (wr_event \<Rightarrow> sax_event) \<Rightarrow> bool" where
  "event_law rd tr \<longleftrightarrow>
     tr WrNull = EvNull \<and> (\<forall>b. tr (WrBool b) = EvBool b) \<and> (\<forall>s. tr (WrString s) = EvString s) \<and>
     (\<forall>k. tr (WrKey k) = EvKey k) \<and>
     tr WrStartArray = EvStartArray \<and> (\<forall>n. tr (WrEndArray n) = EvEndArray n) \<and>
     tr WrStartObject = EvStartObject \<and> (\<forall>n. tr (WrEndObject n) = EvEndObject n) \<and>
     (\<forall>d. tr (WrDouble d) = (if finite_dbl d then EvDouble (rd d) else EvNull)) \<and>
     (\<forall>d. finite_dbl d \<longrightarrow> near_ulp d (rd d)) \<and>
     (\<forall>i. - (2 ^ 63) \<le> i \<and> i < 2 ^ 64 \<longrightarrow> leaf_value (tr (WrRawNumber (int_str i))) = Some (int_json i))"

text \<open>The reader agrees with the writer on a text.\<close>

definition rereads :: "(wr_event \<Rightarrow> sax_event) \<Rightarrow> rapid_reader \<Rightarrow> wr_event list \<Rightarrow> string \<Rightarrow> bool" where
  "rereads tr reader calls text \<longleftrightarrow>
     events (reader text) = map tr calls \<and> parse_error (reader text) = None"

text \<open>What survives the text form.\<close>

fun text_canon :: "(u64 \<Rightarrow> u64) \<Rightarrow> json \<Rightarrow> json" where
  "text_canon rd (JSigned i) = int_json (sint i)"
| "text_canon rd (JNumber d) = (if finite_dbl d then JNumber (rd d) else JNull)"
| "text_canon rd (JArray xs) = JArray (map (text_canon rd) xs)"
| "text_canon rd (JObject kvs) = JObject (map (\<lambda>(k, v). (k, text_canon rd v)) kvs)"
| "text_canon rd (JBinary _) = JNull"
| "text_canon rd (JDiscarded _) = JNull"
| "text_canon rd (JCustom _ _) = JNull"
| "text_canon rd j = j"

fun doc_tree :: "(wr_event \<Rightarrow> sax_event) \<Rightarrow> json \<Rightarrow> sax_tree" where
  "doc_tree tr (JArray xs) = SArr (map (doc_tree tr) xs)"
| "doc_tree tr (JObject kvs) = SObj (map (\<lambda>(k, v). (k, doc_tree tr v)) kvs)"
| "doc_tree tr j = SLeaf (tr (visit_leaf j))"

lemma doc_tree_events: "event_law rd tr \<Longrightarrow> tree_events (doc_tree tr j) = map tr (wr_events j)"
proof (induction j rule: json_induct)
  case (Array xs)
  have eq: "map (tree_events \<circ> doc_tree tr) xs = map (map tr \<circ> wr_events) xs"
    using Array by (intro map_cong) simp_all
  show ?case using Array.prems by (simp add: event_law_def map_concat eq del: map_eq_conv)
next
  case (Object kvs)
  have eq: "map ((\<lambda>(k, t). EvKey k # tree_events t) \<circ> (\<lambda>(k, v). (k, doc_tree tr v))) kvs
      = map (map tr \<circ> (\<lambda>(k, v). WrKey k # wr_events v)) kvs"
    using Object by (intro map_cong) (auto simp: event_law_def)
  show ?case using Object.prems by (simp add: event_law_def map_concat eq del: map_eq_conv)
qed simp_all

lemma uint_range: "- (2 ^ 63) \<le> uint u \<and> uint u < 2 ^ 64" for u :: u64
proof -
  have "- (2 ^ 63) \<le> (0 :: int)" by simp
  also have "0 \<le> uint u" by (rule uint_ge_0)
  finally show ?thesis using uint_bounded [of u] by simp
qed

lemma sint_range: "- (2 ^ 63) \<le> sint i \<and> sint i < 2 ^ 64" for i :: u64
  using sint_greater_eq [of i] sint_less [of i] by simp

lemma doc_tree_ok: "event_law rd tr \<Longrightarrow> tree_ok (doc_tree tr j)"
proof (induction j rule: json_induct)
  case (Signed i)
  then show ?case using sint_range [of i] by (simp add: event_law_def)
next
  case (Unsigned u)
  then show ?case using uint_range [of u] by (simp add: event_law_def)
qed (auto simp: event_law_def)

lemma text_canon_sorted: "sorted_keys kvs \<Longrightarrow> sorted_keys (map (\<lambda>(k, v). (k, text_canon rd v)) kvs)"
  by (simp add: comp_def case_prod_unfold)

lemma doc_tree_value: "event_law rd tr \<Longrightarrow> wf_json j \<Longrightarrow> tree_value (doc_tree tr j) = text_canon rd j"
proof (induction j rule: json_induct)
  case (Array xs)
  then show ?case by (simp add: list_all_iff)
next
  case (Object kvs)
  have "map (\<lambda>(k, t). (k, tree_value t)) (map (\<lambda>(k, v). (k, doc_tree tr v)) kvs) = map (\<lambda>(k, v). (k, text_canon rd v)) kvs"
    using Object by (auto simp: list_all_iff)
  moreover have "sorted_keys (map (\<lambda>(k, v). (k, text_canon rd v)) kvs)"
    using Object.prems(2) by (intro text_canon_sorted) simp
  ultimately show ?case by (simp only: doc_tree.simps tree_value.simps ob.inserts_mono text_canon.simps)
next
  case (Signed i)
  then show ?case using sint_range [of i] by (simp add: event_law_def)
next
  case (Unsigned u)
  then show ?case using uint_range [of u] by (simp add: event_law_def int_json_def)
qed (simp_all add: event_law_def)

lemma doc_tree_depth: "tree_depth (doc_tree tr j) \<le> height j"
proof (induction j rule: json_induct)
  case (Array xs)
  have "\<forall>x \<in> set xs. tree_depth (doc_tree tr x) \<le> foldr max (map height xs) 0"
    using Array foldr_max_le [of "map height xs" "foldr max (map height xs) 0"] by (fastforce intro: order_trans)
  then show ?case by simp
next
  case (Object kvs)
  have "\<forall>p \<in> set kvs. tree_depth (doc_tree tr (snd p)) \<le> foldr max (map (\<lambda>p. height (snd p)) kvs) 0"
    using Object foldr_max_le [of "map (\<lambda>p. height (snd p)) kvs" "foldr max (map (\<lambda>p. height (snd p)) kvs) 0"]
    by (fastforce intro: order_trans)
  then show ?case by (simp add: case_prod_unfold)
qed simp_all


text \<open>
  The depth limits of the two directions differ: parsing counts containers, dumping counts levels,
  so the parser accepts a document that the writer refuses under the same limit.
\<close>

lemma depth_limits_differ:
  "tree_depth (SArr [SLeaf EvNull]) \<le> 1"
  "visit ndebug (tree_value (SArr [SLeaf EvNull])) 1 [] = Inl (DumpThrows DepthError)"
  by (simp_all add: depth_Check_def)

subsection \<open>Properties\<close>

text \<open>
  Dumping hands the writer exactly the calls of the document when its height is within the
  depth, and throws \<^verbatim>\<open>DepthError\<close> otherwise; an empty key ends a process with assertions.
\<close>

lemma DumpJson_depth:
  assumes "ndebug \<or> keys_ok json"
  shows "DumpJson ndebug w json opts =
     (if height json \<le> maxDepth opts
      then Inr (if pretty opts then pretty_writer w (indentChar opts) (indent opts) (wr_events json)
                else basic_writer w (wr_events json))
      else Inl (DumpThrows DepthError))"
  using assms by (simp add: DumpJson_def DumpJsonInto_def visit_events)

text \<open>
  C13: JSON text round trip, relative to RapidJSON's documented behaviour: whenever dumping a
  well-formed document returns - with the assertions on it does so only for documents without empty keys -
  the text is parsed, under any depth of at least the document's height, to the same document, up
  to the signedness tag of non-negative integers, the last 3 units of doubles, and null for what JSON text
  cannot carry (binary, discarded and custom values, NaN and infinities).
\<close>

theorem JsonText_roundtrip:
  assumes "event_law rd tr" "wf_json j" "DumpJson ndebug w j opts = Inr tx"
    "rereads tr reader (wr_events j) tx" "height j \<le> depth"
  shows "(\<exists>a'. ParseJsonInPlace reader roomy_arena tx depth a = Inr (text_canon rd j, a')) \<and>
    height j \<le> maxDepth opts \<and> (ndebug \<or> keys_ok j) \<and>
    tx = (if pretty opts then pretty_writer w (indentChar opts) (indent opts) (wr_events j)
          else basic_writer w (wr_events j))"
proof -
  have keys: "ndebug \<or> keys_ok j"
    using assms(3) visit_asserts(1) by (cases ndebug) (auto simp: DumpJson_def DumpJsonInto_def split: sum.splits)
  have "tree_depth (doc_tree tr j) \<le> depth" using doc_tree_depth [of tr j] assms(5) by simp
  then have "\<exists>a'. ParseJsonInPlace reader roomy_arena tx depth a = Inr (text_canon rd j, a')"
    using SaxHandler_parses [OF doc_tree_ok [OF assms(1), of j], of reader tx depth a]
      doc_tree_events [OF assms(1), of j] doc_tree_value [OF assms(1,2)] assms(4)
    by (simp add: rereads_def)
  with keys assms(3) show ?thesis
    by (auto simp: DumpJson_def DumpJsonInto_def visit_events split: if_splits)
qed

text \<open>The integers of a text, read as RapidJSON documents; for the witness.\<close>

fun sample_event :: "wr_event \<Rightarrow> sax_event" where
  "sample_event WrNull = EvNull"
| "sample_event (WrBool b) = EvBool b"
| "sample_event (WrDouble d) = (if finite_dbl d then EvDouble d else EvNull)"
| "sample_event (WrRawNumber s) =
     (case s of
        [] \<Rightarrow> EvNull
      | c # ds \<Rightarrow> if c = CHR ''-'' then EvInt64 (word_of_int (- int (str_nat ds)))
                  else EvUint64 (word_of_nat (str_nat s)))"
| "sample_event (WrString s) = EvString s"
| "sample_event (WrKey k) = EvKey k"
| "sample_event WrStartArray = EvStartArray"
| "sample_event (WrEndArray n) = EvEndArray n"
| "sample_event WrStartObject = EvStartObject"
| "sample_event (WrEndObject n) = EvEndObject n"

lemma nat_str_head: "nat_str n = c # cs \<Longrightarrow> c \<noteq> CHR ''-''"
  using nat_str_digits [of n] by (auto simp: is_digit_def less_eq_char_def)

lemma sample_event_law: "event_law id sample_event"
proof -
  have "leaf_value (sample_event (WrRawNumber (int_str i))) = Some (int_json i)" for i
  proof (cases "i < 0")
    case True
    then show ?thesis by (simp add: int_str_def int_json_def view_signed_def)
  next
    case False
    obtain c cs where c: "nat_str (nat i) = c # cs" by (cases "nat_str (nat i)") auto
    have "str_nat (c # cs) = nat i" by (metis c str_nat_nat_str)
    moreover have "word_of_nat (nat i) = (word_of_int i :: u64)" using False by simp
    ultimately show ?thesis using False nat_str_head [OF c]
      by (simp add: int_str_def int_json_def c view_unsigned_def)
  qed
  then show ?thesis by (simp add: event_law_def near_ulp_def)
qed

theorem JsonText_roundtrip_witness:
  "\<exists>a'. ParseJsonInPlace (\<lambda>s. \<lparr>events = map sample_event (wr_events (JObject [(''a'', JSigned 7)])),
       decoded = s, parse_error = None\<rparr>) roomy_arena ''{'' 2 [] = Inr (JObject [(''a'', JUnsigned 7)], a')"
proof -
  have d: "DumpJson False \<lparr>pretty_writer = \<lambda>c n evs. [], basic_writer = \<lambda>evs. ''{''\<rparr>
      (JObject [(''a'', JSigned 7)]) default_options = Inr ''{''"
    by (simp add: DumpJson_depth default_options_def)
  show ?thesis
    using JsonText_roundtrip [OF sample_event_law _ d, of
        "\<lambda>s. \<lparr>events = map sample_event (wr_events (JObject [(''a'', JSigned 7)])), decoded = s, parse_error = None\<rparr>" 2 "[]"]
    by (simp add: rereads_def int_json_def)
qed

lemma DumpJson_empty_key:
  "DumpJson False w (JObject [([], JNull)]) default_options = Inl AssertionFailed"
  by (simp add: DumpJson_def DumpJsonInto_def depth_Check_def default_options_def)

end
