(* ===== verification/Msgpack_Dump.thy ===== *)
theory Msgpack_Dump
  imports Json_Algo
begin

text \<open>
  The MessagePack writer (\<^verbatim>\<open>dump_msgpack.cpp\<close>). The output buffer is the list of the bytes written
  to it. Big-endian words are lists of bytes; the reader's \<^verbatim>\<open>fromBig\<close> is here too, next to the
  lemma that the two are inverse.
\<close>

subsection \<open>Big-endian numbers\<close>

fun toBig :: "nat \<Rightarrow> nat \<Rightarrow> u8 list" where
  "toBig 0 n = []"
| "toBig (Suc k) n = toBig k (n div 256) @ [word_of_nat (n mod 256)]"

definition fromBig :: "u8 list \<Rightarrow> nat" where
  "fromBig bs = foldl (\<lambda>n b. 256 * n + unat b) 0 bs"

lemma toBig_length [simp]: "length (toBig k n) = k"
  by (induction k n rule: toBig.induct) auto

lemma unat_byte [simp]: "unat (word_of_nat (n mod 256) :: u8) = n mod 256"
  using mod_less_divisor [of 256 n] by (simp add: unat_of_nat take_bit_nat_eq_self)

lemma fromBig_toBig: "n < 256 ^ k \<Longrightarrow> fromBig (toBig k n) = n"
proof (induction k n rule: toBig.induct)
  case (2 k n)
  then have "fromBig (toBig k (n div 256)) = n div 256" by (simp add: less_mult_imp_div_less ac_simps)
  then show ?case by (simp add: fromBig_def)
qed (simp add: fromBig_def)

lemma toBig_1: "toBig 1 n = [word_of_nat (n mod 256)]"
  by simp

lemma fromBig_bound: "fromBig bs < 256 ^ length bs"
proof (induction bs rule: rev_induct)
  case (snoc b bs)
  have "unat b < 256" using unsigned_less [of b, where 'a = nat] by simp
  with snoc show ?case by (simp add: fromBig_def)
qed (simp add: fromBig_def)

subsection \<open>Writers\<close>

definition bytes_of :: "string \<Rightarrow> u8 list" where
  "bytes_of s = map byte_of s"

definition writeType :: "nat \<Rightarrow> u8 list" where
  "writeType w = [word_of_nat w]"

definition writeString :: "string \<Rightarrow> u8 list" where
  "writeString sv =
     (let sz = length sv in
      (if sz \<le> 31 then writeType (160 + sz)
       else if sz \<le> 255 then writeType 0xd9 @ toBig 1 sz
       else if sz \<le> 65535 then writeType 0xda @ toBig 2 sz
       else writeType 0xdb @ toBig 4 sz) @ bytes_of sv)"

text \<open>The low \<open>8 * k\<close> bits of a word, what converting to the narrower type keeps.\<close>

definition low_bytes :: "nat \<Rightarrow> u64 \<Rightarrow> u8 list" where
  "low_bytes k i = toBig k (unat i mod 256 ^ k)"

definition writeNegInt :: "u64 \<Rightarrow> u8 list" where
  "writeNegInt i =
     (if -32 \<le> sint i then low_bytes 1 i
      else if -128 \<le> sint i then writeType 0xD0 @ low_bytes 1 i
      else if -32768 \<le> sint i then writeType 0xD1 @ low_bytes 2 i
      else if -2147483648 \<le> sint i then writeType 0xD2 @ low_bytes 4 i
      else writeType 0xD3 @ low_bytes 8 i)"

definition writePosInt :: "u64 \<Rightarrow> u8 list" where
  "writePosInt i =
     (let n = unat i in
      if n < 128 then writeType n
      else if n \<le> 255 then writeType 0xCC @ toBig 1 n
      else if n \<le> 65535 then writeType 0xCD @ toBig 2 n
      else if n \<le> 4294967295 then writeType 0xCE @ toBig 4 n
      else writeType 0xCF @ toBig 8 n)"

definition writeArrayHead :: "nat \<Rightarrow> u8 list" where
  "writeArrayHead sz =
     (if sz \<le> 15 then writeType (144 + sz)
      else if sz \<le> 65535 then writeType 0xdc @ toBig 2 sz
      else writeType 0xdd @ toBig 4 sz)"

definition writeObjectHead :: "nat \<Rightarrow> u8 list" where
  "writeObjectHead sz =
     (if sz \<le> 15 then writeType (128 + sz)
      else if sz \<le> 65535 then writeType 0xde @ toBig 2 sz
      else writeType 0xdf @ toBig 4 sz)"

definition writeBinary :: "string \<Rightarrow> u8 list" where
  "writeBinary s =
     (let sz = length s in
      (if sz \<le> 255 then writeType 0xc4 @ toBig 1 sz
       else if sz \<le> 65535 then writeType 0xc5 @ toBig 2 sz
       else writeType 0xc6 @ toBig 4 sz) @ bytes_of s)"

text \<open>The types with no case in the switch (discarded, custom) write nothing.\<close>

fun write_leaf :: "json \<Rightarrow> u8 list" where
  "write_leaf JNull = writeType 0xc0"
| "write_leaf (JBool b) = writeType (if b then 0xc3 else 0xc2)"
| "write_leaf (JNumber d) = writeType 0xcb @ toBig 8 (unat d)"
| "write_leaf (JSigned i) = (if sint i < 0 then writeNegInt i else writePosInt i)"
| "write_leaf (JUnsigned u) = writePosInt u"
| "write_leaf (JBinary s) = writeBinary s"
| "write_leaf (JString s) = writeString s"
| "write_leaf _ = []"

fun DumpMsgPackInto :: "u8 list \<Rightarrow> json \<Rightarrow> nat \<Rightarrow> jv_error + u8 list"
and dump_elems :: "u8 list \<Rightarrow> json list \<Rightarrow> nat \<Rightarrow> jv_error + u8 list"
and dump_members :: "u8 list \<Rightarrow> json_pair list \<Rightarrow> nat \<Rightarrow> jv_error + u8 list" where
  "DumpMsgPackInto buf (JArray xs) depth =
     (case depth_Check depth of
        Some e \<Rightarrow> Inl e
      | None \<Rightarrow> dump_elems (buf @ writeArrayHead (length xs)) xs (depth - 1))"
| "DumpMsgPackInto buf (JObject kvs) depth =
     (case depth_Check depth of
        Some e \<Rightarrow> Inl e
      | None \<Rightarrow> dump_members (buf @ writeObjectHead (length kvs)) kvs (depth - 1))"
| "DumpMsgPackInto buf json depth =
     (case depth_Check depth of
        Some e \<Rightarrow> Inl e
      | None \<Rightarrow> Inr (buf @ write_leaf json))"
| "dump_elems buf [] depth = Inr buf"
| "dump_elems buf (v # vs) depth =
     (case DumpMsgPackInto buf v depth of
        Inl e \<Rightarrow> Inl e | Inr buf' \<Rightarrow> dump_elems buf' vs depth)"
| "dump_members buf [] depth = Inr buf"
| "dump_members buf ((k, v) # kvs) depth =
     (case DumpMsgPackInto (buf @ writeString k) v depth of
        Inl e \<Rightarrow> Inl e | Inr buf' \<Rightarrow> dump_members buf' kvs depth)"

definition DumpMsgPack :: "json \<Rightarrow> nat \<Rightarrow> jv_error + u8 list" where
  "DumpMsgPack json maxDepth = DumpMsgPackInto [] json maxDepth"

subsection \<open>The encoding\<close>

text \<open>The bytes of a document, without the depth.\<close>

fun encode :: "json \<Rightarrow> u8 list" where
  "encode (JArray xs) = writeArrayHead (length xs) @ concat (map encode xs)"
| "encode (JObject kvs) =
     writeObjectHead (length kvs) @ concat (map (\<lambda>(k, v). writeString k @ encode v) kvs)"
| "encode j = write_leaf j"

lemma dump_encode:
  "DumpMsgPackInto buf json depth =
      (if height json \<le> depth then Inr (buf @ encode json) else Inl DepthError)"
  "dump_elems buf xs depth =
      (if \<forall>x \<in> set xs. height x \<le> depth then Inr (buf @ concat (map encode xs)) else Inl DepthError)"
  "dump_members buf kvs depth =
      (if \<forall>(k, v) \<in> set kvs. height v \<le> depth
       then Inr (buf @ concat (map (\<lambda>(k, v). writeString k @ encode v) kvs)) else Inl DepthError)"
proof (induction buf json depth and buf xs depth and buf kvs depth
    rule: DumpMsgPackInto_dump_elems_dump_members.induct)
  case (1 buf xs depth)
  then show ?case by (auto simp: depth_Check_def height_JArray_le simp del: height.simps(1))
next
  case (2 buf kvs depth)
  then show ?case by (auto simp: depth_Check_def height_JObject_le simp del: height.simps(2))
next
  case (5 buf v vs depth)
  then show ?case by (cases "height v \<le> depth") auto
next
  case (7 buf k v kvs depth)
  then show ?case by (cases "height v \<le> depth") auto
qed (auto simp: depth_Check_def)

text \<open>
  Values of the types the writer skips leave an array with fewer elements than its header says.
\<close>

lemma dump_custom_writes_nothing:
  "DumpMsgPack (JArray [JCustom 0 0]) 5 = Inr [0x91]"
  by (simp add: DumpMsgPack_def depth_Check_def writeArrayHead_def writeType_def)

subsection \<open>Properties\<close>

text \<open>
  dumping to MessagePack appends exactly the encoding of the document when the document's
  height is within \<^verbatim>\<open>maxDepth\<close>, and throws \<^verbatim>\<open>DepthError\<close> otherwise.
\<close>

theorem DumpMsgPack_depth:
  "DumpMsgPackInto buf json maxDepth =
     (if height json \<le> maxDepth then Inr (buf @ encode json) else Inl DepthError)"
  by (rule dump_encode(1))

end
