(* ===== verification/Msgpack_Parse.thy ===== *)
theory Msgpack_Parse
  imports Msgpack_Dump
begin

text \<open>
  The MessagePack reader (\<^verbatim>\<open>parse_msgpack.cpp\<close>): a recursive descent over the bytes left, with
  the depth as the bound of the recursion and a discarded value as the error result. The state is
  the bytes between \<^verbatim>\<open>ptr\<close> and \<^verbatim>\<open>end\<close>, what has been asked of the arena, and whether \<^verbatim>\<open>Consume\<close> has
  ever been asked for more bytes than there are before \<^verbatim>\<open>end\<close>: it does not check.
\<close>

subsection \<open>State and leaves\<close>

record mp_state =
  left :: "u8 list"
  asked :: arena_log
  past_end :: bool

definition ErrEOF :: json where "ErrEOF = JDiscarded ''unexpected eof''"
definition ErrOOM :: json where "ErrOOM = JDiscarded ''unexpected oom''"
definition ErrTooDeep :: json where "ErrTooDeep = JDiscarded ''recursion is too deep''"

definition is_discarded :: "json \<Rightarrow> bool" where
  "is_discarded j \<longleftrightarrow> Is j t_discarded"

definition mp_left :: "mp_state \<Rightarrow> nat" where
  "mp_left st = length (left st)"

definition mp_consume :: "nat \<Rightarrow> mp_state \<Rightarrow> u8 list \<times> mp_state" where
  "mp_consume amount st =
     (take amount (left st),
      st\<lparr>left := drop amount (left st), past_end := past_end st \<or> mp_left st < amount\<rparr>)"

text \<open>
  \<^verbatim>\<open>unpackTrivial<T>\<close> for the unsigned and signed types of \<open>k\<close> bytes, for \<^verbatim>\<open>float\<close> and for
  \<^verbatim>\<open>double\<close>: \<open>view\<close> is the \<^verbatim>\<open>JsonView\<close> constructor of the type.
\<close>

definition unpackTrivial :: "nat \<Rightarrow> (nat \<Rightarrow> json) \<Rightarrow> mp_state \<Rightarrow> json \<times> mp_state" where
  "unpackTrivial k view st =
     (if mp_left st < k then (ErrEOF, st)
      else (case mp_consume k st of (bs, st') \<Rightarrow> (view (fromBig bs), st')))"

definition view_u :: "nat \<Rightarrow> json" where
  "view_u n = JUnsigned (word_of_nat n)"

definition view_i :: "nat \<Rightarrow> nat \<Rightarrow> json" where
  "view_i k n = JSigned (word_of_int (signed_take_bit (8 * k - 1) (int n)))"

definition view_f :: "nat \<Rightarrow> json" where
  "view_f n = JNumber (float_widen (word_of_nat n))"

definition view_d :: "nat \<Rightarrow> json" where
  "view_d n = JNumber (word_of_nat n)"

text \<open>A length read with \<^verbatim>\<open>unpackTrivial\<close>, or the discarded value to return.\<close>

definition unpackLen :: "nat \<Rightarrow> mp_state \<Rightarrow> json + nat \<times> mp_state" where
  "unpackLen k st =
     (case unpackTrivial k view_u st of
        (JUnsigned n, st') \<Rightarrow> Inr (unat n, st')
      | (err, st') \<Rightarrow> Inl err)"

definition take_view :: "(string \<Rightarrow> json) \<Rightarrow> nat \<Rightarrow> mp_state \<Rightarrow> json \<times> mp_state" where
  "take_view con n st =
     (if mp_left st < n then (ErrEOF, st)
      else (case mp_consume n st of (bs, st') \<Rightarrow> (con (map chr_of bs), st')))"

definition unpackStr :: "nat \<Rightarrow> mp_state \<Rightarrow> json \<times> mp_state" where
  "unpackStr k st =
     (case unpackLen k st of Inl err \<Rightarrow> (err, st) | Inr (n, st') \<Rightarrow> take_view JString n st')"

definition unpackBin :: "nat \<Rightarrow> nat \<Rightarrow> mp_state \<Rightarrow> json \<times> mp_state" where
  "unpackBin k add st =
     (case unpackLen k st of Inl err \<Rightarrow> (err, st) | Inr (n, st') \<Rightarrow> take_view JBinary (n + add) st')"

definition unpackExt :: "nat \<Rightarrow> mp_state \<Rightarrow> json \<times> mp_state" where
  "unpackExt sz st = take_view JBinary (sz + 1) st"

text \<open>The cases of the switch on the head byte that read no elements.\<close>

definition parse_leaf :: "nat \<Rightarrow> mp_state \<Rightarrow> json \<times> mp_state" where
  "parse_leaf h st =
     (if h < 0x80 then (JUnsigned (word_of_nat h), st)
      else if 0xe0 \<le> h then (view_i 1 h, st)
      else if 0xa0 \<le> h \<and> h < 0xc0 then take_view JString (h mod 32) st
      else if h = 0xc0 then (JNull, st)
      else if h = 0xc1 then (JDiscarded ''0xC1 is not allowed in MsgPack'', st)
      else if h = 0xc2 then (JBool False, st)
      else if h = 0xc3 then (JBool True, st)
      else if h = 0xcc then unpackTrivial 1 view_u st
      else if h = 0xcd then unpackTrivial 2 view_u st
      else if h = 0xce then unpackTrivial 4 view_u st
      else if h = 0xcf then unpackTrivial 8 view_u st
      else if h = 0xd0 then unpackTrivial 1 (view_i 1) st
      else if h = 0xd1 then unpackTrivial 2 (view_i 2) st
      else if h = 0xd2 then unpackTrivial 4 (view_i 4) st
      else if h = 0xd3 then unpackTrivial 8 (view_i 8) st
      else if h = 0xca then unpackTrivial 4 view_f st
      else if h = 0xcb then unpackTrivial 8 view_d st
      else if h = 0xd9 then unpackStr 1 st
      else if h = 0xda then unpackStr 2 st
      else if h = 0xdb then unpackStr 4 st
      else if h = 0xc4 then unpackBin 1 0 st
      else if h = 0xc5 then unpackBin 2 0 st
      else if h = 0xc6 then unpackBin 4 0 st
      else if h = 0xd4 then unpackExt 1 st
      else if h = 0xd5 then unpackExt 2 st
      else if h = 0xd6 then unpackExt 4 st
      else if h = 0xd7 then unpackExt 8 st
      else if h = 0xd8 then unpackExt 16 st
      else if h = 0xc7 then unpackBin 1 1 st
      else if h = 0xc8 then unpackBin 2 1 st
      else if h = 0xc9 then unpackBin 4 1 st
      else (JDiscarded ''unknown type'', st))"

text \<open>The containers: an object (\<open>True\<close>) or array head with its element count, read first.\<close>

definition container_head :: "nat \<Rightarrow> mp_state \<Rightarrow> (bool \<times> (json + nat \<times> mp_state)) option" where
  "container_head h st =
     (if 0x80 \<le> h \<and> h < 0x90 then Some (True, Inr (h mod 16, st))
      else if 0x90 \<le> h \<and> h < 0xa0 then Some (False, Inr (h mod 16, st))
      else if h = 0xdc then Some (False, unpackLen 2 st)
      else if h = 0xdd then Some (False, unpackLen 4 st)
      else if h = 0xde then Some (True, unpackLen 2 st)
      else if h = 0xdf then Some (True, unpackLen 4 st)
      else None)"

subsection \<open>The recursive descent\<close>

function (sequential) parseOne :: "arena_policy \<Rightarrow> nat \<Rightarrow> mp_state \<Rightarrow> json \<times> mp_state"
and parseObject :: "arena_policy \<Rightarrow> nat \<Rightarrow> nat \<Rightarrow> mp_state \<Rightarrow> json \<times> mp_state"
and parse_members :: "arena_policy \<Rightarrow> nat \<Rightarrow> nat \<Rightarrow> json_pair list \<Rightarrow> mp_state \<Rightarrow> json \<times> mp_state"
and parseArray :: "arena_policy \<Rightarrow> nat \<Rightarrow> nat \<Rightarrow> mp_state \<Rightarrow> json \<times> mp_state"
and parse_elems :: "arena_policy \<Rightarrow> nat \<Rightarrow> nat \<Rightarrow> json list \<Rightarrow> mp_state \<Rightarrow> json \<times> mp_state" where
  "parseOne oom 0 st = (ErrTooDeep, st)"
| "parseOne oom (Suc depth) st =
     (if mp_left st < 1 then (ErrEOF, st)
      else
        (case mp_consume 1 st of (bs, st1) \<Rightarrow>
          (case container_head (unat (hd bs)) st1 of
             None \<Rightarrow> parse_leaf (unat (hd bs)) st1
           | Some (ob, Inl err) \<Rightarrow> (err, st1)
           | Some (ob, Inr (n, st')) \<Rightarrow>
               if ob then parseObject oom n depth st' else parseArray oom n depth st')))"
| "parseObject oom n depth st =
     (case MakeObjectOf oom n (asked st) of
        Inl e \<Rightarrow> (ErrOOM, st)
      | Inr a \<Rightarrow> parse_members oom n depth [] (st\<lparr>asked := a\<rparr>))"
| "parse_members oom 0 depth obj st = (JObject obj, st)"
| "parse_members oom (Suc n) depth obj st =
     (case parseOne oom depth st of
        (JString key, st1) \<Rightarrow>
          (case parseOne oom depth st1 of
             (val, st2) \<Rightarrow>
               if is_discarded val then (val, st2)
               else parse_members oom n depth (SortedInsertJson obj key val) st2)
      | (other, st1) \<Rightarrow>
          if is_discarded other then (other, st1)
          else (JDiscarded ''keys must be string'', st1))"
| "parseArray oom n depth st =
     (case MakeArrayOf oom n (asked st) of
        Inl e \<Rightarrow> (ErrOOM, st)
      | Inr a \<Rightarrow> parse_elems oom n depth [] (st\<lparr>asked := a\<rparr>))"
| "parse_elems oom 0 depth arr st = (JArray arr, st)"
| "parse_elems oom (Suc n) depth arr st =
     (case parseOne oom depth st of
        (val, st1) \<Rightarrow>
          if is_discarded val then (val, st1)
          else parse_elems oom n depth (arr @ [val]) st1)"
  by pat_completeness auto
termination
  by (relation "inv_image (less_than <*lex*> less_than) (\<lambda>x. case x of
        Inl (Inl (oom, d, st)) \<Rightarrow> (d, 0)
      | Inl (Inr (oom, n, d, st)) \<Rightarrow> (d, Suc (Suc n))
      | Inr (Inl (oom, n, d, obj, st)) \<Rightarrow> (d, Suc n)
      | Inr (Inr (Inl (oom, n, d, st))) \<Rightarrow> (d, Suc (Suc n))
      | Inr (Inr (Inr (oom, n, d, arr, st))) \<Rightarrow> (d, Suc n))") auto

declare parseOne.simps [simp del]

subsection \<open>Entry points\<close>

text \<open>
  The message of a failed parse and its position; \<^verbatim>\<open>bad_alloc\<close> when the arena refused. A success
  carries the value, the number of bytes consumed and the arena's log.
\<close>

definition ParseMsgPackInPlace ::
    "arena_policy \<Rightarrow> u8 list \<Rightarrow> nat \<Rightarrow> arena_log \<Rightarrow> jv_error + json \<times> nat \<times> arena_log" where
  "ParseMsgPackInPlace oom data maxDepth a =
     (case parseOne oom maxDepth \<lparr>left = data, asked = a, past_end = False\<rparr> of
        (result, st) \<Rightarrow>
          (let consumed = length data - mp_left st in
           if is_discarded result then
             (if string_of result = string_of ErrOOM then Inl BadAlloc
              else Inl (ParsingError (''msgpack parse error: '' @ string_of result @ '' @''
                     @ nat_str consumed) consumed))
           else Inr (result, consumed, asked st)))"

text \<open>\<^verbatim>\<open>ParseMsgPack\<close> first copies the input into an arena string of one byte more.\<close>

definition ParseMsgPack ::
    "arena_policy \<Rightarrow> u8 list \<Rightarrow> nat \<Rightarrow> arena_log \<Rightarrow> jv_error + json \<times> nat \<times> arena_log" where
  "ParseMsgPack oom data maxDepth a =
     (case arena_alloc oom (length data + 1) a of
        Inl e \<Rightarrow> Inl e
      | Inr a' \<Rightarrow> ParseMsgPackInPlace oom data maxDepth a')"

text \<open>
  The overload that reads from a \<^verbatim>\<open>membuff::In\<close> whose reads return \<open>chunks\<close> one after the other;
  the reader's size hint resizes the buffer, so the chunks land after \<open>hint\<close> zero bytes. The
  growth of the buffer is not counted.
\<close>

definition ParseMsgPack_In ::
    "arena_policy \<Rightarrow> nat \<Rightarrow> u8 list list \<Rightarrow> nat \<Rightarrow> arena_log \<Rightarrow> jv_error + json \<times> nat \<times> arena_log" where
  "ParseMsgPack_In oom hint chunks maxDepth a =
     ParseMsgPackInPlace oom (replicate hint 0 @ concat (takeWhile (\<lambda>c. c \<noteq> []) chunks)) maxDepth a"

subsection \<open>Reading back what the writer wrote\<close>

abbreviation mp_at :: "u8 list \<Rightarrow> arena_log \<Rightarrow> mp_state" where
  "mp_at bs a \<equiv> \<lparr>left = bs, asked = a, past_end = False\<rparr>"

lemma unat_head: "n < 256 \<Longrightarrow> unat (word_of_nat n :: u8) = n"
  by (simp add: unat_of_nat take_bit_nat_eq_self)

lemma word64_nat: "n < 2 ^ 64 \<Longrightarrow> unat (word_of_nat n :: u64) = n"
  by (simp add: unat_of_nat take_bit_nat_eq_self)

lemma unpackTrivial_toBig:
  "n < 256 ^ k \<Longrightarrow> unpackTrivial k view (mp_at (toBig k n @ r) a) = (view n, mp_at r a)"
  by (simp add: unpackTrivial_def mp_left_def mp_consume_def fromBig_toBig)

lemma unpackLen_toBig:
  assumes "n < 256 ^ k" "k \<le> 8"
  shows "unpackLen k (mp_at (toBig k n @ r) a) = Inr (n, mp_at r a)"
proof -
  have "(256::nat) ^ k \<le> 256 ^ 8" using assms(2) by (intro power_increasing) simp_all
  then have "n < 2 ^ 64" using assms(1) by simp
  then show ?thesis
    using assms(1) by (simp add: unpackLen_def unpackTrivial_toBig view_u_def word64_nat)
qed

lemma bytes_of_simps [simp]: "map chr_of (bytes_of s) = s" "length (bytes_of s) = length s"
  unfolding bytes_of_def by (rule map_chr_byte) simp

lemma take_view_bytes:
  "take_view con (length s) (mp_at (bytes_of s @ r) a) = (con s, mp_at r a)"
  by (simp add: take_view_def mp_left_def mp_consume_def)

lemma parse_any_head:
  "h < 256 \<Longrightarrow> parseOne oom (Suc d) (mp_at (writeType h @ r) a) =
     (case container_head h (mp_at r a) of
        None \<Rightarrow> parse_leaf h (mp_at r a)
      | Some (ob, Inl err) \<Rightarrow> (err, mp_at r a)
      | Some (ob, Inr (n, st')) \<Rightarrow> if ob then parseObject oom n d st' else parseArray oom n d st')"
proof -
  assume "h < 256"
  then have u: "unat (word_of_nat h :: u8) = h" by (rule unat_head)
  have l: "mp_consume 1 (mp_at (writeType h @ r) a) = ([word_of_nat h], mp_at r a)"
    "\<not> mp_left (mp_at (writeType h @ r) a) < 1" by (simp_all add: writeType_def mp_consume_def mp_left_def)
  show ?thesis by (simp only: parseOne.simps l if_False prod.case list.sel u)
qed

lemma parse_head:
  "h < 256 \<Longrightarrow> container_head h (mp_at r a) = None \<Longrightarrow>
     parseOne oom (Suc d) (mp_at (writeType h @ r) a) = parse_leaf h (mp_at r a)"
  by (simp only: parse_any_head option.case)

lemma parse_writePosInt:
  "parseOne oom (Suc d) (mp_at (writePosInt i @ r) a) = (JUnsigned i, mp_at r a)"
proof -
  have "unat i < 2 ^ 64" using unsigned_less [of i, where 'a = nat] by simp
  then show ?thesis
    by (simp add: writePosInt_def Let_def parse_head container_head_def parse_leaf_def
        unpackTrivial_toBig view_u_def del: toBig.simps)
qed

lemma view_i_low:
  assumes "0 < k" "k \<le> 8" "- (2 ^ (8 * k - 1)) \<le> sint i" "sint i < 2 ^ (8 * k - 1)"
  shows "view_i k (unat i mod 256 ^ k) = JSigned i"
proof -
  obtain m where m: "8 * k = Suc m" using assms(1) by (cases "8 * k") auto
  have "m < 64" using assms(2) m by simp
  have p: "(256::int) ^ k = 2 ^ Suc m" by (simp add: m [symmetric] power_mult del: power_Suc)
  have "int (unat i mod 256 ^ k) = take_bit (Suc m) (uint i)"
    by (simp only: zmod_int of_nat_power of_nat_numeral p take_bit_eq_mod int_nat_eq uint_nat)
  also have "\<dots> = take_bit (Suc m) (take_bit 64 (sint i))"
    by (simp add: uint_sint del: take_bit_take_bit)
  finally have "signed_take_bit (8 * k - 1) (int (unat i mod 256 ^ k)) = signed_take_bit m (sint i)"
    using m \<open>m < 64\<close> by (simp add: signed_take_bit_take_bit)
  also have "\<dots> = sint i"
    using assms(3,4) m by (intro signed_take_bit_int_eq_self) simp_all
  finally show ?thesis by (simp add: view_i_def)
qed


lemma parse_writeNegInt:
  assumes "sint i < 0"
  shows "parseOne oom (Suc d) (mp_at (writeNegInt i @ r) a) = (JSigned i, mp_at r a)"
proof -
  have lb: "- (2 ^ 63) \<le> sint i" using sint_greater_eq [of i] by simp
  have l: "low_bytes k i = toBig k (unat i mod 256 ^ k)" "unat i mod 256 ^ k < 256 ^ k" for k
    by (simp_all add: low_bytes_def)
  consider (c0) "-32 \<le> sint i" | (c1) "sint i < -32" "-128 \<le> sint i" | (c2) "sint i < -128" "-32768 \<le> sint i"
    | (c4) "sint i < -32768" "-2147483648 \<le> sint i" | (c8) "sint i < -2147483648" by linarith
  then show ?thesis
  proof cases
    case c0
    define h where "h = unat i mod 256"
    have v: "view_i 1 h = JSigned i"
      using view_i_low [of 1 i] c0 assms by (simp add: h_def)
    have "int h = sint i + 256"
    proof -
      have "uint i = sint i + 2 ^ 64" using assms by (simp add: sint_uint_eq split: if_splits)
      then have "int h = (sint i + 2 ^ 64) mod 256" by (simp add: h_def zmod_int)
      also have "\<dots> = (sint i + 256) mod 256" by (simp add: mod_eq_dvd_iff)
      also have "\<dots> = sint i + 256" using c0 assms by (intro mod_pos_pos_trivial) simp_all
      finally show ?thesis .
    qed
    then have h: "0xe0 \<le> h" "h < 256" using c0 assms by simp_all
    have "writeNegInt i = writeType h" using c0 by (simp add: writeNegInt_def low_bytes_def h_def writeType_def)
    then show ?thesis using h v by (simp add: parse_head container_head_def parse_leaf_def)
  next
    case c1
    then show ?thesis using view_i_low [of 1 i]
      by (simp add: writeNegInt_def parse_head container_head_def parse_leaf_def l unpackTrivial_toBig
          del: toBig.simps)
  next
    case c2
    then show ?thesis using view_i_low [of 2 i]
      by (simp add: writeNegInt_def parse_head container_head_def parse_leaf_def l unpackTrivial_toBig
          del: toBig.simps)
  next
    case c4
    then show ?thesis using view_i_low [of 4 i]
      by (simp add: writeNegInt_def parse_head container_head_def parse_leaf_def l unpackTrivial_toBig
          del: toBig.simps)
  next
    case c8
    then show ?thesis using view_i_low [of 8 i] assms lb
      by (simp add: writeNegInt_def parse_head container_head_def parse_leaf_def l unpackTrivial_toBig
          del: toBig.simps)
  qed
qed

lemma low_nibble:
  "n \<le> 15 \<Longrightarrow> (144 + n) mod 16 = n" "n \<le> 15 \<Longrightarrow> (128 + n) mod 16 = n"
  "m \<le> 31 \<Longrightarrow> (160 + m) mod 32 = m" for n m :: nat
  using mod_mult_self1 [of n 9 16] mod_mult_self1 [of n 8 16] mod_mult_self1 [of m 5 32]
  by (simp_all add: add.commute)

lemma parse_writeString:
  "length s < 2 ^ 32 \<Longrightarrow> parseOne oom (Suc d) (mp_at (writeString s @ r) a) = (JString s, mp_at r a)"
  by (simp add: writeString_def Let_def parse_head low_nibble container_head_def parse_leaf_def unpackStr_def
      unpackLen_toBig take_view_bytes del: toBig.simps)

lemma parse_writeBinary:
  "length s < 2 ^ 32 \<Longrightarrow> parseOne oom (Suc d) (mp_at (writeBinary s @ r) a) = (JBinary s, mp_at r a)"
  by (simp add: writeBinary_def Let_def parse_head container_head_def parse_leaf_def unpackBin_def
      unpackLen_toBig take_view_bytes del: toBig.simps)

lemma parse_container:
  "n < 2 ^ 32 \<Longrightarrow> parseOne oom (Suc d) (mp_at (writeArrayHead n @ r) a) = parseArray oom n d (mp_at r a)"
  "n < 2 ^ 32 \<Longrightarrow> parseOne oom (Suc d) (mp_at (writeObjectHead n @ r) a) = parseObject oom n d (mp_at r a)"
  by (simp_all add: writeArrayHead_def writeObjectHead_def parse_any_head container_head_def
      low_nibble unpackLen_toBig del: toBig.simps parseObject.simps parseArray.simps)


text \<open>The documents MessagePack can carry: the reader has no custom or discarded values.\<close>

fun mp_doc :: "json \<Rightarrow> bool" where
  "mp_doc (JDiscarded _) \<longleftrightarrow> False"
| "mp_doc (JCustom _ _) \<longleftrightarrow> False"
| "mp_doc (JArray xs) \<longleftrightarrow> list_all mp_doc xs"
| "mp_doc (JObject kvs) \<longleftrightarrow> list_all (\<lambda>p. length (fst p) < 2 ^ 32 \<and> mp_doc (snd p)) kvs"
| "mp_doc _ \<longleftrightarrow> True"

lemma not_discarded [simp]: "is_discarded j \<longleftrightarrow> (\<exists>s. j = JDiscarded s)"
  by (simp add: is_discarded_def)

lemma mp_doc_canon: "mp_doc j \<Longrightarrow> canon j \<noteq> JDiscarded s"
  by (cases j) auto

definition reads_back :: "nat \<Rightarrow> json \<Rightarrow> bool" where
  "reads_back d v \<longleftrightarrow>
     (\<forall>r a. \<exists>a'. parseOne roomy_arena d (mp_at (encode v @ r) a) = (canon v, mp_at r a'))"

lemma reads_backE:
  assumes "reads_back d v"
  obtains a' where "parseOne roomy_arena d (mp_at (encode v @ r) a) = (canon v, mp_at r a')"
  using assms unfolding reads_back_def by blast

lemma parse_elems_encode:
  assumes "\<forall>v \<in> set xs. reads_back d v \<and> mp_doc v"
  shows "\<exists>a'. parse_elems roomy_arena (length xs) d arr (mp_at (concat (map encode xs) @ r) a)
     = (JArray (arr @ map canon xs), mp_at r a')"
  using assms
proof (induction xs arbitrary: arr a)
  case (Cons v xs)
  have "reads_back d v" using Cons.prems by simp
  then obtain a1 where "parseOne roomy_arena d (mp_at (encode v @ concat (map encode xs) @ r) a)
      = (canon v, mp_at (concat (map encode xs) @ r) a1)"
    by (rule reads_backE)
  moreover have "\<forall>s. canon v \<noteq> JDiscarded s" using Cons.prems mp_doc_canon by auto
  ultimately show ?case using Cons.IH [of "arr @ [canon v]" a1] Cons.prems by simp
qed simp

lemma parse_members_encode:
  assumes "\<forall>(k, v) \<in> set kvs. reads_back (Suc d) v \<and> mp_doc v \<and> length k < 2 ^ 32"
  shows "\<exists>a'. parse_members roomy_arena (length kvs) (Suc d) obj
       (mp_at (concat (map (\<lambda>(k, v). writeString k @ encode v) kvs) @ r) a)
     = (JObject (foldl (\<lambda>acc (k, v). SortedInsertJson acc k v) obj (map (\<lambda>(k, v). (k, canon v)) kvs)), mp_at r a')"
  using assms
proof (induction kvs arbitrary: obj a)
  case (Cons p kvs)
  obtain k v where p: "p = (k, v)" by (cases p)
  define r' where "r' = concat (map (\<lambda>(k, v). writeString k @ encode v) kvs) @ r"
  have k: "parseOne roomy_arena (Suc d) (mp_at (writeString k @ encode v @ r') a) = (JString k, mp_at (encode v @ r') a)"
    using Cons.prems by (intro parse_writeString) (simp add: p)
  have "reads_back (Suc d) v" using Cons.prems by (simp add: p)
  then obtain a1 where "parseOne roomy_arena (Suc d) (mp_at (encode v @ r') a) = (canon v, mp_at r' a1)"
    by (rule reads_backE)
  moreover have "\<forall>s. canon v \<noteq> JDiscarded s" using Cons.prems mp_doc_canon by (auto simp: p)
  ultimately show ?case using k Cons.IH [of "SortedInsertJson obj k (canon v)" a1] Cons.prems
    by (simp add: p r'_def)
qed simp

lemma parse_encode:
  "mp_doc v \<Longrightarrow> wf_json v \<Longrightarrow> height v \<le> d \<Longrightarrow> reads_back d v"
proof (induction v arbitrary: d rule: json_induct)
  case (Array xs)
  obtain d' where d: "d = Suc d'" "\<forall>x \<in> set xs. height x \<le> d'"
    using Array.prems(3) unfolding height_JArray_le by (cases d) auto
  have "\<forall>v \<in> set xs. reads_back d' v \<and> mp_doc v"
    using Array.IH Array.prems d by (auto simp: list_all_iff)
  then show ?case
    using parse_elems_encode [of xs d' "[]"] Array.prems(2)
    by (auto simp: reads_back_def d(1) parse_container(1))
next
  case (Object kvs)
  obtain d' where d: "d = Suc d'" "\<forall>(k, v) \<in> set kvs. height v \<le> d'"
    using Object.prems(3) unfolding height_JObject_le by (cases d) auto
  have rb: "\<forall>(k, v) \<in> set kvs. reads_back d' v \<and> mp_doc v \<and> length k < 2 ^ 32"
    using Object.IH Object.prems d by (fastforce simp: list_all_iff)
  have sorted: "sorted_keys (map (\<lambda>(k, v). (k, canon v)) kvs)"
    using Object.prems(2) by (simp add: comp_def case_prod_unfold)
  show ?case
  proof (cases kvs)
    case Nil
    then show ?thesis using parse_container(2) [of 0 roomy_arena d'] by (simp add: reads_back_def d(1))
  next
    case (Cons p ps)
    have "0 < d'" using Cons d(2) by (cases p) (metis case_prod_conv height_pos less_le_trans list.set_intros(1))
    then obtain d'' where d'': "d' = Suc d''" by (cases d') auto
    show ?thesis
      using parse_members_encode [of kvs d'' "[]"] rb ob.inserts_mono [OF sorted] Object.prems(2)
      by (auto simp: reads_back_def d(1) d'' parse_container(2) simp del: parse_members.simps)
  qed
next
  case (Signed i)
  have "0 \<le> sint i \<or> sint i < 0" by auto
  then show ?case using Signed
    by (cases d) (auto simp: reads_back_def parse_writePosInt parse_writeNegInt)
next
  case (Number n)
  have "unat n < 256 ^ 8" using unsigned_less [of n, where 'a = nat] by simp
  with Number show ?case
    by (cases d) (auto simp: reads_back_def parse_head container_head_def parse_leaf_def
        unpackTrivial_toBig view_d_def simp del: toBig.simps)
next
  case Null
  then show ?case by (cases d) (auto simp: reads_back_def parse_head container_head_def parse_leaf_def)
next
  case (Bool b)
  then show ?case by (cases d) (auto simp: reads_back_def parse_head container_head_def parse_leaf_def)
next
  case (Unsigned u)
  then show ?case by (cases d) (auto simp: reads_back_def parse_writePosInt)
next
  case (String s)
  then show ?case by (cases d) (auto simp: reads_back_def parse_writeString)
next
  case (Binary s)
  then show ?case by (cases d) (auto simp: reads_back_def parse_writeBinary)
qed auto


subsection \<open>What the reader accepts\<close>

text \<open>
  The bytes used are a prefix of the bytes left, nothing behind the end is read, and a value that is
  not an error is sound.
\<close>

definition advances :: "mp_state \<Rightarrow> mp_state \<Rightarrow> bool" where
  "advances st st' \<longleftrightarrow> (\<exists>u. left st = u @ left st') \<and> past_end st' = past_end st"

lemma advances_refl [simp]: "advances st st"
  by (simp add: advances_def)

lemma advances_trans: "advances st st1 \<Longrightarrow> advances st1 st2 \<Longrightarrow> advances st st2"
  by (auto simp: advances_def)

lemma advances_asked [simp]: "advances st (st'\<lparr>asked := a\<rparr>) = advances st st'" "advances (st\<lparr>asked := a\<rparr>) st' = advances st st'"
  by (simp_all add: advances_def)

lemma advances_consume: "n \<le> mp_left st \<Longrightarrow> advances st (snd (mp_consume n st))"
  by (auto simp: advances_def mp_consume_def mp_left_def intro: exI [of _ "take n (left st)"])

lemma advances_length: "advances st st' \<Longrightarrow> length (left st') \<le> length (left st)"
  by (auto simp: advances_def)

definition sound_value :: "nat \<Rightarrow> json \<Rightarrow> bool" where
  "sound_value d j \<longleftrightarrow> wf_json j \<and> mp_doc j \<and> height j \<le> d"

definition reads_ok :: "nat \<Rightarrow> mp_state \<Rightarrow> json \<times> mp_state \<Rightarrow> bool" where
  "reads_ok d st res \<longleftrightarrow> advances st (snd res) \<and>
     (\<not> is_discarded (fst res) \<longrightarrow> sound_value d (fst res))"

lemma reads_ok_trans:
  "advances st st' \<Longrightarrow> reads_ok d st' res \<Longrightarrow> reads_ok d st res"
  by (auto simp: reads_ok_def intro: advances_trans)

lemma unpackLen_ok:
  assumes "unpackLen k st = Inr (n, st')" "k \<le> 8"
  shows "advances st st' \<and> n < 256 ^ k"
proof -
  have len: "\<not> mp_left st < k"
    using assms(1) by (auto simp: unpackLen_def unpackTrivial_def ErrEOF_def)
  have b: "fromBig (take k (left st)) < 256 ^ k"
    using fromBig_bound [of "take k (left st)"] len by (simp add: mp_left_def)
  have "(256::nat) ^ k \<le> 256 ^ 8" using assms(2) by (intro power_increasing) simp_all
  then have "unat (word_of_nat (fromBig (take k (left st))) :: u64) = fromBig (take k (left st))"
    using b by (intro word64_nat) simp
  moreover have "advances st (snd (mp_consume k st))" using len by (intro advances_consume) simp
  ultimately show ?thesis
    using assms(1) b len
    by (auto simp: unpackLen_def unpackTrivial_def mp_consume_def view_u_def split: if_splits)
qed

lemma unpackLen_discarded: "unpackLen k st = Inl err \<Longrightarrow> is_discarded err"
  by (auto simp: unpackLen_def unpackTrivial_def mp_left_def mp_consume_def view_u_def ErrEOF_def split: if_splits)

lemma take_view_ok:
  assumes "\<And>s. length s < 2 ^ 32 \<Longrightarrow> sound_value d (con s)" "length (left st) < 2 ^ 32"
  shows "reads_ok d st (take_view con n st)"
  using assms advances_consume [of n st]
  by (auto simp: take_view_def reads_ok_def ErrEOF_def not_less mp_consume_def)

lemma unpackTrivial_ok:
  assumes "\<And>n. sound_value d (view n)"
  shows "reads_ok d st (unpackTrivial k view st)"
  using assms advances_consume [of k st]
  by (auto simp: unpackTrivial_def reads_ok_def ErrEOF_def not_less mp_consume_def)

lemma unpack_sized_ok:
  assumes "\<And>s. length s < 2 ^ 32 \<Longrightarrow> sound_value d (con s)" "length (left st) < 2 ^ 32" "k \<le> 8"
  shows "reads_ok d st (case unpackLen k st of Inl err \<Rightarrow> (err, st) | Inr (n, st') \<Rightarrow> take_view con (n + add) st')"
proof (cases "unpackLen k st")
  case (Inl err)
  then show ?thesis using unpackLen_discarded [OF Inl] by (auto simp: reads_ok_def)
next
  case (Inr p)
  obtain n st' where p: "p = (n, st')" by (cases p)
  then have u: "advances st st'" using unpackLen_ok [of k st n st'] Inr assms(3) by auto
  have "length (left st') < 2 ^ 32" using advances_length [OF u] assms(2) by linarith
  then show ?thesis
    using reads_ok_trans [OF u take_view_ok [OF assms(1)]] Inr p by simp
qed

lemma sound_leaf [simp]:
  "0 < d \<Longrightarrow> sound_value d JNull" "0 < d \<Longrightarrow> sound_value d (JBool b)"
  "0 < d \<Longrightarrow> sound_value d (JUnsigned i)" "0 < d \<Longrightarrow> sound_value d (JSigned i)"
  "0 < d \<Longrightarrow> sound_value d (JNumber i)"
  "0 < d \<Longrightarrow> length s < 2 ^ 32 \<Longrightarrow> sound_value d (JString s)"
  "0 < d \<Longrightarrow> length s < 2 ^ 32 \<Longrightarrow> sound_value d (JBinary s)"
  by (auto simp: sound_value_def)

lemma parse_leaf_ok:
  assumes "0 < d" "length (left st) < 2 ^ 32"
  shows "reads_ok d st (parse_leaf h st)"
proof -
  have t: "reads_ok d st (unpackTrivial k view st)" if "view \<in> {view_u, view_i 1, view_i 2, view_i 4, view_i 8, view_f, view_d}" for k view
    using that assms(1) by (intro unpackTrivial_ok) (auto simp: view_u_def view_i_def view_f_def view_d_def)
  have s: "reads_ok d st (unpackStr k st)" if "k \<le> 8" for k
    using unpack_sized_ok [of d JString st k 0, unfolded add_0_right] that assms by (simp add: unpackStr_def)
  have b: "reads_ok d st (unpackBin k n st)" if "k \<le> 8" for k n
    using unpack_sized_ok [of d JBinary st k n] that assms by (simp add: unpackBin_def)
  have e: "reads_ok d st (unpackExt n st)" for n
    using take_view_ok [of d JBinary st "n + 1"] assms by (simp add: unpackExt_def)
  have v: "reads_ok d st (take_view JString n st)" for n
    using take_view_ok [of d JString st n] assms by simp
  have r: "reads_ok d st (j, st)" if "is_discarded j \<or> sound_value d j" for j
    using that by (auto simp: reads_ok_def)
  show ?thesis
    unfolding parse_leaf_def using assms(1)
    by (simp add: t s b e v r view_i_def)
qed

lemma container_head_ok:
  assumes "container_head h st = Some (ob, Inr (n, st'))"
  shows "advances st st' \<and> n < 2 ^ 32"
  using assms unpackLen_ok [of 2 st n st'] unpackLen_ok [of 4 st n st']
  by (auto simp: container_head_def intro: le_less_trans [OF mod_le_divisor] split: if_splits)

lemma container_head_err:
  "container_head h st = Some (ob, Inl err) \<Longrightarrow> is_discarded err"
  using unpackLen_discarded by (fastforce simp: container_head_def split: if_splits)


definition members_ok :: "nat \<Rightarrow> json_pair list \<Rightarrow> bool" where
  "members_ok d obj \<longleftrightarrow> sorted_keys obj \<and> (\<forall>(k, v) \<in> set obj. length k < 2 ^ 32 \<and> sound_value d v)"

lemma members_ok_value:
  "members_ok d obj \<Longrightarrow> length obj < 2 ^ 32 \<Longrightarrow> sound_value (Suc d) (JObject obj)"
  by (auto simp: members_ok_def sound_value_def list_all_iff)

lemma elems_ok_value:
  "\<forall>x \<in> set arr. sound_value d x \<Longrightarrow> length arr < 2 ^ 32 \<Longrightarrow> sound_value (Suc d) (JArray arr)"
  by (auto simp: sound_value_def list_all_iff)

lemma members_ok_insert:
  assumes "members_ok d obj" "length k < 2 ^ 32" "sound_value d v"
  shows "members_ok d (SortedInsertJson obj k v)"
  using assms SortedInsertJson_set [of obj k v] ob.ins_sorted [of obj k v]
  by (auto simp: members_ok_def)

lemma MakeObjectOf_log: "left (st\<lparr>asked := a\<rparr>) = left st"
  by simp

lemma parse_ok:
  "length (left st) < 2 ^ 32 \<Longrightarrow> reads_ok depth st (parseOne oom depth st)"
  "length (left st) < 2 ^ 32 \<Longrightarrow> n < 2 ^ 32 \<Longrightarrow> reads_ok (Suc depth) st (parseObject oom n depth st)"
  "length (left st) < 2 ^ 32 \<Longrightarrow> length obj + n < 2 ^ 32 \<Longrightarrow> members_ok depth obj \<Longrightarrow>
     reads_ok (Suc depth) st (parse_members oom n depth obj st)"
  "length (left st) < 2 ^ 32 \<Longrightarrow> n < 2 ^ 32 \<Longrightarrow> reads_ok (Suc depth) st (parseArray oom n depth st)"
  "length (left st) < 2 ^ 32 \<Longrightarrow> length arr + n < 2 ^ 32 \<Longrightarrow> \<forall>x \<in> set arr. sound_value depth x \<Longrightarrow>
     reads_ok (Suc depth) st (parse_elems oom n depth arr st)"
proof (induction oom depth st and oom n depth st and oom n depth obj st and oom n depth st and oom n depth arr st
    rule: parseOne_parseObject_parse_members_parseArray_parse_elems.induct)
  case (1 oom st)
  then show ?case by (simp add: parseOne.simps reads_ok_def ErrTooDeep_def)
next
  case (2 oom depth st)
  show ?case
  proof (cases "mp_left st < 1")
    case True
    then show ?thesis by (simp add: parseOne.simps reads_ok_def ErrEOF_def)
  next
    case False
    obtain bs st1 where c: "mp_consume 1 st = (bs, st1)" by (cases "mp_consume 1 st")
    have pre: "advances st st1" using advances_consume [of 1 st, unfolded c] False by simp
    have len1: "length (left st1) < 2 ^ 32" using 2(3) advances_length [OF pre] by linarith
    show ?thesis
    proof (cases "container_head (unat (hd bs)) st1")
      case None
      then have "parseOne oom (Suc depth) st = parse_leaf (unat (hd bs)) st1"
        using False by (simp add: parseOne.simps c [unfolded One_nat_def])
      then show ?thesis using reads_ok_trans [OF pre parse_leaf_ok] len1 by simp
    next
      case (Some q)
      obtain ob res where q: "q = (ob, res)" by (cases q)
      show ?thesis
      proof (cases res)
        case (Inl err)
        then have "parseOne oom (Suc depth) st = (err, st1)"
          using Some q False by (simp add: parseOne.simps c [unfolded One_nat_def])
        moreover have "is_discarded err" using Some q Inl container_head_err by blast
        ultimately show ?thesis using pre by (simp add: reads_ok_def)
      next
        case (Inr p)
        obtain n st2 where p: "p = (n, st2)" by (cases p)
        have ch: "container_head (unat (hd bs)) st1 = Some (ob, Inr (n, st2))" using Some q Inr p by simp
        from container_head_ok [OF ch] have u: "advances st1 st2" "n < 2 ^ 32" by auto
        have len2: "length (left st2) < 2 ^ 32" using len1 advances_length [OF u(1)] by linarith
        have run: "parseOne oom (Suc depth) st
            = (if ob then parseObject oom n depth st2 else parseArray oom n depth st2)"
          using ch False by (simp add: parseOne.simps c [unfolded One_nat_def] del: parseObject.simps parseArray.simps)
        have "reads_ok (Suc depth) st2 (parseOne oom (Suc depth) st)"
          using 2(1,2) [OF False c [symmetric] ch refl refl refl] len2 u(2)
          by (simp add: run del: parseObject.simps parseArray.simps)
        then show ?thesis using reads_ok_trans [OF pre reads_ok_trans [OF u(1)]] by blast
      qed
    qed
  qed
next
  case (3 oom n depth st)
  then show ?case
    by (auto simp: reads_ok_def ErrOOM_def members_ok_def split: sum.split)
next
  case (4 oom depth obj st)
  then show ?case by (simp add: reads_ok_def members_ok_value)
next
  case (5 oom n depth obj st)
  obtain key st1 where k: "parseOne oom depth st = (key, st1)" by (cases "parseOne oom depth st")
  have rk: "reads_ok depth st (key, st1)" using 5(1) 5(4) k by simp
  show ?case
  proof (cases "\<exists>s. key = JString s")
    case False
    then show ?thesis using rk k by (auto simp: reads_ok_def split: json.split)
  next
    case True
    then obtain s where s: "key = JString s" ..
    obtain val st2 where v: "parseOne oom depth st1 = (val, st2)" by (cases "parseOne oom depth st1")
    from rk have u: "advances st st1" "length s < 2 ^ 32"
      by (auto simp: reads_ok_def s sound_value_def)
    have len1: "length (left st1) < 2 ^ 32" using 5(4) advances_length [OF u(1)] by linarith
    have rv: "reads_ok depth st1 (val, st2)" using 5(2) [OF k [unfolded s, symmetric] refl] len1 v by simp
    show ?thesis
    proof (cases "is_discarded val")
      case True
      then show ?thesis using rv k s v u by (auto simp: reads_ok_def intro: advances_trans)
    next
      case False
      then have w: "advances st1 st2" "sound_value depth val" using rv by (auto simp: reads_ok_def)
      have len2: "length (left st2) < 2 ^ 32" using len1 advances_length [OF w(1)] by linarith
      have ok: "members_ok depth (SortedInsertJson obj s val)"
        using members_ok_insert [OF 5(6) u(2) w(2)] .
      have "length (SortedInsertJson obj s val) + n < 2 ^ 32"
        using SortedInsertJson_length [of obj s val] 5(5,6) by (auto simp: members_ok_def)
      then have "reads_ok (Suc depth) st2 (parse_members oom n depth (SortedInsertJson obj s val) st2)"
        using 5(3) [OF k [unfolded s, symmetric] refl v [symmetric] False] len2 ok by simp
      then have "reads_ok (Suc depth) st (parse_members oom n depth (SortedInsertJson obj s val) st2)"
        using reads_ok_trans u(1) w(1) by blast
      then show ?thesis using k s v False by simp
    qed
  qed
next
  case (6 oom n depth st)
  then show ?case by (auto simp: reads_ok_def ErrOOM_def split: sum.split)
next
  case (7 oom depth arr st)
  then show ?case by (simp add: reads_ok_def elems_ok_value)
next
  case (8 oom n depth arr st)
  obtain val st1 where v: "parseOne oom depth st = (val, st1)" by (cases "parseOne oom depth st")
  have rv: "reads_ok depth st (val, st1)" using 8(1) 8(3) v by simp
  show ?case
  proof (cases "is_discarded val")
    case True
    then show ?thesis using rv v by (auto simp: reads_ok_def)
  next
    case False
    then have w: "advances st st1" "sound_value depth val" using rv by (auto simp: reads_ok_def)
    have len1: "length (left st1) < 2 ^ 32" using 8(3) advances_length [OF w(1)] by linarith
    have "reads_ok (Suc depth) st1 (parse_elems oom n depth (arr @ [val]) st1)"
      using 8(2) [OF v [symmetric] False] w 8(4-5) len1 by simp
    then show ?thesis using reads_ok_trans [OF w(1)] v False by simp
  qed
qed


subsection \<open>The reader overload with a size hint\<close>

text \<open>
  A positive hint puts zero bytes in front of the input, and a zero byte is the number 0: the
  input itself is never looked at.
\<close>

lemma ParseMsgPack_hint:
  "0 < hint \<Longrightarrow> 0 < maxDepth \<Longrightarrow>
     ParseMsgPack_In oom hint chunks maxDepth a = Inr (JUnsigned 0, 1, a)"
  by (cases hint; cases maxDepth)
    (simp_all add: ParseMsgPack_In_def ParseMsgPackInPlace_def parseOne.simps container_head_def
      parse_leaf_def mp_left_def mp_consume_def)

subsection \<open>Properties\<close>

text \<open>
  C4: MessagePack round trip. Whatever \<^verbatim>\<open>DumpMsgPack\<close> writes for a well-formed document without
  custom or discarded values, followed by anything, is parsed back to the same document (up to the
  signedness tag of non-negative integers), with exactly the written bytes consumed, for every
  parser depth of at least the document's height.
\<close>

theorem Msgpack_roundtrip:
  assumes "mp_doc v" "wf_json v" "DumpMsgPack v maxDepth = Inr bytes" "height v \<le> depth"
  shows "\<exists>a'. ParseMsgPackInPlace roomy_arena (bytes @ rest) depth a = Inr (canon v, length bytes, a')"
proof -
  have "bytes = encode v" using assms(3) by (simp add: DumpMsgPack_def dump_encode split: if_splits)
  moreover obtain a' where "parseOne roomy_arena depth (mp_at (encode v @ rest) a) = (canon v, mp_at rest a')"
    using parse_encode [OF assms(1,2,4)] by (rule reads_backE)
  ultimately show ?thesis using mp_doc_canon [OF assms(1)]
    by (simp add: ParseMsgPackInPlace_def mp_left_def)
qed

theorem Msgpack_roundtrip_witness:
  "\<exists>a'. ParseMsgPackInPlace roomy_arena [0x82, 0xa1, 0x61, 0x2a, 0xa1, 0x62, 0x91, 0xff, 0xc1] 3 [] =
     Inr (JObject [(''a'', JUnsigned 42), (''b'', JArray [JSigned (- 1)])],
       length [0x82, 0xa1, 0x61, 0x2a, 0xa1, 0x62, 0x91, 0xff :: u8], a')"
proof -
  have "DumpMsgPack (JObject [(''a'', JSigned 42), (''b'', JArray [JSigned (- 1)])]) 3 =
      Inr [0x82, 0xa1, 0x61, 0x2a, 0xa1, 0x62, 0x91, 0xff]"
    by (simp add: DumpMsgPack_def depth_Check_def writeObjectHead_def writeArrayHead_def writeString_def
        bytes_of_def byte_of_def writePosInt_def writeNegInt_def low_bytes_def writeType_def toBig_1 unsigned_minus_1_eq_mask mask_eq_exp_minus_1 del: One_nat_def)
  then show ?thesis
    using Msgpack_roundtrip [of "JObject [(''a'', JSigned 42), (''b'', JArray [JSigned (- 1)])]" 3 _ 3 "[0xc1]" "[]"]
    by simp
qed

text \<open>
  C10: parsing any input below 4 GB ends, within the depth given, in a well-formed document whose
  objects are sorted and whose height is within the depth, having consumed no more than the input;
  or in \<^verbatim>\<open>ParsingError\<close> with a position inside the input; or in \<^verbatim>\<open>bad_alloc\<close>. On the way it never takes a
  byte from behind the end of the input, whatever the lengths and counts in it say.
\<close>

theorem ParseMsgPack_sound:
  assumes "length data < 2 ^ 32"
  shows "\<not> past_end (snd (parseOne oom maxDepth \<lparr>left = data, asked = a, past_end = False\<rparr>)) \<and>
    (case ParseMsgPackInPlace oom data maxDepth a of
      Inr (result, consumed, a') \<Rightarrow>
        wf_json result \<and> mp_doc result \<and> height result \<le> maxDepth \<and> consumed \<le> length data
    | Inl e \<Rightarrow> e = BadAlloc \<or> (\<exists>msg pos. e = ParsingError msg pos \<and> pos \<le> length data))"
proof -
  obtain result st where r: "parseOne oom maxDepth (mp_at data a) = (result, st)"
    by (cases "parseOne oom maxDepth (mp_at data a)")
  have "reads_ok maxDepth (mp_at data a) (result, st)"
    using parse_ok(1) [of "mp_at data a" maxDepth oom] assms by (simp add: r)
  then show ?thesis
    by (auto simp: ParseMsgPackInPlace_def r Let_def reads_ok_def advances_def sound_value_def mp_left_def
        simp del: not_discarded wf_json.simps)
qed

theorem ParseMsgPack_sound_witness:
  "\<not> past_end (snd (parseOne roomy_arena 5 \<lparr>left = [0x92, 0xc0, 0xd9, 0x40], asked = [], past_end = False\<rparr>)) \<and>
    (case ParseMsgPackInPlace roomy_arena [0x92, 0xc0, 0xd9, 0x40] 5 [] of
      Inr (result, consumed, a') \<Rightarrow>
        wf_json result \<and> mp_doc result \<and> height result \<le> 5 \<and> consumed \<le> length [0x92, 0xc0, 0xd9, 0x40 :: u8]
    | Inl e \<Rightarrow> e = BadAlloc \<or> (\<exists>msg pos. e = ParsingError msg pos \<and> pos \<le> length [0x92, 0xc0, 0xd9, 0x40 :: u8]))"
  by (rule ParseMsgPack_sound) simp

end
