(* ===== verification/Ordered_Map.thy ===== *)
theory Ordered_Map
  imports Sorted_Object
begin

text \<open>
  \<^verbatim>\<open>std::map\<close> with string keys: the list of its entries in key order. The members of a mutable
  object, the routes of a handler, the calls of a server and the values of a context are such maps.
\<close>

fun map_put :: "string \<Rightarrow> 'v \<Rightarrow> (string \<times> 'v) list \<Rightarrow> (string \<times> 'v) list" where
  "map_put k v [] = [(k, v)]"
| "map_put k v ((k', v') # ob) =
     (if k < k' then (k, v) # (k', v') # ob
      else if k = k' then (k, v) # ob
      else (k', v') # map_put k v ob)"

text \<open>\<^verbatim>\<open>emplace\<close> and \<^verbatim>\<open>emplace_hint\<close> keep an existing entry.\<close>

definition map_emplace :: "string \<Rightarrow> 'v \<Rightarrow> (string \<times> 'v) list \<Rightarrow> (string \<times> 'v) list" where
  "map_emplace k v ob = (case map_of ob k of Some _ \<Rightarrow> ob | None \<Rightarrow> map_put k v ob)"

definition map_erase :: "string \<Rightarrow> (string \<times> 'v) list \<Rightarrow> (string \<times> 'v) list" where
  "map_erase k ob = filter (\<lambda>p. fst p \<noteq> k) ob"

lemma map_put_keys: "fst ` set (map_put k v ob) = insert k (fst ` set ob)"
  by (induction k v ob rule: map_put.induct) auto

lemma map_put_sorted: "sorted_keys ob \<Longrightarrow> sorted_keys (map_put k v ob)"
proof (induction k v ob rule: map_put.induct)
  case (2 k v k' v' ob)
  have "\<forall>q \<in> set (map_put k v ob). fst q = k \<or> fst q \<in> fst ` set ob"
    using map_put_keys [of k v ob] by blast
  with 2 show ?case by (fastforce intro: less_trans)
qed simp

lemma map_put_map_of: "sorted_keys ob \<Longrightarrow> map_of (map_put k v ob) = (map_of ob)(k \<mapsto> v)"
proof (induction k v ob rule: map_put.induct)
  case (2 k v k' v' ob)
  then show ?case by (auto simp: fun_eq_iff)
qed auto

interpretation om: sorted_object "\<lambda>ob k v. map_put k v ob" "\<lambda>ob k. map_of ob k"
  by unfold_locales (simp_all add: map_put_sorted map_put_map_of)

lemma map_erase_sorted: "sorted_keys ob \<Longrightarrow> sorted_keys (map_erase k ob)"
  by (induction ob) (auto simp: map_erase_def)

lemma map_erase_map_of: "map_of (map_erase k ob) = (map_of ob)(k := None)"
  by (induction ob) (auto simp: map_erase_def)

lemma map_emplace_new: "k \<notin> fst ` set ob \<Longrightarrow> map_emplace k v ob = map_put k v ob"
  by (simp add: map_emplace_def map_of_eq_None_iff [THEN iffD2])

lemma map_erase_keys: "fst ` set (map_erase k ob) = fst ` set ob - {k}"
  by (auto simp: map_erase_def image_iff)

end
