(* ===== verification/Mut_Json.thy ===== *)
theory Mut_Json
  imports Json_Algo Ordered_Map
begin

text \<open>
  The mutable document \<^verbatim>\<open>BasicMutJson\<close> (\<^verbatim>\<open>json.hpp\<close>) with its default configuration: objects are
  \<^verbatim>\<open>std::map\<close>, arrays \<^verbatim>\<open>std::vector\<close>. Values own their parts, so a value is a tree. The payload of a
  boolean is the whole 64 bit union, since the code writes and reads it through different members
  (on a little-endian host, \<^verbatim>\<open>boolean\<close> is the low byte).

  An exception leaves the target of an operation partly changed; the model returns the exception
  alone.
\<close>

subsection \<open>Values\<close>

datatype mut =
    MNull
  | MBool u64
  | MSigned u64
  | MUnsigned u64
  | MNumber u64
  | MString string
  | MBinary string
  | MArray "mut list"
  | MObject "(string \<times> mut) list"
  | MOther type_mask

lemma size_mut_member [termination_simp]:
  "(k, v) \<in> set kvs \<Longrightarrow> size v < Suc (size_list (size_prod (\<lambda>_. 0) size) kvs)"
  for v :: mut
  by (induction kvs) fastforce+

fun mut_type :: "mut \<Rightarrow> type_mask" where
  "mut_type MNull = t_null"
| "mut_type (MBool _) = t_boolean"
| "mut_type (MSigned _) = t_signed"
| "mut_type (MUnsigned _) = t_unsigned"
| "mut_type (MNumber _) = t_number"
| "mut_type (MString _) = t_string"
| "mut_type (MBinary _) = t_binary"
| "mut_type (MArray _) = t_array"
| "mut_type (MObject _) = t_object"
| "mut_type (MOther t) = t"

definition mut_Is :: "mut \<Rightarrow> type_mask \<Rightarrow> bool" where
  "mut_Is m t = (if t \<noteq> 0 then mut_type m AND t \<noteq> 0 else mut_type m = t)"

definition mut_AssertType :: "mut \<Rightarrow> type_mask \<Rightarrow> frame \<Rightarrow> jv_error + unit" where
  "mut_AssertType m wanted fr =
     (if mut_Is m wanted then Inr () else Inl (TypeMissmatch (exc_trace fr) wanted (mut_type m)))"

text \<open>\<^verbatim>\<open>BasicMutJson(Type)\<close>: containers and strings are allocated empty, the rest is zero.\<close>

definition mut_init :: "type_mask \<Rightarrow> mut" where
  "mut_init t =
     (if t = t_array then MArray []
      else if t = t_object then MObject []
      else if t = t_string then MString []
      else if t = t_binary then MBinary []
      else if t = t_null then MNull
      else if t = t_boolean then MBool 0
      else if t = t_signed then MSigned 0
      else if t = t_unsigned then MUnsigned 0
      else if t = t_number then MNumber 0
      else MOther t)"

text \<open>The constructor from \<^verbatim>\<open>bool\<close> stores the value as a double, and \<^verbatim>\<open>GetBool\<close> reads a byte.\<close>

definition mut_bool :: "bool \<Rightarrow> mut" where
  "mut_bool boolean = MBool (if boolean then 0x3FF0000000000000 else 0)"

definition union_bool :: "u64 \<Rightarrow> bool" where
  "union_bool bits \<longleftrightarrow> bits AND 0xFF \<noteq> 0"

definition mut_GetBool :: "mut \<Rightarrow> frame \<Rightarrow> jv_error + bool" where
  "mut_GetBool m fr =
     (case m of
        MBool bits \<Rightarrow> Inr (union_bool bits)
      | _ \<Rightarrow> Inl (TypeMissmatch (exc_trace fr) t_boolean (mut_type m)))"

definition mut_GetInt :: "mut \<Rightarrow> frame \<Rightarrow> jv_error + u64" where
  "mut_GetInt m fr =
     (case m of
        MSigned i \<Rightarrow> Inr i
      | _ \<Rightarrow> Inl (TypeMissmatch (exc_trace fr) t_signed (mut_type m)))"

definition mut_GetUint :: "mut \<Rightarrow> frame \<Rightarrow> jv_error + u64" where
  "mut_GetUint m fr =
     (case m of
        MUnsigned i \<Rightarrow> Inr i
      | _ \<Rightarrow> Inl (TypeMissmatch (exc_trace fr) t_unsigned (mut_type m)))"

definition mut_GetString :: "mut \<Rightarrow> frame \<Rightarrow> jv_error + string" where
  "mut_GetString m fr =
     (case m of
        MString s \<Rightarrow> Inr s
      | _ \<Rightarrow> Inl (TypeMissmatch (exc_trace fr) t_string (mut_type m)))"

text \<open>\<^verbatim>\<open>operator[](string_view)\<close>: a null becomes an object, an absent key gets a null member.\<close>

definition mut_index_key :: "string \<Rightarrow> mut \<Rightarrow> jv_error + mut \<times> mut" where
  "mut_index_key key m =
     (case (if m = MNull then MObject [] else m) of
        MObject ob \<Rightarrow>
          (let ob' = map_emplace key MNull ob in Inr (the (map_of ob' key), MObject ob'))
      | m' \<Rightarrow> Inl (TypeMissmatch [] t_object (mut_type m')))"

definition mut_index_idx :: "u32 \<Rightarrow> mut \<Rightarrow> jv_error + mut" where
  "mut_index_idx idx m =
     (case m of
        MArray xs \<Rightarrow> if unat idx < length xs then Inr (xs ! unat idx) else Inl (OutOfRange ''vector::at'')
      | _ \<Rightarrow> Inl (TypeMissmatch [] t_array (mut_type m)))"

subsection \<open>Copies\<close>

text \<open>\<^verbatim>\<open>copy(BasicMutJson&, JsonView, unsigned)\<close>; discarded and custom values become null.\<close>

fun copy_view :: "json \<Rightarrow> nat \<Rightarrow> jv_error + mut"
and copy_view_elems :: "json list \<Rightarrow> nat \<Rightarrow> jv_error + mut list"
and copy_view_members :: "json_pair list \<Rightarrow> nat \<Rightarrow> (string \<times> mut) list \<Rightarrow> jv_error + (string \<times> mut) list" where
  "copy_view src 0 = Inl DepthError"
| "copy_view (JArray xs) (Suc depth) =
     (case copy_view_elems xs depth of Inl e \<Rightarrow> Inl e | Inr ms \<Rightarrow> Inr (MArray ms))"
| "copy_view (JObject kvs) (Suc depth) =
     (case copy_view_members kvs depth [] of Inl e \<Rightarrow> Inl e | Inr ob \<Rightarrow> Inr (MObject ob))"
| "copy_view (JString s) (Suc depth) = Inr (MString s)"
| "copy_view (JBinary s) (Suc depth) = Inr (MBinary s)"
| "copy_view (JNumber d) (Suc depth) = Inr (MNumber d)"
| "copy_view (JSigned i) (Suc depth) = Inr (MSigned i)"
| "copy_view (JUnsigned u) (Suc depth) = Inr (MUnsigned u)"
| "copy_view (JBool b) (Suc depth) = Inr (MBool (if b then 1 else 0))"
| "copy_view src (Suc depth) = Inr MNull"
| "copy_view_elems [] depth = Inr []"
| "copy_view_elems (x # xs) depth =
     (case copy_view x depth of
        Inl e \<Rightarrow> Inl e
      | Inr m \<Rightarrow> (case copy_view_elems xs depth of Inl e \<Rightarrow> Inl e | Inr ms \<Rightarrow> Inr (m # ms)))"
| "copy_view_members [] depth ob = Inr ob"
| "copy_view_members ((k, v) # kvs) depth ob =
     (case copy_view v depth of
        Inl e \<Rightarrow> Inl e
      | Inr m \<Rightarrow> copy_view_members kvs depth (map_emplace k m ob))"

text \<open>
  \<^verbatim>\<open>copy(BasicMutJson&, BasicMutJson const&, unsigned)\<close>. The branch for binary values reads and
  writes the union through \<^verbatim>\<open>str\<close> instead of \<^verbatim>\<open>bin\<close>: its behaviour is undefined, and the model
  gives it no value.
\<close>

fun copy_mut :: "mut \<Rightarrow> nat \<Rightarrow> jv_error + mut"
and copy_mut_elems :: "mut list \<Rightarrow> nat \<Rightarrow> jv_error + mut list"
and copy_mut_members :: "(string \<times> mut) list \<Rightarrow> nat \<Rightarrow> (string \<times> mut) list \<Rightarrow> jv_error + (string \<times> mut) list" where
  "copy_mut src 0 = Inl DepthError"
| "copy_mut (MArray xs) (Suc depth) =
     (case copy_mut_elems xs depth of Inl e \<Rightarrow> Inl e | Inr ms \<Rightarrow> Inr (MArray ms))"
| "copy_mut (MObject kvs) (Suc depth) =
     (case copy_mut_members kvs depth [] of Inl e \<Rightarrow> Inl e | Inr ob \<Rightarrow> Inr (MObject ob))"
| "copy_mut (MBinary s) (Suc depth) = undefined"
| "copy_mut src (Suc depth) = Inr src"
| "copy_mut_elems [] depth = Inr []"
| "copy_mut_elems (x # xs) depth =
     (case copy_mut x depth of
        Inl e \<Rightarrow> Inl e
      | Inr m \<Rightarrow> (case copy_mut_elems xs depth of Inl e \<Rightarrow> Inl e | Inr ms \<Rightarrow> Inr (m # ms)))"
| "copy_mut_members [] depth ob = Inr ob"
| "copy_mut_members ((k, v) # kvs) depth ob =
     (case copy_mut v depth of
        Inl e \<Rightarrow> Inl e
      | Inr m \<Rightarrow> copy_mut_members kvs depth (map_emplace k m ob))"

text \<open>\<^verbatim>\<open>View(Arena&, unsigned)\<close>, the configuration with sorted objects.\<close>

fun mut_View :: "arena_policy \<Rightarrow> mut \<Rightarrow> nat \<Rightarrow> arena_log \<Rightarrow> jv_error + json \<times> arena_log"
and mut_View_elems :: "arena_policy \<Rightarrow> mut list \<Rightarrow> nat \<Rightarrow> arena_log \<Rightarrow> jv_error + json list \<times> arena_log"
and mut_View_members :: "arena_policy \<Rightarrow> (string \<times> mut) list \<Rightarrow> nat \<Rightarrow> arena_log \<Rightarrow> jv_error + json_pair list \<times> arena_log"
where
  "mut_View oom m 0 a = Inl DepthError"
| "mut_View oom (MNumber d) (Suc depth) a = Inr (JNumber d, a)"
| "mut_View oom (MSigned i) (Suc depth) a = Inr (JSigned i, a)"
| "mut_View oom (MUnsigned u) (Suc depth) a = Inr (JUnsigned u, a)"
| "mut_View oom (MBool bits) (Suc depth) a = Inr (JBool (union_bool bits), a)"
| "mut_View oom (MArray xs) (Suc depth) a =
     (case MakeArrayOf oom (length xs) a of
        Inl e \<Rightarrow> Inl e
      | Inr a' \<Rightarrow>
          (case mut_View_elems oom xs depth a' of Inl e \<Rightarrow> Inl e | Inr (ys, a'') \<Rightarrow> Inr (JArray ys, a'')))"
| "mut_View oom (MObject kvs) (Suc depth) a =
     (case MakeObjectOf oom (length kvs) a of
        Inl e \<Rightarrow> Inl e
      | Inr a' \<Rightarrow>
          (case mut_View_members oom kvs depth a' of Inl e \<Rightarrow> Inl e | Inr (ys, a'') \<Rightarrow> Inr (JObject ys, a'')))"
| "mut_View oom (MString s) (Suc depth) a = Inr (JString s, a)"
| "mut_View oom (MBinary s) (Suc depth) a = Inr (JBinary s, a)"
| "mut_View oom m (Suc depth) a = Inr (JNull, a)"
| "mut_View_elems oom [] depth a = Inr ([], a)"
| "mut_View_elems oom (x # xs) depth a =
     (case mut_View oom x depth a of
        Inl e \<Rightarrow> Inl e
      | Inr (y, a') \<Rightarrow>
          (case mut_View_elems oom xs depth a' of Inl e \<Rightarrow> Inl e | Inr (ys, a'') \<Rightarrow> Inr (y # ys, a'')))"
| "mut_View_members oom [] depth a = Inr ([], a)"
| "mut_View_members oom ((k, v) # kvs) depth a =
     (case mut_View oom v depth a of
        Inl e \<Rightarrow> Inl e
      | Inr (y, a') \<Rightarrow>
          (case mut_View_members oom kvs depth a' of
             Inl e \<Rightarrow> Inl e | Inr (ys, a'') \<Rightarrow> Inr ((k, y) # ys, a'')))"

subsection \<open>MergePatch\<close>

fun mut_object :: "mut \<Rightarrow> (string \<times> mut) list" where
  "mut_object (MObject ob) = ob"
| "mut_object _ = []"

text \<open>
  A new member is first copied from the patch and then patched by it, which removes the nulls the
  copy has.
\<close>

fun MergePatch :: "mut \<Rightarrow> json \<Rightarrow> nat \<Rightarrow> jv_error + mut"
and merge_members :: "(string \<times> mut) list \<Rightarrow> json_pair list \<Rightarrow> nat \<Rightarrow> jv_error + (string \<times> mut) list" where
  "MergePatch target patch 0 = Inl DepthError"
| "MergePatch target (JObject kvs) (Suc depth) =
     (case merge_members (mut_object target) kvs depth of
        Inl e \<Rightarrow> Inl e | Inr ob \<Rightarrow> Inr (MObject ob))"
| "MergePatch target patch (Suc depth) = copy_view patch depth"
| "merge_members result [] depth = Inr result"
| "merge_members result ((key, v) # ps) depth =
     (if Is v t_null then
        merge_members (case map_of result key of Some _ \<Rightarrow> map_erase key result | None \<Rightarrow> result) ps depth
      else (case map_of result key of
              Some it \<Rightarrow>
                (case MergePatch it v depth of
                   Inl e \<Rightarrow> Inl e
                 | Inr m \<Rightarrow> merge_members (map_put key m result) ps depth)
            | None \<Rightarrow>
                (case copy_view v depth of
                   Inl e \<Rightarrow> Inl e
                 | Inr m0 \<Rightarrow>
                     (case MergePatch m0 v depth of
                        Inl e \<Rightarrow> Inl e
                      | Inr m \<Rightarrow> merge_members (map_put key m (map_emplace key m0 result)) ps depth))))"

subsection \<open>Assign and Unflatten\<close>

text \<open>
  \<^verbatim>\<open>Assign\<close> returns a reference; \<open>upd\<close> is what the caller writes through it. Missing members and
  elements are created on the way, as nulls. Growing an array to \<^verbatim>\<open>idx + 1\<close> is in 32 bits.
\<close>

definition vec_resize :: "nat \<Rightarrow> mut list \<Rightarrow> mut list" where
  "vec_resize n xs = take n xs @ replicate (n - length xs) MNull"

fun assign_loop ::
    "jv_key list \<Rightarrow> frame \<Rightarrow> (mut \<Rightarrow> mut) \<Rightarrow> nat \<Rightarrow> jv_key list \<Rightarrow> mut \<Rightarrow> jv_error + mut" where
  "assign_loop ptr fr upd idx [] cur = Inr (upd cur)"
| "assign_loop ptr fr upd idx (KStr key # parts) cur =
     (case (if mut_Is cur t_null then mut_init t_object else cur) of
        MObject ob \<Rightarrow>
          (case assign_loop ptr fr upd (idx + 1) parts
                  (case map_of ob key of Some c \<Rightarrow> c | None \<Rightarrow> MNull) of
             Inl e \<Rightarrow> Inl e
           | Inr c \<Rightarrow> Inr (MObject (map_put key c ob)))
      | m \<Rightarrow> Inl (TypeMissmatch (PrintTrace fr @ Join (CHR ''.'') False (take idx ptr)) t_object (mut_type m)))"
| "assign_loop ptr fr upd idx (KIdx i # parts) cur =
     (case (if mut_Is cur t_null then mut_init t_array else cur) of
        MArray xs \<Rightarrow>
          (let xs' = (if length xs \<le> unat i then vec_resize (unat (i + 1)) xs else xs) in
           (case assign_loop ptr fr upd (idx + 1) parts (xs' ! unat i) of
              Inl e \<Rightarrow> Inl e
            | Inr c \<Rightarrow> Inr (MArray (xs'[unat i := c]))))
      | m \<Rightarrow> Inl (TypeMissmatch (PrintTrace fr @ Join (CHR ''.'') False (take idx ptr)) t_array (mut_type m)))"

definition Assign :: "jv_key list \<Rightarrow> frame \<Rightarrow> mut \<Rightarrow> mut \<Rightarrow> jv_error + mut" where
  "Assign ptr fr val root = assign_loop ptr fr (\<lambda>_. val) 0 ptr root"

text \<open>
  \<^verbatim>\<open>Unflatten\<close>. Reading a pointer slot the parser left unwritten is undefined in the code.
\<close>

fun Unflatten :: "mut \<Rightarrow> json_pair list \<Rightarrow> frame \<Rightarrow> nat \<Rightarrow> jv_error + mut" where
  "Unflatten result [] fr depth = Inr result"
| "Unflatten result ((k, v) # flat) fr depth =
     (case FromString k (CHR ''/'') of
        Inl e \<Rightarrow> Inl e
      | Inr slots \<Rightarrow>
          if depth < length slots then Inl DepthError
          else (case copy_view v (depth - length slots) of
                  Inl e \<Rightarrow> Inl e
                | Inr m \<Rightarrow>
                    (case Assign (map the slots) fr m result of
                       Inl e \<Rightarrow> Inl e
                     | Inr result' \<Rightarrow> Unflatten result' flat fr depth)))"

subsection \<open>Copies against the document\<close>

fun mut_of :: "json \<Rightarrow> mut" where
  "mut_of (JArray xs) = MArray (map mut_of xs)"
| "mut_of (JObject kvs) = MObject (map (\<lambda>(k, v). (k, mut_of v)) kvs)"
| "mut_of (JString s) = MString s"
| "mut_of (JBinary s) = MBinary s"
| "mut_of (JNumber d) = MNumber d"
| "mut_of (JSigned i) = MSigned i"
| "mut_of (JUnsigned u) = MUnsigned u"
| "mut_of (JBool b) = MBool (if b then 1 else 0)"
| "mut_of _ = MNull"

lemma map_put_last: "\<forall>p \<in> set ob. fst p < k \<Longrightarrow> map_put k v ob = ob @ [(k, v)]"
  by (induction k v ob rule: map_put.induct) auto

lemma map_emplace_last: "\<forall>p \<in> set ob. fst p < k \<Longrightarrow> map_emplace k v ob = ob @ [(k, v)]"
  by (subst map_emplace_new) (auto simp: map_put_last)

lemma copy_view_elems_of:
  assumes "\<forall>x \<in> set xs. \<forall>d. copy_view x d = (if height x \<le> d then Inr (mut_of x) else Inl DepthError)"
  shows "copy_view_elems xs d = (if \<forall>x \<in> set xs. height x \<le> d then Inr (map mut_of xs) else Inl DepthError)"
  using assms by (induction xs) auto

lemma copy_view_members_of:
  assumes "\<forall>(k, v) \<in> set kvs. \<forall>d. copy_view v d = (if height v \<le> d then Inr (mut_of v) else Inl DepthError)"
    "sorted_keys kvs" "\<forall>p \<in> set ob. \<forall>q \<in> set kvs. fst p < fst q"
  shows "copy_view_members kvs d ob =
    (if \<forall>(k, v) \<in> set kvs. height v \<le> d then Inr (ob @ map (\<lambda>(k, v). (k, mut_of v)) kvs) else Inl DepthError)"
  using assms
proof (induction kvs arbitrary: ob)
  case (Cons p kvs)
  obtain k v where p: "p = (k, v)" by (cases p)
  have "map_emplace k (mut_of v) ob = ob @ [(k, mut_of v)]"
    using Cons.prems(3) by (intro map_emplace_last) (auto simp: p)
  moreover have "copy_view_members kvs d (ob @ [(k, mut_of v)]) =
      (if \<forall>(k, v) \<in> set kvs. height v \<le> d then Inr ((ob @ [(k, mut_of v)]) @ map (\<lambda>(k, v). (k, mut_of v)) kvs)
       else Inl DepthError)"
    using Cons.prems by (intro Cons.IH) (auto simp: p)
  ultimately show ?case using Cons.prems(1) by (cases "height v \<le> d") (auto simp: p)
qed simp

lemma copy_view_of:
  "wf_json j \<Longrightarrow> copy_view j d = (if height j \<le> d then Inr (mut_of j) else Inl DepthError)"
proof (induction j arbitrary: d rule: json_induct)
  case (Array xs)
  have "copy_view_elems xs d' = (if \<forall>x \<in> set xs. height x \<le> d' then Inr (map mut_of xs) else Inl DepthError)" for d'
    using Array by (intro copy_view_elems_of) (auto simp: list_all_iff)
  then show ?case by (cases d) auto
next
  case (Object kvs)
  have "copy_view_members kvs d' [] =
      (if \<forall>(k, v) \<in> set kvs. height v \<le> d' then Inr ([] @ map (\<lambda>(k, v). (k, mut_of v)) kvs) else Inl DepthError)" for d'
    using Object.IH Object.prems wf_member [OF Object.prems] by (intro copy_view_members_of) auto
  then show ?case by (cases d) (auto simp: case_prod_unfold)
next
  case (Number n)
  then show ?case by (cases d) simp_all
qed (case_tac d; simp)+

text \<open>What a mutable document keeps of a view.\<close>

fun persist :: "json \<Rightarrow> json" where
  "persist (JArray xs) = JArray (map persist xs)"
| "persist (JObject kvs) = JObject (map (\<lambda>(k, v). (k, persist v)) kvs)"
| "persist (JDiscarded _) = JNull"
| "persist (JCustom _ _) = JNull"
| "persist j = j"

lemma mut_View_of:
  "height j \<le> d \<Longrightarrow> \<exists>a'. mut_View roomy_arena (mut_of j) d a = Inr (persist j, a')"
proof (induction j arbitrary: d a rule: json_induct)
  case (Array xs)
  obtain d' where d: "d = Suc d'" "\<forall>x \<in> set xs. height x \<le> d'"
    using Array.prems unfolding height_JArray_le by (cases d) auto
  have "\<exists>a'. mut_View_elems roomy_arena (map mut_of ys) d' a = Inr (map persist ys, a')" if "set ys \<subseteq> set xs" for ys a
    using that
  proof (induction ys arbitrary: a)
    case (Cons y ys)
    obtain a1 where "mut_View roomy_arena (mut_of y) d' a = Inr (persist y, a1)"
      using Array.IH [of y d' a] d Cons.prems by auto
    then show ?case using Cons.IH [of a1] Cons.prems by auto
  qed simp
  from this [of xs "a @ (if length xs = 0 then [] else [16 * length xs])"]
  obtain a1 where "mut_View_elems roomy_arena (map mut_of xs) d'
      (a @ (if length xs = 0 then [] else [16 * length xs])) = Inr (map persist xs, a1)" by auto
  then show ?case by (simp add: d(1))
next
  case (Object kvs)
  obtain d' where d: "d = Suc d'" "\<forall>(k, v) \<in> set kvs. height v \<le> d'"
    using Object.prems unfolding height_JObject_le by (cases d) auto
  have "\<exists>a'. mut_View_members roomy_arena (map (\<lambda>(k, v). (k, mut_of v)) ys) d' a = Inr (map (\<lambda>(k, v). (k, persist v)) ys, a')"
    if "set ys \<subseteq> set kvs" for ys a
    using that
  proof (induction ys arbitrary: a)
    case (Cons y ys)
    obtain a1 where "mut_View roomy_arena (mut_of (snd y)) d' a = Inr (persist (snd y), a1)"
      using Object.IH [of "fst y" "snd y" d' a] d Cons.prems by (auto simp: case_prod_unfold)
    then show ?case using Cons.IH [of a1] Cons.prems by (cases y) auto
  qed simp
  from this [of kvs "a @ (if length kvs = 0 then [] else [32 * length kvs])"]
  obtain a1 where "mut_View_members roomy_arena (map (\<lambda>(k, v). (k, mut_of v)) kvs) d'
      (a @ (if length kvs = 0 then [] else [32 * length kvs])) = Inr (map (\<lambda>(k, v). (k, persist v)) kvs, a1)" by auto
  then show ?case by (simp add: d(1))
next
  case (Bool b)
  then show ?case by (cases d) (auto simp: union_bool_def)
next
  case (Number n)
  then show ?case by (cases d) simp_all
qed (case_tac d; auto)+

lemma mut_bool_is_false: "mut_GetBool (mut_bool b) fr = Inr False"
  by (simp add: mut_GetBool_def mut_bool_def union_bool_def)


subsection \<open>MergePatch against RFC 7396\<close>

text \<open>The procedure of the RFC: a missing member is patched as if it were null.\<close>

fun rfc_merge :: "mut \<Rightarrow> json \<Rightarrow> mut"
and rfc_members :: "(string \<times> mut) list \<Rightarrow> json_pair list \<Rightarrow> (string \<times> mut) list" where
  "rfc_merge target (JObject kvs) = MObject (rfc_members (mut_object target) kvs)"
| "rfc_merge target patch = mut_of patch"
| "rfc_members ob [] = ob"
| "rfc_members ob ((k, v) # ps) =
     rfc_members
       (if v = JNull then map_erase k ob
        else map_put k (rfc_merge (case map_of ob k of Some m \<Rightarrow> m | None \<Rightarrow> MNull) v) ob) ps"

lemma rfc_members_sorted: "sorted_keys ob \<Longrightarrow> sorted_keys (rfc_members ob ps)"
  by (induction ps arbitrary: ob) (auto simp: map_erase_sorted map_put_sorted)

lemma rfc_members_map_of:
  "sorted_keys ob \<Longrightarrow> distinct (map fst ps) \<Longrightarrow>
     map_of (rfc_members ob ps) k =
       (case map_of ps k of
          None \<Rightarrow> map_of ob k
        | Some v \<Rightarrow> if v = JNull then None
            else Some (rfc_merge (case map_of ob k of Some m \<Rightarrow> m | None \<Rightarrow> MNull) v))"
proof (induction ps arbitrary: ob)
  case (Cons p ps)
  obtain k1 v1 where p: "p = (k1, v1)" by (cases p)
  have n: "map_of ps k1 = None" using Cons.prems by (simp add: p map_of_eq_None_iff)
  show ?case
    using Cons.IH [of "map_erase k1 ob"]
      Cons.IH [of "map_put k1 (rfc_merge (case map_of ob k1 of Some m \<Rightarrow> m | None \<Rightarrow> MNull) v1) ob"]
      Cons.prems n
    by (auto simp: p map_erase_sorted map_put_sorted map_erase_map_of map_put_map_of split: option.splits)
qed simp

text \<open>Patching a copy of the patch is patching nothing.\<close>

lemma rfc_self: "wf_json v \<Longrightarrow> rfc_merge (mut_of v) v = rfc_merge MNull v"
proof (induction v rule: json_induct)
  case (Object kvs)
  let ?ob = "map (\<lambda>(k, v). (k, mut_of v)) kvs"
  have so: "sorted_keys ?ob" "distinct (map fst kvs)"
    using Object.prems sorted_keys_distinct by (auto simp: comp_def case_prod_unfold)
  have m: "map_of ?ob k = map_option mut_of (map_of kvs k)" for k
    by (induction kvs) auto
  have ih: "map_of kvs k = Some v \<Longrightarrow> rfc_merge (mut_of v) v = rfc_merge MNull v" for k v
    using Object.IH wf_member [OF Object.prems] map_of_SomeD by fast
  have "map_of (rfc_members ?ob kvs) = map_of (rfc_members [] kvs)"
  proof
    fix k
    show "map_of (rfc_members ?ob kvs) k = map_of (rfc_members [] kvs) k"
      using rfc_members_map_of [OF so, of k] rfc_members_map_of [OF _ so(2), of "[]" k] ih [of k]
      by (auto simp: m split: option.splits)
  qed
  then have "rfc_members ?ob kvs = rfc_members [] kvs"
    by (intro sorted_keys_ext rfc_members_sorted so) simp_all
  then show ?case by simp
qed simp_all

lemma map_put_put: "map_put k m (map_put k m0 ob) = map_put k m ob"
  by (induction k m0 ob rule: map_put.induct) auto

lemma map_erase_absent: "map_of ob k = None \<Longrightarrow> map_erase k ob = ob"
  by (induction ob) (auto simp: map_erase_def split: if_splits)

lemma merge_members_rfc:
  assumes "\<forall>(k, v) \<in> set ps. wf_json v \<and> height v < d \<and> (\<forall>t. MergePatch t v d = Inr (rfc_merge t v))"
  shows "merge_members ob ps d = Inr (rfc_members ob ps)"
  using assms
proof (induction ps arbitrary: ob)
  case (Cons p ps)
  obtain k v where p: "p = (k, v)" by (cases p)
  have v: "wf_json v" "height v < d" "\<And>t. MergePatch t v d = Inr (rfc_merge t v)"
    using Cons.prems by (auto simp: p)
  have ih: "merge_members ob' ps d = Inr (rfc_members ob' ps)" for ob'
    using Cons.prems by (intro Cons.IH) simp
  show ?case
  proof (cases "map_of ob k")
    case None
    then show ?thesis using v ih
      by (auto simp: p map_erase_absent copy_view_of rfc_self map_emplace_def map_put_put split: option.split)
  next
    case (Some m)
    then show ?thesis using v ih by (auto simp: p)
  qed
qed simp

lemma MergePatch_rfc:
  "wf_json patch \<Longrightarrow> height patch < depth \<Longrightarrow> MergePatch target patch depth = Inr (rfc_merge target patch)"
proof (induction patch arbitrary: target depth rule: json_induct)
  case (Object kvs)
  obtain d where d: "depth = Suc d" using Object.prems(2) by (cases depth) auto
  have h: "\<forall>(k, v) \<in> set kvs. height v < d"
    using Object.prems(2) height_JObject_le [of kvs d] by (auto simp: d)
  have "merge_members (mut_object target) kvs d = Inr (rfc_members (mut_object target) kvs)"
    using Object.IH h wf_member [OF Object.prems(1)] by (intro merge_members_rfc) auto
  then show ?case by (simp add: d)
next
  case (Array xs)
  obtain d where d: "depth = Suc d" "height (JArray xs) \<le> d" using Array.prems(2) by (cases depth) auto
  then show ?case using copy_view_of [OF Array.prems(1), of d] by (simp del: height.simps)
qed (case_tac depth; simp add: copy_view_of)+


subsection \<open>Assignment along a path\<close>

fun mut_at :: "jv_key list \<Rightarrow> mut \<Rightarrow> mut option" where
  "mut_at [] m = Some m"
| "mut_at (KStr k # ks) (MObject ob) = (case map_of ob k of Some c \<Rightarrow> mut_at ks c | None \<Rightarrow> None)"
| "mut_at (KIdx i # ks) (MArray xs) = (if unat i < length xs then mut_at ks (xs ! unat i) else None)"
| "mut_at _ _ = None"

text \<open>Two paths that part ways at some key.\<close>

fun diverge :: "jv_key list \<Rightarrow> jv_key list \<Rightarrow> bool" where
  "diverge (k # ks) (k' # ks') \<longleftrightarrow> k \<noteq> k' \<or> diverge ks ks'"
| "diverge _ _ \<longleftrightarrow> False"

definition growable :: "jv_key \<Rightarrow> bool" where
  "growable k \<longleftrightarrow> (case k of KStr _ \<Rightarrow> True | KIdx i \<Rightarrow> unat i < 2 ^ 32 - 1)"

lemma map_of_put: "map_of (map_put k v ob) = (map_of ob)(k \<mapsto> v)"
  by (induction k v ob rule: map_put.induct) (auto simp: fun_eq_iff)

lemma mut_Is_null: "mut_Is m t_null \<longleftrightarrow> mut_type m = t_null"
  by (simp add: mut_Is_def t_null_def)

lemma mut_init_simps: "mut_init t_object = MObject []" "mut_init t_array = MArray []"
  by (simp_all add: mut_init_def t_defs)

lemma t_container_ne: "t_object \<noteq> t_null" "t_array \<noteq> t_null"
  by (simp_all add: t_defs)

lemma unat_suc_idx: "unat (i :: u32) < 2 ^ 32 - 1 \<Longrightarrow> unat (i + 1) = Suc (unat i)"
  by (simp add: unat_word_ariths)

lemma vec_resize_nth:
  "i < n \<Longrightarrow> i < length xs \<Longrightarrow> vec_resize n xs ! i = xs ! i" "length (vec_resize n xs) = n"
  by (auto simp: vec_resize_def nth_append)

lemma assign_loop_correct:
  assumes "assign_loop ptr fr upd idx parts m = Inr m'" "list_all growable parts"
  shows "(\<exists>old. mut_at parts m' = Some (upd old)) \<and>
    (\<forall>parts' w. diverge parts parts' \<longrightarrow> mut_at parts' m = Some w \<longrightarrow> mut_at parts' m' = Some w)"
  using assms
proof (induction ptr fr upd idx parts m arbitrary: m' rule: assign_loop.induct)
  case (1 ptr fr upd idx cur)
  then show ?case by auto
next
  case (2 ptr fr upd idx key parts cur)
  define c where "c = (if mut_Is cur t_null then mut_init t_object else cur)"
  note run = 2(2) [unfolded assign_loop.simps, folded c_def]
  obtain ob where ob: "c = MObject ob" using run by (cases c) simp_all
  define old where "old = (case map_of ob key of Some c \<Rightarrow> c | None \<Rightarrow> MNull)"
  obtain n where n: "assign_loop ptr fr upd (idx + 1) parts old = Inr n" "m' = MObject (map_put key n ob)"
    using run by (auto simp: ob old_def split: sum.splits)
  note ih = 2(1) [OF ob [unfolded c_def] n(1) [unfolded old_def]]
  have cur: "cur = MObject ob \<or> ob = []" using ob by (auto simp: c_def mut_init_simps split: if_splits)
  show ?case
  proof (intro conjI allI impI)
    show "\<exists>old. mut_at (KStr key # parts) m' = Some (upd old)"
      using ih 2(3) by (simp add: n(2) map_of_put)
  next
    fix parts' w
    assume d: "diverge (KStr key # parts) parts'" "mut_at parts' cur = Some w"
    then obtain p ps where ps: "parts' = p # ps" by (cases parts') auto
    show "mut_at parts' m' = Some w"
    proof (cases "\<exists>k. p = KStr k")
      case True
      then obtain k where k: "p = KStr k" ..
      obtain ob' where ob': "cur = MObject ob'" using d(2) by (cases cur) (auto simp: ps k)
      then have [simp]: "ob' = ob" using ob by (auto simp: c_def mut_Is_null t_container_ne)
      show ?thesis using d ih 2(3)
        by (auto simp: ps k ob' n(2) map_of_put old_def split: option.splits)
    next
      case False
      then show ?thesis using d(2) cur ob by (cases p; cases cur) (auto simp: ps c_def mut_Is_null mut_init_simps t_container_ne split: if_splits)
    qed
  qed
next
  case (3 ptr fr upd idx i parts cur)
  define c where "c = (if mut_Is cur t_null then mut_init t_array else cur)"
  note run = 3(2) [unfolded assign_loop.simps, folded c_def]
  obtain xs where xs: "c = MArray xs" using run by (cases c) simp_all
  define ys where "ys = (if length xs \<le> unat i then vec_resize (unat (i + 1)) xs else xs)"
  have g: "unat i < 2 ^ 32 - 1" using 3(3) by (simp add: growable_def)
  have ly: "unat i < length ys" "\<And>j. j < length xs \<Longrightarrow> ys ! j = xs ! j" "length xs \<le> length ys"
    using unat_suc_idx [OF g] by (auto simp: ys_def vec_resize_nth)
  obtain n where n: "assign_loop ptr fr upd (idx + 1) parts (ys ! unat i) = Inr n" "m' = MArray (ys[unat i := n])"
    using run by (auto simp: xs ys_def [symmetric] Let_def split: sum.splits)
  note ih = 3(1) [OF xs [unfolded c_def] ys_def n(1)]
  show ?case
  proof (intro conjI allI impI)
    show "\<exists>old. mut_at (KIdx i # parts) m' = Some (upd old)"
      using ih 3(3) ly by (simp add: n(2))
  next
    fix parts' w
    assume d: "diverge (KIdx i # parts) parts'" "mut_at parts' cur = Some w"
    then obtain p ps where ps: "parts' = p # ps" by (cases parts') auto
    show "mut_at parts' m' = Some w"
    proof (cases "\<exists>k. p = KIdx k")
      case True
      then obtain k where k: "p = KIdx k" ..
      obtain xs' where xs': "cur = MArray xs'" using d(2) by (cases cur) (auto simp: ps k)
      then have [simp]: "xs' = xs" using xs by (auto simp: c_def mut_Is_null t_container_ne)
      have lk: "unat k < length xs" using d(2) by (auto simp: ps k xs' split: if_splits)
      then have "unat k < length ys" "ys ! unat k = xs ! unat k" using ly by auto
      moreover have "k \<noteq> i \<Longrightarrow> unat i \<noteq> unat k" by (simp add: word_unat_eq_iff)
      ultimately show ?thesis using d ih 3(3) lk
        by (cases "k = i") (auto simp: ps k xs' n(2) nth_list_update)
    next
      case False
      then show ?thesis using d(2) xs by (cases p; cases cur) (auto simp: ps c_def mut_Is_null mut_init_simps t_container_ne split: if_splits)
    qed
  qed
qed

subsection \<open>Properties\<close>

text \<open>
  copying a well-formed view into a mutable document and viewing it again gives the same
  document (null for discarded and custom values), both directions succeeding exactly when the
  document's height is within the depth.
\<close>

theorem MutJson_persists:
  assumes "wf_json j"
  shows "copy_view j depth = (if height j \<le> depth then Inr (mut_of j) else Inl DepthError) \<and>
    (height j \<le> depth \<longrightarrow> (\<exists>a'. mut_View roomy_arena (mut_of j) depth a = Inr (persist j, a')))"
  using copy_view_of [OF assms] mut_View_of by auto

theorem MutJson_persists_witness:
  "\<exists>m a'. copy_view (JObject [(''a'', JBool True), (''b'', JArray [JSigned 1])]) 3 = Inr m \<and>
     mut_View roomy_arena m 3 [] = Inr (JObject [(''a'', JBool True), (''b'', JArray [JSigned 1])], a')"
  using MutJson_persists [of "JObject [(''a'', JBool True), (''b'', JArray [JSigned 1])]" 3 "[]"]
  by (auto simp del: copy_view.simps mut_View.simps)

text \<open>
  C24: \<^verbatim>\<open>MergePatch\<close> implements the procedure of RFC 7396 on every target and every well-formed
  patch within the depth, although it copies a new member together with its nulls first.
\<close>

theorem MergePatch_is_rfc7396:
  assumes "wf_json patch" "height patch < depth"
  shows "MergePatch target patch depth = Inr (rfc_merge target patch)"
  using assms by (rule MergePatch_rfc)

theorem MergePatch_is_rfc7396_witness:
  "MergePatch (MObject [(''a'', MNull), (''b'', MUnsigned 1)])
     (JObject [(''b'', JNull), (''c'', JObject [(''d'', JNull), (''e'', JUnsigned 2)])]) 4
   = Inr (MObject [(''a'', MNull), (''c'', MObject [(''e'', MUnsigned 2)])])"
  using MergePatch_is_rfc7396 [of "JObject [(''b'', JNull), (''c'', JObject [(''d'', JNull), (''e'', JUnsigned 2)])]" 4
      "MObject [(''a'', MNull), (''b'', MUnsigned 1)]"]
  by (simp add: map_erase_def)

text \<open>
  C25: after \<^verbatim>\<open>Assign\<close> along a pointer whose indices can be grown to, the pointer leads to the
  assigned value, and every other path that parts ways with it still leads to what it led to.
\<close>

theorem Assign_correct:
  assumes "Assign ptr fr val root = Inr root'" "list_all growable ptr"
  shows "mut_at ptr root' = Some val \<and>
    (\<forall>other w. diverge ptr other \<longrightarrow> mut_at other root = Some w \<longrightarrow> mut_at other root' = Some w)"
  using assign_loop_correct [OF assms(1) [unfolded Assign_def] assms(2)] by auto

theorem Assign_correct_witness:
  "mut_at [KStr ''a'', KIdx 1] (MObject [(''a'', MArray [MNull, MUnsigned 5]), (''b'', MUnsigned 2)])
     = Some (MUnsigned 5) \<and>
   Assign [KStr ''a'', KIdx 1] RootFrame (MUnsigned 5) (MObject [(''b'', MUnsigned 2)])
     = Inr (MObject [(''a'', MArray [MNull, MUnsigned 5]), (''b'', MUnsigned 2)])"
proof -
  have two: "replicate 2 MNull = [MNull, MNull]" by (simp add: numeral_2_eq_2)
  have run: "Assign [KStr ''a'', KIdx 1] RootFrame (MUnsigned 5) (MObject [(''b'', MUnsigned 2)])
     = Inr (MObject [(''a'', MArray [MNull, MUnsigned 5]), (''b'', MUnsigned 2)])"
    by (simp add: Assign_def mut_Is_null mut_init_simps t_container_ne vec_resize_def two)
  then show ?thesis using Assign_correct [OF run] by (simp add: growable_def)
qed

end
