(* ===== verification/Mut_Destroy.thy ===== *)
theory Mut_Destroy
  imports Mut_Json
begin

text \<open>
  \<^verbatim>\<open>BasicMutJson::Destroy\<close> (\<^verbatim>\<open>json.hpp\<close>) on the heap: a value is a tag with a pointer to the block it
  owns, the elements of a container live in its block, and the stack holds values that were taken out
  of their containers. Whether the stack has room for one more value is told by \<open>room\<close>, for each push
  after the first of a call, which fits in the arena's own buffer; a push without room throws.
\<close>

subsection \<open>Values and blocks\<close>

type_synonym addr = nat

datatype dval = DPlain type_mask u64 | DStr addr | DBin addr | DArr addr | DObj addr

datatype dblock = BText string | BArray "dval list" | BMap "(string \<times> dval) list"

text \<open>\<^verbatim>\<open>Value{}\<close>\<close>

definition DNull :: dval where
  "DNull = DPlain t_null 0"

record dheap =
  blocks :: "addr \<Rightarrow> dblock option"
  given_back :: "addr list" \<comment> \<open>in order\<close>
  stray :: bool \<comment> \<open>a block was used or given back that is not there\<close>
  pushes :: nat

datatype dend = Ended | Threw | Terminated

text \<open>\<^verbatim>\<open>disposeOf\<close>, for a container that was emptied before.\<close>

definition disposeOf :: "addr \<Rightarrow> dheap \<Rightarrow> dheap" where
  "disposeOf a s =
     (if blocks s a = None then s\<lparr>stray := True\<rparr>
      else s\<lparr>blocks := (blocks s)(a := None), given_back := given_back s @ [a]\<rparr>)"

definition put_block :: "addr \<Rightarrow> dblock \<Rightarrow> dheap \<Rightarrow> dheap" where
  "put_block a b s = s\<lparr>blocks := (blocks s)(a \<mapsto> b)\<rparr>"

subsection \<open>The loop\<close>

text \<open>
  Each element is taken out, which leaves null in its place, and pushed; the element whose push throws
  is lost. The result: the elements left, the stack, the number of pushes and whether all went well.
\<close>

fun take_elems :: "(nat \<Rightarrow> bool) \<Rightarrow> dval list \<Rightarrow> dval list \<Rightarrow> nat \<Rightarrow> dval list \<times> dval list \<times> nat \<times> bool" where
  "take_elems room [] stack k = ([], stack, k, True)"
| "take_elems room (v # vs) stack k =
     (if room k then
        (case take_elems room vs (v # stack) (Suc k) of (vs', r) \<Rightarrow> (DNull # vs', r))
      else (DNull # vs, stack, k, False))"

text \<open>
  The elements of a container in place of which it keeps others, in the same places.
\<close>

definition elems_of :: "dblock \<Rightarrow> dval list option" where
  "elems_of b = (case b of BText _ \<Rightarrow> None | BArray vs \<Rightarrow> Some vs | BMap kvs \<Rightarrow> Some (map snd kvs))"

definition with_elems :: "dblock \<Rightarrow> dval list \<Rightarrow> dblock" where
  "with_elems b vs =
     (case b of BText t \<Rightarrow> BText t | BArray _ \<Rightarrow> BArray vs | BMap kvs \<Rightarrow> BMap (zip (map fst kvs) vs))"

text \<open>
  \<^verbatim>\<open>clear()\<close> runs the destructors of the elements left in the container, each with a stack of its own;
  it is \<^verbatim>\<open>noexcept\<close>. The fuel is one unit for each value a stack gives.
\<close>

function destroy_loop :: "nat \<Rightarrow> (nat \<Rightarrow> bool) \<Rightarrow> dval list \<Rightarrow> dheap \<Rightarrow> (dend \<times> dheap) option"
and clear_elems :: "nat \<Rightarrow> (nat \<Rightarrow> bool) \<Rightarrow> dval list \<Rightarrow> dheap \<Rightarrow> (dend \<times> dheap) option"
and destroy_container :: "nat \<Rightarrow> (nat \<Rightarrow> bool) \<Rightarrow> addr \<Rightarrow> dval list \<Rightarrow> dheap \<Rightarrow> (dend \<times> dheap) option" where
  "destroy_loop 0 room stack s = None"
| "destroy_loop (Suc n) room [] s = Some (Ended, s)"
| "destroy_loop (Suc n) room (it # stack) s =
     (case it of
        DArr a \<Rightarrow> destroy_container n room a stack s
      | DObj a \<Rightarrow> destroy_container n room a stack s
      | DBin a \<Rightarrow> destroy_loop n room stack (disposeOf a s)
      | DStr a \<Rightarrow> destroy_loop n room stack (disposeOf a s)
      | DPlain _ _ \<Rightarrow> destroy_loop n room stack s)"
| "destroy_container n room a stack s =
     (case blocks s a of
        None \<Rightarrow> destroy_loop n room stack (s\<lparr>stray := True\<rparr>)
      | Some b \<Rightarrow>
          (case elems_of b of
             None \<Rightarrow> destroy_loop n room stack (s\<lparr>stray := True\<rparr>)
           | Some vs \<Rightarrow>
               (case take_elems room vs stack (pushes s) of
                  (vs', stack', k, False) \<Rightarrow> Some (Threw, (put_block a (with_elems b vs') s)\<lparr>pushes := k\<rparr>)
                | (vs', stack', k, True) \<Rightarrow>
                    (case clear_elems n room vs' ((put_block a (with_elems b []) s)\<lparr>pushes := k\<rparr>) of
                       None \<Rightarrow> None
                     | Some (Ended, s1) \<Rightarrow> destroy_loop n room stack' (disposeOf a s1)
                     | Some (_, s1) \<Rightarrow> Some (Terminated, s1)))))"
| "clear_elems n room [] s = Some (Ended, s)"
| "clear_elems n room (v # vs) s =
     (case destroy_loop n room [v] s of
        Some (Ended, s1) \<Rightarrow> clear_elems n room vs s1
      | r \<Rightarrow> r)"
  by pat_completeness auto

termination
  by (relation "measures [\<lambda>x. case x of
        Inl (n, room, stack, s) \<Rightarrow> 3 * n
      | Inr (Inl (n, room, vs, s)) \<Rightarrow> 3 * n + 1
      | Inr (Inr (n, room, a, stack, s)) \<Rightarrow> 3 * n + 2,
      \<lambda>x. case x of Inr (Inl (n, room, vs, s)) \<Rightarrow> length vs | _ \<Rightarrow> 0]") auto

text \<open>The value that is destroyed is null afterwards, also when the call throws.\<close>

definition Destroy :: "nat \<Rightarrow> (nat \<Rightarrow> bool) \<Rightarrow> dval \<Rightarrow> dheap \<Rightarrow> (dval \<times> dend \<times> dheap) option" where
  "Destroy fuel room v s = map_option (\<lambda>r. (DNull, r)) (destroy_loop fuel room [v] s)"

subsection \<open>Ownership\<close>

text \<open>
  A value owns a set of blocks: its own and those of its elements, without sharing. The number counts
  the values of the tree.
\<close>

inductive owns :: "(addr \<Rightarrow> dblock option) \<Rightarrow> dval \<Rightarrow> addr set \<Rightarrow> nat \<Rightarrow> bool"
and owns_all :: "(addr \<Rightarrow> dblock option) \<Rightarrow> dval list \<Rightarrow> addr set \<Rightarrow> nat \<Rightarrow> bool" for h where
  owns_plain: "owns h (DPlain t u) {} 1"
| owns_str: "h a = Some (BText t) \<Longrightarrow> owns h (DStr a) {a} 1"
| owns_bin: "h a = Some (BText t) \<Longrightarrow> owns h (DBin a) {a} 1"
| owns_arr: "h a = Some (BArray vs) \<Longrightarrow> owns_all h vs A n \<Longrightarrow> a \<notin> A \<Longrightarrow> owns h (DArr a) (insert a A) (Suc n)"
| owns_obj: "h a = Some (BMap kvs) \<Longrightarrow> owns_all h (map snd kvs) A n \<Longrightarrow> a \<notin> A \<Longrightarrow> owns h (DObj a) (insert a A) (Suc n)"
| owns_nil: "owns_all h [] {} 0"
| owns_cons: "owns h v A n \<Longrightarrow> owns_all h vs B m \<Longrightarrow> A \<inter> B = {} \<Longrightarrow> owns_all h (v # vs) (A \<union> B) (n + m)"

inductive_cases owns_allE: "owns_all h (v # vs) C k"
inductive_cases owns_nilE [elim!]: "owns_all h [] A n"
inductive_simps owns_simps: "owns h (DPlain t u) A n" "owns h (DStr a) A n" "owns h (DBin a) A n"
  "owns h (DArr a) A n" "owns h (DObj a) A n"

lemma owns_cong:
  "owns h v A n \<Longrightarrow> (\<And>a. a \<in> A \<Longrightarrow> h' a = h a) \<Longrightarrow> owns h' v A n"
  "owns_all h vs A n \<Longrightarrow> (\<And>a. a \<in> A \<Longrightarrow> h' a = h a) \<Longrightarrow> owns_all h' vs A n"
  by (induction rule: owns_owns_all.inducts) (auto intro: owns_owns_all.intros owns_plain [unfolded One_nat_def]
      owns_str [unfolded One_nat_def] owns_bin [unfolded One_nat_def])

lemma owns_append:
  "owns_all h xs A n \<Longrightarrow> owns_all h ys B m \<Longrightarrow> A \<inter> B = {} \<Longrightarrow> owns_all h (xs @ ys) (A \<union> B) (n + m)"
proof (induction xs arbitrary: A n)
  case (Cons x xs)
  from Cons.prems(1) obtain A1 A2 n1 n2 where x: "owns h x A1 n1" "owns_all h xs A2 n2" "A1 \<inter> A2 = {}"
    "A = A1 \<union> A2" "n = n1 + n2" by (elim owns_allE) auto
  from Cons.IH [OF x(2) Cons.prems(2)] Cons.prems(3) x
  have "owns_all h (xs @ ys) (A2 \<union> B) (n2 + m)" by auto
  with x Cons.prems(3) have "owns_all h (x # xs @ ys) (A1 \<union> (A2 \<union> B)) (n1 + (n2 + m))"
    by (intro owns_cons) auto
  then show ?case by (simp add: x Un_assoc add.assoc)
qed auto

lemma owns_rev: "owns_all h vs A n \<Longrightarrow> owns_all h (rev vs) A n"
proof (induction vs arbitrary: A n)
  case (Cons v vs)
  from Cons.prems obtain A1 A2 n1 n2 where v: "owns h v A1 n1" "owns_all h vs A2 n2" "A1 \<inter> A2 = {}"
    "A = A1 \<union> A2" "n = n1 + n2" by (elim owns_allE) auto
  have "owns_all h [v] A1 n1" using owns_cons [OF v(1) owns_nil] by simp
  from owns_append [OF Cons.IH [OF v(2)] this] v show ?case by (simp add: Un_commute add.commute Int_commute)
qed auto

lemma owns_finite: "owns h v A n \<Longrightarrow> finite A \<and> 0 < n" "owns_all h vs A n \<Longrightarrow> finite A"
  by (induction rule: owns_owns_all.inducts) auto

subsection \<open>What a call gives back\<close>

lemma take_elems_all:
  "take_elems room vs stack k = (vs', stack', k', True) \<Longrightarrow> vs' = replicate (length vs) DNull \<and> stack' = rev vs @ stack"
  by (induction vs arbitrary: vs' stack k) (auto split: if_splits prod.splits)

lemma take_elems_room: "(\<And>j. room j) \<Longrightarrow> take_elems room vs stack k = (vs', stack', k', ok) \<Longrightarrow> ok"
  by (induction vs arbitrary: vs' stack k) (auto split: prod.splits)

lemma clear_nulls: "2 \<le> n \<Longrightarrow> clear_elems n room (replicate m DNull) s = Some (Ended, s)"
proof (induction m)
  case (Suc m)
  obtain n' where n: "n = Suc (Suc n')" using Suc.prems by (metis add_2_eq_Suc le_Suc_ex)
  show ?case using Suc by (simp add: n DNull_def)
qed simp

text \<open>
  Without room for a value the call throws, and what it has not given back stays on the heap without
  an owner; otherwise it ends and has given everything back.
\<close>

definition frees :: "dheap \<Rightarrow> addr set \<Rightarrow> bool \<Rightarrow> (dend \<times> dheap) option \<Rightarrow> bool" where
  "frees s A roomy r \<longleftrightarrow>
     (\<exists>e s' F. r = Some (e, s') \<and> stray s' = stray s \<and> given_back s' = given_back s @ F \<and>
        distinct F \<and> set F \<subseteq> A \<and> (e = Ended \<and> set F = A \<or> e = Threw \<and> set F \<noteq> A \<and> \<not> roomy) \<and>
        (\<forall>a. a \<notin> A \<longrightarrow> blocks s' a = blocks s a) \<and> (\<forall>a \<in> A. blocks s' a = None \<longleftrightarrow> a \<in> set F))"

lemma frees_dispose:
  assumes "frees (disposeOf a s1) A roomy r" "a \<notin> A" "blocks s1 a \<noteq> None"
    and "stray s1 = stray s" "given_back s1 = given_back s" "\<And>b. b \<noteq> a \<Longrightarrow> blocks s1 b = blocks s b"
  shows "frees s (insert a A) roomy r"
proof -
  from assms(1) obtain e s' F where f: "r = Some (e, s')" "stray s' = stray (disposeOf a s1)"
    "given_back s' = given_back (disposeOf a s1) @ F" "distinct F" "set F \<subseteq> A"
    "e = Ended \<and> set F = A \<or> e = Threw \<and> set F \<noteq> A \<and> \<not> roomy"
    "\<forall>b. b \<notin> A \<longrightarrow> blocks s' b = blocks (disposeOf a s1) b" "\<forall>b \<in> A. blocks s' b = None \<longleftrightarrow> b \<in> set F"
    unfolding frees_def by blast
  have "a \<notin> set F" using f(5) assms(2) by blast
  moreover have "insert a (set F) = insert a A \<longleftrightarrow> set F = A" using \<open>a \<notin> set F\<close> assms(2) by (simp add: insert_ident)
  moreover have "blocks s' a = None" using f(7) assms(2,3) by (auto simp: disposeOf_def)
  moreover have "blocks s' b = blocks s b" if "b \<notin> insert a A" for b
    using f(7) that assms(3,6) by (auto simp: disposeOf_def)
  ultimately show ?thesis unfolding frees_def
    by (intro exI [of _ e] exI [of _ s'] exI [of _ "a # F"]) (use f assms in \<open>auto simp: disposeOf_def\<close>)
qed

lemma frees_refused:
  assumes "blocks s1 a \<noteq> None" "a \<in> A" "\<not> roomy" "\<And>b. blocks s1 b = None \<longleftrightarrow> blocks s b = None"
    and "stray s1 = stray s" "given_back s1 = given_back s" "\<And>b. b \<noteq> a \<Longrightarrow> blocks s1 b = blocks s b"
    and "\<And>b. b \<in> A \<Longrightarrow> blocks s b \<noteq> None"
  shows "frees s A roomy (Some (Threw, s1))"
  unfolding frees_def by (intro exI [of _ Threw] exI [of _ s1] exI [of _ "[]"]) (use assms in \<open>auto; metis\<close>)

lemma owned_there:
  "owns h v A n \<Longrightarrow> a \<in> A \<Longrightarrow> h a \<noteq> None"
  "owns_all h vs A n \<Longrightarrow> a \<in> A \<Longrightarrow> h a \<noteq> None"
  by (induction rule: owns_owns_all.inducts) auto

lemma destroy_container_frees:
  assumes "blocks s a = Some b" "elems_of b = Some vs" "owns_all (blocks s) vs A n" "a \<notin> A" "2 \<le> fuel"
    and rest: "owns_all (blocks s) stack B m" "insert a A \<inter> B = {}"
    and go: "\<And>stack s. owns_all (blocks s) stack (A \<union> B) (n + m) \<Longrightarrow>
      frees s (A \<union> B) (\<forall>j. room j) (destroy_loop fuel room stack s)"
  shows "frees s (insert a A \<union> B) (\<forall>j. room j) (destroy_container fuel room a stack s)"
proof -
  obtain vs' stack' k ok where t: "take_elems room vs stack (pushes s) = (vs', stack', k, ok)" by (metis prod_cases4)
  show ?thesis
  proof (cases ok)
    case True
    define s1 where "s1 = (put_block a (with_elems b []) s)\<lparr>pushes := k\<rparr>"
    have s1: "blocks s1 = (blocks s)(a \<mapsto> with_elems b [])" "stray s1 = stray s" "given_back s1 = given_back s"
      by (simp_all add: s1_def put_block_def)
    have e: "vs' = replicate (length vs) DNull" "stack' = rev vs @ stack"
      using take_elems_all [of room vs stack "pushes s"] t True by auto
    then have d: "destroy_container fuel room a stack s = destroy_loop fuel room stack' (disposeOf a s1)"
      using assms(1,2,5) t True by (simp add: clear_nulls s1_def)
    have "owns_all (blocks s) stack' (A \<union> B) (n + m)"
      unfolding e(2) by (rule owns_append [OF owns_rev [OF assms(3)] rest(1)]) (use rest(2) in auto)
    then have "owns_all (blocks (disposeOf a s1)) stack' (A \<union> B) (n + m)"
      by (rule owns_cong(2)) (use rest(2) assms(4) in \<open>auto simp: disposeOf_def s1\<close>)
    from frees_dispose [OF go [OF this], of s] rest(2) assms(4) d s1 show ?thesis by auto
  next
    case False
    then have d: "destroy_container fuel room a stack s = Some (Threw, (put_block a (with_elems b vs') s)\<lparr>pushes := k\<rparr>)"
      using assms(1,2) t by simp
    have "\<not> (\<forall>j. room j)" using take_elems_room [OF _ t] False by blast
    then show ?thesis unfolding d
      by (intro frees_refused [where a = a])
        (use assms(1) owned_there(2) [OF assms(3)] owned_there(2) [OF rest(1)] in \<open>auto simp: put_block_def\<close>)
  qed
qed

lemma destroy_loop_frees:
  "owns_all (blocks s) stack A N \<Longrightarrow> N + 3 \<le> fuel \<Longrightarrow> frees s A (\<forall>j. room j) (destroy_loop fuel room stack s)"
proof (induction fuel arbitrary: stack s A N)
  case (Suc fuel)
  show ?case
  proof (cases stack)
    case Nil
    with Suc.prems(1) show ?thesis by (auto simp: frees_def)
  next
    case (Cons v rest)
    from Suc.prems(1) [unfolded Cons] obtain C B n m where v: "owns (blocks s) v C n" "owns_all (blocks s) rest B m" "C \<inter> B = {}"
      "A = C \<union> B" "N = n + m" by (elim owns_allE) auto
    have pos: "0 < n" using owns_finite(1) [OF v(1)] by simp
    have leaf: "frees s A (\<forall>j. room j) (destroy_loop fuel room rest (disposeOf a s))"
      if "blocks s a \<noteq> None" "C = {a}" for a
    proof -
      have "owns_all (blocks (disposeOf a s)) rest B m"
        by (rule owns_cong(2) [OF v(2)]) (use v(3) that in \<open>auto simp: disposeOf_def\<close>)
      from Suc.IH [OF this] Suc.prems(2) pos v(5)
      have "frees (disposeOf a s) B (\<forall>j. room j) (destroy_loop fuel room rest (disposeOf a s))" by simp
      from frees_dispose [OF this, of s] that v(3,4) show ?thesis by auto
    qed
    have box: "frees s A (\<forall>j. room j) (destroy_container fuel room a rest s)"
      if "blocks s a = Some b" "elems_of b = Some vs" "owns_all (blocks s) vs D k" "a \<notin> D" "C = insert a D" "n = Suc k"
      for a b vs D k
      using destroy_container_frees [OF that(1-4) _ v(2), of fuel room] Suc.IH Suc.prems(2) v(3-5) that(5,6) by simp
    show ?thesis
    proof (cases v)
      case (DPlain t u)
      with v(1) have "C = {}" by (simp add: owns_simps)
      with Suc.IH [OF v(2)] Suc.prems(2) pos v(4,5) show ?thesis by (simp add: Cons DPlain)
    next
      case (DStr a)
      with v(1) leaf [of a] show ?thesis by (auto simp: owns_simps Cons)
    next
      case (DBin a)
      with v(1) leaf [of a] show ?thesis by (auto simp: owns_simps Cons)
    next
      case (DArr a)
      with v(1) obtain vs D k where "blocks s a = Some (BArray vs)" "owns_all (blocks s) vs D k" "a \<notin> D" "C = insert a D"
        "n = Suc k" by (auto simp: owns_simps)
      from box [OF this(1) _ this(2-5)] show ?thesis by (simp add: Cons DArr elems_of_def del: destroy_container.simps)
    next
      case (DObj a)
      with v(1) obtain kvs D k where "blocks s a = Some (BMap kvs)" "owns_all (blocks s) (map snd kvs) D k" "a \<notin> D"
        "C = insert a D" "n = Suc k" by (auto simp: owns_simps)
      from box [OF this(1) _ this(2-5)] show ?thesis by (simp add: Cons DObj elems_of_def del: destroy_container.simps)
    qed
  qed
qed simp

subsection \<open>Properties\<close>

text \<open>
  C39: \<^verbatim>\<open>Destroy\<close> of a value that owns its blocks ends, leaves null, and never uses or gives back a block
  that is not there: it gives back blocks of the value only, each once, and touches no other. It gives
  back all of them unless the stack runs out of memory; then it throws, and the rest stays on the heap
  without an owner (the leak the code prints a message about).
\<close>

theorem Destroy_frees_once:
  assumes "owns (blocks s) v A n" "n + 3 \<le> fuel"
  shows "\<exists>e s' F. Destroy fuel room v s = Some (DNull, e, s') \<and> stray s' = stray s \<and>
    given_back s' = given_back s @ F \<and> distinct F \<and> set F \<subseteq> A \<and>
    (e = Ended \<and> set F = A \<or> e = Threw \<and> set F \<noteq> A \<and> \<not> (\<forall>j. room j)) \<and>
    (\<forall>a. a \<notin> A \<longrightarrow> blocks s' a = blocks s a) \<and> (\<forall>a \<in> A. blocks s' a = None \<longleftrightarrow> a \<in> set F)"
proof -
  have "owns_all (blocks s) [v] A n" using owns_cons [OF assms(1) owns_nil] by simp
  from destroy_loop_frees [OF this assms(2), of room] show ?thesis
    unfolding frees_def Destroy_def by force
qed

text \<open>An object with an array and two strings.\<close>

definition small_heap :: dheap where
  "small_heap = \<lparr>blocks = [1 \<mapsto> BMap [(''a'', DArr 2), (''b'', DStr 3)], 2 \<mapsto> BArray [DStr 4, DPlain t_boolean 1],
     3 \<mapsto> BText ''x'', 4 \<mapsto> BText ''y'', 9 \<mapsto> BText ''other''], given_back = [], stray = False, pushes = 0\<rparr>"

lemma small_heap_owned: "owns (blocks small_heap) (DObj 1) {1, 2, 3, 4} 5"
proof -
  let ?h = "blocks small_heap"
  have 4: "owns ?h (DStr 4) {4} 1" and 3: "owns ?h (DStr 3) {3} 1"
    by (simp_all add: owns_simps small_heap_def)
  have a: "owns_all ?h [DStr 4, DPlain t_boolean 1] ({4} \<union> ({} \<union> {})) (1 + (1 + 0))"
    by (intro owns_cons owns_nil owns_plain 4) auto
  have 2: "owns ?h (DArr 2) (insert 2 ({4} \<union> ({} \<union> {}))) (Suc (1 + (1 + 0)))"
    by (rule owns_arr [OF _ a]) (simp_all add: small_heap_def)
  have o2: "owns_all ?h [DArr 2, DStr 3] (insert 2 ({4} \<union> ({} \<union> {})) \<union> ({3} \<union> {})) (Suc (1 + (1 + 0)) + (1 + 0))"
    by (intro owns_cons owns_nil 2 3) auto
  have "owns ?h (DObj 1) (insert 1 (insert 2 ({4} \<union> ({} \<union> {})) \<union> ({3} \<union> {}))) (Suc (Suc (1 + (1 + 0)) + (1 + 0)))"
    by (rule owns_obj [where kvs = "[(''a'', DArr 2), (''b'', DStr 3)]"]) (use o2 in \<open>simp_all add: small_heap_def\<close>)
  moreover have "insert 1 (insert 2 ({4} \<union> ({} \<union> {})) \<union> ({3} \<union> {})) = {1, 2, 3, 4 :: nat}" by auto
  ultimately show ?thesis by (simp add: eval_nat_numeral)
qed

theorem Destroy_frees_once_witness:
  "\<exists>s' F. Destroy 8 (\<lambda>_. True) (DObj 1) small_heap = Some (DNull, Ended, s') \<and> \<not> stray s' \<and>
     given_back s' = F \<and> distinct F \<and> set F = {1, 2, 3, 4} \<and> blocks s' 9 = Some (BText ''other'')"
proof -
  have h: "given_back small_heap = []" "\<not> stray small_heap" "blocks small_heap 9 = Some (BText ''other'')"
    by (simp_all add: small_heap_def)
  from Destroy_frees_once [OF small_heap_owned, of 8 "\<lambda>_. True"] h show ?thesis by fastforce
qed

text \<open>Without room for the second element of the array only some of the blocks are given back.\<close>

lemma small_heap_leaks:
  "map_option (\<lambda>(v, e, s'). (v, e, given_back s', stray s')) (Destroy 8 (\<lambda>k. k < 3) (DObj 1) small_heap) =
     Some (DNull, Threw, [1, 3], False)"
  by (simp add: Destroy_def small_heap_def disposeOf_def elems_of_def with_elems_def put_block_def DNull_def eval_nat_numeral)

end
