(* ===== verification/Rpc_Protocol.thy ===== *)
theory Rpc_Protocol
  imports Json_Algo
begin

text \<open>
  The JSON-RPC messages (\<^verbatim>\<open>common.hpp\<close>, \<^verbatim>\<open>exception.hpp\<close>, \<^verbatim>\<open>protocol.hpp\<close>): field names of the two
  dialects, the error object, the formatter that builds requests, notifications and responses, and
  the functions that unpack them.
\<close>

subsection \<open>Codes and dialects\<close>

datatype protocol = Compliant | Minified

definition PrintProto :: "protocol \<Rightarrow> string" where
  "PrintProto proto = (case proto of Compliant \<Rightarrow> ''json_v2_compliant'' | Minified \<Rightarrow> ''json_v2_minified'')"

definition code_parse :: u64 where "code_parse = - 32700"
definition code_invalid_request :: u64 where "code_invalid_request = - 32600"
definition code_method_not_found :: u64 where "code_method_not_found = - 32601"
definition code_invalid_params :: u64 where "code_invalid_params = - 32602"
definition code_internal :: u64 where "code_internal = - 32603"

lemmas code_defs = code_parse_def code_invalid_request_def code_method_not_found_def
  code_invalid_params_def code_internal_def

definition PrintCode :: "u64 \<Rightarrow> string" where
  "PrintCode c =
     (if c = code_parse then ''Parse Error''
      else if c = code_invalid_request then ''Invalid Request''
      else if c = code_method_not_found then ''Method not found''
      else if c = code_invalid_params then ''Invalid Params''
      else if c = code_internal then ''Internal Error''
      else ''User Defined'')"

definition F_Id :: string where "F_Id = ''id''"

definition F_Method :: "protocol \<Rightarrow> string" where
  "F_Method proto = (case proto of Compliant \<Rightarrow> ''method'' | Minified \<Rightarrow> ''m'')"

definition F_Params :: "protocol \<Rightarrow> string" where
  "F_Params proto = (case proto of Compliant \<Rightarrow> ''params'' | Minified \<Rightarrow> ''p'')"

definition F_Result :: "protocol \<Rightarrow> string" where
  "F_Result proto = (case proto of Compliant \<Rightarrow> ''result'' | Minified \<Rightarrow> ''r'')"

definition F_Error :: "protocol \<Rightarrow> string" where
  "F_Error proto = (case proto of Compliant \<Rightarrow> ''error'' | Minified \<Rightarrow> ''e'')"

lemmas F_defs = F_Id_def F_Method_def F_Params_def F_Result_def F_Error_def

subsection \<open>Exceptions\<close>

text \<open>\<^verbatim>\<open>RpcException\<close>, and what else is thrown through the layer.\<close>

record rpc_exception =
  rcode :: u64
  message :: string
  edata :: "json option"

datatype exc =
    RpcExc rpc_exception
  | JvExc jv_error
  | FutureError string
  | StdExc string

definition quoted :: "string \<Rightarrow> string" where
  "quoted s = CHR 0x27 # s @ [CHR 0x27]"

definition mk_rpc :: "string \<Rightarrow> u64 \<Rightarrow> json option \<Rightarrow> exc" where
  "mk_rpc msg c d = RpcExc \<lparr>rcode = c, message = msg, edata = d\<rparr>"

fun exc_what :: "exc \<Rightarrow> string" where
  "exc_what (RpcExc e) = message e"
| "exc_what (JvExc e) = what e"
| "exc_what (FutureError s) = s"
| "exc_what (StdExc s) = s"

text \<open>The sort of the object constructor does not matter: the keys given are pairwise different.\<close>

definition obj_view :: "json_pair list \<Rightarrow> json" where
  "obj_view kvs = JsonView_obj (sort_key fst) kvs"

lemma obj_view_distinct:
  "distinct (map fst kvs) \<Longrightarrow> obj_view kvs = JObject (foldl (\<lambda>acc (k, v). SortedInsertJson acc k v) [] kvs)"
  unfolding obj_view_def by (rule JsonView_obj_distinct [OF sorts_sort_key])

lemma obj_view_sort_free:
  "sorts srt \<Longrightarrow> distinct (map fst kvs) \<Longrightarrow> JsonView_obj srt kvs = obj_view kvs"
  by (simp add: JsonView_obj_distinct obj_view_distinct)

lemma obj_view_find:
  "distinct (map fst kvs) \<Longrightarrow> FindVal (obj_view kvs) k fr = Inr (map_of kvs k)"
proof -
  assume d: "distinct (map fst kvs)"
  have m: "map_of (rev kvs) = map_of kvs"
    using d by (intro map_of_inject_set [THEN iffD2]) (simp_all add: rev_map [symmetric])
  show ?thesis
    using ob.look_inserts [of kvs k] by (simp add: obj_view_distinct [OF d] FindVal_def m)
qed

lemma inserts_set:
  "sorted_keys ob \<Longrightarrow> set (foldl (\<lambda>acc (k, v). SortedInsertJson acc k v) ob kvs) \<subseteq> set ob \<union> set kvs"
proof (induction kvs arbitrary: ob)
  case (Cons p kvs)
  obtain k v where p: "p = (k, v)" by (cases p)
  show ?case
    using Cons.IH [OF ob.ins_sorted [OF Cons.prems, of k v]] SortedInsertJson_set [OF Cons.prems, of k v]
    by (auto simp: p)
qed simp

lemma inserts_length:
  "sorted_keys ob \<Longrightarrow> length (foldl (\<lambda>acc (k, v). SortedInsertJson acc k v) ob kvs) \<le> length ob + length kvs"
proof (induction kvs arbitrary: ob)
  case (Cons p kvs)
  obtain k v where p: "p = (k, v)" by (cases p)
  show ?case
    using Cons.IH [OF ob.ins_sorted [OF Cons.prems, of k v]] SortedInsertJson_length [OF Cons.prems, of k v]
    by (auto simp: p)
qed simp

lemma obj_view_wf:
  assumes "distinct (map fst kvs)" "length kvs < 2 ^ 32" "\<forall>(k, v) \<in> set kvs. wf_json v"
  shows "wf_json (obj_view kvs)"
  using assms inserts_set [of "[]" kvs] inserts_length [of "[]" kvs] ob.inserts_sorted [of "[]" kvs]
  by (fastforce simp: obj_view_distinct list_all_iff)

text \<open>
  The static view of an exception: the code as a signed integer, the message, and the data, null
  when there is none.
\<close>

definition exc_view :: "rpc_exception \<Rightarrow> json" where
  "exc_view e =
     obj_view [(''code'', JSigned (rcode e)), (''message'', JString (message e)),
               (''data'', case edata e of Some d \<Rightarrow> d | None \<Rightarrow> JNull)]"

text \<open>
  \<^verbatim>\<open>Get<RpcException>\<close>: the described fields in order. The code is read as a signed 64 bit integer;
  an absent or null \<^verbatim>\<open>data\<close> leaves the optional empty, another value is copied with the default depth.
\<close>

definition get_int64 :: "json \<Rightarrow> frame \<Rightarrow> jv_error + u64" where
  "get_int64 j fr =
     (case j of
        JSigned i \<Rightarrow> Inr i
      | JUnsigned u \<Rightarrow>
          if 0x7FFFFFFFFFFFFFFF < u
          then Inl (throwIntRangeError j 0x8000000000000000 0x7FFFFFFFFFFFFFFF fr) else Inr u
      | _ \<Rightarrow> Inl (throwMissmatch j t_any_integer fr))"

definition get_uint64 :: "json \<Rightarrow> frame \<Rightarrow> jv_error + u64" where
  "get_uint64 j fr =
     (case j of
        JSigned i \<Rightarrow>
          if sint i < 0 then Inl (throwIntRangeError j 0 0xFFFFFFFFFFFFFFFF fr) else Inr i
      | JUnsigned u \<Rightarrow> Inr u
      | _ \<Rightarrow> Inl (throwMissmatch j t_any_integer fr))"

definition exc_of_json :: "json \<Rightarrow> frame \<Rightarrow> jv_error + rpc_exception" where
  "exc_of_json j fr =
     (case AssertType j t_object fr of
        Inl e \<Rightarrow> Inl e
      | Inr _ \<Rightarrow>
          (case At_key j ''code'' fr of
             Inl e \<Rightarrow> Inl e
           | Inr cj \<Rightarrow>
               (case get_int64 cj (Frame (KStr ''code'') fr) of
                  Inl e \<Rightarrow> Inl e
                | Inr c \<Rightarrow>
                    (case At_key j ''message'' fr of
                       Inl e \<Rightarrow> Inl e
                     | Inr mj \<Rightarrow>
                         (case GetString mj (Frame (KStr ''message'') fr) of
                            Inl e \<Rightarrow> Inl e
                          | Inr m \<Rightarrow>
                              (case FindVal j ''data'' fr of
                                 Inl e \<Rightarrow> Inl e
                               | Inr None \<Rightarrow> Inr \<lparr>rcode = c, message = m, edata = None\<rparr>
                               | Inr (Some d) \<Rightarrow>
                                   if Is d t_null then Inr \<lparr>rcode = c, message = m, edata = None\<rparr>
                                   else (case Copy roomy_arena d 300 0 [] of
                                           Inl e \<Rightarrow> Inl e
                                         | Inr (d', a) \<Rightarrow> Inr \<lparr>rcode = c, message = m, edata = Some d'\<rparr>)))))))"

subsection \<open>The formatter\<close>

definition version_pair :: "protocol \<Rightarrow> json_pair list" where
  "version_pair proto = (case proto of Compliant \<Rightarrow> [(''jsonrpc'', JString ''2.0'')] | Minified \<Rightarrow> [])"

definition MakeRequest :: "protocol \<Rightarrow> json \<Rightarrow> string \<Rightarrow> json \<Rightarrow> json" where
  "MakeRequest proto jid method params =
     obj_view ([(F_Id, jid), (F_Method proto, JString method), (F_Params proto, params)] @ version_pair proto)"

definition MakeNotify :: "protocol \<Rightarrow> string \<Rightarrow> json \<Rightarrow> json" where
  "MakeNotify proto method params =
     obj_view ([(F_Method proto, JString method), (F_Params proto, params)] @ version_pair proto)"

definition MakeResponce :: "protocol \<Rightarrow> json \<Rightarrow> json \<Rightarrow> json" where
  "MakeResponce proto jid resp = obj_view ([(F_Id, jid), (F_Result proto, resp)] @ version_pair proto)"

definition MakeError :: "protocol \<Rightarrow> json \<Rightarrow> rpc_exception \<Rightarrow> json" where
  "MakeError proto jid e = obj_view ([(F_Id, jid), (F_Error proto, exc_view e)] @ version_pair proto)"

subsection \<open>Unpacking\<close>

definition lift_jv :: "jv_error + 'a \<Rightarrow> exc + 'a" where
  "lift_jv r = map_sum JvExc id r"

definition UnpackSingleRequest :: "protocol \<Rightarrow> json \<Rightarrow> exc + string \<times> json" where
  "UnpackSingleRequest proto req =
     (case FindVal req (F_Method proto) RootFrame of
        Inl e \<Rightarrow> Inl (JvExc e)
      | Inr None \<Rightarrow> Inl (mk_rpc (''Missing '' @ quoted ''method'' @ '' field'') code_invalid_request None)
      | Inr (Some m) \<Rightarrow>
          if \<not> Is m t_string then
            Inl (mk_rpc (quoted ''method'' @ '' field is not a string'') code_invalid_request
                   (Some (obj_view [(''was_type'', JString (GetTypeName m))])))
          else
            (case (if proto = Compliant then
                     (case FindVal req ''jsonrpc'' RootFrame of
                        Inl e \<Rightarrow> Inl (JvExc e)
                      | Inr None \<Rightarrow> Inr False
                      | Inr (Some tg) \<Rightarrow> lift_jv (DeepEqual tg (JString ''2.0'') 300 DEFAULT_MARGIN))
                   else Inr True) of
               Inl e \<Rightarrow> Inl e
             | Inr ok \<Rightarrow>
                 if \<not> ok then
                   Inl (mk_rpc (quoted ''jsonrpc'' @ '' field missing or != '' @ quoted ''2.0'') code_invalid_request None)
                 else
                   (case FindVal req (F_Params proto) RootFrame of
                      Inl e \<Rightarrow> Inl (JvExc e)
                    | Inr found \<Rightarrow>
                        Inr (string_of m, case found of Some p \<Rightarrow> p | None \<Rightarrow> EmptyArray))))"

definition UnpackSingleResponce :: "protocol \<Rightarrow> json \<Rightarrow> exc + json" where
  "UnpackSingleResponce proto resp =
     (if \<not> Is resp t_object then
        Inl (mk_rpc ''non-object responce'' code_parse
               (Some (obj_view [(''was_type'', JString (GetTypeName resp))])))
      else
        (case FindVal resp (F_Result proto) RootFrame of
           Inl e \<Rightarrow> Inl (JvExc e)
         | Inr (Some res) \<Rightarrow> Inr res
         | Inr None \<Rightarrow>
             (case FindVal resp (F_Error proto) RootFrame of
                Inl e \<Rightarrow> Inl (JvExc e)
              | Inr (Some err) \<Rightarrow>
                  (case exc_of_json err (Frame (KStr ''(rpc.error)'') RootFrame) of
                     Inl e \<Rightarrow> Inl (JvExc e)
                   | Inr x \<Rightarrow> Inl (RpcExc x))
              | Inr None \<Rightarrow>
                  Inl (mk_rpc (''Missing '' @ quoted ''result'' @ '' or '' @ quoted ''error'' @ '' field'')
                         code_parse None))))"

subsection \<open>Parameters\<close>

text \<open>
  The arguments of a call, each already a view (\<^verbatim>\<open>JsonView::From\<close>): all unnamed or all named, as the
  static assertion of \<^verbatim>\<open>IntoParams\<close> wants.
\<close>

datatype call_args = Unnamed "json list" | NamedArgs "(string \<times> json) list"

fun populateArr :: "json list \<Rightarrow> json list \<Rightarrow> json list" where
  "populateArr arr [] = arr"
| "populateArr arr (a # args) = populateArr (arr @ [a]) args"

fun populateObj :: "json_pair list \<Rightarrow> (string \<times> json) list \<Rightarrow> json_pair list" where
  "populateObj ob [] = ob"
| "populateObj ob ((name, value) # args) = populateObj (ob @ [(name, value)]) args"

fun IntoParams :: "call_args \<Rightarrow> json" where
  "IntoParams (Unnamed []) = EmptyArray"
| "IntoParams (Unnamed args) = JArray (populateArr [] args)"
| "IntoParams (NamedArgs []) = EmptyArray"
| "IntoParams (NamedArgs args) = obj_view (populateObj [] args)"

lemma populateArr_append [simp]: "populateArr arr args = arr @ args"
  by (induction arr args rule: populateArr.induct) auto

lemma populateObj_append [simp]: "populateObj ob args = ob @ args"
  by (induction ob args rule: populateObj.induct) auto

subsection \<open>Messages read back\<close>

lemma fields_distinct [simp]:
  "distinct [F_Id, F_Method proto, F_Params proto, ''jsonrpc'']"
  "distinct [F_Id, F_Result proto, F_Error proto, ''jsonrpc'']"
  by (cases proto; simp add: F_defs)+

lemma Request_find:
  "FindVal (MakeRequest proto jid m p) k fr =
     Inr (map_of ([(F_Id, jid), (F_Method proto, JString m), (F_Params proto, p)] @ version_pair proto) k)"
  unfolding MakeRequest_def by (rule obj_view_find) (cases proto; simp add: F_defs version_pair_def)

lemma Notify_find:
  "FindVal (MakeNotify proto m p) k fr =
     Inr (map_of ([(F_Method proto, JString m), (F_Params proto, p)] @ version_pair proto) k)"
  unfolding MakeNotify_def by (rule obj_view_find) (cases proto; simp add: F_defs version_pair_def)

lemma Responce_find:
  "FindVal (MakeResponce proto jid r) k fr =
     Inr (map_of ([(F_Id, jid), (F_Result proto, r)] @ version_pair proto) k)"
  unfolding MakeResponce_def by (rule obj_view_find) (cases proto; simp add: F_defs version_pair_def)

lemma Error_find:
  "FindVal (MakeError proto jid e) k fr =
     Inr (map_of ([(F_Id, jid), (F_Error proto, exc_view e)] @ version_pair proto) k)"
  unfolding MakeError_def by (rule obj_view_find) (cases proto; simp add: F_defs version_pair_def)

lemmas message_find = Request_find Notify_find Responce_find Error_find

lemma JObject_Is: "Is (JObject kvs) t_object"
  by (simp add: Is_def t_defs)

lemma obj_view_Is: "distinct (map fst kvs) \<Longrightarrow> Is (obj_view kvs) t_object"
  by (simp only: obj_view_distinct JObject_Is)

lemma message_Is:
  "Is (MakeRequest proto jid m p) t_object" "Is (MakeNotify proto m p) t_object"
  "Is (MakeResponce proto jid r) t_object" "Is (MakeError proto jid e) t_object"
  "Is (exc_view e) t_object"
  unfolding MakeRequest_def MakeNotify_def MakeResponce_def MakeError_def exc_view_def
  by (rule obj_view_Is; cases proto; simp add: F_defs version_pair_def)+

lemma exc_view_find:
  "FindVal (exc_view e) k fr =
     Inr (map_of [(''code'', JSigned (rcode e)), (''message'', JString (message e)),
                  (''data'', case edata e of Some d \<Rightarrow> d | None \<Rightarrow> JNull)] k)"
  unfolding exc_view_def by (rule obj_view_find) simp

text \<open>What the reader makes of the data: a null is no data.\<close>

definition norm_exc :: "rpc_exception \<Rightarrow> rpc_exception" where
  "norm_exc e = e\<lparr>edata := (if edata e = Some JNull then None else edata e)\<rparr>"

lemma version_equal: "DeepEqual (JString s) (JString s') 300 DEFAULT_MARGIN = Inr (s = s')"
  by (auto simp: DeepEqual.simps(1) depth_Check_def)

lemma exc_of_json_view:
  assumes "\<And>d. edata e = Some d \<Longrightarrow> height d \<le> 300"
  shows "exc_of_json (exc_view e) fr = Inr (norm_exc e)"
proof -
  have a: "AssertType (exc_view e) t_object fr = Inr ()"
    by (simp only: AssertType_def message_Is if_True)
  have s: "GetString (JString s) fr' = Inr s" for s fr'
    by (simp add: GetString_def AssertType_def Is_def t_defs)
  have z: "Is JNull t_null" by (simp add: Is_def t_defs)
  show ?thesis
  proof (cases "edata e")
    case None
    then show ?thesis
      by (simp add: exc_of_json_def a At_key_def exc_view_find get_int64_def s norm_exc_def z)
  next
    case (Some d)
    have n: "Is d t_null \<longleftrightarrow> d = JNull" by (cases d; simp add: Is_def t_defs)
    have c: "Copy roomy_arena d 300 0 [] = Inr (d, copy_reqs (0 = NoCopyStrings) d)"
      using assms [OF Some] by (simp add: Copy_def doCopy_roomy)
    show ?thesis using Some
      by (simp add: exc_of_json_def a At_key_def exc_view_find get_int64_def s norm_exc_def n c)
  qed
qed

subsection \<open>Properties\<close>

text \<open>
  what \<^verbatim>\<open>MakeRequest\<close> and \<^verbatim>\<open>MakeNotify\<close> format, in either dialect and whatever the id, method and
  parameters are, \<^verbatim>\<open>UnpackSingleRequest\<close> takes apart into the same method and parameters.
\<close>

theorem UnpackSingleRequest_MakeRequest:
  "UnpackSingleRequest proto (MakeRequest proto jid method params) = Inr (method, params) \<and>
   UnpackSingleRequest proto (MakeNotify proto method params) = Inr (method, params)"
  by (cases proto; simp add: UnpackSingleRequest_def Request_find Notify_find F_defs version_pair_def
        Is_def t_defs version_equal lift_jv_def)

text \<open>
  what \<^verbatim>\<open>MakeResponce\<close> formats, \<^verbatim>\<open>UnpackSingleResponce\<close> returns; what \<^verbatim>\<open>MakeError\<close> formats, it throws
  again with the same code and message and, a null apart, the same data.
\<close>

theorem UnpackSingleResponce_MakeResponce:
  assumes "\<And>d. edata e = Some d \<Longrightarrow> height d \<le> 300"
  shows "UnpackSingleResponce proto (MakeResponce proto jid resp) = Inr resp \<and>
    UnpackSingleResponce proto (MakeError proto jid e) = Inl (RpcExc (norm_exc e))"
  using exc_of_json_view [of e, OF assms]
  by (simp only: UnpackSingleResponce_def message_Is simp_thms if_False)
     (cases proto; simp add: message_find F_defs version_pair_def)

theorem UnpackSingleResponce_MakeResponce_witness:
  "UnpackSingleResponce Minified (MakeError Minified (JUnsigned 7)
      \<lparr>rcode = code_internal, message = ''no'', edata = Some (JArray [])\<rparr>)
    = Inl (RpcExc \<lparr>rcode = code_internal, message = ''no'', edata = Some (JArray [])\<rparr>)"
  using UnpackSingleResponce_MakeResponce
    [of "\<lparr>rcode = code_internal, message = ''no'', edata = Some (JArray [])\<rparr>" Minified "JUnsigned 7"]
  by (simp add: norm_exc_def)

end
