(* ===== verification/Rpc_Route.thy ===== *)
theory Rpc_Route
  imports Ordered_Map
begin

text \<open>
  Routing of a method name (\<^verbatim>\<open>handler.cpp\<close>): the sanitizer of slashes, the table of routes and the
  choice of a route. A weak pointer to a handler is the number of the handler; whether it still
  lives is a predicate on these numbers.
\<close>

subsection \<open>The sanitizer\<close>

text \<open>The loop with its \<^verbatim>\<open>lastSlash\<close> flag and the characters written to the storage so far.\<close>

fun sanitize_loop :: "string \<Rightarrow> bool \<Rightarrow> string \<Rightarrow> string" where
  "sanitize_loop [] lastSlash storage = storage"
| "sanitize_loop (ch # rest) lastSlash storage =
     (if ch = CHR ''/'' then sanitize_loop rest True storage
      else sanitize_loop rest False (storage @ (if lastSlash then [CHR ''/''] else []) @ [ch]))"

definition sanitizeSlashes :: "string \<Rightarrow> string" where
  "sanitizeSlashes method =
     (let res = sanitize_loop method False []
      in if res \<noteq> [] \<and> hd res = CHR ''/'' then tl res else res)"

text \<open>
  The storage never outgrows the method, so the writes stay within the resized buffer.
\<close>

lemma sanitize_loop_length:
  "length (sanitize_loop rest lastSlash storage) \<le>
     length storage + length rest + (if lastSlash then 1 else 0)"
  by (induction rest lastSlash storage rule: sanitize_loop.induct) auto

text \<open>The reference: the non-empty pieces between slashes, joined by single slashes.\<close>

fun segments_from :: "string \<Rightarrow> string \<Rightarrow> string list" where
  "segments_from cur [] = (if cur = [] then [] else [cur])"
| "segments_from cur (ch # rest) =
     (if ch = CHR ''/'' then (if cur = [] then segments_from [] rest else cur # segments_from [] rest)
      else segments_from (cur @ [ch]) rest)"

definition segments :: "string \<Rightarrow> string list" where
  "segments m = segments_from [] m"

fun join_segs :: "string list \<Rightarrow> string" where
  "join_segs [] = []"
| "join_segs [s] = s"
| "join_segs (s # t # ss) = s @ CHR ''/'' # join_segs (t # ss)"

lemma join_segs_Cons: "join_segs (s # ss) = s @ (if ss = [] then [] else CHR ''/'' # join_segs ss)"
  by (cases ss) auto

definition seg_ok :: "string \<Rightarrow> bool" where
  "seg_ok s \<longleftrightarrow> s \<noteq> [] \<and> CHR ''/'' \<notin> set s"

lemma segments_from_ok: "CHR ''/'' \<notin> set cur \<Longrightarrow> list_all seg_ok (segments_from cur m)"
  by (induction cur m rule: segments_from.induct) (auto simp: seg_ok_def)

lemma segments_ok: "list_all seg_ok (segments m)"
  unfolding segments_def by (rule segments_from_ok) simp

lemma segments_from_seg: "CHR ''/'' \<notin> set s \<Longrightarrow> segments_from cur (s @ r) = segments_from (cur @ s) r"
  by (induction s arbitrary: cur) auto

lemma segments_join: "list_all seg_ok ss \<Longrightarrow> segments (join_segs ss) = ss"
proof (induction ss)
  case (Cons s ss)
  then have "segments (join_segs (s # ss)) =
      segments_from s (if ss = [] then [] else CHR ''/'' # join_segs ss)"
    by (simp add: segments_def join_segs_Cons segments_from_seg seg_ok_def)
  then show ?case using Cons by (simp add: segments_def seg_ok_def)
qed (simp add: segments_def)

text \<open>
  What the loop has written while it is inside a segment, and while a slash is pending: the closed
  segments each behind a slash, then the current one.
\<close>

fun slash_segs :: "string list \<Rightarrow> string" where
  "slash_segs [] = []"
| "slash_segs (s # ss) = CHR ''/'' # s @ slash_segs ss"

lemma slash_segs_join: "slash_segs ss = (if ss = [] then [] else CHR ''/'' # join_segs ss)"
  by (induction ss) (auto simp: join_segs_Cons)

lemma sanitize_loop_segments:
  "cur = [] \<Longrightarrow> sanitize_loop m True storage = storage @ slash_segs (segments_from cur m)"
  "cur \<noteq> [] \<Longrightarrow> sanitize_loop m False (storage @ CHR ''/'' # cur) = storage @ slash_segs (segments_from cur m)"
proof (induction m arbitrary: cur storage)
  case (Cons ch rest)
  {
    case 1
    then show ?case using Cons.IH(1) [of "[]" storage] Cons.IH(2) [of "[ch]" storage] by simp
  next
    case 2
    then show ?case
      using Cons.IH(1) [of "[]" "storage @ CHR ''/'' # cur"] Cons.IH(2) [of "cur @ [ch]" storage] by simp
  }
qed simp_all

lemma sanitize_first_segment:
  "cur \<noteq> [] \<Longrightarrow> sanitize_loop m False cur = join_segs (segments_from cur m)"
proof (induction m arbitrary: cur)
  case (Cons ch rest)
  then show ?case
    using sanitize_loop_segments(1) [of "[]" rest cur]
    by (auto simp: slash_segs_join join_segs_Cons)
qed simp

lemma join_segs_hd: "list_all seg_ok ss \<Longrightarrow> ss \<noteq> [] \<Longrightarrow> join_segs ss \<noteq> [] \<and> hd (join_segs ss) \<noteq> CHR ''/''"
  by (cases ss) (auto simp: join_segs_Cons seg_ok_def neq_Nil_conv)

lemma sanitize_segments: "sanitizeSlashes m = join_segs (segments m)"
proof (cases m)
  case (Cons ch rest)
  show ?thesis
  proof (cases "ch = CHR ''/''")
    case True
    then show ?thesis using Cons sanitize_loop_segments(1) [of "[]" rest "[]"]
      by (auto simp: sanitizeSlashes_def segments_def slash_segs_join)
  next
    case False
    then have l: "sanitize_loop m False [] = join_segs (segments m)"
      using Cons sanitize_first_segment [of "[ch]" rest] by (simp add: segments_def)
    show ?thesis using join_segs_hd [OF segments_ok, of m]
      by (cases "segments m = []") (simp_all add: sanitizeSlashes_def l)
  qed
qed (simp add: sanitizeSlashes_def segments_def)

subsection \<open>The table\<close>

type_synonym hid = nat

type_synonym route_table = "(string \<times> hid) list"

definition GetRoute :: "route_table \<Rightarrow> string \<Rightarrow> hid option" where
  "GetRoute routes route = map_of routes route"

text \<open>
  \<^verbatim>\<open>SetRoute\<close>: the two refusals are \<^verbatim>\<open>runtime_error\<close>s; a null or dead pointer removes the route.
\<close>

definition SetRoute :: "(hid \<Rightarrow> bool) \<Rightarrow> route_table \<Rightarrow> string \<Rightarrow> hid option \<Rightarrow> string + route_table" where
  "SetRoute alive routes route handler =
     (if route = [] then Inl ''SetRoute(): cannot be empty''
      else if CHR ''/'' \<in> set route then
        Inl (''Route name must not contain any '' @ [CHR 0x27] @ ''/'' @ [CHR 0x27])
      else
        (case handler of
           Some h \<Rightarrow> Inr (if alive h then map_put route h routes else map_erase route routes)
         | None \<Rightarrow> Inr (map_erase route routes)))"

fun find_slash :: "string \<Rightarrow> nat option" where
  "find_slash [] = None"
| "find_slash (ch # rest) = (if ch = CHR ''/'' then Some 0 else map_option Suc (find_slash rest))"

text \<open>
  \<^verbatim>\<open>tryRoute\<close> returns the method (always sanitized, without the route when one was taken) and the
  route with its handler.
\<close>

definition tryRoute :: "(hid \<Rightarrow> bool) \<Rightarrow> route_table \<Rightarrow> string \<Rightarrow> string \<times> (string \<times> hid) option" where
  "tryRoute alive rs method =
     (let raw = sanitizeSlashes method in
      case find_slash raw of
        None \<Rightarrow> (raw, None)
      | Some pos \<Rightarrow>
          (let maybeRoute = take pos raw in
           case map_of rs maybeRoute of
             None \<Rightarrow> (raw, None)
           | Some h \<Rightarrow> if alive h then (drop (pos + 1) raw, Some (maybeRoute, h)) else (raw, None)))"

definition routes_ok :: "route_table \<Rightarrow> bool" where
  "routes_ok rs \<longleftrightarrow> sorted_keys rs \<and> (\<forall>k \<in> fst ` set rs. seg_ok k)"

lemma find_slash_seg: "CHR ''/'' \<notin> set s \<Longrightarrow> find_slash (s @ r) = map_option (\<lambda>n. length s + n) (find_slash r)"
  by (cases "find_slash r"; induction s) auto

lemma find_slash_none: "CHR ''/'' \<notin> set s \<Longrightarrow> find_slash s = None"
  by (induction s) auto

text \<open>Routing a name by its segments.\<close>

lemma tryRoute_segments:
  "tryRoute alive rs name =
     (case segments name of
        s # t # ss \<Rightarrow>
          (case map_of rs s of
             Some h \<Rightarrow> if alive h then (join_segs (t # ss), Some (s, h)) else (join_segs (s # t # ss), None)
           | None \<Rightarrow> (join_segs (s # t # ss), None))
      | ss \<Rightarrow> (join_segs ss, None))"
proof (cases "segments name")
  case Nil
  then show ?thesis by (simp add: tryRoute_def sanitize_segments)
next
  case (Cons s ss)
  with segments_ok [of name] have s: "CHR ''/'' \<notin> set s" by (simp add: seg_ok_def)
  show ?thesis
  proof (cases ss)
    case Nil
    with Cons s show ?thesis by (simp add: tryRoute_def sanitize_segments find_slash_none)
  next
    case c: (Cons t ts)
    have f: "find_slash (join_segs (s # t # ts)) = Some (length s)"
      using find_slash_seg [OF s] by (simp add: join_segs_Cons)
    have j: "take (length s) (join_segs (s # t # ts)) = s" "drop (length s + 1) (join_segs (s # t # ts)) = join_segs (t # ts)"
      by simp_all
    show ?thesis
      unfolding tryRoute_def sanitize_segments Cons c Let_def f list.case option.case j
      by (rule refl)
  qed
qed

lemma join_segs_length: "length (join_segs (segments m)) \<le> length m"
proof -
  have "length (segments_from cur m) \<ge> 0 \<and> length (join_segs (segments_from cur m)) \<le> length cur + length m" for cur
    by (induction cur m rule: segments_from.induct) (auto simp: join_segs_Cons)
  from this [of "[]"] show ?thesis by (simp add: segments_def)
qed

lemma tryRoute_shorter:
  "tryRoute alive rs name = (m', Some (r, h)) \<Longrightarrow> length m' < length name"
  using join_segs_length [of name]
  by (auto simp: tryRoute_segments join_segs_Cons split: list.splits option.splits if_splits)

lemma tryRoute_not_longer: "length (fst (tryRoute alive rs name)) \<le> length name"
  using join_segs_length [of name]
  by (auto simp: tryRoute_segments join_segs_Cons split: list.splits option.splits)

lemma SetRoute_ok:
  assumes "SetRoute alive rs route handler = Inr rs'" "routes_ok rs"
  shows "routes_ok rs'"
proof -
  have r: "seg_ok route" and rs': "rs' = map_erase route rs \<or> (\<exists>h. rs' = map_put route h rs)"
    using assms(1) by (auto simp: SetRoute_def seg_ok_def split: if_splits option.splits)
  show ?thesis
    using rs' r assms(2) unfolding routes_ok_def
    by (elim disjE exE conjE)
      (simp_all add: map_put_sorted map_erase_sorted map_put_keys map_erase_keys Ball_def)
qed

subsection \<open>Properties\<close>

text \<open>
  the sanitizer computes the non-empty segments of the name joined by single slashes, so its
  result has no leading, trailing or doubled slash; it is stable (sanitizing twice changes
  nothing), it keeps every name that is already of this form, and it never writes past the
  method's size.
\<close>

theorem sanitizeSlashes_correct:
  "sanitizeSlashes m = join_segs (segments m) \<and>
   sanitizeSlashes (sanitizeSlashes m) = sanitizeSlashes m \<and>
   (list_all seg_ok ss \<longrightarrow> sanitizeSlashes (join_segs ss) = join_segs ss) \<and>
   length (sanitize_loop m False []) \<le> length m"
  using sanitize_loop_length [of m False "[]"]
  by (simp add: sanitize_segments segments_join segments_ok)

theorem sanitizeSlashes_correct_witness:
  "sanitizeSlashes (join_segs [''a'', ''b'']) = ''a/b'' \<and>
   sanitizeSlashes ''/a/b////c//d/'' = ''a/b/c/d''"
  using sanitizeSlashes_correct [of "''a''" "[''a'', ''b'']"]
  by (simp add: seg_ok_def sanitizeSlashes_def)

text \<open>
  C29: after \<^verbatim>\<open>SetRoute(route, handler)\<close> with a live handler, the names forwarded to that handler over
  the route are exactly those whose first non-empty segment is the route and that have more segments,
  each with the remaining segments as its new name; a name with at most one segment, the bare route
  included, is not forwarded at all, and every other name goes where it went before. The table stays
  sorted with names that can be matched.
\<close>

theorem SetRoute_tryRoute:
  assumes "routes_ok rs" "alive h" "SetRoute alive rs route (Some h) = Inr rs'"
  shows "routes_ok rs' \<and>
    (\<forall>name. tryRoute alive rs' name =
       (case segments name of
          s # t # ts \<Rightarrow> if s = route then (join_segs (t # ts), Some (route, h)) else tryRoute alive rs name
        | _ \<Rightarrow> (join_segs (segments name), None))) \<and>
    (list_all seg_ok (t # ts) \<longrightarrow> segments (join_segs (route # t # ts)) = route # t # ts) \<and>
    (\<forall>r. r \<noteq> route \<longrightarrow> GetRoute rs' r = GetRoute rs r)"
proof -
  have r: "seg_ok route" and rs': "rs' = map_put route h rs"
    using assms(2,3) by (auto simp: SetRoute_def seg_ok_def split: if_splits)
  have m: "map_of rs' = (map_of rs)(route \<mapsto> h)"
    using assms(1) by (simp add: rs' routes_ok_def map_put_map_of)
  have "segments (join_segs (route # t # ts)) = route # t # ts" if "list_all seg_ok (t # ts)"
    using that r by (intro segments_join) simp
  moreover have "tryRoute alive rs' name =
       (case segments name of
          s # t # ts \<Rightarrow> if s = route then (join_segs (t # ts), Some (route, h)) else tryRoute alive rs name
        | _ \<Rightarrow> (join_segs (segments name), None))" for name
    by (auto simp: tryRoute_segments m assms(2) split: list.split option.split)
  ultimately show ?thesis
    using SetRoute_ok [OF assms(3,1)] by (simp add: m GetRoute_def)
qed

theorem SetRoute_tryRoute_witness:
  "tryRoute (\<lambda>h. h = 3) [(''api'', 3)] ''/api//v1/ping'' = (''v1/ping'', Some (''api'', 3)) \<and>
   tryRoute (\<lambda>h. h = 3) [(''api'', 3)] ''/api/'' = (''api'', None)"
  using SetRoute_tryRoute [of "[]" "\<lambda>h. h = 3" 3 "''api''" "[(''api'', 3)]"]
  by (simp add: routes_ok_def SetRoute_def segments_def)

end
