(* ===== verification/Rpc_World.thy ===== *)
theory Rpc_World
  imports Rpc_Protocol Rpc_Route
begin

text \<open>
  The objects of the RPC layer and the promises that connect them. A handler object has a number;
  it is a \<^verbatim>\<open>Server\<close>, an \<^verbatim>\<open>IAsyncTransport\<close> with its sender (\<^verbatim>\<open>Transport\<close>) or a \<^verbatim>\<open>ForwardToHandler\<close>. User code
  (methods, middlewares, exception handlers, the sender's callback) is a function of the model; the
  values of C++ types that methods take are the type parameter \<^verbatim>\<open>'a\<close>.

  In this layer every promise gets its continuation (\<^verbatim>\<open>GetFuture().AtLast(...)\<close>) before it can be
  resolved, is owned by one object, and its executor runs it in place while its object lives. So a
  promise is its state's number and the closure installed on it; which states are fulfilled is part
  of the world. A \<^verbatim>\<open>Promise\<close> captured by a closure is a part of that closure.
\<close>

subsection \<open>Requests\<close>

type_synonym millis = u32

definition NoTimeout :: millis where "NoTimeout = - 1"

record request =
  rmethod :: string
  rtimeout :: millis
  rcontext :: "nat option"
  rparams :: json

subsection \<open>Promises\<close>

datatype kont =
    KSendResult hid protocol json \<comment> \<open>\<^verbatim>\<open>handleServer\<close>: the transport, the request's id\<close>
  | KBatchResp nat protocol json \<comment> \<open>\<^verbatim>\<open>handleServerBatch\<close>: the batch, the part's id\<close>
  | KForward hid string string "nat option" promise \<comment> \<open>\<^verbatim>\<open>Server::OnForward\<close>: route, method, context, \<^verbatim>\<open>orig\<close>\<close>
  | KWrap hid string "nat option" promise \<comment> \<open>\<^verbatim>\<open>Server::Wrap\<close>\<close>
  | KClient nat \<comment> \<open>the caller's own continuation\<close>
and promise = Promise nat kont

subsection \<open>Servers\<close>

record 'a param =
  popt :: bool \<comment> \<open>\<^verbatim>\<open>is_optional_v<T>\<close>\<close>
  pget :: "json \<Rightarrow> frame \<Rightarrow> jv_error + 'a" \<comment> \<open>\<^verbatim>\<open>Get<T>\<close>\<close>

datatype names = NoNames | Names "string list" | Pack "string list"

text \<open>A returned future is already resolved, it will be later, or it is invalid (it has no state).\<close>

datatype user_future = Ready "exc + json" | Later | Invalid_Future

datatype 'a call =
    CSync names "'a param list" "nat option \<Rightarrow> 'a list \<Rightarrow> exc + json"
  | CAsync names "'a param list" "nat option \<Rightarrow> 'a list \<Rightarrow> exc + user_future"
  | CNotify names "'a param list" "nat option \<Rightarrow> 'a list \<Rightarrow> exc option"

record exc_ctx =
  xroute :: string
  xmethod :: string
  xcontext :: "nat option"
  xexception :: exc

type_synonym middleware = "request \<Rightarrow> request \<times> exc option"

type_synonym exc_handler = "exc_ctx \<Rightarrow> (exc + exc option) \<times> exc_ctx"

record 'a server =
  calls :: "(string \<times> 'a call) list"
  selfMiddlewares :: "middleware list"
  EHandlers :: "exc_handler list"
  routeMiddlewares :: "(string \<Rightarrow> middleware) list"
  routeEHandlers :: "(string \<Rightarrow> exc_handler) list"
  fallback :: "(request \<Rightarrow> exc + json) option"
  fallbackCtx :: "nat option"
  current :: "nat option"

subsection \<open>Transports\<close>

record transact =
  tmethod :: string
  tprom :: promise
  ttimeout :: millis

record async =
  aproto :: protocol
  anext :: u64
  apending :: "(u64 \<times> transact) list"
  ahandler :: "hid option"
  alast :: nat \<comment> \<open>a reading of the steady clock, in nanoseconds\<close>
  asender :: "(json \<Rightarrow> exc option) option"

record resp_batch =
  bself :: hid
  bleft :: u64
  bparts :: "json list"

subsection \<open>The world\<close>

datatype 'a body = BServer "'a server" | BAsync async | BForward "hid option"

record 'a node =
  routes :: route_table
  body :: "'a body"

record 'a world =
  nodes :: "hid \<Rightarrow> 'a node option" \<comment> \<open>none: destroyed, its weak pointers are null\<close>
  fulfilled :: "nat set"
  next_cell :: nat
  batches :: "nat \<Rightarrow> resp_batch option"
  next_batch :: nat
  waiting :: "nat \<Rightarrow> kont option" \<comment> \<open>futures of user code that are not resolved, with what waits on them\<close>
  next_waiting :: nat
  sent :: "(hid \<times> json) list"
  delivered :: "(nat \<times> (exc + json)) list"
  terminated :: bool \<comment> \<open>an exception left a \<^verbatim>\<open>noexcept\<close> function; what the model does then has no meaning\<close>

definition alive :: "'a world \<Rightarrow> hid \<Rightarrow> bool" where
  "alive w h \<longleftrightarrow> nodes w h \<noteq> None"

definition get_server :: "'a world \<Rightarrow> hid \<Rightarrow> 'a server option" where
  "get_server w h =
     (case nodes w h of
        Some nd \<Rightarrow> (case body nd of BServer s \<Rightarrow> Some s | _ \<Rightarrow> None)
      | None \<Rightarrow> None)"

definition get_async :: "'a world \<Rightarrow> hid \<Rightarrow> async option" where
  "get_async w h =
     (case nodes w h of
        Some nd \<Rightarrow> (case body nd of BAsync a \<Rightarrow> Some a | _ \<Rightarrow> None)
      | None \<Rightarrow> None)"

definition put_body :: "hid \<Rightarrow> 'a body \<Rightarrow> 'a world \<Rightarrow> 'a world" where
  "put_body h b w =
     (case nodes w h of
        Some nd \<Rightarrow> w\<lparr>nodes := (nodes w)(h := Some (nd\<lparr>body := b\<rparr>))\<rparr>
      | None \<Rightarrow> w)"

text \<open>A fresh promise with its continuation installed.\<close>

definition new_promise :: "kont \<Rightarrow> 'a world \<Rightarrow> promise \<times> 'a world" where
  "new_promise k w = (Promise (next_cell w) k, w\<lparr>next_cell := Suc (next_cell w)\<rparr>)"

subsection \<open>Contexts\<close>

text \<open>\<^verbatim>\<open>context.cpp\<close>: named values; \<^verbatim>\<open>SetValue\<close> returns a reference to the value it finds or makes.\<close>

definition CloneFrom :: "(string \<times> 'v) list \<Rightarrow> (string \<times> 'v) list \<Rightarrow> (string \<times> 'v) list" where
  "CloneFrom data other = other"

definition SetValue :: "'v \<Rightarrow> string \<Rightarrow> (string \<times> 'v) list \<Rightarrow> 'v \<times> (string \<times> 'v) list" where
  "SetValue empty_any name data =
     (case map_of data name of
        Some v \<Rightarrow> (v, data)
      | None \<Rightarrow> (empty_any, map_put name empty_any data))"

definition Value :: "string \<Rightarrow> (string \<times> 'v) list \<Rightarrow> 'v option" where
  "Value name data = map_of data name"

end
