(* ===== verification/Rpc_Promise.thy ===== *)
theory Rpc_Promise
  imports Rpc_World
begin

text \<open>
  What resolving a promise does: the exception handlers of a server (\<^verbatim>\<open>Server::excHandlers\<close>), the
  sending of a result or of a batch (\<^verbatim>\<open>Impl::sendResult\<close>, \<^verbatim>\<open>Impl::addBatchResp\<close>), the closures of
  \<^verbatim>\<open>Server::OnForward\<close> and \<^verbatim>\<open>Server::Wrap\<close>, and the rule of \<^verbatim>\<open>future.hpp\<close> that the first result wins.
\<close>

subsection \<open>Exception handlers\<close>

text \<open>
  The handlers run from the last one added; each one that returns an exception replaces the one
  the next handler sees.
\<close>

fun run_ehandlers :: "exc_handler list \<Rightarrow> exc_ctx \<Rightarrow> exc option \<Rightarrow> exc + exc option \<times> exc_ctx" where
  "run_ehandlers [] ectx ov = Inr (ov, ectx)"
| "run_ehandlers (h # hs) ectx ov =
     (case h ectx of
        (Inl unhandled, _) \<Rightarrow> Inl unhandled
      | (Inr None, ectx') \<Rightarrow> run_ehandlers hs ectx' ov
      | (Inr (Some next), ectx') \<Rightarrow> run_ehandlers hs (ectx'\<lparr>xexception := next\<rparr>) (Some next))"

definition excHandlers :: "'a server \<Rightarrow> string \<Rightarrow> string \<Rightarrow> nat option \<Rightarrow> exc \<Rightarrow> exc option" where
  "excHandlers s route method ctx x =
     (let ectx = \<lparr>xroute = route, xmethod = method, xcontext = ctx, xexception = x\<rparr>
      in case (if route = [] then run_ehandlers (rev (EHandlers s)) ectx None
               else run_ehandlers (rev (map (\<lambda>h. h route) (routeEHandlers s))) ectx None) of
           Inl unhandled \<Rightarrow> Some (mk_rpc ''Internal Error'' code_internal None)
         | Inr (None, ectx') \<Rightarrow> None
         | Inr (Some _, ectx') \<Rightarrow>
             (case xexception ectx' of
                RpcExc r \<Rightarrow> Some (RpcExc r)
              | e \<Rightarrow> Some (mk_rpc (exc_what e) code_internal None)))"

text \<open>\<^verbatim>\<open>cb(over ? over : std::current_exception())\<close>\<close>

definition overridden :: "'a server \<Rightarrow> string \<Rightarrow> string \<Rightarrow> nat option \<Rightarrow> exc \<Rightarrow> exc" where
  "overridden s route method ctx x =
     (case excHandlers s route method ctx x of Some over \<Rightarrow> over | None \<Rightarrow> x)"

subsection \<open>Sending\<close>

text \<open>\<^verbatim>\<open>Transport::Send\<close>. What the sender accepted is logged.\<close>

definition Send :: "hid \<Rightarrow> json \<Rightarrow> 'a world \<Rightarrow> exc option \<times> 'a world" where
  "Send h msg w =
     (case get_async w h of
        None \<Rightarrow> (None, w)
      | Some a \<Rightarrow>
          (case asender a of
             None \<Rightarrow> (Some (StdExc ''Could not send: sender not registered''), w)
           | Some sender \<Rightarrow>
               (case sender msg of
                  Some e \<Rightarrow> (Some e, w)
                | None \<Rightarrow> (None, w\<lparr>sent := sent w @ [(h, msg)]\<rparr>))))"

definition wrap_exc :: "exc \<Rightarrow> rpc_exception" where
  "wrap_exc e =
     (case e of RpcExc r \<Rightarrow> r | _ \<Rightarrow> \<lparr>rcode = code_internal, message = exc_what e, edata = None\<rparr>)"

text \<open>
  An exception of the result, or of sending the result, is sent as an error; an exception of that
  is only printed.
\<close>

definition sendResult :: "hid \<Rightarrow> protocol \<Rightarrow> json \<Rightarrow> exc + json \<Rightarrow> 'a world \<Rightarrow> 'a world" where
  "sendResult self proto jid res w =
     (case (case res of Inr v \<Rightarrow> Send self (MakeResponce proto jid v) w | Inl e \<Rightarrow> (Some e, w)) of
        (None, w') \<Rightarrow> w'
      | (Some e, w') \<Rightarrow> snd (Send self (MakeError proto jid (wrap_exc e)) w'))"

definition copy_part :: "json \<Rightarrow> exc + json" where
  "copy_part j = (case Copy roomy_arena j 300 0 [] of Inl e \<Rightarrow> Inl (JvExc e) | Inr (j', _) \<Rightarrow> Inr j')"

definition batch_part :: "protocol \<Rightarrow> json \<Rightarrow> exc + json \<Rightarrow> exc + json" where
  "batch_part proto jid res =
     (case (case res of Inr v \<Rightarrow> copy_part (MakeResponce proto jid v) | Inl e \<Rightarrow> Inl e) of
        Inr part \<Rightarrow> Inr part
      | Inl e \<Rightarrow> copy_part (MakeError proto jid (wrap_exc e)))"

text \<open>A part that cannot be made leaves the counter of the batch as it is.\<close>

definition addBatchResp :: "protocol \<Rightarrow> json \<Rightarrow> nat \<Rightarrow> exc + json \<Rightarrow> 'a world \<Rightarrow> 'a world" where
  "addBatchResp proto jid b res w =
     (case batches w b of
        None \<Rightarrow> w
      | Some bt \<Rightarrow>
          (case batch_part proto jid res of
             Inl e \<Rightarrow> w
           | Inr part \<Rightarrow>
               (let bt' = bt\<lparr>bparts := bparts bt @ [part], bleft := bleft bt - 1\<rparr>;
                    w' = w\<lparr>batches := (batches w)(b := Some bt')\<rparr>
                in if bleft bt' = 0 then snd (Send (bself bt') (JArray (bparts bt')) w') else w')))"

subsection \<open>Resolving\<close>

text \<open>
  \<^verbatim>\<open>operator()\<close> of a promise: false when it was fulfilled before, otherwise the continuation runs. The
  executor of a destroyed object is stopped: it drops the job, and a promise captured by the
  dropped closure is broken.
\<close>

primrec fulfil :: "promise \<Rightarrow> exc + json \<Rightarrow> 'a world \<Rightarrow> bool \<times> 'a world"
and run_kont :: "kont \<Rightarrow> exc + json \<Rightarrow> 'a world \<Rightarrow> 'a world" where
  "fulfil (Promise c k) res w =
     (if c \<in> fulfilled w then (False, w)
      else (True, run_kont k res (w\<lparr>fulfilled := insert c (fulfilled w)\<rparr>)))"
| "run_kont (KSendResult h proto jid) res w = (if alive w h then sendResult h proto jid res w else w)"
| "run_kont (KBatchResp b proto jid) res w =
     (case batches w b of
        Some bt \<Rightarrow> if alive w (bself bt) then addBatchResp proto jid b res w else w
      | None \<Rightarrow> w)"
| "run_kont (KForward h route method ctx orig) res w =
     snd (fulfil orig
            (case get_server w h of
               None \<Rightarrow> Inl (FutureError ''Broken Promise'')
             | Some s \<Rightarrow> (case res of Inr v \<Rightarrow> Inr v | Inl e \<Rightarrow> Inl (overridden s route method ctx e))) w)"
| "run_kont (KWrap h method ctx cb) res w =
     snd (fulfil cb
            (case get_server w h of
               None \<Rightarrow> Inl (FutureError ''Broken Promise'')
             | Some s \<Rightarrow> (case res of Inr v \<Rightarrow> Inr v | Inl e \<Rightarrow> Inl (overridden s [] method ctx e))) w)"
| "run_kont (KClient n) res w = w\<lparr>delivered := delivered w @ [(n, res)]\<rparr>"

text \<open>The destructor of the last owner.\<close>

definition drop_promise :: "promise \<Rightarrow> 'a world \<Rightarrow> 'a world" where
  "drop_promise p w = snd (fulfil p (Inl (FutureError ''Broken Promise'')) w)"

fun cell :: "promise \<Rightarrow> nat" where
  "cell (Promise c k) = c"

text \<open>\<^verbatim>\<open>IsValid()\<close>\<close>

definition promise_valid :: "promise \<Rightarrow> 'a world \<Rightarrow> bool" where
  "promise_valid p w \<longleftrightarrow> cell p \<notin> fulfilled w"

subsection \<open>What a resolution leaves alone\<close>

text \<open>
  The parts of the world that no resolution changes, and the ones that only grow.
\<close>

definition keeps :: "'a world \<Rightarrow> 'a world \<Rightarrow> bool" where
  "keeps w w' \<longleftrightarrow>
     nodes w' = nodes w \<and> next_cell w' = next_cell w \<and> next_batch w' = next_batch w \<and>
     waiting w' = waiting w \<and> next_waiting w' = next_waiting w \<and> terminated w' = terminated w \<and>
     fulfilled w \<subseteq> fulfilled w' \<and> (\<exists>ms. sent w' = sent w @ ms) \<and> (\<exists>ds. delivered w' = delivered w @ ds)"

lemma keeps_refl [simp]: "keeps w w"
  by (simp add: keeps_def)

lemma keeps_trans [trans]: "keeps w w' \<Longrightarrow> keeps w' w'' \<Longrightarrow> keeps w w''"
  by (auto simp: keeps_def)

lemma Send_keeps: "keeps w (snd (Send h msg w))"
  by (auto simp: Send_def keeps_def split: option.split)

lemma Send_fulfilled [simp]: "fulfilled (snd (Send h msg w)) = fulfilled w"
  by (simp add: Send_def split: option.split)

lemma sendResult_keeps: "keeps w (sendResult h proto jid res w)"
proof -
  have s: "keeps w w'" if "Send h m w = (x, w')" for m x w'
    using Send_keeps [of w h m] that by simp
  have t: "keeps w (snd (Send h m w'))" if "Send h m' w = (x, w')" for m m' x w'
    by (rule keeps_trans [OF s [OF that] Send_keeps])
  show ?thesis
    by (auto simp: sendResult_def Send_keeps split: sum.split option.split prod.split intro: s t)
qed

lemma sendResult_fulfilled [simp]: "fulfilled (sendResult h proto jid res w) = fulfilled w"
proof -
  have s: "fulfilled w' = fulfilled w" if "Send h m w = (x, w')" for m x w'
    using Send_fulfilled [of h m w] that by simp
  show ?thesis
    by (auto simp: sendResult_def split: sum.split option.split prod.split dest: s)
qed

lemma addBatchResp_keeps: "keeps w (addBatchResp proto jid b res w)"
proof -
  have s: "keeps w (snd (Send h m (w\<lparr>batches := bs\<rparr>)))" for h m bs
    using Send_keeps [of "w\<lparr>batches := bs\<rparr>" h m] by (simp add: keeps_def)
  show ?thesis
    by (auto simp: addBatchResp_def Let_def split: option.split sum.split intro: s) (simp add: keeps_def)
qed

lemma addBatchResp_fulfilled [simp]: "fulfilled (addBatchResp proto jid b res w) = fulfilled w"
  by (simp add: addBatchResp_def Let_def split: option.split sum.split)

lemma mark_keeps: "keeps w (w\<lparr>fulfilled := insert c (fulfilled w)\<rparr>)"
  by (auto simp: keeps_def)

lemma fulfil_keeps:
  fixes w :: "'a world"
  shows "keeps w (snd (fulfil p res w))" and "keeps w (run_kont k res w)"
proof (induction p and k arbitrary: res w and res w)
  case (Promise c k)
  then show ?case
    by (auto intro: keeps_trans [OF mark_keeps])
next
  case (KClient n)
  show ?case by (simp add: keeps_def)
qed (auto intro: sendResult_keeps addBatchResp_keeps split: option.split)

text \<open>The cells that a promise resolves on its way down.\<close>

primrec chain_cells :: "promise \<Rightarrow> nat list" and kont_cells :: "kont \<Rightarrow> nat list" where
  "chain_cells (Promise c k) = c # kont_cells k"
| "kont_cells (KSendResult h proto jid) = []"
| "kont_cells (KBatchResp b proto jid) = []"
| "kont_cells (KForward h route method ctx orig) = chain_cells orig"
| "kont_cells (KWrap h method ctx cb) = chain_cells cb"
| "kont_cells (KClient n) = []"

lemma fulfil_cells:
  fixes w :: "'a world"
  shows "fulfilled (snd (fulfil p res w)) \<subseteq> fulfilled w \<union> set (chain_cells p)"
    and "fulfilled (run_kont k res w) \<subseteq> fulfilled w \<union> set (kont_cells k)"
proof (induction p and k arbitrary: res w and res w)
  case (Promise c k)
  show ?case
    using Promise [of res "w\<lparr>fulfilled := insert c (fulfilled w)\<rparr>"] by auto
qed (auto split: option.split)

lemma fulfil_marks: "cell p \<in> fulfilled (snd (fulfil p res w))"
proof (cases p)
  case (Promise c k)
  then show ?thesis
    using fulfil_keeps(2) [of "w\<lparr>fulfilled := insert c (fulfilled w)\<rparr>" k res]
    by (auto simp: keeps_def)
qed

text \<open>The bottom of the chain: whose continuation finally gets the result.\<close>

primrec root_client :: "promise \<Rightarrow> nat option" and kont_client :: "kont \<Rightarrow> nat option" where
  "root_client (Promise c k) = kont_client k"
| "kont_client (KSendResult h proto jid) = None"
| "kont_client (KBatchResp b proto jid) = None"
| "kont_client (KForward h route method ctx orig) = root_client orig"
| "kont_client (KWrap h method ctx cb) = root_client cb"
| "kont_client (KClient n) = Some n"

text \<open>What the exception handlers on the way make of a result.\<close>

primrec promise_result :: "promise \<Rightarrow> 'a world \<Rightarrow> exc + json \<Rightarrow> exc + json"
and kont_result :: "kont \<Rightarrow> 'a world \<Rightarrow> exc + json \<Rightarrow> exc + json" where
  "promise_result (Promise c k) w res = kont_result k w res"
| "kont_result (KSendResult h proto jid) w res = res"
| "kont_result (KBatchResp b proto jid) w res = res"
| "kont_result (KForward h route method ctx orig) w res =
     promise_result orig w
       (case get_server w h of
          None \<Rightarrow> Inl (FutureError ''Broken Promise'')
        | Some s \<Rightarrow> (case res of Inr v \<Rightarrow> Inr v | Inl e \<Rightarrow> Inl (overridden s route method ctx e)))"
| "kont_result (KWrap h method ctx cb) w res =
     promise_result cb w
       (case get_server w h of
          None \<Rightarrow> Inl (FutureError ''Broken Promise'')
        | Some s \<Rightarrow> (case res of Inr v \<Rightarrow> Inr v | Inl e \<Rightarrow> Inl (overridden s [] method ctx e)))"
| "kont_result (KClient n) w res = res"

lemma get_server_mark [simp]:
  "get_server (w\<lparr>fulfilled := S\<rparr>) h = get_server w h" "get_async (w\<lparr>fulfilled := S\<rparr>) h = get_async w h"
  "alive (w\<lparr>fulfilled := S\<rparr>) h = alive w h"
  by (simp_all add: get_server_def get_async_def alive_def)

lemma kont_result_mark:
  fixes w :: "'a world"
  shows "promise_result p (w\<lparr>fulfilled := S\<rparr>) res = promise_result p w res"
    and "kont_result k (w\<lparr>fulfilled := S\<rparr>) res = kont_result k w res"
  by (induction p and k arbitrary: res and res) (simp_all cong: option.case_cong)

lemma fulfil_delivers:
  fixes w :: "'a world"
  shows "distinct (chain_cells p) \<Longrightarrow> set (chain_cells p) \<inter> fulfilled w = {} \<Longrightarrow> root_client p = Some n \<Longrightarrow>
      snd (fulfil p res w) =
        w\<lparr>fulfilled := set (chain_cells p) \<union> fulfilled w, delivered := delivered w @ [(n, promise_result p w res)]\<rparr>"
    and "distinct (kont_cells k) \<Longrightarrow> set (kont_cells k) \<inter> fulfilled w = {} \<Longrightarrow> kont_client k = Some n \<Longrightarrow>
      run_kont k res w =
        w\<lparr>fulfilled := set (kont_cells k) \<union> fulfilled w, delivered := delivered w @ [(n, kont_result k w res)]\<rparr>"
proof (induction p and k arbitrary: res w and res w)
  case (Promise c k)
  show ?case
    using Promise.IH [of "w\<lparr>fulfilled := insert c (fulfilled w)\<rparr>" res] Promise.prems
    by (simp add: kont_result_mark insert_commute Un_commute)
qed simp_all

subsection \<open>Properties\<close>

text \<open>
  a promise is resolved once: the first call fulfils it and returns true, every later call
  returns false and changes nothing, whatever its result; so nothing is sent or delivered twice.
\<close>

theorem fulfil_first_wins:
  "(fst (fulfil p res w) \<longleftrightarrow> promise_valid p w) \<and>
   fulfil p res' (snd (fulfil p res w)) = (False, snd (fulfil p res w))"
  using fulfil_marks [of p res w] by (cases p) (simp add: promise_valid_def)

text \<open>
  C15: resolving a promise that leads through any chain of forwarding servers and asynchronous calls
  to a caller delivers exactly one result to that caller, the given one as the exception handlers
  of the live servers on the way leave it, and does nothing else to the world.
\<close>

theorem fulfil_delivers_once:
  assumes "distinct (chain_cells p)" "set (chain_cells p) \<inter> fulfilled w = {}" "root_client p = Some n"
  shows "fulfil p res w =
    (True, w\<lparr>fulfilled := set (chain_cells p) \<union> fulfilled w,
             delivered := delivered w @ [(n, promise_result p w res)]\<rparr>)"
  using fulfil_delivers(1) [OF assms] assms(2) by (cases p) (simp add: prod_eq_iff)

definition demo_server :: "'a server" where
  "demo_server = \<lparr>calls = [], selfMiddlewares = [],
     EHandlers = [\<lambda>x. (Inr (Some (StdExc ''masked'')), x)], routeMiddlewares = [],
     routeEHandlers = [], fallback = None, fallbackCtx = None, current = None\<rparr>"

definition demo_world :: "'a world" where
  "demo_world = \<lparr>nodes = (\<lambda>h. if h = 0 then Some \<lparr>routes = [], body = BServer demo_server\<rparr> else None),
     fulfilled = {}, next_cell = 9, batches = (\<lambda>_. None), next_batch = 0, waiting = (\<lambda>_. None),
     next_waiting = 0, sent = [], delivered = [], terminated = False\<rparr>"

theorem fulfil_delivers_once_witness:
  "delivered (snd (fulfil (Promise 2 (KForward 0 ''r'' ''m'' None (Promise 1 (KWrap 0 ''m'' None (Promise 0 (KClient 4))))))
      (Inl (StdExc ''boom'')) (demo_world :: nat world)))
     = [(4, Inl (mk_rpc ''masked'' code_internal None))]"
  using fulfil_delivers_once
    [of "Promise 2 (KForward 0 ''r'' ''m'' None (Promise 1 (KWrap 0 ''m'' None (Promise 0 (KClient 4)))))"
        "demo_world :: nat world" 4 "Inl (StdExc ''boom'')"]
  by (simp add: demo_world_def demo_server_def get_server_def overridden_def excHandlers_def)

end
