(* ===== verification/Rpc_Server.thy ===== *)
theory Rpc_Server
  imports Rpc_Promise
begin

text \<open>
  The server (\<^verbatim>\<open>server.hpp\<close>, \<^verbatim>\<open>server.cpp\<close>): registration of calls, middlewares, the checks and the
  unpacking of parameters, the extension \<^verbatim>\<open>rpc.list\<close>, and the two handlers with their exception
  paths. \<^verbatim>\<open>std::bad_alloc\<close> and exceptions that are not \<^verbatim>\<open>std::exception\<close> are left out.

  The arguments of a call are unpacked from left to right; C++ leaves their order open, which
  only decides which of several bad arguments is reported.
\<close>

subsection \<open>Registration\<close>

definition ext_prefix :: string where "ext_prefix = ''rpc.''"

definition registerCall :: "string \<Rightarrow> 'a call \<Rightarrow> 'a server \<Rightarrow> string + 'a server" where
  "registerCall name c s =
     (if take 4 name = ext_prefix then
        Inl (''methods cannot start with '' @ quoted ''rpc.'' @ '' - reserved for extensions'')
      else
        (case map_of (calls s) name of
           Some _ \<Rightarrow> Inl (''Method already registered: '' @ name)
         | None \<Rightarrow> Inr (s\<lparr>calls := map_put name c (calls s)\<rparr>)))"

definition Unregister :: "string \<Rightarrow> 'a server \<Rightarrow> string + 'a server" where
  "Unregister name s =
     (case map_of (calls s) name of
        Some _ \<Rightarrow> Inr (s\<lparr>calls := map_erase name (calls s)\<rparr>)
      | None \<Rightarrow> Inl (''Cannot unregister method, not found: '' @ name))"

definition IsMethodRegistered :: "string \<Rightarrow> 'a server \<Rightarrow> bool" where
  "IsMethodRegistered name s \<longleftrightarrow> map_of (calls s) name \<noteq> None"

definition RegisteredMethods :: "'a server \<Rightarrow> string list" where
  "RegisteredMethods s = map fst (calls s)"

definition AddMiddleware :: "middleware \<Rightarrow> 'a server \<Rightarrow> 'a server" where
  "AddMiddleware mw s = s\<lparr>selfMiddlewares := selfMiddlewares s @ [mw]\<rparr>"

definition AddRouteMiddleware :: "(string \<Rightarrow> middleware) \<Rightarrow> 'a server \<Rightarrow> 'a server" where
  "AddRouteMiddleware mw s = s\<lparr>routeMiddlewares := routeMiddlewares s @ [mw]\<rparr>"

definition doAddExceptionHandler :: "exc_handler \<Rightarrow> 'a server \<Rightarrow> 'a server" where
  "doAddExceptionHandler h s = s\<lparr>EHandlers := EHandlers s @ [h]\<rparr>"

definition doAddRouteExceptionHandler :: "(string \<Rightarrow> exc_handler) \<Rightarrow> 'a server \<Rightarrow> 'a server" where
  "doAddRouteExceptionHandler h s = s\<lparr>routeEHandlers := routeEHandlers s @ [h]\<rparr>"

definition SetFallback :: "(request \<Rightarrow> exc + json) option \<Rightarrow> 'a server \<Rightarrow> 'a server" where
  "SetFallback handler s = s\<lparr>fallback := handler\<rparr>"

subsection \<open>Middlewares\<close>

text \<open>
  A middleware changes the request it is given, also when it throws afterwards.
\<close>

fun run_mws :: "middleware list \<Rightarrow> middleware" where
  "run_mws [] req = (req, None)"
| "run_mws (m # ms) req =
     (case m req of
        (req', Some e) \<Rightarrow> (req', Some e)
      | (req', None) \<Rightarrow> run_mws ms req')"

definition runMiddlewares :: "'a server \<Rightarrow> middleware" where
  "runMiddlewares s req = run_mws (rev (selfMiddlewares s)) req"

definition runRouteMiddlewares :: "'a server \<Rightarrow> string \<Rightarrow> middleware" where
  "runRouteMiddlewares s route req = run_mws (rev (map (\<lambda>m. m route) (routeMiddlewares s))) req"

subsection \<open>Parameters\<close>

text \<open>\<^verbatim>\<open>TraceFrame frame("<params>", root)\<close>\<close>

definition params_frame :: frame where
  "params_frame = Frame (KStr ''<params>'') RootFrame"

definition get_positional :: "'a param \<Rightarrow> json \<Rightarrow> u32 \<Rightarrow> frame \<Rightarrow> jv_error + 'a" where
  "get_positional p j idx fr =
     (let next = Frame (KIdx idx) fr in
      if popt p then
        (case Value_idx (\<lambda>v _. Inr v) j idx JNull fr of
           Inl e \<Rightarrow> Inl e
         | Inr v \<Rightarrow> pget p v next)
      else
        (case At_idx j idx next of
           Inl e \<Rightarrow> Inl e
         | Inr v \<Rightarrow> pget p v next))"

definition get_named :: "'a param \<Rightarrow> json \<Rightarrow> string \<Rightarrow> frame \<Rightarrow> jv_error + 'a" where
  "get_named p j key fr =
     (let next = Frame (KStr key) fr in
      if popt p then
        (case Value_key (\<lambda>v _. Inr v) j key JNull fr of
           Inl e \<Rightarrow> Inl e
         | Inr v \<Rightarrow> pget p v next)
      else
        (case At_key j key fr of
           Inl e \<Rightarrow> Inl e
         | Inr v \<Rightarrow> pget p v next))"

fun get_args :: "('a param \<Rightarrow> 'k \<Rightarrow> jv_error + 'a) \<Rightarrow> ('a param \<times> 'k) list \<Rightarrow> jv_error + 'a list" where
  "get_args getter [] = Inr []"
| "get_args getter ((p, k) # ps) =
     (case getter p k of
        Inl e \<Rightarrow> Inl e
      | Inr v \<Rightarrow> (case get_args getter ps of Inl e \<Rightarrow> Inl e | Inr vs \<Rightarrow> Inr (v # vs)))"

text \<open>The values the handler is called with. A pack is read from the parameters as a whole.\<close>

definition call_values :: "names \<Rightarrow> 'a param list \<Rightarrow> json \<Rightarrow> jv_error + 'a list" where
  "call_values ns ps params =
     (case ns of
        NoNames \<Rightarrow>
          get_args (\<lambda>p i. get_positional p params i params_frame)
            (zip ps (map word_of_nat [0..<length ps]))
      | Names keys \<Rightarrow> get_args (\<lambda>p k. get_named p params k params_frame) (zip ps keys)
      | Pack _ \<Rightarrow> get_args (\<lambda>p _. pget p params params_frame) (map (\<lambda>p. (p, ())) ps))"

definition doCall :: "('c \<Rightarrow> 'a list \<Rightarrow> exc + 'r) \<Rightarrow> 'c \<Rightarrow> names \<Rightarrow> 'a param list \<Rightarrow> json \<Rightarrow> exc + 'r" where
  "doCall fn ctx ns ps params =
     (case call_values ns ps params of Inl e \<Rightarrow> Inl (JvExc e) | Inr vs \<Rightarrow> fn ctx vs)"

definition names_of :: "names \<Rightarrow> string list option" where
  "names_of ns = (case ns of NoNames \<Rightarrow> None | Names keys \<Rightarrow> Some keys | Pack fs \<Rightarrow> Some fs)"

definition names_count :: "names \<Rightarrow> 'a param list \<Rightarrow> u32" where
  "names_count ns ps =
     word_of_nat (case ns of NoNames \<Rightarrow> length ps | Names keys \<Rightarrow> length keys | Pack fs \<Rightarrow> length fs)"

definition validateRequest :: "string list option \<Rightarrow> u32 \<Rightarrow> bool \<Rightarrow> json \<Rightarrow> bool \<Rightarrow> exc option" where
  "validateRequest ns nargs is_method params notif =
     (if notif \<and> is_method then
        Some (mk_rpc ''Expected a notification call, called as method'' code_invalid_request None)
      else if \<not> notif \<and> \<not> is_method then
        Some (mk_rpc ''Expected a method call, called as notify'' code_invalid_request None)
      else
        (case ns of
           Some keys \<Rightarrow>
             if \<not> Is params t_object then
               Some (mk_rpc ''Method expected named params'' code_invalid_params
                 (Some (obj_view [(''params_count'', JUnsigned (ucast nargs)),
                                  (''was_type'', JString (GetTypeName params)),
                                  (''params_names'', JArray (map JString keys))])))
             else None
         | None \<Rightarrow>
             if nargs \<noteq> 0 \<and> \<not> Is params t_array then
               Some (mk_rpc ''Method expected positional params'' code_invalid_params
                 (Some (obj_view [(''params_count'', JUnsigned (ucast nargs)),
                                  (''was_type'', JString (GetTypeName params))])))
             else None))"

subsection \<open>Calls\<close>

text \<open>
  A registered call on a request whose promise is \<open>cb\<close> (none for a notification): the exception it
  throws, if any, and the world. A method that returns a future hands the promise over to \<^verbatim>\<open>Wrap\<close>,
  which runs at once when the future is resolved already. \<^verbatim>\<open>AtLast\<close> throws on an invalid future, after
  the promise was moved into \<^verbatim>\<open>Wrap\<close>: unwinding breaks that promise, and the handler's catch block,
  which resolves the promise it has no longer, throws out of a \<^verbatim>\<open>noexcept\<close> function.
\<close>

definition is_method_call :: "promise option \<Rightarrow> 'a world \<Rightarrow> bool" where
  "is_method_call cb w \<longleftrightarrow> (case cb of Some p \<Rightarrow> promise_valid p w | None \<Rightarrow> False)"

definition resolve_cb :: "promise option \<Rightarrow> exc + json \<Rightarrow> 'a world \<Rightarrow> 'a world" where
  "resolve_cb cb res w = (case cb of Some p \<Rightarrow> snd (fulfil p res w) | None \<Rightarrow> w)"

definition install_wrap :: "hid \<Rightarrow> request \<Rightarrow> promise option \<Rightarrow> user_future \<Rightarrow> 'a world \<Rightarrow> 'a world" where
  "install_wrap h req cb fut w =
     (case cb of
        None \<Rightarrow> w
      | Some p \<Rightarrow>
          (let k = KWrap h (rmethod req) (rcontext req) p in
           case fut of
             Ready res \<Rightarrow> run_kont k res w
           | Invalid_Future \<Rightarrow> (drop_promise p w)\<lparr>terminated := True\<rparr>
           | Later \<Rightarrow> w\<lparr>waiting := (waiting w)(next_waiting w := Some k), next_waiting := Suc (next_waiting w)\<rparr>))"

definition run_call :: "'a call \<Rightarrow> hid \<Rightarrow> nat option \<Rightarrow> request \<Rightarrow> promise option \<Rightarrow> 'a world \<Rightarrow> exc option \<times> 'a world" where
  "run_call c h ctx req cb w =
     (case c of
        CSync ns ps fn \<Rightarrow>
          (case validateRequest (names_of ns) (names_count ns ps) (is_method_call cb w) (rparams req) False of
             Some e \<Rightarrow> (Some e, w)
           | None \<Rightarrow>
               (case doCall fn ctx ns ps (rparams req) of
                  Inl e \<Rightarrow> (Some e, w)
                | Inr ret \<Rightarrow> (None, resolve_cb cb (Inr ret) w)))
      | CAsync ns ps fn \<Rightarrow>
          (case validateRequest (names_of ns) (names_count ns ps) (is_method_call cb w) (rparams req) False of
             Some e \<Rightarrow> (Some e, w)
           | None \<Rightarrow>
               (case doCall fn ctx ns ps (rparams req) of
                  Inl e \<Rightarrow> (Some e, w)
                | Inr fut \<Rightarrow> (None, install_wrap h req cb fut w)))
      | CNotify ns ps fn \<Rightarrow>
          (case validateRequest (names_of ns) (names_count ns ps) (is_method_call cb w) (rparams req) True of
             Some e \<Rightarrow> (Some e, w)
           | None \<Rightarrow>
               (case doCall (\<lambda>x vs. case fn x vs of Some e \<Rightarrow> Inl e | None \<Rightarrow> Inr ()) ctx ns ps (rparams req) of
                  Inl e \<Rightarrow> (Some e, w)
                | Inr _ \<Rightarrow> (None, w))))"

definition handleExtension :: "'a server \<Rightarrow> request \<Rightarrow> promise \<Rightarrow> 'a world \<Rightarrow> exc option \<times> 'a world" where
  "handleExtension s req cb w =
     (if rmethod req = ''rpc.list'' then
        (None, snd (fulfil cb (Inr (JArray (map (\<lambda>it. JString (fst it)) (calls s)))) w))
      else
        (Some (mk_rpc ''Could not find extension'' code_method_not_found
           (Some (obj_view [(''was_ext'', JString (rmethod req))]))), w))"

definition set_current :: "hid \<Rightarrow> nat option \<Rightarrow> 'a world \<Rightarrow> 'a world" where
  "set_current h ctx w =
     (case get_server w h of Some s \<Rightarrow> put_body h (BServer (s\<lparr>current := ctx\<rparr>)) w | None \<Rightarrow> w)"

subsection \<open>The handlers\<close>

text \<open>\<^verbatim>\<open>DoHandle\<close> after the middlewares, as far as it throws.\<close>

definition dispatch :: "'a server \<Rightarrow> hid \<Rightarrow> nat option \<Rightarrow> request \<Rightarrow> promise \<Rightarrow> 'a world \<Rightarrow> exc option \<times> 'a world" where
  "dispatch s h ctx req cb w =
     (if take 4 (rmethod req) = ext_prefix then handleExtension s req cb w
      else
        (case map_of (calls s) (rmethod req) of
           Some c \<Rightarrow> run_call c h ctx req (Some cb) w
         | None \<Rightarrow>
             (case fallback s of
                Some f \<Rightarrow>
                  (case f req of
                     Inl e \<Rightarrow> (Some e, w)
                   | Inr v \<Rightarrow> (None, snd (fulfil cb (Inr v) w)))
              | None \<Rightarrow>
                  (let x = mk_rpc ''Method not found'' code_method_not_found
                             (Some (obj_view [(''was_method'', JString (rmethod req))]))
                   in (None, snd (fulfil cb (Inl (overridden s [] (rmethod req) (rcontext req) x)) w))))))"

text \<open>
  The context of the request is the server's current one while its code runs; leaving the block
  by an exception restores the fallback before the exception handlers run. User code sees the
  current context as its first argument.
\<close>

definition DoHandle :: "hid \<Rightarrow> request \<Rightarrow> promise \<Rightarrow> 'a world \<Rightarrow> 'a world" where
  "DoHandle h req cb w =
     (case get_server w h of
        None \<Rightarrow> drop_promise cb w
      | Some s \<Rightarrow>
          (let w1 = set_current h (rcontext req) w in
           case runMiddlewares s req of
             (req', Some e) \<Rightarrow>
               snd (fulfil cb (Inl (overridden s [] (rmethod req') (rcontext req') e))
                      (set_current h (fallbackCtx s) w1))
           | (req', None) \<Rightarrow>
               (case dispatch s h (rcontext req) req' cb w1 of
                  (None, w2) \<Rightarrow> set_current h (fallbackCtx s) w2
                | (Some e, w2) \<Rightarrow>
                    snd (fulfil cb (Inl (overridden s [] (rmethod req') (rcontext req') e))
                           (set_current h (fallbackCtx s) w2)))))"

definition DoHandleNotify :: "hid \<Rightarrow> request \<Rightarrow> 'a world \<Rightarrow> exc option \<times> 'a world" where
  "DoHandleNotify h req w =
     (case get_server w h of
        None \<Rightarrow> (None, w)
      | Some s \<Rightarrow>
          (let w1 = set_current h (rcontext req) w in
           case runMiddlewares s req of
             (req', Some e) \<Rightarrow>
               (Some (overridden s [] (rmethod req') (rcontext req') e), set_current h (fallbackCtx s) w1)
           | (req', None) \<Rightarrow>
               (case map_of (calls s) (rmethod req') of
                  None \<Rightarrow> (None, set_current h (fallbackCtx s) w1)
                | Some c \<Rightarrow>
                    (case run_call c h (rcontext req) req' None w1 of
                       (None, w2) \<Rightarrow> (None, set_current h (fallbackCtx s) w2)
                     | (Some e, w2) \<Rightarrow>
                         (Some (overridden s [] (rmethod req') (rcontext req') e),
                          set_current h (fallbackCtx s) w2)))))"

text \<open>
  \<^verbatim>\<open>OnForward\<close>: the caller's promise becomes part of the continuation of a fresh one. When a
  route middleware throws, the fresh promise is rejected and the context of the request is moved
  out of it.
\<close>

definition OnForward :: "hid \<Rightarrow> string \<Rightarrow> request \<Rightarrow> promise \<Rightarrow> 'a world \<Rightarrow> request \<times> promise \<times> 'a world" where
  "OnForward h route req cb w =
     (case get_server w h of
        None \<Rightarrow> (req, cb, w)
      | Some s \<Rightarrow>
          (case new_promise (KForward h route (rmethod req) (rcontext req) cb) w of
             (cb', w1) \<Rightarrow>
               (case runRouteMiddlewares s route req of
                  (req', None) \<Rightarrow> (req', cb', w1)
                | (req', Some e) \<Rightarrow>
                    (req'\<lparr>rcontext := None\<rparr>, cb',
                     snd (fulfil cb' (Inl (overridden s route (rmethod req') (rcontext req') e)) w1)))))"

definition OnForwardNotify :: "hid \<Rightarrow> string \<Rightarrow> request \<Rightarrow> 'a world \<Rightarrow> exc option \<times> request" where
  "OnForwardNotify h route req w =
     (case get_server w h of
        None \<Rightarrow> (None, req)
      | Some s \<Rightarrow> (case runRouteMiddlewares s route req of (req', x) \<Rightarrow> (x, req')))"

text \<open>A future of user code that is resolved later runs what waits on it.\<close>

definition resolve_waiting :: "nat \<Rightarrow> exc + json \<Rightarrow> 'a world \<Rightarrow> 'a world" where
  "resolve_waiting n res w =
     (case waiting w n of
        Some k \<Rightarrow> run_kont k res (w\<lparr>waiting := (waiting w)(n := None)\<rparr>)
      | None \<Rightarrow> w)"

subsection \<open>The answer of a server\<close>

text \<open>
  What a request is answered, without promises and worlds: nothing yet when the method returned a
  future that is not resolved, and nothing of its own when the future is invalid.
\<close>

definition check_call :: "names \<Rightarrow> 'a param list \<Rightarrow> bool \<Rightarrow> json \<Rightarrow> bool \<Rightarrow> exc option" where
  "check_call ns ps is_method params notif =
     validateRequest (names_of ns) (names_count ns ps) is_method params notif"

fun call_answer :: "'a call \<Rightarrow> nat option \<Rightarrow> json \<Rightarrow> (exc + json) option" where
  "call_answer (CSync ns ps fn) ctx params =
     (case check_call ns ps True params False of
        Some e \<Rightarrow> Some (Inl e) | None \<Rightarrow> Some (doCall fn ctx ns ps params))"
| "call_answer (CAsync ns ps fn) ctx params =
     (case check_call ns ps True params False of
        Some e \<Rightarrow> Some (Inl e)
      | None \<Rightarrow>
          (case doCall fn ctx ns ps params of
             Inl e \<Rightarrow> Some (Inl e) | Inr (Ready res) \<Rightarrow> Some res | Inr Later \<Rightarrow> None | Inr Invalid_Future \<Rightarrow> None))"
| "call_answer (CNotify ns ps fn) ctx params =
     Some (Inl (mk_rpc ''Expected a notification call, called as method'' code_invalid_request None))"

definition raw_answer :: "'a server \<Rightarrow> nat option \<Rightarrow> request \<Rightarrow> (exc + json) option" where
  "raw_answer s ctx req =
     (if take 4 (rmethod req) = ext_prefix then
        Some (if rmethod req = ''rpc.list'' then Inr (JArray (map JString (RegisteredMethods s)))
              else Inl (mk_rpc ''Could not find extension'' code_method_not_found
                     (Some (obj_view [(''was_ext'', JString (rmethod req))]))))
      else
        (case map_of (calls s) (rmethod req) of
           Some c \<Rightarrow> call_answer c ctx (rparams req)
         | None \<Rightarrow>
             (case fallback s of
                Some f \<Rightarrow> Some (f req)
              | None \<Rightarrow> Some (Inl (mk_rpc ''Method not found'' code_method_not_found
                                (Some (obj_view [(''was_method'', JString (rmethod req))])))))))"

definition server_answer :: "'a server \<Rightarrow> request \<Rightarrow> (exc + json) option" where
  "server_answer s req =
     (case runMiddlewares s req of (req', x) \<Rightarrow>
        (case (case x of Some e \<Rightarrow> Some (Inl e) | None \<Rightarrow> raw_answer s (rcontext req) req') of
           Some (Inl e) \<Rightarrow> Some (Inl (overridden s [] (rmethod req') (rcontext req') e))
         | res \<Rightarrow> res))"

lemma set_current_simps [simp]:
  "fulfilled (set_current h c w) = fulfilled w" "delivered (set_current h c w) = delivered w"
  "sent (set_current h c w) = sent w" "waiting (set_current h c w) = waiting w"
  "next_waiting (set_current h c w) = next_waiting w" "next_cell (set_current h c w) = next_cell w"
  "batches (set_current h c w) = batches w" "terminated (set_current h c w) = terminated w"
  by (simp_all add: set_current_def put_body_def split: option.split)

lemma get_server_set_current:
  "get_server w h = Some s \<Longrightarrow> get_server (set_current h c w) h = Some (s\<lparr>current := c\<rparr>)"
  by (auto simp: set_current_def put_body_def get_server_def split: option.splits body.splits)

lemma overridden_current [simp]: "overridden (s\<lparr>current := c\<rparr>) = overridden s"
  by (intro ext) (simp add: overridden_def excHandlers_def Let_def)

text \<open>
  Worlds that differ only in the current contexts of the servers. Resolving a promise keeps them so.
\<close>

definition same_world :: "'a world \<Rightarrow> 'a world \<Rightarrow> bool" where
  "same_world w w' \<longleftrightarrow>
     fulfilled w = fulfilled w' \<and> sent w = sent w' \<and> delivered w = delivered w' \<and> batches w = batches w' \<and>
     next_cell w = next_cell w' \<and> next_batch w = next_batch w' \<and> waiting w = waiting w' \<and>
     terminated w = terminated w' \<and>
     (\<forall>h. alive w h = alive w' h) \<and> (\<forall>h. get_async w h = get_async w' h) \<and>
     (\<forall>h. map_option routes (nodes w h) = map_option routes (nodes w' h)) \<and>
     (\<forall>h. map_option (\<lambda>s. s\<lparr>current := None\<rparr>) (get_server w h) = map_option (\<lambda>s. s\<lparr>current := None\<rparr>) (get_server w' h))"

lemma same_world_refl [simp]: "same_world w w"
  by (simp add: same_world_def)

lemma same_world_sym: "same_world w w' \<Longrightarrow> same_world w' w"
  by (simp add: same_world_def)

lemma same_world_trans [trans]: "same_world w w' \<Longrightarrow> same_world w' w'' \<Longrightarrow> same_world w w''"
  by (simp add: same_world_def)

lemma same_world_server:
  assumes "same_world w w'"
  shows "(case get_server w h of None \<Rightarrow> x | Some s \<Rightarrow> f (overridden s)) =
    (case get_server w' h of None \<Rightarrow> x | Some s \<Rightarrow> f (overridden s))"
proof -
  have "map_option (\<lambda>s. s\<lparr>current := None\<rparr>) (get_server w h) = map_option (\<lambda>s. s\<lparr>current := None\<rparr>) (get_server w' h)"
    using assms by (simp add: same_world_def)
  then show ?thesis
    by (cases "get_server w h"; cases "get_server w' h") (auto, metis overridden_current)
qed

lemma same_world_current: "same_world (set_current h c w) w"
  by (auto simp: same_world_def set_current_def put_body_def get_server_def get_async_def alive_def
      split: option.splits body.splits)

lemma Send_same:
  "same_world w w' \<Longrightarrow> fst (Send h m w) = fst (Send h m w') \<and> same_world (snd (Send h m w)) (snd (Send h m w'))"
  by (auto simp: Send_def same_world_def get_server_def get_async_def alive_def split: option.splits)

lemma sendResult_same:
  assumes "same_world w w'"
  shows "same_world (sendResult h proto jid res w) (sendResult h proto jid res w')"
proof -
  have "same_world (snd (Send h m u)) (snd (Send h m u'))" and "fst (Send h m u) = fst (Send h m u')"
    if "same_world u u'" for m and u u' :: "'a world" using Send_same [OF that] by blast+
  note s = this
  obtain x u where 1: "(case res of Inr v \<Rightarrow> Send h (MakeResponce proto jid v) w | Inl e \<Rightarrow> (Some e, w)) = (x, u)"
    by fastforce
  obtain x' u' where 2: "(case res of Inr v \<Rightarrow> Send h (MakeResponce proto jid v) w' | Inl e \<Rightarrow> (Some e, w')) = (x', u')"
    by fastforce
  have "x = x' \<and> same_world u u'"
    using 1 2 s [OF assms] assms by (cases res) (auto, (metis fst_conv snd_conv)+)
  then show ?thesis by (auto simp: sendResult_def 1 2 split: option.split intro: s)
qed

lemma addBatchResp_same:
  assumes "same_world w w'"
  shows "same_world (addBatchResp proto jid b res w) (addBatchResp proto jid b res w')"
proof -
  have u: "same_world (w\<lparr>batches := bs\<rparr>) (w'\<lparr>batches := bs\<rparr>)" for bs
    using assms by (simp add: same_world_def get_server_def get_async_def alive_def)
  show ?thesis
    using assms u Send_same [OF u]
    by (auto simp: addBatchResp_def Let_def same_world_def [of w w'] split: option.split sum.split)
qed

lemma fulfil_same:
  fixes w w' :: "'a world"
  shows "same_world w w' \<Longrightarrow> same_world (snd (fulfil p res w)) (snd (fulfil p res w'))"
    and "same_world w w' \<Longrightarrow> same_world (run_kont k res w) (run_kont k res w')"
proof (induction p and k arbitrary: res w w' and res w w')
  case (Promise c k)
  have "same_world (w\<lparr>fulfilled := insert c (fulfilled w)\<rparr>) (w'\<lparr>fulfilled := insert c (fulfilled w')\<rparr>)"
    using Promise.prems by (simp add: same_world_def)
  from Promise.IH [OF this] Promise.prems show ?case by (auto simp: same_world_def)
next
  case (KSendResult h proto jid)
  have "alive w h = alive w' h" using KSendResult.prems by (simp add: same_world_def)
  then show ?case using KSendResult.prems sendResult_same [OF KSendResult.prems] by simp
next
  case (KBatchResp b proto jid)
  have "alive w = alive w'" "batches w = batches w'"
    using KBatchResp.prems by (auto simp: same_world_def)
  then show ?case using KBatchResp.prems addBatchResp_same [OF KBatchResp.prems] by (simp split: option.split)
next
  case (KForward h route m ctx orig)
  from same_world_server [OF KForward.prems,
      where f = "\<lambda>ov. case res of Inr v \<Rightarrow> Inr v | Inl e \<Rightarrow> Inl (ov route m ctx e)"]
  show ?case using KForward by (simp cong: option.case_cong)
next
  case (KWrap h m ctx cb)
  from same_world_server [OF KWrap.prems,
      where f = "\<lambda>ov. case res of Inr v \<Rightarrow> Inr v | Inl e \<Rightarrow> Inl (ov [] m ctx e)"]
  show ?case using KWrap by (simp cong: option.case_cong)
next
  case (KClient n)
  then show ?case by (simp add: same_world_def get_server_def get_async_def alive_def)
qed

lemma validateRequest_notif [simp]:
  "validateRequest ns k True params True =
     Some (mk_rpc ''Expected a notification call, called as method'' code_invalid_request None)"
  by (simp add: validateRequest_def)

definition answer_of :: "'a server \<Rightarrow> request \<Rightarrow> exc + json \<Rightarrow> exc + json" where
  "answer_of s req res =
     (case res of Inl e \<Rightarrow> Inl (overridden s [] (rmethod req) (rcontext req) e) | Inr v \<Rightarrow> Inr v)"

text \<open>A dispatch either throws what the answer says or has resolved the promise with it.\<close>

definition dispatched :: "'a server \<Rightarrow> request \<Rightarrow> promise \<Rightarrow> exc + json \<Rightarrow> 'a world \<Rightarrow> exc option \<times> 'a world \<Rightarrow> bool" where
  "dispatched s req cb res w r \<longleftrightarrow>
     (case r of
        (Some e, w') \<Rightarrow> w' = w \<and> res = Inl e
      | (None, w') \<Rightarrow> w' = snd (fulfil cb (answer_of s req res) w))"

lemma run_call_answer:
  assumes "get_server w h = Some s" "promise_valid cb w"
    and "call_answer cl ctx (rparams req) = Some res"
  shows "dispatched s req cb res w (run_call cl h ctx req (Some cb) w)"
  using assms
  by (cases cl)
    (auto simp: dispatched_def answer_of_def run_call_def is_method_call_def check_call_def resolve_cb_def
      install_wrap_def Let_def simp del: fulfil.simps
      split: option.splits sum.splits user_future.splits)

lemma dispatch_answer:
  assumes "get_server w h = Some s'" "overridden s' = overridden s" "promise_valid cb w"
    and "raw_answer s ctx req = Some res"
  shows "dispatched s req cb res w (dispatch s h ctx req cb w)"
proof (cases "take 4 (rmethod req) = ext_prefix")
  case True
  then show ?thesis
    using assms
    by (auto simp: dispatched_def answer_of_def dispatch_def raw_answer_def handleExtension_def
        RegisteredMethods_def comp_def simp del: fulfil.simps)
next
  case False
  show ?thesis
  proof (cases "map_of (calls s) (rmethod req)")
    case None
    then show ?thesis using assms False
      by (auto simp: dispatched_def answer_of_def dispatch_def raw_answer_def Let_def
          simp del: fulfil.simps split: option.splits sum.splits)
  next
    case (Some cl)
    then have "call_answer cl ctx (rparams req) = Some res"
      using assms(4) False by (simp add: raw_answer_def)
    moreover have "answer_of s' req res = answer_of s req res"
      using assms(2) by (cases res) (simp_all add: answer_of_def)
    moreover have "dispatch s h ctx req cb w = run_call cl h ctx req (Some cb) w"
      using Some False by (simp add: dispatch_def)
    ultimately show ?thesis
      using run_call_answer [OF assms(1,3), of cl ctx req res]
      by (auto simp: dispatched_def split: option.splits)
  qed
qed

text \<open>A promise that a call leaves unresolved waits for the future of the user code.\<close>

definition parked :: "promise \<Rightarrow> 'a world \<Rightarrow> bool" where
  "parked p w \<longleftrightarrow> (\<exists>n h m ctx. waiting w n = Some (KWrap h m ctx p))"

lemma run_kont_wrap_marks: "cell p \<in> fulfilled (run_kont (KWrap h m ctx p) res w)"
  by (simp add: fulfil_marks)

lemma run_call_answers:
  assumes "run_call cl h ctx req (Some p) w = (None, w')" "promise_valid p w"
  shows "cell p \<in> fulfilled w' \<or> parked p w'"
  using assms
  by (cases cl)
    (auto simp: run_call_def is_method_call_def resolve_cb_def install_wrap_def Let_def
      parked_def drop_promise_def fulfil_marks run_kont_wrap_marks simp del: run_kont.simps
      split: option.splits sum.splits user_future.splits if_splits)

lemma dispatch_answers:
  "dispatch s h ctx req p w = (None, w') \<Longrightarrow> promise_valid p w \<Longrightarrow> cell p \<in> fulfilled w' \<or> parked p w'"
  using run_call_answers [of _ h ctx req p w w']
  by (auto simp: dispatch_def handleExtension_def Let_def fulfil_marks split: option.splits sum.splits if_splits)

subsection \<open>Registered names\<close>

definition server_ok :: "'a server \<Rightarrow> bool" where
  "server_ok s \<longleftrightarrow> sorted_keys (calls s) \<and> (\<forall>k \<in> fst ` set (calls s). take 4 k \<noteq> ext_prefix)"

lemma registerCall_Inr:
  "registerCall name c s = Inr s' \<longleftrightarrow> take 4 name \<noteq> ext_prefix \<and> map_of (calls s) name = None \<and>
     s' = s\<lparr>calls := map_put name c (calls s)\<rparr>"
  by (auto simp: registerCall_def split: option.splits)

lemma Unregister_Inr:
  "Unregister name s = Inr s' \<longleftrightarrow> map_of (calls s) name \<noteq> None \<and> s' = s\<lparr>calls := map_erase name (calls s)\<rparr>"
  by (auto simp: Unregister_def split: option.splits)

lemma DoHandle_same:
  assumes "get_server w h = Some s" "promise_valid cb w" "server_answer s req = Some res"
  shows "same_world (DoHandle h req cb w) (snd (fulfil cb res w))"
proof -
  let ?w1 = "set_current h (rcontext req) w"
  obtain req' x where m: "runMiddlewares s req = (req', x)" by fastforce
  have f: "same_world (snd (fulfil cb res w')) (snd (fulfil cb res w))" if "same_world w' w" for w'
    by (rule fulfil_same(1) [OF that])
  have 1: "same_world ?w1 w" by (rule same_world_current)
  have 2: "same_world (set_current h c ?w1) w" for c
    by (rule same_world_trans [OF same_world_current 1])
  show ?thesis
  proof (cases x)
    case (Some e)
    with assms m f [OF 2] show ?thesis
      by (simp add: DoHandle_def server_answer_def Let_def del: fulfil.simps)
  next
    case None
    with assms(3) m obtain r where r: "raw_answer s (rcontext req) req' = Some r"
      and res: "res = answer_of s req' r"
      by (auto simp: server_answer_def answer_of_def split: option.splits sum.splits)
    obtain y w2 where d: "dispatch s h (rcontext req) req' cb ?w1 = (y, w2)" by fastforce
    have v: "promise_valid cb ?w1" using assms(2) by (simp add: promise_valid_def)
    from dispatch_answer [OF get_server_set_current [OF assms(1)] overridden_current v r] d
    show ?thesis
      using m None assms(1) res f [OF 2] same_world_trans [OF same_world_current f [OF 1]]
      by (cases y) (auto simp: DoHandle_def dispatched_def answer_of_def Let_def simp del: fulfil.simps)
  qed
qed

lemma registerCall_map:
  assumes "server_ok s" "registerCall name c s = Inr s'"
  shows "server_ok s'" and "map_of (calls s') = (map_of (calls s))(name \<mapsto> c)"
  using assms
  by (simp_all add: registerCall_Inr server_ok_def map_put_sorted map_put_keys map_put_map_of del: image_iff)

lemma Unregister_register:
  assumes "server_ok s" "registerCall name c s = Inr s'"
  shows "\<exists>s''. Unregister name s' = Inr s'' \<and> server_ok s'' \<and> map_of (calls s'') = map_of (calls s)"
  using registerCall_map [OF assms] assms(2)
  by (auto simp: registerCall_Inr Unregister_Inr server_ok_def map_erase_sorted map_erase_map_of fun_eq_iff)
    (fastforce simp: map_erase_def)

lemma run_call_notify: "run_call cl h ctx req None w = (x, w') \<Longrightarrow> w' = w"
  by (cases cl)
    (auto simp: run_call_def is_method_call_def validateRequest_def split: option.splits sum.splits if_splits)

text \<open>A server with one call of each kind, for the examples.\<close>

definition int_param :: "u64 param" where
  "int_param = \<lparr>popt = False, pget = get_int64\<rparr>"

definition sum_server :: "u64 server" where
  "sum_server = \<lparr>calls =
       [(''later'', CAsync NoNames [] (\<lambda>_ _. Inr Later)),
        (''note'', CNotify NoNames [] (\<lambda>_ _. None)),
        (''sum'', CSync NoNames [int_param, int_param] (\<lambda>_ vs. Inr (JSigned (sum_list vs))))],
     selfMiddlewares = [], EHandlers = [], routeMiddlewares = [], routeEHandlers = [],
     fallback = None, fallbackCtx = None, current = None\<rparr>"

definition sum_world :: "u64 world" where
  "sum_world = \<lparr>nodes = (\<lambda>h. if h = 0 then Some \<lparr>routes = [], body = BServer sum_server\<rparr> else None),
     fulfilled = {}, next_cell = 9, batches = (\<lambda>_. None), next_batch = 0, waiting = (\<lambda>_. None),
     next_waiting = 0, sent = [], delivered = [], terminated = False\<rparr>"

lemma sum_world_server: "get_server sum_world 0 = Some sum_server"
  by (simp add: get_server_def sum_world_def)

definition sum_request :: request where
  "sum_request = \<lparr>rmethod = ''sum'', rtimeout = NoTimeout, rcontext = None,
     rparams = JArray [JSigned 2, JUnsigned 3]\<rparr>"

lemma sum_answer: "server_answer sum_server sum_request = Some (Inr (JSigned 5))"
  by (simp add: server_answer_def sum_server_def sum_request_def runMiddlewares_def raw_answer_def
      ext_prefix_def check_call_def validateRequest_def names_of_def doCall_def call_values_def
      get_positional_def At_idx_def Find_idx_def AssertType_def int_param_def get_int64_def word_le_nat_alt)

subsection \<open>Properties\<close>

text \<open>
  C8: the handler implements the answer of the server on every branch: middlewares that throw,
  extensions, unknown methods with and without a fallback, calls whose parameters do not fit or
  whose code throws, notifications called as methods, and results, also of resolved futures. Its
  whole effect, the current context apart, is to resolve the caller's promise with that answer.
\<close>

theorem DoHandle_answer:
  assumes "get_server w h = Some s" "promise_valid cb w" "server_answer s req = Some res"
  shows "same_world (DoHandle h req cb w) (snd (fulfil cb res w))"
  by (rule DoHandle_same [OF assms])

theorem DoHandle_answer_witness:
  "delivered (DoHandle 0 sum_request (Promise 4 (KClient 7)) sum_world) = [(7, Inr (JSigned 5))]"
  using DoHandle_answer [OF sum_world_server _ sum_answer, of "Promise 4 (KClient 7)"]
  by (simp add: same_world_def promise_valid_def sum_world_def)

text \<open>
  no request is lost: when the handler returns, the promise it was given is resolved, or it
  waits for a future of the method's code; this holds whatever the middlewares, the handlers and
  the method do.
\<close>

theorem DoHandle_never_loses:
  assumes "promise_valid cb w"
  shows "cell cb \<in> fulfilled (DoHandle h req cb w) \<or> parked cb (DoHandle h req cb w)"
proof (cases "get_server w h")
  case None
  then show ?thesis by (simp add: DoHandle_def drop_promise_def fulfil_marks)
next
  case (Some s)
  obtain req' x where m: "runMiddlewares s req = (req', x)" by fastforce
  obtain y w2 where d: "dispatch s h (rcontext req) req' cb (set_current h (rcontext req) w) = (y, w2)"
    by fastforce
  have v: "promise_valid cb (set_current h (rcontext req) w)" using assms by (simp add: promise_valid_def)
  show ?thesis
    using Some m d dispatch_answers [of s h "rcontext req" req' cb _ w2] v
    by (cases x; cases y) (auto simp: DoHandle_def Let_def fulfil_marks parked_def)
qed

theorem DoHandle_never_loses_witness:
  "parked (Promise 4 (KClient 7)) (DoHandle 0 (sum_request\<lparr>rmethod := ''later'', rparams := JArray []\<rparr>)
     (Promise 4 (KClient 7)) sum_world)"
  using DoHandle_never_loses [of "Promise 4 (KClient 7)" sum_world 0
      "sum_request\<lparr>rmethod := ''later'', rparams := JArray []\<rparr>"]
  by (simp add: DoHandle_def sum_world_server Let_def promise_valid_def runMiddlewares_def sum_server_def
      dispatch_def ext_prefix_def run_call_def is_method_call_def validateRequest_def names_of_def
      names_count_def doCall_def call_values_def install_wrap_def sum_request_def)
    (simp add: sum_world_def set_current_def put_body_def get_server_def sum_server_def parked_def)

text \<open>
  a notification is never answered: whatever it is, nothing is resolved, sent or delivered and
  no promise is left waiting; an exception is returned to the caller of the handler only.
\<close>

theorem DoHandleNotify_silent:
  "w' = snd (DoHandleNotify h req w) \<Longrightarrow>
     fulfilled w' = fulfilled w \<and> delivered w' = delivered w \<and> sent w' = sent w \<and>
     waiting w' = waiting w \<and> batches w' = batches w"
  by (auto simp: DoHandleNotify_def Let_def split: option.split prod.split dest!: run_call_notify)

theorem DoHandleNotify_silent_witness:
  "delivered (snd (DoHandleNotify 0 (sum_request\<lparr>rmethod := ''note''\<rparr>) sum_world)) = []"
  using DoHandleNotify_silent [OF refl, of 0 "sum_request\<lparr>rmethod := ''note''\<rparr>" sum_world]
  by (simp add: sum_world_def)

text \<open>
  C28: registration keeps the table sorted and free of the reserved prefix; it refuses a reserved
  or a taken name and changes nothing else, the new call is the one a request of that name runs,
  and unregistering undoes it.
\<close>

theorem registerCall_correct:
  assumes "server_ok s"
  shows "((\<exists>s'. registerCall name c s = Inr s') \<longleftrightarrow> take 4 name \<noteq> ext_prefix \<and> \<not> IsMethodRegistered name s) \<and>
    (registerCall name c s = Inr s' \<longrightarrow> server_ok s' \<and>
      map_of (calls s') = (map_of (calls s))(name \<mapsto> c) \<and>
      (rmethod req = name \<longrightarrow> dispatch s' h ctx req cb w = run_call c h ctx req (Some cb) w) \<and>
      (\<exists>s''. Unregister name s' = Inr s'' \<and> server_ok s'' \<and> map_of (calls s'') = map_of (calls s)))"
  using registerCall_map [OF assms, of name c s'] Unregister_register [OF assms, of name c s']
  by (auto simp: registerCall_Inr IsMethodRegistered_def dispatch_def)

theorem registerCall_correct_witness:
  "\<exists>s'. registerCall ''echo'' (CNotify NoNames [] (\<lambda>_ _. None)) sum_server = Inr s' \<and> server_ok s'"
proof -
  have ok: "server_ok sum_server"
    by (simp add: server_ok_def sum_server_def ext_prefix_def less_list_code less_char_def)
  obtain s' where s': "registerCall ''echo'' (CNotify NoNames [] (\<lambda>_ _. None)) sum_server = Inr s'"
    by (simp add: registerCall_def sum_server_def ext_prefix_def)
  show ?thesis
    using registerCall_correct [OF ok, of "''echo''" "CNotify NoNames [] (\<lambda>_ _. None)" s'] s' by blast
qed

end
