(* ===== verification/Rpc_Pending.thy ===== *)
theory Rpc_Pending
  imports Rpc_Promise
begin

text \<open>
  The calling side of \<^verbatim>\<open>IAsyncTransport\<close> (\<^verbatim>\<open>transport.cpp\<close>): the table of pending requests, the three
  ways to send, the matching of responses, timeouts and cancellation. What \<^verbatim>\<open>error(...)\<close> prints is
  left out. The table is an association list without duplicate ids; the iteration order of the
  hash map is open in C++ and is the order of the list here. The steady clock is read in nanoseconds;
  timeouts are whole milliseconds.

  User code that runs inside a resolution (the continuations of the caller) cannot call back into
  the transport here.
\<close>

subsection \<open>The table\<close>

definition put_async :: "hid \<Rightarrow> async \<Rightarrow> 'a world \<Rightarrow> 'a world" where
  "put_async h a w = put_body h (BAsync a) w"

definition pending_replace :: "u64 \<Rightarrow> transact \<Rightarrow> (u64 \<times> transact) list \<Rightarrow> (u64 \<times> transact) list" where
  "pending_replace i tr ps = map (\<lambda>(k, t). if k = i then (k, tr) else (k, t)) ps"

definition pending_erase :: "u64 \<Rightarrow> (u64 \<times> transact) list \<Rightarrow> (u64 \<times> transact) list" where
  "pending_erase i ps = filter (\<lambda>p. fst p \<noteq> i) ps"

definition timeout_error :: "string \<Rightarrow> exc" where
  "timeout_error name = FutureError (name @ '': Timeout Error'')"

text \<open>An id that is still in the table (after the counter wrapped around) times out at once.\<close>

definition addPending :: "hid \<Rightarrow> string \<Rightarrow> u64 \<Rightarrow> promise \<Rightarrow> millis \<Rightarrow> 'a world \<Rightarrow> 'a world" where
  "addPending h name i cb timeout w =
     (case get_async w h of
        None \<Rightarrow> drop_promise cb w
      | Some a \<Rightarrow>
          (let tr = \<lparr>tmethod = name, tprom = cb, ttimeout = timeout\<rparr> in
           case map_of (apending a) i of
             None \<Rightarrow> put_async h (a\<lparr>apending := (i, tr) # apending a\<rparr>) w
           | Some old \<Rightarrow>
               put_async h (a\<lparr>apending := pending_replace i tr (apending a)\<rparr>)
                 (snd (fulfil (tprom old) (Inl (timeout_error (tmethod old))) w))))"

subsection \<open>Sending\<close>

definition SendNotify :: "hid \<Rightarrow> string \<Rightarrow> json \<Rightarrow> 'a world \<Rightarrow> 'a world" where
  "SendNotify h name params w =
     (case get_async w h of
        None \<Rightarrow> w
      | Some a \<Rightarrow> snd (Send h (MakeNotify (aproto a) name params) w))"

text \<open>\<^verbatim>\<open>next = d->id++\<close>\<close>

definition take_id :: "hid \<Rightarrow> 'a world \<Rightarrow> u64 \<times> 'a world" where
  "take_id h w =
     (case get_async w h of
        None \<Rightarrow> (0, w)
      | Some a \<Rightarrow> (anext a, put_async h (a\<lparr>anext := anext a + 1\<rparr>) w))"

text \<open>When the sender throws, the request stays in the table.\<close>

definition SendMethod :: "hid \<Rightarrow> string \<Rightarrow> millis \<Rightarrow> json \<Rightarrow> promise \<Rightarrow> 'a world \<Rightarrow> 'a world" where
  "SendMethod h name timeout params cb w =
     (case get_async w h of
        None \<Rightarrow> drop_promise cb w
      | Some a \<Rightarrow>
          (case take_id h w of (next, w1) \<Rightarrow>
             snd (Send h (MakeRequest (aproto a) (JUnsigned next) name params)
                    (addPending h name next cb timeout w1))))"

record batch_notify =
  nmethod :: string
  nparams :: json

record batch_method =
  mmethod :: string
  mparams :: json
  mtimeout :: millis
  mcb :: promise

record call_batch =
  notifs :: "batch_notify list"
  methods :: "batch_method list"

fun format_notifs :: "protocol \<Rightarrow> batch_notify list \<Rightarrow> exc + json list" where
  "format_notifs proto [] = Inr []"
| "format_notifs proto (n # ns) =
     (case copy_part (MakeNotify proto (nmethod n) (nparams n)) of
        Inl e \<Rightarrow> Inl e
      | Inr j \<Rightarrow> (case format_notifs proto ns of Inl e \<Rightarrow> Inl e | Inr js \<Rightarrow> Inr (j # js)))"

definition drop_all :: "batch_method list \<Rightarrow> 'a world \<Rightarrow> 'a world" where
  "drop_all ms w = foldl (\<lambda>w m. drop_promise (mcb m) w) w ms"

text \<open>
  Each method enters the table before it is formatted; an exception leaves those already entered
  there and breaks the promises of the rest.
\<close>

fun format_methods :: "hid \<Rightarrow> protocol \<Rightarrow> batch_method list \<Rightarrow> json list \<Rightarrow> 'a world \<Rightarrow> (exc + json list) \<times> 'a world" where
  "format_methods h proto [] arr w = (Inr arr, w)"
| "format_methods h proto (m # ms) arr w =
     (case take_id h w of (next, w1) \<Rightarrow>
        (let w2 = addPending h (mmethod m) next (mcb m) (mtimeout m) w1 in
         case copy_part (MakeRequest proto (JUnsigned next) (mmethod m) (mparams m)) of
           Inl e \<Rightarrow> (Inl e, drop_all ms w2)
         | Inr j \<Rightarrow> format_methods h proto ms (arr @ [j]) w2))"

definition SendBatch :: "hid \<Rightarrow> call_batch \<Rightarrow> 'a world \<Rightarrow> exc option \<times> 'a world" where
  "SendBatch h b w =
     (case get_async w h of
        None \<Rightarrow> (None, drop_all (methods b) w)
      | Some a \<Rightarrow>
          if 2 ^ 32 \<le> length (methods b) + length (notifs b) then
            (Some (StdExc ''Batch is too big''), drop_all (methods b) w)
          else
            (case format_notifs (aproto a) (notifs b) of
               Inl e \<Rightarrow> (Some e, drop_all (methods b) w)
             | Inr arr \<Rightarrow>
                 (case format_methods h (aproto a) (methods b) arr w of
                    (Inl e, w1) \<Rightarrow> (Some e, w1)
                  | (Inr arr', w1) \<Rightarrow> (None, snd (Send h (JArray arr') w1)))))"

subsection \<open>Responses\<close>

text \<open>
  \<^verbatim>\<open>handleRespToClient\<close>. The text of the message about an unknown id contains the response, dumped by
  \<open>dump\<close>, which may itself throw. A request whose response is malformed stays in the table.
\<close>

definition handleRespToClient ::
    "(json \<Rightarrow> jv_error + string) \<Rightarrow> protocol \<Rightarrow> hid \<Rightarrow> json \<Rightarrow> 'a world \<Rightarrow> exc option \<times> 'a world" where
  "handleRespToClient dump proto h resp w =
     (case get_async w h of
        None \<Rightarrow> (None, w)
      | Some a \<Rightarrow>
          (case FindVal resp F_Id RootFrame of
             Inl e \<Rightarrow> (Some (JvExc e), w)
           | Inr None \<Rightarrow>
               (Some (mk_rpc (''Could not find '' @ quoted ''id'' @ '' in responce to client'') code_parse None), w)
           | Inr (Some jid) \<Rightarrow>
               (case get_uint64 jid (Frame (KStr F_Id) RootFrame) of
                  Inl e \<Rightarrow> (Some (JvExc e), w)
                | Inr num \<Rightarrow>
                    (case map_of (apending a) num of
                       None \<Rightarrow>
                         (case dump resp of
                            Inl e \<Rightarrow> (Some (JvExc e), w)
                          | Inr txt_resp \<Rightarrow>
                              (Some (mk_rpc (''Could not find match id with any pending request => '' @ txt_resp)
                                 code_invalid_request (Some (obj_view [(''was_id'', JUnsigned num)]))), w))
                     | Some tr \<Rightarrow>
                         (case FindVal resp (F_Result proto) RootFrame of
                            Inl e \<Rightarrow> (Some (JvExc e), w)
                          | Inr (Some r) \<Rightarrow>
                              (None, put_async h (a\<lparr>apending := pending_erase num (apending a)\<rparr>)
                                       (snd (fulfil (tprom tr) (Inr r) w)))
                          | Inr None \<Rightarrow>
                              (case FindVal resp (F_Error proto) RootFrame of
                                 Inl e \<Rightarrow> (Some (JvExc e), w)
                               | Inr (Some er) \<Rightarrow>
                                   (case exc_of_json er (Frame (KStr (F_Error proto)) RootFrame) of
                                      Inl e \<Rightarrow> (Some (JvExc e), w)
                                    | Inr x \<Rightarrow>
                                        (None, put_async h (a\<lparr>apending := pending_erase num (apending a)\<rparr>)
                                                 (snd (fulfil (tprom tr) (Inl (RpcExc x)) w))))
                               | Inr None \<Rightarrow>
                                   (Some (mk_rpc (''missing '' @ quoted ''error'' @ '' or '' @ quoted ''result''
                                      @ '' fields'') code_invalid_request None), w)))))))"

subsection \<open>Timeouts and cancellation\<close>

definition TimeoutHappened :: "transact \<Rightarrow> 'a world \<Rightarrow> 'a world" where
  "TimeoutHappened tr w = snd (fulfil (tprom tr) (Inl (timeout_error (tmethod tr))) w)"

fun check_pending :: "nat \<Rightarrow> (u64 \<times> transact) list \<Rightarrow> 'a world \<Rightarrow> (u64 \<times> transact) list \<times> 'a world" where
  "check_pending diff [] w = ([], w)"
| "check_pending diff ((i, tr) # ps) w =
     (if ttimeout tr = NoTimeout then
        (case check_pending diff ps w of (ps', w') \<Rightarrow> ((i, tr) # ps', w'))
      else if diff < unat (ttimeout tr) then
        (case check_pending diff ps w of (ps', w') \<Rightarrow>
           ((i, tr\<lparr>ttimeout := ttimeout tr - word_of_nat diff\<rparr>) # ps', w'))
      else check_pending diff ps (TimeoutHappened tr w))"

text \<open>\<^verbatim>\<open>duration_cast<milliseconds>\<close> of a span of the clock drops the fraction.\<close>

definition duration_ms :: "nat \<Rightarrow> nat" where
  "duration_ms d = d div 1000000"

text \<open>The reading becomes the last one, so the dropped fraction is lost for good.\<close>

definition CheckTimeouts :: "hid \<Rightarrow> nat \<Rightarrow> 'a world \<Rightarrow> 'a world" where
  "CheckTimeouts h now w =
     (case get_async w h of
        None \<Rightarrow> w
      | Some a \<Rightarrow>
          (case check_pending (duration_ms (now - alast a)) (apending a) w of (ps, w') \<Rightarrow>
             put_async h (a\<lparr>alast := now, apending := ps\<rparr>) w'))"

text \<open>The cancelled requests stay in the table; a later response finds them resolved.\<close>

definition ClearAllPending :: "hid \<Rightarrow> 'a world \<Rightarrow> 'a world" where
  "ClearAllPending h w =
     (case get_async w h of
        None \<Rightarrow> w
      | Some a \<Rightarrow> foldl (\<lambda>w p. snd (fulfil (tprom (snd p)) (Inl (FutureError ''Manual Cancel'')) w)) w (apending a))"

definition SetHandler :: "hid \<Rightarrow> hid option \<Rightarrow> 'a world \<Rightarrow> hid option \<times> 'a world" where
  "SetHandler h handler w =
     (case get_async w h of
        None \<Rightarrow> (None, w)
      | Some a \<Rightarrow> (ahandler a, put_async h (a\<lparr>ahandler := handler\<rparr>) w))"

definition OnReply :: "hid \<Rightarrow> (json \<Rightarrow> exc option) option \<Rightarrow> 'a world \<Rightarrow> 'a world" where
  "OnReply h cb w =
     (case get_async w h of None \<Rightarrow> w | Some a \<Rightarrow> put_async h (a\<lparr>asender := cb\<rparr>) w)"

subsection \<open>Facts\<close>

lemma get_async_put: "get_async w h = Some a0 \<Longrightarrow> get_async (put_async h a w) h = Some a"
  by (auto simp: put_async_def put_body_def get_async_def split: option.splits body.splits)

lemma get_async_keeps: "keeps w w' \<Longrightarrow> get_async w' h = get_async w h"
  by (simp add: keeps_def get_async_def)

lemma put_async_simps [simp]:
  "fulfilled (put_async h a w) = fulfilled w" "delivered (put_async h a w) = delivered w"
  "sent (put_async h a w) = sent w" "waiting (put_async h a w) = waiting w"
  "next_cell (put_async h a w) = next_cell w" "batches (put_async h a w) = batches w"
  by (simp_all add: put_async_def put_body_def split: option.split)

lemma map_of_pending_erase: "map_of (pending_erase i ps) = (map_of ps)(i := None)"
  by (induction ps) (auto simp: pending_erase_def fun_eq_iff)

lemma get_uint64_unsigned [simp]: "get_uint64 (JUnsigned i) fr = Inr i"
  by (simp add: get_uint64_def)

text \<open>What a check keeps and what it ends.\<close>

definition expires :: "nat \<Rightarrow> u64 \<times> transact \<Rightarrow> bool" where
  "expires diff p \<longleftrightarrow> ttimeout (snd p) \<noteq> NoTimeout \<and> unat (ttimeout (snd p)) \<le> diff"

definition aged :: "nat \<Rightarrow> u64 \<times> transact \<Rightarrow> u64 \<times> transact" where
  "aged diff p = (fst p, if ttimeout (snd p) = NoTimeout then snd p
                         else (snd p)\<lparr>ttimeout := ttimeout (snd p) - word_of_nat diff\<rparr>)"

lemma check_pending_spec:
  "check_pending diff ps w =
     (map (aged diff) (filter (\<lambda>p. \<not> expires diff p) ps),
      foldl (\<lambda>w p. TimeoutHappened (snd p) w) w (filter (expires diff) ps))"
  by (induction diff ps w rule: check_pending.induct) (auto simp: expires_def aged_def split: prod.split)

lemma aged_timeout:
  assumes "\<not> expires d p" "ttimeout (snd p) \<noteq> NoTimeout"
  shows "unat (ttimeout (snd (aged d p))) = unat (ttimeout (snd p)) - d"
proof -
  have d: "d < unat (ttimeout (snd p))" using assms by (auto simp: expires_def)
  then have "unat (word_of_nat d :: u32) = d"
    using unsigned_less [of "ttimeout (snd p)", where 'a = nat] by (simp add: unsigned_of_nat take_bit_nat_eq_self)
  moreover from this d have "(word_of_nat d :: u32) \<le> ttimeout (snd p)"
    by (simp add: word_le_nat_alt)
  ultimately show ?thesis using assms(2) by (simp add: aged_def unat_sub)
qed

lemma unat_max_word_strict: "x \<noteq> - 1 \<Longrightarrow> unat (x :: u32) < unat (- 1 :: u32)"
  by (simp flip: word_less_nat_alt add: word_order.not_eq_extremum)

lemma aged_NoTimeout:
  assumes "\<not> expires d p" "ttimeout (snd p) \<noteq> NoTimeout"
  shows "ttimeout (snd (aged d p)) \<noteq> NoTimeout"
proof
  assume "ttimeout (snd (aged d p)) = NoTimeout"
  then have "unat NoTimeout = unat (ttimeout (snd p)) - d" using aged_timeout [OF assms] by simp
  moreover have "unat (ttimeout (snd p)) < unat NoTimeout"
    using assms(2) unat_max_word_strict by (simp add: NoTimeout_def)
  ultimately show False by simp
qed

lemma expires_later:
  assumes "\<not> expires d p"
  shows "expires d' (aged d p) \<longleftrightarrow> expires (d + d') p"
proof (cases "ttimeout (snd p) = NoTimeout")
  case True
  then show ?thesis by (simp add: expires_def aged_def)
next
  case False
  then show ?thesis
    using aged_timeout [OF assms False] aged_NoTimeout [OF assms False] assms
    by (auto simp: expires_def)
qed

lemma aged_again: "\<not> expires d p \<Longrightarrow> aged d' (aged d p) = aged (d + d') p"
proof (cases "ttimeout (snd p) = NoTimeout")
  case False
  assume "\<not> expires d p"
  from aged_NoTimeout [OF this False] False show ?thesis by (simp add: aged_def diff_diff_eq)
qed (simp add: aged_def)

lemma expires_mono: "expires d p \<Longrightarrow> expires (d + d') p"
  by (simp add: expires_def)

text \<open>
  The elapsed time is measured from the last check, not from the sending of a request: a request
  sent just before the check is ended by the time that passed before it.
\<close>

lemma premature_timeout:
  assumes "get_async w h = Some a" "map_of (apending a) (anext a) = None"
    and "unat timeout \<le> duration_ms (now - alast a)" "timeout \<noteq> NoTimeout"
  shows "\<exists>w1 p. w1 = addPending h name (anext a) cb timeout w \<and>
    (\<exists>a1. get_async w1 h = Some a1 \<and> apending a1 = p # apending a \<and> tprom (snd p) = cb \<and>
       expires (duration_ms (now - alast a1)) p)"
  using assms get_async_put [OF assms(1)]
  by (simp add: addPending_def Let_def expires_def)

text \<open>
  Checks at the times of a list, and the milliseconds they count in all: each drops the fraction since
  the one before.
\<close>

definition check_at :: "hid \<Rightarrow> nat list \<Rightarrow> 'a world \<Rightarrow> 'a world" where
  "check_at h ts w = foldl (\<lambda>w t. CheckTimeouts h t w) w ts"

fun counted_ms :: "nat \<Rightarrow> nat list \<Rightarrow> nat" where
  "counted_ms l [] = 0"
| "counted_ms l (t # ts) = duration_ms (t - l) + counted_ms t ts"

lemma filter_aged_again:
  "map (aged d') (filter (\<lambda>p. \<not> expires d' p) (map (aged d) (filter (\<lambda>p. \<not> expires d p) ps))) =
   map (aged (d + d')) (filter (\<lambda>p. \<not> expires (d + d') p) ps)"
  by (induction ps) (auto simp: expires_later aged_again dest: expires_mono)

definition aged_table :: "nat \<Rightarrow> (u64 \<times> transact) list \<Rightarrow> (u64 \<times> transact) list" where
  "aged_table d ps = map (aged d) (filter (\<lambda>p. \<not> expires d p) ps)"

lemma aged_table_again: "aged_table d' (aged_table d ps) = aged_table (d + d') ps"
  by (simp add: aged_table_def filter_aged_again)

lemma TimeoutHappened_keeps: "keeps w (foldl (\<lambda>w p. TimeoutHappened (snd p) w) w ps)"
proof (induction ps arbitrary: w)
  case (Cons p ps)
  have "keeps w (TimeoutHappened (snd p) w)" by (simp add: TimeoutHappened_def fulfil_keeps(1) del: fulfil.simps)
  from keeps_trans [OF this Cons] show ?case by simp
qed simp

lemma CheckTimeouts_async:
  assumes "get_async w h = Some a"
  shows "get_async (CheckTimeouts h t w) h =
    Some (a\<lparr>alast := t, apending := aged_table (duration_ms (t - alast a)) (apending a)\<rparr>)"
proof -
  let ?d = "duration_ms (t - alast a)"
  have "get_async (foldl (\<lambda>w p. TimeoutHappened (snd p) w) w (filter (expires ?d) (apending a))) h = Some a"
    using get_async_keeps [OF TimeoutHappened_keeps] assms by metis
  from get_async_put [OF this] assms show ?thesis
    by (simp add: CheckTimeouts_def check_pending_spec aged_table_def)
qed

lemma aged_table_0 [simp]:
  assumes "\<And>p. p \<in> set ps \<Longrightarrow> ttimeout (snd p) \<noteq> 0"
  shows "aged_table 0 ps = ps"
proof -
  have "\<not> expires 0 p \<and> aged 0 p = p" if "p \<in> set ps" for p
    using assms [OF that] by (cases p) (simp add: expires_def aged_def unat_eq_0)
  then show ?thesis unfolding aged_table_def by (simp add: map_idI cong: map_cong)
qed

lemma check_at_async:
  assumes "get_async w h = Some a" "ts \<noteq> []"
  shows "get_async (check_at h ts w) h =
    Some (a\<lparr>alast := last ts, apending := aged_table (counted_ms (alast a) ts) (apending a)\<rparr>)"
  using assms
proof (induction ts arbitrary: w a)
  case (Cons t ts)
  note c = CheckTimeouts_async [OF Cons.prems(1), of t]
  show ?case
  proof (cases "ts = []")
    case True
    then show ?thesis using c by (simp add: check_at_def)
  next
    case False
    from Cons.IH [OF c this] show ?thesis using False by (simp add: check_at_def aged_table_again)
  qed
qed simp

lemma counted_bounds:
  assumes "sorted (l # ts)"
  shows "counted_ms l ts * 1000000 \<le> last (l # ts) - l"
    and "last (l # ts) - l \<le> (counted_ms l ts + length ts) * 1000000"
proof -
  have "counted_ms l ts * 1000000 \<le> last (l # ts) - l \<and>
      last (l # ts) - l \<le> (counted_ms l ts + length ts) * 1000000 \<and> l \<le> last (l # ts)"
    using assms
  proof (induction ts arbitrary: l)
    case (Cons t ts)
    have le: "l \<le> t" and s: "sorted (t # ts)" using Cons.prems by auto
    let ?d = "t - l"
    have d: "duration_ms ?d * 1000000 \<le> ?d" "?d \<le> (duration_ms ?d + 1) * 1000000"
      unfolding duration_ms_def using div_mult_mod_eq [of ?d 1000000] mod_less_divisor [of 1000000 ?d]
      by (simp_all add: algebra_simps)
    from Cons.IH [OF s] have
      i: "counted_ms t ts * 1000000 \<le> last (t # ts) - t" "t \<le> last (t # ts)"
        "last (t # ts) - t \<le> (counted_ms t ts + length ts) * 1000000" by auto
    have "last (l # t # ts) = last (t # ts)" by simp
    with i d le show ?case by (simp only: counted_ms.simps list.size add_mult_distrib) linarith
  qed simp
  then show "counted_ms l ts * 1000000 \<le> last (l # ts) - l"
    "last (l # ts) - l \<le> (counted_ms l ts + length ts) * 1000000" by auto
qed

text \<open>Checks that follow each other within less than a millisecond never end a request.\<close>

lemma frequent_checks_never_expire:
  assumes "get_async w h = Some a" "ts \<noteq> []" "counted_ms (alast a) ts = 0"
    and "\<And>p. p \<in> set (apending a) \<Longrightarrow> ttimeout (snd p) \<noteq> 0"
  shows "get_async (check_at h ts w) h = Some (a\<lparr>alast := last ts\<rparr>)"
  using check_at_async [OF assms(1,2)] assms(3,4) by simp

lemma counted_frequent: "successively (\<lambda>x y. y - x < 1000000) (l # ts) \<Longrightarrow> counted_ms l ts = 0"
  by (induction ts arbitrary: l) (auto simp: duration_ms_def)

text \<open>A reply that matches a pending request.\<close>

lemma handleResp_result:
  assumes "get_async w h = Some a" "map_of (apending a) i = Some tr"
  shows "handleRespToClient dump proto h (MakeResponce proto (JUnsigned i) r) w =
      (None, put_async h (a\<lparr>apending := pending_erase i (apending a)\<rparr>) (snd (fulfil (tprom tr) (Inr r) w)))"
  using assms
  by (cases proto) (simp_all add: handleRespToClient_def message_find F_defs version_pair_def)

lemma handleResp_error:
  assumes "get_async w h = Some a" "map_of (apending a) i = Some tr"
    and "\<And>d. edata e = Some d \<Longrightarrow> height d \<le> 300"
  shows "handleRespToClient dump proto h (MakeError proto (JUnsigned i) e) w =
      (None, put_async h (a\<lparr>apending := pending_erase i (apending a)\<rparr>)
         (snd (fulfil (tprom tr) (Inl (RpcExc (norm_exc e))) w)))"
proof -
  have x: "exc_of_json (exc_view e) fr = Inr (norm_exc e)" for fr by (rule exc_of_json_view) (rule assms(3))
  show ?thesis
    using assms(1,2)
    by (cases proto) (simp_all add: handleRespToClient_def message_find F_defs version_pair_def x)
qed

subsection \<open>Properties\<close>

text \<open>
  C26: a response or an error, in the dialect of the transport and with the id of a pending request,
  resolves that request's promise with its result or exception, takes exactly that request out of
  the table, and touches no other.
\<close>

theorem handleResp_resolves:
  assumes "get_async w h = Some a" "map_of (apending a) i = Some tr"
    and "\<And>d. edata e = Some d \<Longrightarrow> height d \<le> 300"
  shows "handleRespToClient dump proto h (MakeResponce proto (JUnsigned i) r) w =
      (None, put_async h (a\<lparr>apending := pending_erase i (apending a)\<rparr>) (snd (fulfil (tprom tr) (Inr r) w))) \<and>
    handleRespToClient dump proto h (MakeError proto (JUnsigned i) e) w =
      (None, put_async h (a\<lparr>apending := pending_erase i (apending a)\<rparr>)
         (snd (fulfil (tprom tr) (Inl (RpcExc (norm_exc e))) w))) \<and>
    map_of (pending_erase i (apending a)) = (map_of (apending a))(i := None)"
  using handleResp_result [OF assms(1,2)] handleResp_error [OF assms(1,2), of e] assms(3)
  by (simp add: map_of_pending_erase)

definition pending_world :: "nat world" where
  "pending_world = demo_world\<lparr>nodes := (\<lambda>h. if h = 0 then
     Some \<lparr>routes = [], body = BAsync \<lparr>aproto = Minified, anext = 6,
       apending = [(5, \<lparr>tmethod = ''sum'', tprom = Promise 3 (KClient 1), ttimeout = 100\<rparr>)],
       ahandler = None, alast = 0, asender = Some (\<lambda>_. None)\<rparr>\<rparr> else None)\<rparr>"

theorem handleResp_resolves_witness:
  "delivered (snd (handleRespToClient (\<lambda>_. Inr []) Minified 0 (MakeResponce Minified (JUnsigned 5) JNull) pending_world))
     = [(1, Inr JNull)]"
proof -
  have a: "get_async pending_world 0 = Some \<lparr>aproto = Minified, anext = 6,
       apending = [(5, \<lparr>tmethod = ''sum'', tprom = Promise 3 (KClient 1), ttimeout = 100\<rparr>)],
       ahandler = None, alast = 0, asender = Some (\<lambda>_. None)\<rparr>"
    by (simp add: get_async_def pending_world_def)
  show ?thesis
    using handleResp_resolves [OF a, where i = 5 and dump = "\<lambda>_. Inr []" and proto = Minified and r = JNull
        and e = "\<lparr>rcode = 0, message = [], edata = None\<rparr>"]
    by (simp add: pending_world_def demo_world_def)
qed

text \<open>
  a message that is not a response to a pending request (no id, a bad or an unknown id, neither
  result nor error, an error that is not one) raises an exception and changes nothing; otherwise
  exactly one pending request is resolved and removed.
\<close>

theorem handleResp_all_or_nothing:
  "case handleRespToClient dump proto h resp w of
     (Some e, w') \<Rightarrow> w' = w
   | (None, w') \<Rightarrow>
       get_async w h = None \<and> w' = w \<or>
       (\<exists>a i tr res. get_async w h = Some a \<and> map_of (apending a) i = Some tr \<and>
          w' = put_async h (a\<lparr>apending := pending_erase i (apending a)\<rparr>) (snd (fulfil (tprom tr) res w)))"
  by (auto simp: handleRespToClient_def split: option.split sum.split)

text \<open>
  C27: a check of the timeouts ends exactly the requests whose remaining time is at most the whole
  milliseconds since the last check, in the order of the table, with a timeout error, and shortens the
  others by these milliseconds; requests without a timeout are never ended. A series of checks ages the
  table by the sum of what each counted, as one check would; that is never more than the time that
  passed, and each check loses at most a millisecond of it.
\<close>

theorem CheckTimeouts_correct:
  assumes "get_async w h = Some a" "sorted (alast a # ts)" "ts \<noteq> []"
  shows "CheckTimeouts h now w =
      put_async h (a\<lparr>alast := now, apending := aged_table (duration_ms (now - alast a)) (apending a)\<rparr>)
        (foldl (\<lambda>w p. TimeoutHappened (snd p) w) w (filter (expires (duration_ms (now - alast a))) (apending a))) \<and>
    get_async (check_at h ts w) h =
      Some (a\<lparr>alast := last ts, apending := aged_table (counted_ms (alast a) ts) (apending a)\<rparr>) \<and>
    counted_ms (alast a) ts * 1000000 \<le> last ts - alast a \<and>
    last ts - alast a \<le> (counted_ms (alast a) ts + length ts) * 1000000 \<and>
    (ttimeout (snd p) = NoTimeout \<longrightarrow> \<not> expires d p)"
  using assms(1,3) check_at_async [OF assms(1,3)] counted_bounds [OF assms(2)]
  by (simp add: CheckTimeouts_def check_pending_spec aged_table_def expires_def)

theorem CheckTimeouts_correct_witness:
  "delivered (CheckTimeouts 0 100900000 pending_world) = [(1, Inl (FutureError ''sum: Timeout Error''))] \<and>
   map_option apending (get_async (check_at 0 [600000, 1200000, 3200000] pending_world) 0) =
     Some [(5, \<lparr>tmethod = ''sum'', tprom = Promise 3 (KClient 1), ttimeout = 98\<rparr>)]"
proof -
  have a: "get_async pending_world 0 = Some \<lparr>aproto = Minified, anext = 6,
       apending = [(5, \<lparr>tmethod = ''sum'', tprom = Promise 3 (KClient 1), ttimeout = 100\<rparr>)],
       ahandler = None, alast = 0, asender = Some (\<lambda>_. None)\<rparr>"
    by (simp add: get_async_def pending_world_def)
  note t = CheckTimeouts_correct [OF a, of "[600000, 1200000, 3200000]" 100900000]
  have "delivered (CheckTimeouts 0 100900000 pending_world) = [(1, Inl (FutureError ''sum: Timeout Error''))]"
    using t by (simp add: duration_ms_def expires_def NoTimeout_def TimeoutHappened_def timeout_error_def
        pending_world_def demo_world_def)
  moreover have "map_option apending (get_async (check_at 0 [600000, 1200000, 3200000] pending_world) 0) =
     Some [(5, \<lparr>tmethod = ''sum'', tprom = Promise 3 (KClient 1), ttimeout = 98\<rparr>)]"
    using t by (simp add: duration_ms_def aged_table_def aged_def expires_def NoTimeout_def)
  ultimately show ?thesis by simp
qed

end
