(* ===== verification/Rpc_Handler.thy ===== *)
theory Rpc_Handler
  imports Rpc_Server Rpc_Pending
begin

text \<open>
  \<^verbatim>\<open>IHandler::Handle\<close> and \<^verbatim>\<open>HandleNotify\<close> over the net of handlers: route, or dispatch to the virtual
  \<^verbatim>\<open>DoHandle\<close> of a server, of a transport (which forwards to its peer) or of a \<^verbatim>\<open>ForwardToHandler\<close>.
  Handlers may be routed and forwarded in a circle, so the two are recursive on fuel, one unit for
  each handler passed; none left is the value \<^term>\<open>None\<close>.
\<close>

fun Handle :: "nat \<Rightarrow> hid \<Rightarrow> request \<Rightarrow> promise \<Rightarrow> 'a world \<Rightarrow> 'a world option" where
  "Handle 0 h req cb w = None"
| "Handle (Suc n) h req cb w =
     (case nodes w h of
        None \<Rightarrow> Some (drop_promise cb w)
      | Some nd \<Rightarrow>
          (case tryRoute (alive w) (routes nd) (rmethod req) of
             (name, Some (route, t)) \<Rightarrow>
               (case OnForward h route (req\<lparr>rmethod := name\<rparr>) cb w of
                  (req', cb', w') \<Rightarrow> Handle n t req' cb' w')
           | (name, None) \<Rightarrow>
               (case body nd of
                  BServer s \<Rightarrow> Some (DoHandle h (req\<lparr>rmethod := name\<rparr>) cb w)
                | BAsync a \<Rightarrow> Some (SendMethod h name (rtimeout req) (rparams req) cb w)
                | BForward None \<Rightarrow> Some (drop_promise cb w)
                | BForward (Some t) \<Rightarrow>
                    if alive w t then
                      Handle n t \<lparr>rmethod = name, rtimeout = rtimeout req, rcontext = None, rparams = rparams req\<rparr> cb w
                    else Some (drop_promise cb w))))"

text \<open>
  The result is the exception that leaves the function; \<^verbatim>\<open>IClientTransport::DoHandleNotify\<close> lets
  none out.
\<close>

fun HandleNotify :: "nat \<Rightarrow> hid \<Rightarrow> request \<Rightarrow> 'a world \<Rightarrow> (exc option \<times> 'a world) option" where
  "HandleNotify 0 h req w = None"
| "HandleNotify (Suc n) h req w =
     (case nodes w h of
        None \<Rightarrow> Some (None, w)
      | Some nd \<Rightarrow>
          (case tryRoute (alive w) (routes nd) (rmethod req) of
             (name, Some (route, t)) \<Rightarrow>
               (case OnForwardNotify h route (req\<lparr>rmethod := name\<rparr>) w of
                  (Some e, req') \<Rightarrow> Some (Some e, w)
                | (None, req') \<Rightarrow> HandleNotify n t req' w)
           | (name, None) \<Rightarrow>
               (case body nd of
                  BServer s \<Rightarrow> Some (DoHandleNotify h (req\<lparr>rmethod := name\<rparr>) w)
                | BAsync a \<Rightarrow> Some (None, SendNotify h name (rparams req) w)
                | BForward None \<Rightarrow> Some (None, w)
                | BForward (Some t) \<Rightarrow>
                    if alive w t then
                      map_option (\<lambda>(x, w'). (None, w'))
                        (HandleNotify n t
                           \<lparr>rmethod = name, rtimeout = NoTimeout, rcontext = None, rparams = rparams req\<rparr> w)
                    else Some (None, w))))"

subsection \<open>Termination\<close>

text \<open>
  Every hop over a route shortens the method's name, unless a route middleware lengthens it; hops
  over a \<^verbatim>\<open>ForwardToHandler\<close> end when these are ranked.
\<close>

definition net_ranked :: "'a world \<Rightarrow> (hid \<Rightarrow> nat) \<Rightarrow> nat \<Rightarrow> bool" where
  "net_ranked w rank R \<longleftrightarrow>
     (\<forall>h. rank h \<le> R) \<and>
     (\<forall>h nd t. nodes w h = Some nd \<longrightarrow> body nd = BForward (Some t) \<longrightarrow> rank t < rank h) \<and>
     (\<forall>h s route req. get_server w h = Some s \<longrightarrow>
        length (rmethod (fst (runRouteMiddlewares s route req))) \<le> length (rmethod req))"

lemma OnForward_net:
  assumes "OnForward h route req cb w = (req', cb', w')" "net_ranked w rank R"
  shows "length (rmethod req') \<le> length (rmethod req)" and "nodes w' = nodes w"
proof -
  have s: "length (rmethod r') \<le> length (rmethod req)"
    if "get_server w h = Some s" "runRouteMiddlewares s route req = (r', x)" for s r' x
    using assms(2) that unfolding net_ranked_def by (metis fst_conv)
  have n: "nodes (snd (fulfil p res (w\<lparr>next_cell := k\<rparr>))) = nodes w" for p res k
    using fulfil_keeps(1) [of "w\<lparr>next_cell := k\<rparr>" p res] by (simp add: keeps_def)
  show "length (rmethod req') \<le> length (rmethod req)" "nodes w' = nodes w"
    using assms(1) by (auto simp: OnForward_def new_promise_def n dest: s split: option.splits prod.splits simp del: fulfil.simps)
qed

lemma net_ranked_nodes: "nodes w' = nodes w \<Longrightarrow> net_ranked w rank R \<Longrightarrow> net_ranked w' rank R"
  by (simp add: net_ranked_def get_server_def)

lemma Handle_terminates:
  "net_ranked w rank R \<Longrightarrow> length (rmethod req) * Suc R + rank h < fuel \<Longrightarrow>
     \<exists>w'. Handle fuel h req cb w = Some w'"
proof (induction fuel arbitrary: h req cb w)
  case (Suc n)
  have R: "rank h \<le> R" for h using Suc.prems(1) by (simp add: net_ranked_def)
  obtain name tgt where tr: "\<And>nd. nodes w h = Some nd \<Longrightarrow> tryRoute (alive w) (routes nd) (rmethod req) = (name, tgt)"
    by (cases "nodes w h"; cases "tryRoute (alive w) (routes (the (nodes w h))) (rmethod req)") auto
  show ?case
  proof (cases "nodes w h")
    case (Some nd)
    show ?thesis
    proof (cases tgt)
      case None
      have "\<exists>w'. Handle n t (req'\<lparr>rmethod := name\<rparr>) cb w = Some w'" if "body nd = BForward (Some t)" for t req'
      proof (rule Suc.IH [OF Suc.prems(1)])
        have "rank t < rank h" using Suc.prems(1) Some that by (auto simp: net_ranked_def)
        moreover have "length name \<le> length (rmethod req)"
          using tr [OF Some] tryRoute_not_longer [of "alive w" "routes nd" "rmethod req"] by simp
        ultimately show "length (rmethod (req'\<lparr>rmethod := name\<rparr>)) * Suc R + rank t < n"
          using Suc.prems(2) mult_le_mono1 [of "length name" "length (rmethod req)" "Suc R"] by simp
      qed
      from this [of _ "req\<lparr>rcontext := None\<rparr>"] show ?thesis
        using Some tr [OF Some] None
        by (cases req) (auto simp: drop_promise_def split: body.split option.split)
    next
      case (Some rt)
      obtain route t where rt: "rt = (route, t)" by (cases rt)
      obtain req' cb' w' where f: "OnForward h route (req\<lparr>rmethod := name\<rparr>) cb w = (req', cb', w')"
        by (metis prod_cases3)
      have "length name < length (rmethod req)"
        using tr [OF \<open>nodes w h = Some nd\<close>] Some rt by (simp add: tryRoute_shorter)
      then have "Suc (length (rmethod req')) \<le> length (rmethod req)"
        using OnForward_net(1) [OF f Suc.prems(1)] by simp
      then have "length (rmethod req') * Suc R + rank t < n"
        using Suc.prems(2) R [of t] mult_le_mono1 [of "Suc (length (rmethod req'))" "length (rmethod req)" "Suc R"]
        by simp
      from Suc.IH [OF net_ranked_nodes [OF OnForward_net(2) [OF f Suc.prems(1)] Suc.prems(1)] this]
      show ?thesis using \<open>nodes w h = Some nd\<close> tr [OF \<open>nodes w h = Some nd\<close>] Some rt f by simp
    qed
  qed simp
qed simp

subsection \<open>No promise is lost\<close>

text \<open>
  A promise is closed when a fulfilled state on its chain has only fulfilled ones below it. It is
  held when it is inside a promise that waits for user code or for a response.
\<close>

primrec closed :: "promise \<Rightarrow> 'a world \<Rightarrow> bool" and closed_kont :: "kont \<Rightarrow> 'a world \<Rightarrow> bool" where
  "closed (Promise c k) w \<longleftrightarrow> (c \<in> fulfilled w \<longrightarrow> set (kont_cells k) \<subseteq> fulfilled w) \<and> closed_kont k w"
| "closed_kont (KSendResult h proto jid) w \<longleftrightarrow> True"
| "closed_kont (KBatchResp b proto jid) w \<longleftrightarrow> True"
| "closed_kont (KForward h route m ctx orig) w \<longleftrightarrow> closed orig w"
| "closed_kont (KWrap h m ctx cb) w \<longleftrightarrow> closed cb w"
| "closed_kont (KClient n) w \<longleftrightarrow> True"

definition waits_in :: "promise \<Rightarrow> 'a world \<Rightarrow> bool" where
  "waits_in q w \<longleftrightarrow> parked q w \<or>
     (\<exists>h a i tr. get_async w h = Some a \<and> map_of (apending a) i = Some tr \<and> tprom tr = q)"

definition held :: "promise \<Rightarrow> 'a world \<Rightarrow> bool" where
  "held p w \<longleftrightarrow> (\<exists>q. set (chain_cells p) \<subseteq> set (chain_cells q) \<and> waits_in q w)"

definition settled :: "promise \<Rightarrow> 'a world \<Rightarrow> bool" where
  "settled p w \<longleftrightarrow> set (chain_cells p) \<subseteq> fulfilled w"

lemma closed_mark:
  fixes w :: "'a world"
  shows "c \<notin> set (chain_cells p) \<Longrightarrow> closed p w \<Longrightarrow> closed p (w\<lparr>fulfilled := insert c (fulfilled w)\<rparr>)"
    and "c \<notin> set (kont_cells k) \<Longrightarrow> closed_kont k w \<Longrightarrow> closed_kont k (w\<lparr>fulfilled := insert c (fulfilled w)\<rparr>)"
  by (induction p and k) auto

lemma closed_fulfilled:
  fixes w w' :: "'a world"
  shows "fulfilled w' = fulfilled w \<Longrightarrow> closed p w' = closed p w"
    and "fulfilled w' = fulfilled w \<Longrightarrow> closed_kont k w' = closed_kont k w"
  by (induction p and k) auto

lemma settled_closed: 
  fixes w :: "'a world"
  shows "set (chain_cells p) \<subseteq> fulfilled w \<Longrightarrow> closed p w"
    and "set (kont_cells k) \<subseteq> fulfilled w \<Longrightarrow> closed_kont k w"
  by (induction p and k) auto

lemma fulfil_settles:
  fixes w :: "'a world"
  shows "distinct (chain_cells p) \<Longrightarrow> closed p w \<Longrightarrow> set (chain_cells p) \<subseteq> fulfilled (snd (fulfil p res w))"
    and "distinct (kont_cells k) \<Longrightarrow> closed_kont k w \<Longrightarrow> set (kont_cells k) \<subseteq> fulfilled (run_kont k res w)"
proof (induction p and k arbitrary: res w and res w)
  case (Promise c k)
  let ?w = "w\<lparr>fulfilled := insert c (fulfilled w)\<rparr>"
  have "set (kont_cells k) \<subseteq> fulfilled (run_kont k res ?w)"
    using Promise.IH [of ?w res] closed_mark(2) [of c k w] Promise.prems by simp
  moreover have "c \<in> fulfilled (run_kont k res ?w)"
    using fulfil_keeps(2) [of ?w k res] by (auto simp: keeps_def)
  ultimately show ?case using Promise.prems by simp
qed simp_all

definition cells_ok :: "promise \<Rightarrow> 'a world \<Rightarrow> bool" where
  "cells_ok p w \<longleftrightarrow> (\<forall>c \<in> fulfilled w \<union> set (chain_cells p). c < next_cell w) \<and> distinct (chain_cells p) \<and> closed p w"

lemma cells_ok_mono:
  "cells_ok p w \<Longrightarrow> closed p w' \<Longrightarrow> fulfilled w' \<subseteq> fulfilled w \<union> set (chain_cells p) \<Longrightarrow>
     next_cell w' = next_cell w \<Longrightarrow> cells_ok p w'"
  by (auto simp: cells_ok_def)

lemma OnForward_cells:
  assumes "OnForward h route req cb w = (req', cb', w')" "cells_ok cb w"
  shows "cells_ok cb' w' \<and> set (chain_cells cb) \<subseteq> set (chain_cells cb')"
proof (cases "get_server w h")
  case None
  then show ?thesis using assms by (simp add: OnForward_def)
next
  case (Some s)
  let ?k = "KForward h route (rmethod req) (rcontext req) cb"
  let ?w1 = "w\<lparr>next_cell := Suc (next_cell w)\<rparr>"
  let ?p = "Promise (next_cell w) ?k"
  obtain r x where m: "runRouteMiddlewares s route req = (r, x)" by fastforce
  have c: "cells_ok ?p ?w1"
    using assms(2) closed_fulfilled(1) [of ?w1 w cb] by (auto simp: cells_ok_def less_Suc_eq)
  have cb': "cb' = ?p" and w': "w' = ?w1 \<or> (\<exists>res. w' = snd (fulfil ?p res ?w1))"
    using assms(1) Some m by (auto simp: OnForward_def new_promise_def simp del: fulfil.simps split: option.splits)
  have "cells_ok ?p (snd (fulfil ?p res ?w1))" for res
  proof -
    have "closed ?p (snd (fulfil ?p res ?w1))"
      by (rule settled_closed(1), rule fulfil_settles(1)) (use c in \<open>auto simp: cells_ok_def\<close>)
    moreover have "fulfilled (snd (fulfil ?p res ?w1)) \<subseteq> fulfilled ?w1 \<union> set (chain_cells ?p)"
      by (rule fulfil_cells(1))
    moreover have "next_cell (snd (fulfil ?p res ?w1)) = next_cell ?w1"
      using fulfil_keeps(1) [of ?w1 ?p res] by (simp add: keeps_def)
    ultimately show ?thesis by (rule cells_ok_mono [OF c])
  qed
  with c cb' w' show ?thesis by auto
qed

lemma run_call_settles:
  assumes "run_call cl h ctx req (Some p) w = (None, w')" "distinct (chain_cells p)" "closed p w"
  shows "settled p w' \<or> parked p w'"
proof -
  have f: "settled p (snd (fulfil p res w))" for res
    using fulfil_settles(1) [OF assms(2,3)] by (simp add: settled_def)
  have v: "settled p w" if "\<not> promise_valid p w"
    using that assms(3) by (cases p) (auto simp: promise_valid_def settled_def)
  show ?thesis
  proof (cases "promise_valid p w")
    case True
    then show ?thesis
      using assms(1) f
      by (cases cl)
        (auto simp: run_call_def is_method_call_def resolve_cb_def install_wrap_def Let_def parked_def drop_promise_def settled_def
          intro: subsetD [OF f [unfolded settled_def]]
          simp del: fulfil.simps split: option.splits sum.splits user_future.splits if_splits)
  next
    case False
    then have "w' = w"
      using assms(1)
      by (cases cl)
        (auto simp: run_call_def is_method_call_def validateRequest_def
          split: option.splits sum.splits if_splits)
    with v [OF False] show ?thesis by simp
  qed
qed

lemma dispatch_settles:
  assumes "dispatch s h ctx req p w = (None, w')" "distinct (chain_cells p)" "closed p w"
  shows "settled p w' \<or> parked p w'"
proof -
  have f: "settled p (snd (fulfil p res w))" for res
    using fulfil_settles(1) [OF assms(2,3)] by (simp add: settled_def)
  show ?thesis
    using assms(1) f run_call_settles [of _ h ctx req p w w', OF _ assms(2,3)]
    by (auto simp: dispatch_def handleExtension_def Let_def simp del: fulfil.simps
        split: option.splits sum.splits if_splits)
qed

lemma closed_set_current [simp]: "closed p (set_current h c w) = closed p w"
  by (rule closed_fulfilled(1)) simp

lemma dispatch_closed:
  "dispatch s h ctx req p w = (Some e, w') \<Longrightarrow> w' = w"
  by (auto simp: dispatch_def handleExtension_def run_call_def Let_def
      split: option.splits sum.splits call.splits if_splits)

lemma DoHandle_settles:
  assumes "distinct (chain_cells cb)" "closed cb w"
  shows "settled cb (DoHandle h req cb w) \<or> parked cb (DoHandle h req cb w)"
proof -
  have f: "settled cb (snd (fulfil cb res w'))" if "closed cb w'" for res and w' :: "'a world"
    using fulfil_settles(1) [OF assms(1) that] by (simp add: settled_def)
  have z: "settled cb (set_current h c w') = settled cb w'" "parked cb (set_current h c w') = parked cb w'"
    for c and w' :: "'a world" by (simp_all add: settled_def parked_def)
  show ?thesis
    using assms f dispatch_settles [of _ h _ _ cb "set_current h (rcontext req) w", OF _ assms(1)]
      dispatch_closed [of _ h _ _ cb "set_current h (rcontext req) w"]
    by (auto simp: DoHandle_def Let_def drop_promise_def z simp del: fulfil.simps
        split: option.split prod.split) (metis closed_set_current f)+
qed

lemma pending_replace_same: "map_of ps i = Some old \<Longrightarrow> map_of (pending_replace i tr ps) i = Some tr"
  by (induction ps) (auto simp: pending_replace_def split: if_splits)

lemma addPending_in:
  assumes "get_async w h = Some a"
  shows "\<exists>a' tr. get_async (addPending h name i cb timeout w) h = Some a' \<and>
    map_of (apending a') i = Some tr \<and> tprom tr = cb"
proof -
  have "get_async (snd (fulfil p res w)) h = Some a" for p res
    using get_async_keeps [OF fulfil_keeps(1)] assms by metis
  then show ?thesis
    using assms get_async_put
    by (fastforce simp: addPending_def Let_def pending_replace_same split: option.split)
qed

lemma SendMethod_held:
  assumes "get_async w h = Some a"
  shows "waits_in cb (SendMethod h name timeout params cb w)"
proof -
  have "get_async (put_async h (a\<lparr>anext := anext a + 1\<rparr>) w) h = Some (a\<lparr>anext := anext a + 1\<rparr>)"
    using get_async_put [OF assms] .
  from addPending_in [OF this, of name "anext a" cb timeout] obtain a' tr where
    p: "get_async (addPending h name (anext a) cb timeout (put_async h (a\<lparr>anext := anext a + 1\<rparr>) w)) h = Some a'"
      "map_of (apending a') (anext a) = Some tr" "tprom tr = cb" by blast
  have "get_async (SendMethod h name timeout params cb w) h = Some a'"
    using p(1) by (simp add: SendMethod_def assms take_id_def get_async_keeps [OF Send_keeps])
  with p(2,3) show ?thesis by (auto simp: waits_in_def)
qed

lemma Handle_settles:
  "Handle fuel h req cb w = Some w' \<Longrightarrow> cells_ok cb w \<Longrightarrow> settled cb w' \<or> held cb w'"
proof (induction fuel arbitrary: h req cb w)
  case (Suc n)
  have d: "settled cb (drop_promise cb w)"
    using fulfil_settles(1) [of cb w] Suc.prems(2) by (simp add: drop_promise_def settled_def cells_ok_def)
  have p: "held cb w'" if "parked cb w'" for w' :: "'a world" using that by (auto simp: held_def waits_in_def)
  show ?case
  proof (cases "nodes w h")
    case None
    then show ?thesis using Suc.prems d by simp
  next
    case (Some nd)
    obtain name tgt where tr: "tryRoute (alive w) (routes nd) (rmethod req) = (name, tgt)" by fastforce
    show ?thesis
    proof (cases tgt)
      case t: None
      have "settled cb (DoHandle h r cb w) \<or> parked cb (DoHandle h r cb w)" for r
        using DoHandle_settles [of cb w h r] Suc.prems(2) by (simp add: cells_ok_def)
      moreover have "held cb (SendMethod h name to pa cb w)" if "body nd = BAsync a" for a to pa
        using SendMethod_held [of w h a cb name to pa] that Some by (auto simp: get_async_def held_def)
      ultimately show ?thesis
        using Suc.prems Some tr t d p Suc.IH [OF _ Suc.prems(2)]
        by (auto split: body.splits option.splits if_splits)
    next
      case rt: (Some rt)
      obtain route t where "rt = (route, t)" by (cases rt)
      moreover obtain req' cb' w1 where f: "OnForward h route (req\<lparr>rmethod := name\<rparr>) cb w = (req', cb', w1)"
        by (metis prod_cases3)
      ultimately have "Handle n t req' cb' w1 = Some w'" using Suc.prems(1) Some tr rt by simp
      from Suc.IH [OF this] OnForward_cells [OF f Suc.prems(2)] show ?thesis
        by (auto simp: settled_def held_def)
    qed
  qed
qed simp

subsection \<open>The process goes on\<close>

text \<open>The functions registered at the servers return futures that have a state.\<close>

definition returns_valid :: "'a call \<Rightarrow> bool" where
  "returns_valid c \<longleftrightarrow> (case c of CAsync ns ps fn \<Rightarrow> (\<forall>ctx vs. fn ctx vs \<noteq> Inr Invalid_Future) | _ \<Rightarrow> True)"

definition valid_futures :: "'a world \<Rightarrow> bool" where
  "valid_futures w \<longleftrightarrow> (\<forall>h s. get_server w h = Some s \<longrightarrow> (\<forall>c \<in> snd ` set (calls s). returns_valid c))"

lemma fulfil_terminated [simp]: "terminated (snd (fulfil p res w)) = terminated w"
  using fulfil_keeps(1) [of w p res] by (simp add: keeps_def)

lemma drop_promise_terminated [simp]: "terminated (drop_promise p w) = terminated w"
  by (simp add: drop_promise_def del: fulfil.simps)

lemma run_kont_terminated [simp]: "terminated (run_kont k res w) = terminated w"
  using fulfil_keeps(2) [of w k res] by (simp add: keeps_def)

lemma put_body_terminated [simp]: "terminated (put_body h b w) = terminated w"
  by (simp add: put_body_def split: option.split)

lemma Send_terminated [simp]: "terminated (snd (Send h m w)) = terminated w"
  using Send_keeps [of w h m] by (simp add: keeps_def)

lemma run_call_terminated:
  assumes "returns_valid c" "run_call c h ctx req cb w = (x, w')"
  shows "terminated w' = terminated w"
  using assms
  by (cases c)
    (auto simp: run_call_def install_wrap_def resolve_cb_def returns_valid_def doCall_def Let_def
      simp del: fulfil.simps run_kont.simps
      split: option.splits sum.splits user_future.splits)

lemma dispatch_terminated:
  assumes "\<forall>c \<in> snd ` set (calls s). returns_valid c" "dispatch s h ctx req p w = (x, w')"
  shows "terminated w' = terminated w"
proof -
  have "returns_valid c" if "map_of (calls s) n = Some c" for n c
    using assms(1) map_of_SomeD [OF that] by force
  with assms(2) run_call_terminated [of _ h ctx req "Some p" w x w'] show ?thesis
    by (auto simp: dispatch_def handleExtension_def Let_def simp del: fulfil.simps
        split: option.splits sum.splits if_splits)
qed

lemma DoHandle_terminated:
  assumes "valid_futures w"
  shows "terminated (DoHandle h req cb w) = terminated w"
proof (cases "get_server w h")
  case (Some s)
  then have "\<forall>c \<in> snd ` set (calls s). returns_valid c" using assms by (auto simp: valid_futures_def)
  from dispatch_terminated [OF this] Some show ?thesis
    by (auto simp: DoHandle_def Let_def simp del: fulfil.simps split: option.split prod.split)
qed (simp add: DoHandle_def drop_promise_def del: fulfil.simps)

lemma SendMethod_terminated [simp]: "terminated (SendMethod h name timeout params cb w) = terminated w"
proof -
  have "terminated (addPending h name i cb timeout w') = terminated w'" for i and w' :: "'a world"
    by (auto simp: addPending_def put_async_def Let_def simp del: fulfil.simps split: option.split)
  then show ?thesis
    by (auto simp: SendMethod_def put_async_def take_id_def Let_def simp del: fulfil.simps split: option.split)
qed

lemma OnForward_terminated:
  "OnForward h route req cb w = (req', cb', w') \<Longrightarrow> terminated w' = terminated w \<and> nodes w' = nodes w"
  using fulfil_keeps(1) [of "w\<lparr>next_cell := Suc (next_cell w)\<rparr>"]
  by (auto simp: OnForward_def new_promise_def keeps_def simp del: fulfil.simps split: option.splits prod.splits)

lemma Handle_terminated:
  "Handle fuel h req cb w = Some w' \<Longrightarrow> valid_futures w \<Longrightarrow> terminated w' = terminated w"
proof (induction fuel arbitrary: h req cb w)
  case (Suc n)
  show ?case
  proof (cases "nodes w h")
    case None
    then show ?thesis using Suc.prems by (auto simp: drop_promise_def simp del: fulfil.simps)
  next
    case (Some nd)
    obtain name tgt where tr: "tryRoute (alive w) (routes nd) (rmethod req) = (name, tgt)" by fastforce
    show ?thesis
    proof (cases tgt)
      case None
      then show ?thesis
        using Suc.prems(1) Some tr Suc.IH [OF _ Suc.prems(2)] DoHandle_terminated [OF Suc.prems(2)]
        by (auto simp: drop_promise_def simp del: fulfil.simps split: body.splits option.splits if_splits)
    next
      case rt: (Some rt)
      obtain route t where "rt = (route, t)" by (cases rt)
      moreover obtain req' cb' w1 where f: "OnForward h route (req\<lparr>rmethod := name\<rparr>) cb w = (req', cb', w1)"
        by (metis prod_cases3)
      ultimately have "Handle n t req' cb' w1 = Some w'" using Suc.prems(1) Some tr rt by simp
      moreover have "valid_futures w1"
        using Suc.prems(2) OnForward_terminated [OF f] by (simp add: valid_futures_def get_server_def)
      ultimately show ?thesis using Suc.IH OnForward_terminated [OF f] by simp
    qed
  qed
qed simp

lemma HandleNotify_terminates:
  "net_ranked w rank R \<Longrightarrow> length (rmethod req) * Suc R + rank h < fuel \<Longrightarrow>
     \<exists>r. HandleNotify fuel h req w = Some r"
proof (induction fuel arbitrary: h req)
  case (Suc n)
  have R: "rank h \<le> R" for h using Suc.prems(1) by (simp add: net_ranked_def)
  show ?case
  proof (cases "nodes w h")
    case (Some nd)
    obtain name tgt where tr: "tryRoute (alive w) (routes nd) (rmethod req) = (name, tgt)" by fastforce
    show ?thesis
    proof (cases tgt)
      case None
      have "\<exists>r. HandleNotify n t (req'\<lparr>rmethod := name\<rparr>) w = Some r" if "body nd = BForward (Some t)" for t req'
      proof (rule Suc.IH [OF Suc.prems(1)])
        have "rank t < rank h" using Suc.prems(1) Some that by (auto simp: net_ranked_def)
        moreover have "length name \<le> length (rmethod req)"
          using tr tryRoute_not_longer [of "alive w" "routes nd" "rmethod req"] by simp
        ultimately show "length (rmethod (req'\<lparr>rmethod := name\<rparr>)) * Suc R + rank t < n"
          using Suc.prems(2) mult_le_mono1 [of "length name" "length (rmethod req)" "Suc R"] by simp
      qed
      from this [of _ "req\<lparr>rcontext := None, rtimeout := NoTimeout\<rparr>"] show ?thesis
        using Some tr None
        by (cases req) (force split: body.split option.split)
    next
      case rt: (Some rt)
      obtain route t where t: "rt = (route, t)" by (cases rt)
      obtain x req' where f: "OnForwardNotify h route (req\<lparr>rmethod := name\<rparr>) w = (x, req')" by fastforce
      have "length (rmethod req') \<le> length name"
      proof (cases "get_server w h")
        case None
        then show ?thesis using f by (auto simp: OnForwardNotify_def)
      next
        case (Some s)
        have "\<forall>h s route req. get_server w h = Some s \<longrightarrow>
            length (rmethod (fst (runRouteMiddlewares s route req))) \<le> length (rmethod req)"
          using Suc.prems(1) by (simp add: net_ranked_def)
        from this [rule_format, OF Some, of route "req\<lparr>rmethod := name\<rparr>"] show ?thesis
          using f Some by (simp add: OnForwardNotify_def split: prod.splits)
      qed
      moreover have "length name < length (rmethod req)"
        using tr rt t by (simp add: tryRoute_shorter)
      ultimately have "length (rmethod req') * Suc R + rank t < n"
        using Suc.prems(2) R [of t] mult_le_mono1 [of "Suc (length (rmethod req'))" "length (rmethod req)" "Suc R"]
        by simp
      from Suc.IH [OF Suc.prems(1) this] show ?thesis
        using Some tr rt t f by (auto split: option.split)
    qed
  qed simp
qed simp

lemma Handle_more_fuel: "Handle n h req cb w = Some w' \<Longrightarrow> n \<le> m \<Longrightarrow> Handle m h req cb w = Some w'"
proof (induction n arbitrary: m h req cb w)
  case (Suc n)
  then obtain m' where m: "m = Suc m'" "n \<le> m'" by (cases m) auto
  show ?case
    using Suc.prems(1) Suc.IH [OF _ m(2)] unfolding m(1)
    by (auto split: option.splits prod.splits body.splits if_splits)
qed simp

text \<open>
  A request that a route middleware rejects is answered with the exception, and the handler behind
  the route is run all the same, on a request without context.
\<close>

lemma rejected_request_still_handled:
  assumes "nodes w h = Some nd" "body nd = BServer s"
    and "tryRoute (alive w) (routes nd) (rmethod req) = (name, Some (route, t))"
    and "runRouteMiddlewares s route (req\<lparr>rmethod := name\<rparr>) = (req', Some e)"
  shows "\<exists>cb' w'. cell cb' \<in> fulfilled w' \<and>
    Handle (Suc n) h req cb w = Handle n t (req'\<lparr>rcontext := None\<rparr>) cb' w'"
  using assms
  by (simp add: OnForward_def get_server_def new_promise_def del: fulfil.simps)
    (metis fulfil_marks)

subsection \<open>Properties\<close>

text \<open>
  C9: routing ends: in a net whose route middlewares do not lengthen names and whose
  \<^verbatim>\<open>ForwardToHandler\<close>s are ranked (no circle among them), any circle of routes included, a request
  and a notification pass at most as many handlers as the fuel given here; more fuel changes
  nothing.
\<close>

theorem Handle_total:
  assumes "net_ranked w rank R" "length (rmethod req) * Suc R + rank h < fuel"
  shows "\<exists>w'. (\<forall>fuel' \<ge> fuel. Handle fuel' h req cb w = Some w') \<and>
    (\<exists>r. HandleNotify fuel h req w = Some r)"
  using Handle_terminates [OF assms, of cb] HandleNotify_terminates [OF assms] Handle_more_fuel by blast

text \<open>A server routed to itself.\<close>

definition loop_world :: "u64 world" where
  "loop_world = sum_world\<lparr>nodes :=
     (\<lambda>h. if h = 0 then Some \<lparr>routes = [(''self'', 0)], body = BServer sum_server\<rparr> else None)\<rparr>"

lemma loop_ranked: "net_ranked loop_world (\<lambda>_. 0) 0"
  by (auto simp: net_ranked_def loop_world_def get_server_def runRouteMiddlewares_def sum_server_def
      split: if_splits)

theorem Handle_total_witness:
  "\<exists>w'. Handle 20 0 (sum_request\<lparr>rmethod := ''/self/self/sum''\<rparr>) (Promise 4 (KClient 7)) loop_world = Some w'"
  using Handle_total [OF loop_ranked, where h = 0 and fuel = 20
      and req = "sum_request\<lparr>rmethod := ''/self/self/sum''\<rparr>" and cb = "Promise 4 (KClient 7)"]
  by (simp del: Handle.simps HandleNotify.simps) blast

text \<open>
  C3: no request is lost on its way through the net: in a net whose route middlewares do not lengthen
  names and whose \<^verbatim>\<open>ForwardToHandler\<close>s are ranked (no circle among them), \<^verbatim>\<open>Handle\<close> returns, and then
  the promise it was given and every promise that one forwards to are resolved, or it is held by a
  transport's table of pending requests or by a future of user code, whatever routes, middlewares,
  exception handlers and senders do. The process is not terminated on the way as long as the
  functions of the servers return valid futures.
\<close>

theorem Handle_never_loses:
  assumes "net_ranked w rank R" "length (rmethod req) * Suc R + rank h < fuel" "cells_ok cb w"
  shows "\<exists>w'. Handle fuel h req cb w = Some w' \<and> (settled cb w' \<or> held cb w') \<and>
    (valid_futures w \<longrightarrow> terminated w' = terminated w)"
  using Handle_terminates [OF assms(1,2), of cb] Handle_settles [OF _ assms(3)] Handle_terminated by blast

theorem Handle_never_loses_witness:
  "\<exists>w'. Handle 20 0 (sum_request\<lparr>rmethod := ''/self/sum''\<rparr>) (Promise 4 (KClient 7)) loop_world = Some w' \<and>
     (settled (Promise 4 (KClient 7)) w' \<or> held (Promise 4 (KClient 7)) w') \<and> \<not> terminated w'"
proof -
  have ok: "cells_ok (Promise 4 (KClient 7)) loop_world"
    by (simp add: cells_ok_def loop_world_def sum_world_def)
  have "valid_futures loop_world \<and> \<not> terminated loop_world"
    by (auto simp: valid_futures_def returns_valid_def loop_world_def sum_world_def get_server_def sum_server_def
        split: if_splits)
  with Handle_never_loses [OF loop_ranked _ ok, where h = 0 and fuel = 20
        and req = "sum_request\<lparr>rmethod := ''/self/sum''\<rparr>"]
  show ?thesis by (simp del: Handle.simps)
qed

text \<open>
  A registered function that returns an invalid future ends the process: the promise is broken, and
  the handler throws where it must not.
\<close>

definition invalid_world :: "u64 world" where
  "invalid_world = sum_world\<lparr>nodes := (\<lambda>h. if h = 0 then
     Some \<lparr>routes = [], body = BServer (sum_server\<lparr>calls := [(''bad'', CAsync NoNames [] (\<lambda>_ _. Inr Invalid_Future))]\<rparr>)\<rparr>
     else None)\<rparr>"

lemma invalid_future_terminates:
  "terminated (DoHandle 0 (sum_request\<lparr>rmethod := ''bad'', rparams := JArray []\<rparr>) (Promise 4 (KClient 7)) invalid_world)"
  by (simp add: DoHandle_def invalid_world_def sum_world_def Let_def promise_valid_def runMiddlewares_def sum_server_def
      dispatch_def ext_prefix_def run_call_def is_method_call_def validateRequest_def names_of_def
      names_count_def doCall_def call_values_def install_wrap_def sum_request_def get_server_def
      set_current_def put_body_def drop_promise_def)

end
