(* ===== verification/Rpc_Transport.thy ===== *)
theory Rpc_Transport
  imports Rpc_Handler
begin

text \<open>
  The receiving side of \<^verbatim>\<open>IAsyncTransport\<close> (\<^verbatim>\<open>transport.cpp\<close>): requests and notifications for the
  handler, responses for the client, and batches of either. Fuel is that of \<^verbatim>\<open>Handle\<close>; an
  exception that leaves \<^verbatim>\<open>Receive\<close> is the first part of the result.
\<close>

subsection \<open>Single messages\<close>

text \<open>\<^verbatim>\<open>getHandler\<close>: without a handler \<^verbatim>\<open>NoServerFound\<close> throws.\<close>

definition getHandler :: "hid \<Rightarrow> 'a world \<Rightarrow> exc + hid" where
  "getHandler self w =
     (case get_async w self of
        Some a \<Rightarrow>
          (case ahandler a of
             Some h \<Rightarrow> if alive w h then Inr h else Inl (mk_rpc ''Server not registered'' code_internal None)
           | None \<Rightarrow> Inl (mk_rpc ''Server not registered'' code_internal None))
      | None \<Rightarrow> Inl (mk_rpc ''Server not registered'' code_internal None))"

definition id_view :: "json \<Rightarrow> frame \<Rightarrow> jv_error + json" where
  "id_view j fr = Inr j"

text \<open>
  \<^verbatim>\<open>handleServer\<close>. The id is copied (\<^verbatim>\<open>Json(id)\<close>) into the continuation; a promise that is not
  handed over is broken, which sends an error.
\<close>

definition handleServer ::
    "nat \<Rightarrow> protocol \<Rightarrow> hid \<Rightarrow> string \<Rightarrow> json \<Rightarrow> nat option \<Rightarrow> 'a world \<Rightarrow> (exc option \<times> 'a world) option" where
  "handleServer fuel proto self name req ctx w =
     (let reqFrame = Frame (KStr ''<request>'') RootFrame in
      case Value_key id_view req F_Id JNull reqFrame of
        Inl e \<Rightarrow> Some (Some (JvExc e), w)
      | Inr jid \<Rightarrow>
          (case Value_key id_view req (F_Params proto) EmptyArray reqFrame of
             Inl e \<Rightarrow> Some (Some (JvExc e), w)
           | Inr p \<Rightarrow>
               (let prepReq = \<lparr>rmethod = name, rtimeout = NoTimeout, rcontext = ctx, rparams = p\<rparr> in
                if Is jid t_null then
                  (case getHandler self w of
                     Inl e \<Rightarrow> Some (Some e, w)
                   | Inr h \<Rightarrow> HandleNotify fuel h prepReq w)
                else
                  (case copy_part jid of
                     Inl e \<Rightarrow> Some (Some e, w)
                   | Inr jid' \<Rightarrow>
                       (case new_promise (KSendResult self proto jid') w of
                          (cb, w1) \<Rightarrow>
                            (case getHandler self w1 of
                               Inl e \<Rightarrow> Some (Some e, drop_promise cb w1)
                             | Inr h \<Rightarrow> map_option (Pair None) (Handle fuel h prepReq cb w1)))))))"

definition handle ::
    "(json \<Rightarrow> jv_error + string) \<Rightarrow> nat \<Rightarrow> protocol \<Rightarrow> hid \<Rightarrow> json \<Rightarrow> nat option \<Rightarrow> 'a world \<Rightarrow> (exc option \<times> 'a world) option" where
  "handle dump fuel proto self msg ctx w =
     (case FindVal msg (F_Method proto) RootFrame of
        Inl e \<Rightarrow> Some (Some (JvExc e), w)
      | Inr None \<Rightarrow> Some (handleRespToClient dump proto self msg w)
      | Inr (Some m) \<Rightarrow>
          (case GetString m (Frame (KStr (F_Method proto)) RootFrame) of
             Inl e \<Rightarrow> Some (Some (JvExc e), w)
           | Inr name \<Rightarrow> handleServer fuel proto self name msg ctx w))"

subsection \<open>Batches\<close>

text \<open>
  An exception of a part is answered with an error without id. Making that error (a copy) may throw
  again, which ends the batch; the parts already pushed stay in it.
\<close>

definition add_part :: "nat \<Rightarrow> json \<Rightarrow> 'a world \<Rightarrow> 'a world" where
  "add_part b part w =
     (case batches w b of
        Some bt \<Rightarrow> w\<lparr>batches := (batches w)(b := Some (bt\<lparr>bparts := bparts bt @ [part]\<rparr>))\<rparr>
      | None \<Rightarrow> w)"

definition bump_left :: "u64 \<Rightarrow> nat \<Rightarrow> 'a world \<Rightarrow> 'a world" where
  "bump_left d b w =
     (case batches w b of
        Some bt \<Rightarrow> w\<lparr>batches := (batches w)(b := Some (bt\<lparr>bleft := bleft bt + d\<rparr>))\<rparr>
      | None \<Rightarrow> w)"

text \<open>One part, as far as it throws.\<close>

definition batch_request ::
    "nat \<Rightarrow> protocol \<Rightarrow> nat \<Rightarrow> hid \<Rightarrow> json \<Rightarrow> frame \<Rightarrow> nat option \<Rightarrow> 'a world \<Rightarrow> (exc option \<times> 'a world) option" where
  "batch_request fuel proto b h part fr ctx w =
     (case Value_key id_view part F_Id JNull fr of
        Inl e \<Rightarrow> Some (Some (JvExc e), w)
      | Inr jid \<Rightarrow>
          (case Value_key id_view part (F_Params proto) EmptyArray fr of
             Inl e \<Rightarrow> Some (Some (JvExc e), w)
           | Inr p \<Rightarrow>
               (case At_key part (F_Method proto) fr of
                  Inl e \<Rightarrow> Some (Some (JvExc e), w)
                | Inr m \<Rightarrow>
                    (case GetString m (Frame (KStr (F_Method proto)) fr) of
                       Inl e \<Rightarrow> Some (Some (JvExc e), w)
                     | Inr name \<Rightarrow>
                         (let req = \<lparr>rmethod = name, rtimeout = NoTimeout, rcontext = ctx, rparams = p\<rparr> in
                          if Is jid t_null then HandleNotify fuel h req w
                          else
                            (case copy_part jid of
                               Inl e \<Rightarrow> Some (Some e, w)
                             | Inr jid' \<Rightarrow>
                                 (case new_promise (KBatchResp b proto jid') w of
                                    (cb, w1) \<Rightarrow>
                                      map_option (Pair None) (Handle fuel h req cb (bump_left 1 b w1)))))))))"

fun batch_loop ::
    "nat \<Rightarrow> protocol \<Rightarrow> nat \<Rightarrow> hid \<Rightarrow> json list \<Rightarrow> u32 \<Rightarrow> nat option \<Rightarrow> 'a world \<Rightarrow> (exc option \<times> 'a world) option" where
  "batch_loop fuel proto b h [] idx ctx w = Some (None, w)"
| "batch_loop fuel proto b h (part # ps) idx ctx w =
     (case batch_request fuel proto b h part (Frame (KIdx idx) (Frame (KStr ''<batch>'') RootFrame)) ctx
             (bump_left (- 1) b w) of
        None \<Rightarrow> None
      | Some (None, w') \<Rightarrow> batch_loop fuel proto b h ps (idx + 1) ctx w'
      | Some (Some e, w') \<Rightarrow>
          (case copy_part (MakeError proto JNull (wrap_exc e)) of
             Inl e' \<Rightarrow> Some (Some e', w')
           | Inr err \<Rightarrow> batch_loop fuel proto b h ps (idx + 1) ctx (add_part b err w')))"

definition handleServerBatch ::
    "nat \<Rightarrow> protocol \<Rightarrow> hid \<Rightarrow> json list \<Rightarrow> nat option \<Rightarrow> 'a world \<Rightarrow> (exc option \<times> 'a world) option" where
  "handleServerBatch fuel proto self parts ctx w =
     (let b = next_batch w;
          bt = \<lparr>bself = self, bleft = word_of_nat (length parts), bparts = []\<rparr>;
          w1 = w\<lparr>batches := (batches w)(b := Some bt), next_batch := Suc b\<rparr> in
      case getHandler self w1 of
        Inl e \<Rightarrow> Some (Some e, w1)
      | Inr h \<Rightarrow> batch_loop fuel proto b h parts 0 ctx w1)"

definition resp_loop :: "(json \<Rightarrow> jv_error + string) \<Rightarrow> protocol \<Rightarrow> hid \<Rightarrow> json list \<Rightarrow> 'a world \<Rightarrow> 'a world" where
  "resp_loop dump proto self parts w =
     foldl (\<lambda>w part. snd (handleRespToClient dump proto self part w)) w parts"

definition handleBatch ::
    "(json \<Rightarrow> jv_error + string) \<Rightarrow> nat \<Rightarrow> protocol \<Rightarrow> hid \<Rightarrow> json list \<Rightarrow> nat option \<Rightarrow> 'a world \<Rightarrow> (exc option \<times> 'a world) option" where
  "handleBatch dump fuel proto self parts ctx w =
     (case FindVal (hd parts) (F_Method proto) (Frame (KStr ''<batch.part>'') RootFrame) of
        Inl e \<Rightarrow> Some (Some (JvExc e), w)
      | Inr None \<Rightarrow> Some (None, resp_loop dump proto self parts w)
      | Inr (Some m) \<Rightarrow> handleServerBatch fuel proto self parts ctx w)"

subsection \<open>Receive\<close>

definition Receive ::
    "(json \<Rightarrow> jv_error + string) \<Rightarrow> nat \<Rightarrow> hid \<Rightarrow> json \<Rightarrow> nat option \<Rightarrow> 'a world \<Rightarrow> (exc option \<times> 'a world) option" where
  "Receive dump fuel self msg ctx w =
     (case get_async w self of
        None \<Rightarrow> Some (None, w)
      | Some a \<Rightarrow>
          (case msg of
             JArray parts \<Rightarrow>
               if parts = [] then Some (Some (mk_rpc ''Empty batch array'' code_invalid_request None), w)
               else handleBatch dump fuel (aproto a) self parts ctx w
           | JObject _ \<Rightarrow> handle dump fuel (aproto a) self msg ctx w
           | _ \<Rightarrow>
               Some (Some (mk_rpc ''Request/Responce should be an array or object'' code_invalid_request
                      (Some (obj_view [(''was_type'', JString (GetTypeName msg))]))), w)))"

subsection \<open>The client\<close>

text \<open>
  \<^verbatim>\<open>client.cpp\<close>: a prefix for method names, and a batch that collects calls until it is finished. The
  transport is an \<^verbatim>\<open>IAsyncTransport\<close> or a \<^verbatim>\<open>ForwardToHandler\<close>.
\<close>

record client =
  batchActive :: bool
  currentBatch :: call_batch
  ctransport :: "hid option"
  prefix :: string

definition addPref :: "string \<Rightarrow> string \<Rightarrow> string" where
  "addPref base pre = (if pre = [] then base else pre @ CHR ''/'' # base)"

definition SetPrefix :: "string \<Rightarrow> client \<Rightarrow> client" where
  "SetPrefix p c = c\<lparr>prefix := p\<rparr>"

definition SetTransport :: "hid option \<Rightarrow> client \<Rightarrow> hid option \<times> client" where
  "SetTransport t c = (ctransport c, c\<lparr>ctransport := t\<rparr>)"

definition client_tr :: "client \<Rightarrow> 'a world \<Rightarrow> exc + hid" where
  "client_tr c w =
     (case ctransport c of
        Some t \<Rightarrow> if alive w t then Inr t else Inl (StdExc ''Client Tranport Not Set'')
      | None \<Rightarrow> Inl (StdExc ''Client Tranport Not Set''))"

text \<open>\<^verbatim>\<open>ForwardToHandler\<close>'s ways to send; a dead handler drops the call.\<close>

definition fwd_SendMethod :: "nat \<Rightarrow> hid option \<Rightarrow> string \<Rightarrow> millis \<Rightarrow> json \<Rightarrow> promise \<Rightarrow> 'a world \<Rightarrow> 'a world option" where
  "fwd_SendMethod fuel t name timeout params cb w =
     (case t of
        Some h \<Rightarrow>
          if alive w h then
            Handle fuel h \<lparr>rmethod = name, rtimeout = timeout, rcontext = None, rparams = params\<rparr> cb w
          else Some (drop_promise cb w)
      | None \<Rightarrow> Some (drop_promise cb w))"

definition fwd_SendNotify :: "nat \<Rightarrow> hid option \<Rightarrow> string \<Rightarrow> json \<Rightarrow> 'a world \<Rightarrow> (exc option \<times> 'a world) option" where
  "fwd_SendNotify fuel t name params w =
     (case t of
        Some h \<Rightarrow>
          if alive w h then
            HandleNotify fuel h \<lparr>rmethod = name, rtimeout = NoTimeout, rcontext = None, rparams = params\<rparr> w
          else Some (None, w)
      | None \<Rightarrow> Some (None, w))"

fun fwd_methods :: "nat \<Rightarrow> hid option \<Rightarrow> batch_method list \<Rightarrow> 'a world \<Rightarrow> 'a world option" where
  "fwd_methods fuel t [] w = Some w"
| "fwd_methods fuel t (m # ms) w =
     (case fwd_SendMethod fuel t (mmethod m) (mtimeout m) (mparams m) (mcb m) w of
        None \<Rightarrow> None
      | Some w' \<Rightarrow> fwd_methods fuel t ms w')"

fun fwd_notifs :: "nat \<Rightarrow> hid option \<Rightarrow> batch_notify list \<Rightarrow> 'a world \<Rightarrow> (exc option \<times> 'a world) option" where
  "fwd_notifs fuel t [] w = Some (None, w)"
| "fwd_notifs fuel t (n # ns) w =
     (case fwd_SendNotify fuel t (nmethod n) (nparams n) w of
        None \<Rightarrow> None
      | Some (Some e, w') \<Rightarrow> Some (Some e, w')
      | Some (None, w') \<Rightarrow> fwd_notifs fuel t ns w')"

definition fwd_SendBatch :: "nat \<Rightarrow> hid option \<Rightarrow> call_batch \<Rightarrow> 'a world \<Rightarrow> (exc option \<times> 'a world) option" where
  "fwd_SendBatch fuel t b w =
     (case fwd_methods fuel t (methods b) w of
        None \<Rightarrow> None
      | Some w' \<Rightarrow> fwd_notifs fuel t (notifs b) w')"

text \<open>The virtual calls of \<^verbatim>\<open>IClientTransport\<close>.\<close>

definition tr_SendMethod :: "nat \<Rightarrow> hid \<Rightarrow> string \<Rightarrow> millis \<Rightarrow> json \<Rightarrow> promise \<Rightarrow> 'a world \<Rightarrow> 'a world option" where
  "tr_SendMethod fuel t name timeout params cb w =
     (case nodes w t of
        None \<Rightarrow> Some (drop_promise cb w)
      | Some nd \<Rightarrow>
          (case body nd of
             BForward h \<Rightarrow> fwd_SendMethod fuel h name timeout params cb w
           | _ \<Rightarrow> Some (SendMethod t name timeout params cb w)))"

definition tr_SendNotify :: "nat \<Rightarrow> hid \<Rightarrow> string \<Rightarrow> json \<Rightarrow> 'a world \<Rightarrow> (exc option \<times> 'a world) option" where
  "tr_SendNotify fuel t name params w =
     (case nodes w t of
        None \<Rightarrow> Some (None, w)
      | Some nd \<Rightarrow>
          (case body nd of
             BForward h \<Rightarrow> fwd_SendNotify fuel h name params w
           | _ \<Rightarrow> Some (None, SendNotify t name params w)))"

definition tr_SendBatch :: "nat \<Rightarrow> hid \<Rightarrow> call_batch \<Rightarrow> 'a world \<Rightarrow> (exc option \<times> 'a world) option" where
  "tr_SendBatch fuel t b w =
     (case nodes w t of
        None \<Rightarrow> Some (None, w)
      | Some nd \<Rightarrow>
          (case body nd of
             BForward h \<Rightarrow> fwd_SendBatch fuel h b w
           | _ \<Rightarrow> Some (SendBatch t b w)))"

text \<open>Results: the exception, the client and the world.\<close>

definition NotifyRaw :: "nat \<Rightarrow> string \<Rightarrow> json \<Rightarrow> client \<Rightarrow> 'a world \<Rightarrow> (exc option \<times> client \<times> 'a world) option" where
  "NotifyRaw fuel name params c w =
     (if batchActive c then
        (case copy_part params of
           Inl e \<Rightarrow> Some (Some e, c, w)
         | Inr p \<Rightarrow>
             Some (None, c\<lparr>currentBatch := (currentBatch c)\<lparr>notifs := notifs (currentBatch c) @
                [\<lparr>nmethod = addPref name (prefix c), nparams = p\<rparr>]\<rparr>\<rparr>, w))
      else
        (case client_tr c w of
           Inl e \<Rightarrow> Some (Some e, c, w)
         | Inr t \<Rightarrow> map_option (\<lambda>(x, w'). (x, c, w')) (tr_SendNotify fuel t (addPref name (prefix c)) params w)))"

definition sendRequest :: "nat \<Rightarrow> promise \<Rightarrow> string \<Rightarrow> millis \<Rightarrow> json \<Rightarrow> client \<Rightarrow> 'a world \<Rightarrow> (exc option \<times> client \<times> 'a world) option" where
  "sendRequest fuel cb name timeout params c w =
     (if batchActive c then
        (case copy_part params of
           Inl e \<Rightarrow> Some (Some e, c, drop_promise cb w)
         | Inr p \<Rightarrow>
             Some (None, c\<lparr>currentBatch := (currentBatch c)\<lparr>methods := methods (currentBatch c) @
                [\<lparr>mmethod = addPref name (prefix c), mparams = p, mtimeout = timeout, mcb = cb\<rparr>]\<rparr>\<rparr>, w))
      else
        (case client_tr c w of
           Inl e \<Rightarrow> Some (Some e, c, drop_promise cb w)
         | Inr t \<Rightarrow> map_option (\<lambda>w'. (None, c, w')) (tr_SendMethod fuel t (addPref name (prefix c)) timeout params cb w)))"

text \<open>
  \<^verbatim>\<open>RequestRaw\<close>: a promise whose continuation converts the result for the caller \<open>n\<close>, the caller's number
  standing for the future. \<open>conv\<close> is \<^verbatim>\<open>Get<Ret>\<close>, none for \<^verbatim>\<open>void\<close>.
\<close>

definition future_result :: "(json \<Rightarrow> frame \<Rightarrow> jv_error + 'r) option \<Rightarrow> 'r \<Rightarrow> exc + json \<Rightarrow> exc + 'r" where
  "future_result conv unit_value res =
     (let frame = Frame (KStr ''(rpc.result)'') RootFrame in
      case res of
        Inl e \<Rightarrow> Inl e
      | Inr v \<Rightarrow>
          (case conv of
             None \<Rightarrow> map_sum JvExc (\<lambda>_. unit_value) (AssertType v t_null frame)
           | Some get \<Rightarrow> lift_jv (get v frame)))"

definition RequestRaw :: "nat \<Rightarrow> nat \<Rightarrow> string \<Rightarrow> millis \<Rightarrow> json \<Rightarrow> client \<Rightarrow> 'a world \<Rightarrow> (exc option \<times> client \<times> 'a world) option" where
  "RequestRaw fuel n name timeout params c w =
     (case new_promise (KClient n) w of (cb, w') \<Rightarrow> sendRequest fuel cb name timeout params c w')"

definition Request :: "nat \<Rightarrow> nat \<Rightarrow> string \<Rightarrow> millis \<Rightarrow> call_args \<Rightarrow> client \<Rightarrow> 'a world \<Rightarrow> (exc option \<times> client \<times> 'a world) option" where
  "Request fuel n name timeout args c w = RequestRaw fuel n name timeout (IntoParams args) c w"

definition Notify :: "nat \<Rightarrow> string \<Rightarrow> call_args \<Rightarrow> client \<Rightarrow> 'a world \<Rightarrow> (exc option \<times> client \<times> 'a world) option" where
  "Notify fuel name args c w = NotifyRaw fuel name (IntoParams args) c w"

definition StartBatch :: "client \<Rightarrow> string + client" where
  "StartBatch c =
     (if batchActive c then Inl ''Cannot StartBatch() while one is active'' else Inr (c\<lparr>batchActive := True\<rparr>))"

definition no_calls :: call_batch where
  "no_calls = \<lparr>notifs = [], methods = []\<rparr>"

definition batchDone :: "nat \<Rightarrow> client \<Rightarrow> 'a world \<Rightarrow> (exc option \<times> client \<times> 'a world) option" where
  "batchDone fuel c w =
     (if \<not> batchActive c then Some (Some (StdExc ''Batch was not active''), c, w)
      else
        (case client_tr c w of
           Inl e \<Rightarrow> Some (Some e, c, w)
         | Inr t \<Rightarrow>
             (case tr_SendBatch fuel t (currentBatch c) w of
                None \<Rightarrow> None
              | Some (Some e, w') \<Rightarrow> Some (Some e, c\<lparr>currentBatch := no_calls\<rparr>, w')
              | Some (None, w') \<Rightarrow> Some (None, c\<lparr>currentBatch := no_calls, batchActive := False\<rparr>, w'))))"

text \<open>\<^verbatim>\<open>BatchGuard::Finish\<close>: at most once for a guard.\<close>

definition guard_Finish :: "nat \<Rightarrow> bool \<Rightarrow> client \<Rightarrow> 'a world \<Rightarrow> (bool \<times> exc option \<times> client \<times> 'a world) option" where
  "guard_Finish fuel valid c w =
     (if valid then map_option (Pair False) (batchDone fuel c w) else Some (False, None, c, w))"

end
