(* ===== verification/Rpc_Roundtrip.thy ===== *)
theory Rpc_Roundtrip
  imports Rpc_Transport
begin

text \<open>
  A call from a client to a server and back: what \<^verbatim>\<open>Client::Request\<close> sends is what \<^verbatim>\<open>Receive\<close> of the
  server's transport dispatches, and what that sends back resolves the caller. The two sides are
  two worlds; the link between them only carries messages.
\<close>

subsection \<open>Messages as documents\<close>

lemma obj_view_JObject: "distinct (map fst kvs) \<Longrightarrow> \<exists>xs. obj_view kvs = JObject xs"
  by (simp add: obj_view_distinct)

lemma message_JObject:
  "\<exists>xs. MakeRequest proto jid m p = JObject xs"
  "\<exists>xs. MakeNotify proto m p = JObject xs"
  "\<exists>xs. MakeResponce proto jid r = JObject xs"
  "\<exists>xs. MakeError proto jid e = JObject xs"
  unfolding MakeRequest_def MakeNotify_def MakeResponce_def MakeError_def
  by (rule obj_view_JObject; cases proto; simp add: F_defs version_pair_def)+

lemma Value_key_object:
  "Is j t_object \<Longrightarrow> Value_key conv j k x fr =
     (case FindVal j k RootFrame of
        Inl e \<Rightarrow> Inl e | Inr (Some v) \<Rightarrow> conv v (Frame (KStr k) fr) | Inr None \<Rightarrow> Inr x)"
  by (simp only: Value_key_def AssertType_def if_True sum.case)

lemma GetString_JString [simp]: "GetString (JString s) fr = Inr s"
  by (simp add: GetString_def AssertType_def Is_def t_defs)

text \<open>The fields that the two sides look up, in either dialect.\<close>

lemma Request_fields:
  "FindVal (MakeRequest proto jid m p) F_Id fr = Inr (Some jid)"
  "FindVal (MakeRequest proto jid m p) (F_Method proto) fr = Inr (Some (JString m))"
  "FindVal (MakeRequest proto jid m p) (F_Params proto) fr = Inr (Some p)"
  by (cases proto; simp add: message_find F_defs version_pair_def)+

lemma Notify_fields:
  "FindVal (MakeNotify proto m p) F_Id fr = Inr None"
  "FindVal (MakeNotify proto m p) (F_Method proto) fr = Inr (Some (JString m))"
  "FindVal (MakeNotify proto m p) (F_Params proto) fr = Inr (Some p)"
  by (cases proto; simp add: message_find F_defs version_pair_def)+

lemma Request_values:
  "Value_key conv (MakeRequest proto jid m p) F_Id x fr = conv jid (Frame (KStr F_Id) fr)"
  "Value_key conv (MakeRequest proto jid m p) (F_Params proto) y fr = conv p (Frame (KStr (F_Params proto)) fr)"
  "Value_key conv (MakeNotify proto m p) F_Id x fr = Inr x"
  "Value_key conv (MakeNotify proto m p) (F_Params proto) y fr = conv p (Frame (KStr (F_Params proto)) fr)"
  by (simp_all only: Value_key_object message_Is Request_fields Notify_fields sum.case option.case)

lemma reply_no_method:
  "FindVal (MakeResponce proto jid r) (F_Method proto) fr = Inr None"
  "FindVal (MakeError proto jid e) (F_Method proto) fr = Inr None"
  by (cases proto; simp add: message_find F_defs version_pair_def)+

definition reply :: "protocol \<Rightarrow> json \<Rightarrow> exc + json \<Rightarrow> json" where
  "reply proto jid res = (case res of Inr v \<Rightarrow> MakeResponce proto jid v | Inl e \<Rightarrow> MakeError proto jid (wrap_exc e))"

text \<open>What the calling side makes of a reply.\<close>

definition as_seen :: "exc + json \<Rightarrow> exc + json" where
  "as_seen res = (case res of Inr v \<Rightarrow> Inr v | Inl e \<Rightarrow> Inl (RpcExc (norm_exc (wrap_exc e))))"

definition shallow_error :: "exc + json \<Rightarrow> bool" where
  "shallow_error res \<longleftrightarrow> (\<forall>e d. res = Inl e \<longrightarrow> edata (wrap_exc e) = Some d \<longrightarrow> height d \<le> 300)"

subsection \<open>The serving side\<close>

text \<open>
  A transport \<open>st\<close> whose sender accepts everything and whose handler \<open>h\<close> is a server that does not
  route the name.
\<close>

definition serves :: "'a world \<Rightarrow> hid \<Rightarrow> protocol \<Rightarrow> hid \<Rightarrow> 'a server \<Rightarrow> bool" where
  "serves w st proto h s \<longleftrightarrow>
     (\<exists>a. get_async w st = Some a \<and> aproto a = proto \<and> ahandler a = Some h \<and> asender a = Some (\<lambda>_. None)) \<and>
     get_server w h = Some s \<and> (\<forall>c \<in> fulfilled w. c < next_cell w)"

definition local_name :: "'a world \<Rightarrow> hid \<Rightarrow> string \<Rightarrow> string \<Rightarrow> bool" where
  "local_name w h m name \<longleftrightarrow> (\<forall>nd. nodes w h = Some nd \<longrightarrow> tryRoute (alive w) (routes nd) m = (name, None))"

lemma serves_node:
  "serves w st proto h s \<Longrightarrow> \<exists>nd. nodes w h = Some nd \<and> body nd = BServer s"
  by (auto simp: serves_def get_server_def split: option.splits body.splits)

lemma serves_getHandler: "serves w st proto h s \<Longrightarrow> getHandler st w = Inr h"
  by (auto simp: getHandler_def serves_def alive_def get_server_def split: option.splits)

lemma serves_Handle:
  assumes "serves w st proto h s" "local_name w h (rmethod req) name"
  shows "Handle (Suc n) h req cb w = Some (DoHandle h (req\<lparr>rmethod := name\<rparr>) cb w)"
  using serves_node [OF assms(1)] assms(2) by (auto simp: local_name_def)

lemma serves_Send: "serves w st proto h s \<Longrightarrow> Send st msg w = (None, w\<lparr>sent := sent w @ [(st, msg)]\<rparr>)"
  by (auto simp: serves_def Send_def)

text \<open>Worlds that agree up to current contexts serve alike.\<close>

lemma raw_answer_current [simp]: "raw_answer (s\<lparr>current := c\<rparr>) = raw_answer s"
  by (intro ext) (simp add: raw_answer_def RegisteredMethods_def cong: option.case_cong)

lemma server_answer_current [simp]: "server_answer (s\<lparr>current := c\<rparr>) = server_answer s"
  by (intro ext) (simp add: server_answer_def runMiddlewares_def split: prod.split option.split sum.split)

lemma same_world_serves:
  assumes "same_world w w'" "serves w st proto h s"
  shows "\<exists>c. serves w' st proto h (s\<lparr>current := c\<rparr>)"
proof -
  have "map_option (\<lambda>s. s\<lparr>current := None\<rparr>) (get_server w h) = map_option (\<lambda>s. s\<lparr>current := None\<rparr>) (get_server w' h)"
    using assms(1) by (simp add: same_world_def)
  then have "map_option (\<lambda>s. s\<lparr>current := None\<rparr>) (get_server w' h) = Some (s\<lparr>current := None\<rparr>)"
    using assms(2) by (simp add: serves_def)
  then obtain s' where s': "get_server w' h = Some s'" "s'\<lparr>current := None\<rparr> = s\<lparr>current := None\<rparr>" by auto
  have "s' = s\<lparr>current := current s'\<rparr>"
    using s'(2) by (cases s; cases s') simp
  with s'(1) have "get_server w' h = Some (s\<lparr>current := current s'\<rparr>)" by simp
  then show ?thesis
    using assms by (auto simp: same_world_def serves_def)
qed

lemma same_world_local:
  assumes "same_world w w'" "local_name w h m name"
  shows "local_name w' h m name"
proof -
  have a: "alive w' = alive w" using assms(1) by (auto simp: same_world_def)
  have "map_option routes (nodes w h) = map_option routes (nodes w' h)"
    using assms(1) by (simp add: same_world_def)
  then show ?thesis using assms(2) by (auto simp: local_name_def a)
qed

text \<open>One request with a valid promise.\<close>

lemma serves_request:
  assumes "serves w st proto h s" "local_name w h (rmethod req) name" "promise_valid cb w"
    and "server_answer s (req\<lparr>rmethod := name\<rparr>) = Some res"
  shows "\<exists>w'. Handle (Suc n) h req cb w = Some w' \<and> same_world w' (snd (fulfil cb res w))"
  using serves_Handle [OF assms(1,2)] DoHandle_same [OF _ assms(3,4)] assms(1) by (auto simp: serves_def)

lemma same_world_sent: "same_world w w' \<Longrightarrow> sent w = sent w'"
  by (simp add: same_world_def)

definition plain_id :: "json \<Rightarrow> bool" where
  "plain_id j \<longleftrightarrow> \<not> Is j t_null \<and> height j \<le> 300"

lemma plain_id_copy: "height j \<le> 300 \<Longrightarrow> copy_part j = Inr j"
  by (simp add: copy_part_def Copy_def doCopy_roomy)

definition incoming :: "string \<Rightarrow> json \<Rightarrow> nat option \<Rightarrow> request" where
  "incoming m p ctx = \<lparr>rmethod = m, rtimeout = NoTimeout, rcontext = ctx, rparams = p\<rparr>"

lemma handleServer_reply:
  assumes "serves w st proto h s" "local_name w h m name" "plain_id jid"
    and "server_answer s (incoming name p ctx) = Some res"
  shows "\<exists>w'. handleServer (Suc n) proto st m (MakeRequest proto jid m p) ctx w = Some (None, w') \<and>
    sent w' = sent w @ [(st, reply proto jid res)] \<and> delivered w' = delivered w"
proof -
  let ?w1 = "w\<lparr>next_cell := Suc (next_cell w)\<rparr>"
  let ?cb = "Promise (next_cell w) (KSendResult st proto jid)"
  have s1: "serves ?w1 st proto h s"
    using assms(1) by (auto simp: serves_def get_server_def get_async_def)
  have "alive ?w1 = alive w" by (simp add: alive_def fun_eq_iff)
  then have l1: "local_name ?w1 h m name" using assms(2) by (simp add: local_name_def)
  have v: "promise_valid ?cb ?w1" using assms(1) by (auto simp: serves_def promise_valid_def)
  have a: "server_answer s ((incoming m p ctx)\<lparr>rmethod := name\<rparr>) = Some res"
    using assms(4) by (simp add: incoming_def)
  from serves_request [OF s1 _ v a, of n] l1 obtain w' where
    w': "Handle (Suc n) h (incoming m p ctx) ?cb ?w1 = Some w'" "same_world w' (snd (fulfil ?cb res ?w1))"
    by (auto simp: incoming_def)
  let ?w2 = "?w1\<lparr>fulfilled := insert (next_cell w) (fulfilled w)\<rparr>"
  have s2: "serves ?w2 st proto h s"
    using assms(1) by (auto simp: serves_def get_server_def get_async_def less_SucI)
  have al: "alive ?w2 st" using assms(1) by (auto simp: serves_def get_async_def alive_def split: option.splits)
  have "sent (snd (fulfil ?cb res ?w1)) = sent w @ [(st, reply proto jid res)]"
    and "delivered (snd (fulfil ?cb res ?w1)) = delivered w"
    using v al serves_Send [OF s2] by (auto simp: promise_valid_def sendResult_def reply_def split: sum.split)
  then have o: "sent w' = sent w @ [(st, reply proto jid res)]" "delivered w' = delivered w"
    using w'(2) by (simp_all add: same_world_def)
  have "handleServer (Suc n) proto st m (MakeRequest proto jid m p) ctx w = Some (None, w')"
    using assms(3) w'(1) plain_id_copy serves_getHandler [OF s1]
    by (simp add: handleServer_def Let_def Request_values id_view_def plain_id_def
        new_promise_def incoming_def del: Handle.simps)
  with o show ?thesis by blast
qed

lemma Receive_request:
  assumes "serves w st proto h s" "local_name w h m name" "plain_id jid"
    and "server_answer s (incoming name p ctx) = Some res"
  shows "\<exists>w'. Receive dump (Suc n) st (MakeRequest proto jid m p) ctx w = Some (None, w') \<and>
    sent w' = sent w @ [(st, reply proto jid res)] \<and> delivered w' = delivered w"
proof -
  obtain xs where xs: "MakeRequest proto jid m p = JObject xs" using message_JObject(1) by blast
  obtain a where a: "get_async w st = Some a" "aproto a = proto" using assms(1) by (auto simp: serves_def)
  have "Receive dump (Suc n) st (MakeRequest proto jid m p) ctx w =
      handleServer (Suc n) proto st m (MakeRequest proto jid m p) ctx w"
    using a by (simp add: Receive_def xs) (simp add: handle_def Request_fields flip: xs)
  then show ?thesis using handleServer_reply [OF assms] by simp
qed

subsection \<open>The calling side\<close>

text \<open>A transport whose sender accepts everything, with a fresh id and a fresh promise.\<close>

definition calls_from :: "'a world \<Rightarrow> hid \<Rightarrow> protocol \<Rightarrow> async \<Rightarrow> bool" where
  "calls_from w t proto a \<longleftrightarrow>
     get_async w t = Some a \<and> aproto a = proto \<and> asender a = Some (\<lambda>_. None) \<and>
     map_of (apending a) (anext a) = None \<and> (\<forall>c \<in> fulfilled w. c < next_cell w)"

lemma put_async_twice: "put_async h a (put_async h b w) = put_async h a w"
  by (auto simp: put_async_def put_body_def split: option.split)

definition called :: "string \<Rightarrow> promise \<Rightarrow> millis \<Rightarrow> async \<Rightarrow> async" where
  "called m cb timeout a =
     a\<lparr>anext := anext a + 1,
       apending := (anext a, \<lparr>tmethod = m, tprom = cb, ttimeout = timeout\<rparr>) # apending a\<rparr>"

lemma SendMethod_sends:
  assumes "get_async w t = Some a" "asender a = Some (\<lambda>_. None)" "map_of (apending a) (anext a) = None"
  shows "SendMethod t m timeout p cb w =
    (put_async t (called m cb timeout a) w)
      \<lparr>sent := sent w @ [(t, MakeRequest (aproto a) (JUnsigned (anext a)) m p)]\<rparr>"
proof -
  have g: "get_async (put_async t b w) t = Some b" for b by (rule get_async_put [OF assms(1)])
  show ?thesis
    using assms
    by (simp add: SendMethod_def take_id_def addPending_def g Let_def put_async_twice Send_def called_def)
qed

lemma client_sends:
  assumes "calls_from w t proto a" "\<not> batchActive c" "ctransport c = Some t"
  shows "RequestRaw fuel n m timeout p c w = Some (None, c,
    (put_async t (called (addPref m (prefix c)) (Promise (next_cell w) (KClient n)) timeout a)
       (w\<lparr>next_cell := Suc (next_cell w)\<rparr>))
      \<lparr>sent := sent w @ [(t, MakeRequest proto (JUnsigned (anext a)) (addPref m (prefix c)) p)]\<rparr>)"
proof -
  let ?w1 = "w\<lparr>next_cell := Suc (next_cell w)\<rparr>"
  have g: "get_async ?w1 t = Some a" using assms(1) by (simp add: calls_from_def get_async_def)
  then have nd: "\<exists>nd. nodes w t = Some nd \<and> body nd = BAsync a"
    by (auto simp: get_async_def split: option.splits body.splits)
  show ?thesis
    using SendMethod_sends [OF g] assms nd
    by (auto simp: RequestRaw_def new_promise_def sendRequest_def client_tr_def alive_def tr_SendMethod_def calls_from_def)
qed

lemma Receive_reply:
  assumes "get_async w t = Some a" "map_of (apending a) i = Some tr" "shallow_error res"
  shows "Receive dump fuel t (reply (aproto a) (JUnsigned i) res) ctx w =
    Some (None, put_async t (a\<lparr>apending := pending_erase i (apending a)\<rparr>)
      (snd (fulfil (tprom tr) (as_seen res) w)))"
proof -
  let ?m = "reply (aproto a) (JUnsigned i) res"
  have "\<exists>xs. ?m = JObject xs" by (cases res) (simp_all add: reply_def message_JObject)
  then obtain xs where xs: "?m = JObject xs" by blast
  have f: "FindVal ?m (F_Method (aproto a)) fr = Inr None" for fr
    by (cases res) (simp_all add: reply_def reply_no_method)
  have "Receive dump fuel t ?m ctx w = Some (handleRespToClient dump (aproto a) t ?m w)"
    using assms(1) by (simp add: Receive_def xs) (simp add: handle_def f flip: xs)
  moreover have "handleRespToClient dump (aproto a) t ?m w =
      (None, put_async t (a\<lparr>apending := pending_erase i (apending a)\<rparr>) (snd (fulfil (tprom tr) (as_seen res) w)))"
  proof (cases res)
    case (Inl e)
    with assms(3) have "\<And>d. edata (wrap_exc e) = Some d \<Longrightarrow> height d \<le> 300" by (auto simp: shallow_error_def)
    from handleResp_error [OF assms(1,2) this] Inl show ?thesis by (simp add: reply_def as_seen_def)
  next
    case (Inr v)
    from handleResp_result [OF assms(1,2)] Inr show ?thesis by (simp add: reply_def as_seen_def)
  qed
  ultimately show ?thesis by simp
qed

lemma pending_erase_fresh: "map_of ps i = None \<Longrightarrow> pending_erase i ((i, tr) # ps) = ps"
  by (force simp: pending_erase_def map_of_eq_None_iff intro: filter_True)

lemma called_delivers:
  assumes "calls_from w t proto a" "shallow_error res"
    and "w1 = (put_async t (called m (Promise (next_cell w) (KClient n)) timeout a)
       (w\<lparr>next_cell := Suc (next_cell w)\<rparr>))\<lparr>sent := q\<rparr>"
  shows "\<exists>w2. Receive dump fuel t (reply proto (JUnsigned (anext a)) res) ctx w1 = Some (None, w2) \<and>
    delivered w2 = delivered w @ [(n, as_seen res)] \<and> get_async w2 t = Some (a\<lparr>anext := anext a + 1\<rparr>)"
proof -
  let ?cb = "Promise (next_cell w) (KClient n)"
  let ?b = "called m ?cb timeout a"
  let ?w0 = "w\<lparr>next_cell := Suc (next_cell w)\<rparr>"
  have g0: "get_async ?w0 t = Some a" using assms(1) by (simp add: calls_from_def get_async_def)
  have g: "get_async w1 t = Some ?b"
    using get_async_put [OF g0, of ?b] by (simp add: assms(3) get_async_def)
  have e: "pending_erase (anext a) (apending ?b) = apending a"
    using assms(1) pending_erase_fresh by (simp add: called_def calls_from_def)
  have p: "aproto ?b = proto" using assms(1) by (simp add: called_def calls_from_def)
  have "Receive dump fuel t (reply proto (JUnsigned (anext a)) res) ctx w1 =
      Some (None, put_async t (?b\<lparr>apending := apending a\<rparr>) (snd (fulfil ?cb (as_seen res) w1)))"
    using Receive_reply [OF g, of "anext a", OF _ assms(2)] e p by (simp add: called_def)
  moreover have "delivered (snd (fulfil ?cb (as_seen res) w1)) = delivered w @ [(n, as_seen res)]"
    using assms(1) by (auto simp: assms(3) calls_from_def)
  moreover have "get_async (put_async t (?b\<lparr>apending := apending a\<rparr>) (snd (fulfil ?cb (as_seen res) w1))) t
      = Some (?b\<lparr>apending := apending a\<rparr>)"
    by (rule get_async_put [of _ _ ?b]) (simp only: get_async_keeps [OF fulfil_keeps(1)] g)
  moreover have "?b\<lparr>apending := apending a\<rparr> = a\<lparr>anext := anext a + 1\<rparr>" by (simp add: called_def)
  ultimately show ?thesis by simp
qed

subsection \<open>Properties\<close>

text \<open>
  C1: a call goes round: what the client's transport sends for \<^verbatim>\<open>Request\<close>, received by a transport of
  the same dialect in front of a server, is answered with exactly one message; received by the
  caller's transport, that message delivers exactly one result to the caller: the value of the
  server's answer, or its exception as the wire carries it. The request leaves the table of pending
  requests, so a second copy of the answer delivers nothing.
\<close>

theorem call_roundtrip:
  assumes "calls_from wc t proto a" "\<not> batchActive c" "ctransport c = Some t"
    and "serves ws st proto h s" "local_name ws h (addPref m (prefix c)) name"
    and "server_answer s (incoming name (IntoParams args) ctx) = Some res" "shallow_error res"
  shows "\<exists>wc1 ws1 wc2 question answer.
    Request fuel n m timeout args c wc = Some (None, c, wc1) \<and> sent wc1 = sent wc @ [(t, question)] \<and>
    Receive dump (Suc fuel) st question ctx ws = Some (None, ws1) \<and> sent ws1 = sent ws @ [(st, answer)] \<and>
    Receive dump fuel t answer ctx' wc1 = Some (None, wc2) \<and>
    delivered wc2 = delivered wc @ [(n, as_seen res)] \<and>
    get_async wc2 t = Some (a\<lparr>anext := anext a + 1\<rparr>)"
proof -
  let ?m = "addPref m (prefix c)"
  let ?q = "MakeRequest proto (JUnsigned (anext a)) ?m (IntoParams args)"
  note out = client_sends [OF assms(1-3), of fuel n m timeout "IntoParams args"]
  have i: "plain_id (JUnsigned (anext a))" by (simp add: plain_id_def Is_def t_defs)
  from Receive_request [OF assms(4,5) i assms(6), of dump fuel] obtain ws1 where
    "Receive dump (Suc fuel) st ?q ctx ws = Some (None, ws1)"
    "sent ws1 = sent ws @ [(st, reply proto (JUnsigned (anext a)) res)]" by blast
  moreover from called_delivers [OF assms(1,7) refl, where dump = dump and fuel = fuel and ctx = ctx'
      and m = ?m and n = n and timeout = timeout and q = "sent wc @ [(t, ?q)]"]
  obtain wc2 where "Receive dump fuel t (reply proto (JUnsigned (anext a)) res) ctx'
      ((put_async t (called ?m (Promise (next_cell wc) (KClient n)) timeout a)
        (wc\<lparr>next_cell := Suc (next_cell wc)\<rparr>))\<lparr>sent := sent wc @ [(t, ?q)]\<rparr>) = Some (None, wc2)"
    "delivered wc2 = delivered wc @ [(n, as_seen res)]"
    "get_async wc2 t = Some (a\<lparr>anext := anext a + 1\<rparr>)" by blast
  ultimately show ?thesis using out by (auto simp: Request_def)
qed

text \<open>A caller's world and a server's world, linked by minified JSON-RPC.\<close>

definition caller_async :: async where
  "caller_async = \<lparr>aproto = Minified, anext = 6, apending = [], ahandler = None, alast = 0,
     asender = Some (\<lambda>_. None)\<rparr>"

definition caller_world :: "u64 world" where
  "caller_world = sum_world\<lparr>nodes := (\<lambda>h. if h = 3 then Some \<lparr>routes = [], body = BAsync caller_async\<rparr> else None)\<rparr>"

definition caller :: client where
  "caller = \<lparr>batchActive = False, currentBatch = no_calls, ctransport = Some 3, prefix = []\<rparr>"

definition served_world :: "u64 world" where
  "served_world = sum_world\<lparr>nodes := (nodes sum_world)(1 \<mapsto>
     \<lparr>routes = [], body = BAsync (caller_async\<lparr>ahandler := Some 0\<rparr>)\<rparr>)\<rparr>"

lemma caller_calls: "calls_from caller_world 3 Minified caller_async"
  by (simp add: calls_from_def caller_world_def get_async_def caller_async_def sum_world_def)

lemma served_serves: "serves served_world 1 Minified 0 sum_server"
  by (simp add: serves_def served_world_def get_async_def get_server_def caller_async_def sum_world_def)

theorem call_roundtrip_witness:
  "\<exists>wc1 wc2 question answer. Request 5 7 ''sum'' NoTimeout (Unnamed [JSigned 2, JUnsigned 3]) caller caller_world = Some (None, caller, wc1) \<and>
     sent wc1 = [(3, question)] \<and>
     Receive (\<lambda>_. Inr []) 5 3 answer None wc1 = Some (None, wc2) \<and> delivered wc2 = [(7, Inr (JSigned 5))]"
proof -
  have l: "local_name served_world 0 (addPref ''sum'' (prefix caller)) ''sum''"
    by (simp add: local_name_def served_world_def sum_world_def addPref_def caller_def tryRoute_def
        sanitizeSlashes_def Let_def)
  have r: "server_answer sum_server (incoming ''sum'' (IntoParams (Unnamed [JSigned 2, JUnsigned 3])) None) = Some (Inr (JSigned 5))"
    using sum_answer by (simp add: incoming_def sum_request_def NoTimeout_def)
  show ?thesis
    using call_roundtrip [OF caller_calls _ _ served_serves l r, where fuel = 5 and n = 7
        and timeout = NoTimeout and dump = "\<lambda>_. Inr []" and ctx' = None]
    by (simp add: caller_def shallow_error_def as_seen_def) (auto simp: caller_world_def sum_world_def)
qed

end
