(* ===== verification/Rpc_Batch.thy ===== *)
theory Rpc_Batch
  imports Rpc_Roundtrip
begin

text \<open>
  Batches (\<^verbatim>\<open>Impl::handleServerBatch\<close>, \<^verbatim>\<open>Impl::addBatchResp\<close>): what one message answers to an array of
  requests and notifications, and when it is sent at all.
\<close>

subsection \<open>Notifications of a server\<close>

text \<open>The exception that a notification leaves \<^verbatim>\<open>DoHandleNotify\<close> with.\<close>

fun notify_call :: "'a call \<Rightarrow> nat option \<Rightarrow> json \<Rightarrow> exc option" where
  "notify_call (CSync ns ps fn) ctx params = check_call ns ps False params False"
| "notify_call (CAsync ns ps fn) ctx params = check_call ns ps False params False"
| "notify_call (CNotify ns ps fn) ctx params =
     (case check_call ns ps False params True of
        Some e \<Rightarrow> Some e
      | None \<Rightarrow>
          (case doCall (\<lambda>x vs. case fn x vs of Some e \<Rightarrow> Inl e | None \<Rightarrow> Inr ()) ctx ns ps params of
             Inl e \<Rightarrow> Some e | Inr _ \<Rightarrow> None))"

definition server_notify :: "'a server \<Rightarrow> request \<Rightarrow> exc option" where
  "server_notify s req =
     (case runMiddlewares s req of (req', x) \<Rightarrow>
        map_option (overridden s [] (rmethod req') (rcontext req'))
          (case x of
             Some e \<Rightarrow> Some e
           | None \<Rightarrow>
               (case map_of (calls s) (rmethod req') of
                  None \<Rightarrow> None | Some c \<Rightarrow> notify_call c (rcontext req) (rparams req'))))"

lemma run_call_notify_exc: "run_call c h ctx req None w = (notify_call c ctx (rparams req), w)"
  by (cases c)
    (auto simp: run_call_def is_method_call_def check_call_def validateRequest_def split: option.split sum.split)

lemma DoHandleNotify_same:
  assumes "get_server w h = Some s"
  shows "fst (DoHandleNotify h req w) = server_notify s req \<and> same_world (snd (DoHandleNotify h req w)) w"
proof -
  have 1: "same_world (set_current h c' (set_current h c w)) w" for c c'
    by (rule same_world_trans [OF same_world_current same_world_current])
  show ?thesis
    using assms 1
    by (auto simp: DoHandleNotify_def server_notify_def run_call_notify_exc Let_def
        split: option.split prod.split)
qed

lemma server_notify_current [simp]: "server_notify (s\<lparr>current := c\<rparr>) = server_notify s"
  by (intro ext) (simp add: server_notify_def runMiddlewares_def split: prod.split option.split)

lemma serves_HandleNotify:
  assumes "serves w st proto h s" "local_name w h (rmethod req) name"
  shows "\<exists>w'. HandleNotify (Suc n) h req w = Some (server_notify s (req\<lparr>rmethod := name\<rparr>), w') \<and> same_world w' w"
proof -
  have "HandleNotify (Suc n) h req w = Some (DoHandleNotify h (req\<lparr>rmethod := name\<rparr>) w)"
    using serves_node [OF assms(1)] assms(2) by (auto simp: local_name_def)
  moreover have "get_server w h = Some s" using assms(1) by (simp add: serves_def)
  ultimately show ?thesis
    using DoHandleNotify_same [of w h s "req\<lparr>rmethod := name\<rparr>"] by (metis prod.collapse)
qed

subsection \<open>One part\<close>

text \<open>
  What a well-formed part contributes: a request its reply, a notification nothing or, when it
  throws, an error without id.
\<close>

definition part_answer :: "protocol \<Rightarrow> 'a world \<Rightarrow> hid \<Rightarrow> 'a server \<Rightarrow> nat option \<Rightarrow> json \<Rightarrow> bool \<Rightarrow> json list \<Rightarrow> bool" where
  "part_answer proto w h s ctx part is_request answer \<longleftrightarrow>
     (\<exists>m p name. local_name w h m name \<and> (\<forall>j \<in> set answer. height j \<le> 300) \<and>
        (if is_request then
           (\<exists>jid res. part = MakeRequest proto jid m p \<and> plain_id jid \<and>
              server_answer s (incoming name p ctx) = Some res \<and> answer = [reply proto jid res])
         else
           part = MakeNotify proto m p \<and>
           answer = (case server_notify s (incoming name p ctx) of
                       None \<Rightarrow> [] | Some e \<Rightarrow> [MakeError proto JNull (wrap_exc e)])))"

lemma part_answer_same:
  "same_world w w' \<Longrightarrow> part_answer proto w h s ctx part r a \<Longrightarrow> part_answer proto w' h (s\<lparr>current := c\<rparr>) ctx part r a"
  unfolding part_answer_def using same_world_local [of w w' h] by (fastforce split: if_splits)

definition open_batch :: "'a world \<Rightarrow> nat \<Rightarrow> hid \<Rightarrow> nat \<Rightarrow> json list \<Rightarrow> bool" where
  "open_batch w b st k parts \<longleftrightarrow> batches w b = Some \<lparr>bself = st, bleft = word_of_nat k, bparts = parts\<rparr>"

lemma same_world_open: "same_world w w' \<Longrightarrow> open_batch w b st k ps = open_batch w' b st k ps"
  by (simp add: open_batch_def same_world_def)

lemma open_batch_bump:
  "open_batch w b st (Suc k) ps \<Longrightarrow> open_batch (bump_left (- 1) b w) b st k ps"
  "open_batch w b st k ps \<Longrightarrow> open_batch (bump_left 1 b w) b st (Suc k) ps"
  by (simp_all add: open_batch_def bump_left_def)

lemma open_batch_add: "open_batch w b st k ps \<Longrightarrow> open_batch (add_part b j w) b st k (ps @ [j])"
  by (simp add: open_batch_def add_part_def)

definition like :: "'a world \<Rightarrow> 'a world \<Rightarrow> bool" where
  "like w w' \<longleftrightarrow> nodes w' = nodes w \<and> sent w' = sent w \<and> delivered w' = delivered w \<and>
     fulfilled w' = fulfilled w \<and> next_cell w \<le> next_cell w'"

lemma like_bump [simp]: "like w (bump_left d b w)" "like w (add_part b j w)"
  by (simp_all add: like_def bump_left_def add_part_def split: option.split)

lemma like_trans [trans]: "like w w' \<Longrightarrow> like w' w'' \<Longrightarrow> like w w''"
  by (simp add: like_def)

lemma like_simps:
  assumes "like w w'"
  shows "get_async w' = get_async w" "get_server w' = get_server w" "alive w' = alive w"
    "local_name w' h m name = local_name w h m name"
    "serves w st proto h s \<Longrightarrow> serves w' st proto h s"
proof -
  show n: "get_async w' = get_async w" "get_server w' = get_server w" "alive w' = alive w"
    using assms by (auto simp: like_def get_async_def get_server_def alive_def)
  show "local_name w' h m name = local_name w h m name"
    unfolding local_name_def n(3) using assms by (simp add: like_def)
  show "serves w' st proto h s" if "serves w st proto h s"
    using that assms by (auto simp: serves_def n(1,2)) (auto simp: like_def)
qed

lemma like_part_answer: "like w w' \<Longrightarrow> part_answer proto w' h s ctx part r a = part_answer proto w h s ctx part r a"
  by (simp add: part_answer_def like_simps(4))

text \<open>Where a part leaves the world, the batch having \<open>k\<close> parts left.\<close>

definition part_done ::
    "'a world \<Rightarrow> nat \<Rightarrow> hid \<Rightarrow> protocol \<Rightarrow> hid \<Rightarrow> 'a server \<Rightarrow> nat \<Rightarrow> json list \<Rightarrow> bool \<Rightarrow> 'a world \<Rightarrow> bool" where
  "part_done w b st proto h s k parts r w' \<longleftrightarrow>
     (\<exists>c. serves w' st proto h (s\<lparr>current := c\<rparr>)) \<and> open_batch w' b st k parts \<and>
     sent w' = sent w @ (if r \<and> k = 0 then [(st, JArray parts)] else []) \<and> delivered w' = delivered w \<and>
     (\<forall>m name. local_name w h m name \<longrightarrow> local_name w' h m name)"

lemma part_done_same:
  assumes "serves u st proto h s" "open_batch u b st k parts" "delivered u = delivered w"
    and "sent u = sent w @ (if r \<and> k = 0 then [(st, JArray parts)] else [])"
    and "\<And>m name. local_name w h m name \<Longrightarrow> local_name u h m name" "same_world u w'"
  shows "part_done w b st proto h s k parts r w'"
  using assms same_world_serves [OF assms(6,1)] same_world_open [OF assms(6)] same_world_local [OF assms(6)]
  unfolding part_done_def by (metis same_world_def)

lemma local_name_nodes: "nodes w' = nodes w \<Longrightarrow> local_name w' h m name = local_name w h m name"
proof -
  assume n: "nodes w' = nodes w"
  have "alive w' = alive w" using n by (simp add: alive_def fun_eq_iff)
  then show ?thesis using n by (simp add: local_name_def)
qed

lemma part_done_add:
  assumes "part_done w b st proto h s k parts False w'"
  shows "part_done w b st proto h s k (parts @ [j]) False (add_part b j w')"
proof -
  have l: "like w' (add_part b j w')" by simp
  obtain c where "serves w' st proto h (s\<lparr>current := c\<rparr>)" using assms by (auto simp: part_done_def)
  from like_simps(5) [OF l this] have "\<exists>c. serves (add_part b j w') st proto h (s\<lparr>current := c\<rparr>)" ..
  moreover have "sent (add_part b j w') = sent w'" "delivered (add_part b j w') = delivered w'"
    using l by (simp_all add: like_def)
  ultimately show ?thesis
    using assms open_batch_add [of w' b st k parts j] like_simps(4) [OF l]
    by (auto simp: part_done_def)
qed

lemma batch_part_reply: "height (reply proto jid res) \<le> 300 \<Longrightarrow> batch_part proto jid res = Inr (reply proto jid res)"
  by (cases res) (simp_all add: batch_part_def reply_def plain_id_copy)

lemma addBatchResp_reply:
  assumes "serves w st proto h s" "open_batch w b st (Suc k) parts" "k < 2 ^ 64"
    and "height (reply proto jid res) \<le> 300"
    and "u = addBatchResp proto jid b res w" "parts' = parts @ [reply proto jid res]"
  shows "serves u st proto h s \<and> open_batch u b st k parts' \<and> delivered u = delivered w \<and>
    sent u = sent w @ (if k = 0 then [(st, JArray parts')] else []) \<and> nodes u = nodes w"
proof -
  let ?w1 = "w\<lparr>batches := (batches w)(b := Some \<lparr>bself = st, bleft = word_of_nat k, bparts = parts'\<rparr>)\<rparr>"
  have s1: "serves ?w1 st proto h s" using assms(1) by (simp add: serves_def get_async_def get_server_def)
  have z: "(word_of_nat k :: u64) = 0 \<longleftrightarrow> k = 0"
    using assms(3) by (simp add: unat_eq_zero [symmetric] unsigned_of_nat take_bit_nat_eq_self)
  have u: "u = (if k = 0 then snd (Send st (JArray parts') ?w1) else ?w1)"
    using assms(2,5,6) batch_part_reply [OF assms(4)]
    by (simp add: addBatchResp_def open_batch_def Let_def z)
  show ?thesis
    unfolding u using s1 serves_Send [OF s1, of "JArray parts'"]
    by (auto simp: open_batch_def) (simp_all add: serves_def get_async_def get_server_def)
qed

lemma request_part:
  assumes "serves w st proto h s" "open_batch w b st (Suc k) parts" "k < 2 ^ 64"
    and "local_name w h m name" "plain_id jid" "server_answer s (incoming name p ctx) = Some res"
    and "height (reply proto jid res) \<le> 300"
  shows "\<exists>w'. batch_request (Suc n) proto b h (MakeRequest proto jid m p) fr ctx (bump_left (- 1) b w) = Some (None, w') \<and>
    part_done w b st proto h s k (parts @ [reply proto jid res]) True w'"
proof -
  let ?w1 = "bump_left (- 1) b w"
  let ?w2 = "?w1\<lparr>next_cell := Suc (next_cell ?w1)\<rparr>"
  let ?w3 = "bump_left 1 b ?w2"
  let ?w4 = "?w3\<lparr>fulfilled := insert (next_cell ?w1) (fulfilled ?w3)\<rparr>"
  let ?cb = "Promise (next_cell ?w1) (KBatchResp b proto jid)"
  have "like ?w1 ?w2" by (simp add: like_def)
  then have l: "like w ?w3" by (meson like_bump like_trans)
  have nc: "next_cell ?w3 = Suc (next_cell w)" "next_cell ?w1 = next_cell w" "fulfilled ?w3 = fulfilled w"
    by (simp_all add: bump_left_def split: option.split)
  have s3: "serves ?w3 st proto h s" by (rule like_simps(5) [OF l assms(1)])
  have "open_batch ?w1 b st k parts" by (rule open_batch_bump(1) [OF assms(2)])
  then have "open_batch ?w2 b st k parts" by (simp add: open_batch_def)
  then have o3: "open_batch ?w3 b st (Suc k) parts" by (rule open_batch_bump(2))
  have s4: "serves ?w4 st proto h s"
    using s3 nc by (auto simp: serves_def get_async_def get_server_def)
  have o4: "open_batch ?w4 b st (Suc k) parts" using o3 by (simp add: open_batch_def)
  have v: "promise_valid ?cb ?w3" using assms(1) nc by (auto simp: serves_def promise_valid_def)
  have al: "alive ?w4 st" using s4 by (auto simp: serves_def get_async_def alive_def split: option.splits)
  have "snd (fulfil ?cb res ?w3) = addBatchResp proto jid b res ?w4"
    using v o4 al by (simp add: promise_valid_def open_batch_def)
  from addBatchResp_reply [OF s4 o4 assms(3,7) this refl]
  have u: "serves (snd (fulfil ?cb res ?w3)) st proto h s"
    "open_batch (snd (fulfil ?cb res ?w3)) b st k (parts @ [reply proto jid res])"
    "delivered (snd (fulfil ?cb res ?w3)) = delivered w" "nodes (snd (fulfil ?cb res ?w3)) = nodes w"
    "sent (snd (fulfil ?cb res ?w3)) = sent w @ (if True \<and> k = 0 then [(st, JArray (parts @ [reply proto jid res]))] else [])"
    using l by (simp_all add: like_def)
  have ln: "local_name (snd (fulfil ?cb res ?w3)) h m' name'" if "local_name w h m' name'" for m' name'
    using that local_name_nodes [OF u(4)] by simp
  have "server_answer s ((incoming m p ctx)\<lparr>rmethod := name\<rparr>) = Some res"
    using assms(6) by (simp add: incoming_def)
  from serves_request [OF s3 _ v this, of n] assms(4) obtain w' where
    w': "Handle (Suc n) h (incoming m p ctx) ?cb ?w3 = Some w'" "same_world w' (snd (fulfil ?cb res ?w3))"
    by (auto simp: like_simps(4) [OF l] incoming_def)
  have "batch_request (Suc n) proto b h (MakeRequest proto jid m p) fr ctx ?w1 = Some (None, w')"
    using assms(5) w'(1) plain_id_copy
    by (simp add: batch_request_def Let_def Request_values At_key_def Request_fields id_view_def plain_id_def
        new_promise_def incoming_def del: Handle.simps)
  with part_done_same [OF u(1-3,5) ln same_world_sym [OF w'(2)]] show ?thesis by blast
qed

lemma notify_part:
  assumes "serves w st proto h s" "open_batch w b st (Suc k) parts" "local_name w h m name"
  shows "\<exists>w'. batch_request (Suc n) proto b h (MakeNotify proto m p) fr ctx (bump_left (- 1) b w) =
      Some (server_notify s (incoming name p ctx), w') \<and> part_done w b st proto h s k parts False w'"
proof -
  let ?w1 = "bump_left (- 1) b w"
  have s1: "serves ?w1 st proto h s" by (rule like_simps(5) [OF _ assms(1)]) simp
  have l: "local_name ?w1 h m' name' = local_name w h m' name'" for m' name' by (rule like_simps(4)) simp
  from serves_HandleNotify [OF s1, of "incoming m p ctx" name n] assms(3) obtain w' where
    w': "HandleNotify (Suc n) h (incoming m p ctx) ?w1 = Some (server_notify s (incoming name p ctx), w')"
    "same_world w' ?w1"
    by (auto simp: l incoming_def)
  have "batch_request (Suc n) proto b h (MakeNotify proto m p) fr ctx ?w1 =
      Some (server_notify s (incoming name p ctx), w')"
    using w'(1)
    by (simp add: batch_request_def Let_def Request_values At_key_def Notify_fields id_view_def
        incoming_def Is_def t_defs del: HandleNotify.simps)
  moreover have "part_done w b st proto h s k parts False w'"
    by (rule part_done_same [OF s1 open_batch_bump(1) [OF assms(2)] _ _ _ same_world_sym [OF w'(2)]])
      (simp_all add: l, simp_all add: bump_left_def split: option.split)
  ultimately show ?thesis by blast
qed

subsection \<open>The whole batch\<close>

lemma word_pred: "(word_of_nat (Suc k) :: u64) - 1 = word_of_nat k"
  by simp

lemma batch_loop_answers:
  assumes "list_all2 (\<lambda>part (r, a). part_answer proto w h s ctx part r a) ps as"
    and "serves w st proto h s" "open_batch w b st (length ps) parts" "length ps \<le> 2 ^ 64"
  shows "\<exists>w'. batch_loop (Suc n) proto b h ps idx ctx w = Some (None, w') \<and> delivered w' = delivered w \<and>
    sent w' = sent w @ (if as \<noteq> [] \<and> fst (last as) then [(st, JArray (parts @ concat (map snd as)))] else [])"
  using assms
proof (induction ps arbitrary: as w s parts idx)
  case Nil
  then show ?case by simp
next
  case (Cons part ps)
  then obtain r a as' where as: "as = (r, a) # as'" by (cases as) auto
  have pa: "part_answer proto w h s ctx part r a" using Cons.prems(1) as by simp
  let ?fr = "Frame (KIdx idx) (Frame (KStr ''<batch>'') RootFrame)"
  have ob: "open_batch w b st (Suc (length ps)) parts" using Cons.prems(3) by simp
  have "\<exists>w1 w2. batch_loop (Suc n) proto b h (part # ps) idx ctx w = batch_loop (Suc n) proto b h ps (idx + 1) ctx w2 \<and>
      part_done w b st proto h s (length ps) (parts @ a) r w2"
  proof (cases r)
    case True
    with pa obtain m p name jid res where x: "local_name w h m name" "plain_id jid"
      "part = MakeRequest proto jid m p" "server_answer s (incoming name p ctx) = Some res"
      "a = [reply proto jid res]" "height (reply proto jid res) \<le> 300"
      by (auto simp: part_answer_def)
    from request_part [OF Cons.prems(2) ob _ x(1,2,4,6), of n ?fr] Cons.prems(4) x(3,5) True show ?thesis
      by auto
  next
    case False
    with pa obtain m p name where x: "local_name w h m name" "part = MakeNotify proto m p"
      "a = (case server_notify s (incoming name p ctx) of None \<Rightarrow> [] | Some e \<Rightarrow> [MakeError proto JNull (wrap_exc e)])"
      "\<forall>j \<in> set a. height j \<le> 300"
      by (auto simp: part_answer_def)
    from notify_part [OF Cons.prems(2) ob x(1), of n p ?fr ctx] obtain w1 where
      w1: "batch_request (Suc n) proto b h part ?fr ctx (bump_left (- 1) b w) =
        Some (server_notify s (incoming name p ctx), w1)"
      "part_done w b st proto h s (length ps) parts False w1" using x(2) by auto
    show ?thesis
    proof (cases "server_notify s (incoming name p ctx)")
      case None
      then show ?thesis using w1 x(3) False by auto
    next
      case (Some e)
      have "copy_part (MakeError proto JNull (wrap_exc e)) = Inr (MakeError proto JNull (wrap_exc e))"
        using x(3,4) Some by (simp add: plain_id_copy)
      moreover have "part_done w b st proto h s (length ps) (parts @ a) False (add_part b (MakeError proto JNull (wrap_exc e)) w1)"
        using part_done_add [OF w1(2)] x(3) Some by simp
      ultimately show ?thesis using w1(1) Some False by auto
    qed
  qed
  then obtain w2 c where w2:
    "batch_loop (Suc n) proto b h (part # ps) idx ctx w = batch_loop (Suc n) proto b h ps (idx + 1) ctx w2"
    "serves w2 st proto h (s\<lparr>current := c\<rparr>)" "open_batch w2 b st (length ps) (parts @ a)" "delivered w2 = delivered w"
    "sent w2 = sent w @ (if r \<and> ps = [] then [(st, JArray (parts @ a))] else [])"
    "\<And>m name. local_name w h m name \<Longrightarrow> local_name w2 h m name"
    by (auto simp: part_done_def)
  have "part_answer proto w2 h (s\<lparr>current := c\<rparr>) ctx part r a" if "part_answer proto w h s ctx part r a" for part r a
    using that w2(6) unfolding part_answer_def by (fastforce split: if_splits)
  then have "list_all2 (\<lambda>part (r, a). part_answer proto w2 h (s\<lparr>current := c\<rparr>) ctx part r a) ps as'"
    using Cons.prems(1) as by (auto elim!: list_all2_mono)
  from Cons.IH [OF this w2(2,3), of "idx + 1"] Cons.prems(1,4) w2(1,4,5) as show ?case
    by (auto simp: list_all2_lengthD)
qed

lemma obj_view_height:
  assumes "distinct (map fst kvs)" "\<forall>(k, v) \<in> set kvs. height v \<le> n"
  shows "height (obj_view kvs) \<le> Suc n"
  using assms inserts_set [of "[]" kvs]
  by (simp add: obj_view_distinct height_JObject_le del: height.simps) (auto split: prod.splits)

lemma part_answer_method: "part_answer proto w h s ctx part r a \<Longrightarrow> \<exists>m. FindVal part (F_Method proto) fr = Inr (Some m)"
  by (auto simp: part_answer_def Request_fields Notify_fields split: if_splits)

lemma Receive_batch:
  assumes "serves w st proto h s" "list_all2 (\<lambda>part (r, a). part_answer proto w h s ctx part r a) ps as"
    and "ps \<noteq> []"
    and "b = next_batch w" "w1 = w\<lparr>batches := (batches w)(b := Some \<lparr>bself = st, bleft = word_of_nat (length ps), bparts = []\<rparr>),
           next_batch := Suc b\<rparr>"
  shows "Receive dump fuel st (JArray ps) ctx w = batch_loop fuel proto b h ps 0 ctx w1"
    and "like w w1" "open_batch w1 b st (length ps) []"
proof -
  show l: "like w w1" by (simp add: like_def assms(5))
  show "open_batch w1 b st (length ps) []" by (simp add: open_batch_def assms(5))
  obtain a where a: "get_async w st = Some a" "aproto a = proto" using assms(1) by (auto simp: serves_def)
  have "part_answer proto w h s ctx (hd ps) (fst (hd as)) (snd (hd as))"
    using assms(2,3) by (cases ps; cases as) (auto split: prod.splits)
  from part_answer_method [OF this] obtain m where
    m: "FindVal (hd ps) (F_Method proto) (Frame (KStr ''<batch.part>'') RootFrame) = Inr (Some m)" by blast
  have "getHandler st w1 = Inr h"
    by (rule serves_getHandler [OF like_simps(5) [OF l assms(1)]])
  then show "Receive dump fuel st (JArray ps) ctx w = batch_loop fuel proto b h ps 0 ctx w1"
    using a assms(3) m by (simp add: Receive_def handleBatch_def handleServerBatch_def Let_def assms(4,5))
qed

subsection \<open>Properties\<close>

text \<open>
  C7: a batch of requests and notifications, each of which the server answers before its handler
  returns, is answered by one message, the replies of its parts in their order; notifications have
  none, unless they throw. (A method whose future is resolved later has its reply appended then, behind
  those of the parts after it: such batches are not in the scope of this property.)
  But the message is only sent when the last part is a request: a batch that ends with a
  notification is handled and never answered, since only a reply checks whether the batch is done.
\<close>

theorem batch_answered_in_order:
  assumes "serves w st proto h s" "list_all2 (\<lambda>part (r, a). part_answer proto w h s ctx part r a) ps as"
    and "ps \<noteq> []" "length ps \<le> 2 ^ 64"
  shows "\<exists>w'. Receive dump (Suc n) st (JArray ps) ctx w = Some (None, w') \<and> delivered w' = delivered w \<and>
    sent w' = sent w @ (if fst (last as) then [(st, JArray (concat (map snd as)))] else [])"
proof -
  note rb = Receive_batch [OF assms(1-3) refl refl]
  have "as \<noteq> []" using assms(2,3) by auto
  have "list_all2 (\<lambda>part (r, a). part_answer proto w1 h s ctx part r a) ps as" if "like w w1" for w1
    using assms(2) like_part_answer [OF that] by (auto elim!: list_all2_mono)
  from batch_loop_answers [OF this [OF rb(2)] like_simps(5) [OF rb(2) assms(1)] rb(3) assms(4), of n 0]
  show ?thesis using \<open>as \<noteq> []\<close> rb(2) by (cases "fst (last as)") (simp_all add: rb(1) like_def)
qed

text \<open>A request, then a notification.\<close>

definition mixed_batch :: "json list" where
  "mixed_batch = [MakeRequest Minified (JUnsigned 1) ''sum'' (JArray [JSigned 2, JUnsigned 3]),
     MakeNotify Minified ''note'' (JArray [])]"

lemma sum_part:
  "part_answer Minified served_world 0 sum_server None
     (MakeRequest Minified (JUnsigned 1) ''sum'' (JArray [JSigned 2, JUnsigned 3])) True
     [MakeResponce Minified (JUnsigned 1) (JSigned 5)]"
proof -
  have "local_name served_world 0 ''sum'' ''sum''"
    by (simp add: local_name_def served_world_def sum_world_def tryRoute_def sanitizeSlashes_def Let_def)
  moreover have "server_answer sum_server (incoming ''sum'' (JArray [JSigned 2, JUnsigned 3]) None) = Some (Inr (JSigned 5))"
    using sum_answer by (simp add: incoming_def sum_request_def)
  moreover have "height (MakeResponce Minified (JUnsigned 1) (JSigned 5)) \<le> 300"
    unfolding MakeResponce_def by (rule order_trans [OF obj_view_height [where n = 1]]) (auto simp: F_defs version_pair_def)
  moreover have "plain_id (JUnsigned 1)" by (simp add: plain_id_def Is_def t_defs)
  ultimately show ?thesis by (fastforce simp: part_answer_def reply_def)
qed

lemma note_part:
  "part_answer Minified served_world 0 sum_server None (MakeNotify Minified ''note'' (JArray [])) False []"
proof -
  have "local_name served_world 0 ''note'' ''note''"
    by (simp add: local_name_def served_world_def sum_world_def tryRoute_def sanitizeSlashes_def Let_def)
  moreover have "server_notify sum_server (incoming ''note'' (JArray []) None) = None"
    by (simp add: server_notify_def incoming_def sum_server_def runMiddlewares_def check_call_def
        validateRequest_def names_of_def names_count_def doCall_def call_values_def)
  ultimately show ?thesis by (fastforce simp: part_answer_def)
qed

theorem batch_answered_in_order_witness:
  "(\<exists>w'. Receive (\<lambda>_. Inr []) 1 1 (JArray (rev mixed_batch)) None served_world = Some (None, w') \<and>
      sent w' = [(1, JArray [MakeResponce Minified (JUnsigned 1) (JSigned 5)])]) \<and>
   (\<exists>w'. Receive (\<lambda>_. Inr []) 1 1 (JArray mixed_batch) None served_world = Some (None, w') \<and> sent w' = [])"
  using batch_answered_in_order [OF served_serves, of None "rev mixed_batch"
      "[(False, []), (True, [MakeResponce Minified (JUnsigned 1) (JSigned 5)])]" "\<lambda>_. Inr []" 0]
    batch_answered_in_order [OF served_serves, of None mixed_batch
      "[(True, [MakeResponce Minified (JUnsigned 1) (JSigned 5)]), (False, [])]" "\<lambda>_. Inr []" 0]
    sum_part note_part
  by (auto simp: mixed_batch_def) (simp_all add: served_world_def sum_world_def)

text \<open>
  what is not an array or an object, an empty array, and an object that is neither a request
  nor the response to a pending one, is refused with an exception and changes nothing.
\<close>

theorem Receive_refuses:
  assumes "get_async w st = Some a"
  shows "(\<not> Is msg t_array \<and> \<not> Is msg t_object \<longrightarrow> (\<exists>e. Receive dump fuel st msg ctx w = Some (Some e, w))) \<and>
    Receive dump fuel st (JArray []) ctx w =
      Some (Some (mk_rpc ''Empty batch array'' code_invalid_request None), w) \<and>
    (FindVal msg (F_Method (aproto a)) RootFrame = Inr None \<and> FindVal msg F_Id RootFrame = Inr None \<longrightarrow>
      (\<exists>e. Receive dump fuel st msg ctx w = Some (Some e, w)))"
  using assms
  by (cases msg)
    (auto simp: Receive_def Is_def t_defs handle_def handleRespToClient_def FindVal_def AssertType_def)

theorem Receive_refuses_witness:
  "\<exists>e. Receive (\<lambda>_. Inr []) 1 3 (JString ''ping'') None caller_world = Some (Some e, caller_world)"
  using conjunct1 [OF Receive_refuses, of caller_world 3 caller_async "JString ''ping''" "\<lambda>_. Inr []" 1 None]
    caller_calls
  by (simp add: calls_from_def Is_def t_defs)

end
