(* ===== verification/Json_Convert.thy ===== *)
theory Json_Convert
  imports Json_Access Ieee_Double
begin

text \<open>
  The conversions between C++ values and documents (\<^verbatim>\<open>Convert<T>\<close> in \<^verbatim>\<open>json_view.hpp\<close>). A C++ type
  is a value of \<open>cty\<close>, its values are in \<open>cval\<close>; the two template functions are recursive functions
  over the type. The description of a struct or enum (the \<^verbatim>\<open>describe\<close> library) is data of the type:
  the fields in order, and for enums the two name functions. Validators are functions that return
  the changed value or the message of what they throw. Not modelled: \<^verbatim>\<open>float\<close>, user conversions found
  by overloading, allocation failure.
\<close>

subsection \<open>Types and values\<close>

datatype cval =
    VView json
  | VBool bool
  | VInt int
  | VDouble u64
  | VText string
  | VTuple "cval list"
  | VPair cval cval
  | VOpt "cval option"
  | VVec "cval list"
  | VMap "(string \<times> cval) list"
  | VEnum int
  | VStruct "cval list"

type_synonym validator = "cval \<Rightarrow> string + cval"

record enum_desc =
  ename :: string
  esigned :: bool
  ebits :: nat
  eas_int :: "bool option" \<comment> \<open>\<^verbatim>\<open>EnumAsInteger\<close> with its \<^verbatim>\<open>validate\<close>\<close>
  efallback :: "int option"
  evalues :: "int list"
  enum_to_name :: "int \<Rightarrow> string option"
  name_to_enum :: "string \<Rightarrow> int option"

record field_desc =
  fname :: string
  findex :: "u32 option"
  fvalidator :: "validator option"
  fdefault :: cval \<comment> \<open>the field of a value-initialised object\<close>

record struct_desc =
  sname :: string
  as_tuple :: bool
  skip_missing :: bool
  svalidator :: "validator option"

datatype cty =
    TView
  | TBool
  | TInt bool nat \<comment> \<open>signed, bits\<close>
  | TDouble
  | TText
  | TTuple "cty list"
  | TPair cty cty
  | TOpt cty
  | TVec cty
  | TMap cty
  | TEnum enum_desc
  | TStruct struct_desc "(field_desc \<times> cty) list"

text \<open>Reading a value of the right type; the other values do not occur.\<close>

fun val_view where "val_view (VView j) = j" | "val_view _ = JNull"
fun val_bool where "val_bool (VBool b) = b" | "val_bool _ = False"
fun val_int where "val_int (VInt i) = i" | "val_int (VEnum i) = i" | "val_int _ = 0"
fun val_double where "val_double (VDouble d) = d" | "val_double _ = 0"
fun val_text where "val_text (VText s) = s" | "val_text _ = []"
fun val_list where
  "val_list (VTuple vs) = vs" | "val_list (VVec vs) = vs" | "val_list (VStruct vs) = vs"
| "val_list (VPair a b) = [a, b]" | "val_list _ = []"
fun val_opt where "val_opt (VOpt v) = v" | "val_opt _ = None"
fun val_map where "val_map (VMap kvs) = kvs" | "val_map _ = []"

text \<open>A value-initialised object of a type.\<close>

fun dflt :: "cty \<Rightarrow> cval" where
  "dflt TView = VView JNull"
| "dflt TBool = VBool False"
| "dflt (TInt s b) = VInt 0"
| "dflt TDouble = VDouble 0"
| "dflt TText = VText []"
| "dflt (TTuple ts) = VTuple (map dflt ts)"
| "dflt (TPair a b) = VPair (dflt a) (dflt b)"
| "dflt (TOpt t) = VOpt None"
| "dflt (TVec t) = VVec []"
| "dflt (TMap t) = VMap []"
| "dflt (TEnum d) = VEnum 0"
| "dflt (TStruct d fs) = VStruct (map (\<lambda>f. fdefault (fst f)) fs)"

subsection \<open>Integers\<close>

definition int_min :: "bool \<Rightarrow> nat \<Rightarrow> int" where
  "int_min s b = (if s then - (2 ^ (b - 1)) else 0)"

definition int_max :: "bool \<Rightarrow> nat \<Rightarrow> int" where
  "int_max s b = (if s then 2 ^ (b - 1) - 1 else 2 ^ b - 1)"

definition is_lossless :: "bool \<Rightarrow> nat \<Rightarrow> bool \<Rightarrow> nat \<Rightarrow> bool" where
  "is_lossless from_signed from_bits to_signed to_bits \<longleftrightarrow> from_signed = to_signed \<and> from_bits \<le> to_bits"

text \<open>\<^verbatim>\<open>intChecked<To>\<close> from a 64 bit integer.\<close>

definition intChecked :: "bool \<Rightarrow> nat \<Rightarrow> json \<Rightarrow> bool \<Rightarrow> int \<Rightarrow> frame \<Rightarrow> jv_error + int" where
  "intChecked s b j from_signed our fr =
     (let lo = int_min s b; hi = int_max s b;
          fail = Inl (throwIntRangeError j (word_of_int lo) (word_of_int hi) fr) in
      if is_lossless from_signed 64 s b then Inr our
      else if from_signed = s then (if our < lo \<or> hi < our then fail else Inr our)
      else if from_signed then
        (if hi < int_max from_signed 64 then (if our < 0 \<or> hi < our then fail else Inr our)
         else (if our < 0 then fail else Inr our))
      else (if hi < our then fail else Inr our))"

definition from_int :: "bool \<Rightarrow> nat \<Rightarrow> json \<Rightarrow> frame \<Rightarrow> jv_error + int" where
  "from_int s b j fr =
     (case j of
        JSigned i \<Rightarrow> intChecked s b j True (sint i) fr
      | JUnsigned u \<Rightarrow> intChecked s b j False (uint u) fr
      | _ \<Rightarrow> Inl (throwMissmatch j t_any_integer fr))"

definition into_int :: "bool \<Rightarrow> int \<Rightarrow> json" where
  "into_int s i = (if s then JSigned (word_of_int i) else JUnsigned (word_of_int i))"

subsection \<open>Doubles\<close>

text \<open>\<^verbatim>\<open>static_cast<double>\<close> of an integer rounds to the nearest double, ties to even.\<close>

function up_shift :: "nat \<Rightarrow> nat" where
  "up_shift m = (if m = 0 \<or> 2 ^ 52 \<le> m then 0 else Suc (up_shift (2 * m)))"
  by pat_completeness auto
termination by (relation "measure (\<lambda>m. 2 ^ 52 - m)") auto

declare up_shift.simps [simp del]

definition int_to_double :: "int \<Rightarrow> u64" where
  "int_to_double i =
     (let n = nat \<bar>i\<bar>; k = excess_bits n; q = (if k = 0 then n else round_even n k);
          (q', k') = (if q = 2 ^ 53 then (2 ^ 52, k + 1) else (q, k)); s = up_shift q' in
      if n = 0 then 0 else dbl_pack (i < 0) (1075 + k' - s) (q' * 2 ^ s - 2 ^ 52))"

definition from_double :: "json \<Rightarrow> frame \<Rightarrow> jv_error + u64" where
  "from_double j fr =
     (case j of
        JSigned i \<Rightarrow> Inr (int_to_double (sint i))
      | JUnsigned u \<Rightarrow> Inr (int_to_double (uint u))
      | JNumber d \<Rightarrow> Inr d
      | _ \<Rightarrow> Inl (throwMissmatch j t_any_number fr))"

subsection \<open>Leaves\<close>

definition from_bool :: "json \<Rightarrow> frame \<Rightarrow> jv_error + bool" where
  "from_bool j fr = (case j of JBool b \<Rightarrow> Inr b | _ \<Rightarrow> Inl (throwMissmatch j t_boolean fr))"

definition from_text :: "json \<Rightarrow> frame \<Rightarrow> jv_error + string" where
  "from_text j fr = (case j of JString s \<Rightarrow> Inr s | _ \<Rightarrow> Inl (throwMissmatch j t_string fr))"

definition foreign :: "string \<Rightarrow> frame \<Rightarrow> jv_error" where
  "foreign msg fr = ForeignError (exc_trace fr) msg"

definition int_str :: "int \<Rightarrow> string" where
  "int_str i = (if i < 0 then ''-'' @ nat_str (nat (- i)) else nat_str (nat i))"

text \<open>
  \<^verbatim>\<open>JsonView(string_view)\<close> keeps 32 bits of the length; a build with assertions stops when that cuts.
\<close>

definition text_view :: "string \<Rightarrow> json" where
  "text_view s = JString (take (unat (word_of_nat (length s) :: u32)) s)"

lemma text_view_short: "length s < 2 ^ 32 \<Longrightarrow> text_view s = JString s"
  by (simp add: text_view_def unsigned_of_nat take_bit_nat_eq_self)

definition into_enum :: "enum_desc \<Rightarrow> int \<Rightarrow> jv_error + json" where
  "into_enum d v =
     (case eas_int d of
        Some _ \<Rightarrow> Inr (into_int (esigned d) v)
      | None \<Rightarrow>
          (case enum_to_name d v of
             Some name \<Rightarrow> Inr (text_view name)
           | None \<Rightarrow>
               (case efallback d of
                  None \<Rightarrow> Inl (RuntimeError (''invalid enum value for '' @ [CHR 0x27] @ ename d @ [CHR 0x27] @ '': '' @ int_str v))
                | Some fb \<Rightarrow> Inr (text_view (case enum_to_name d fb of Some name \<Rightarrow> name | None \<Rightarrow> [])))))"

definition from_enum :: "enum_desc \<Rightarrow> json \<Rightarrow> frame \<Rightarrow> jv_error + int" where
  "from_enum d j fr =
     (case eas_int d of
        Some validate \<Rightarrow>
          (case from_int (esigned d) (ebits d) j fr of
             Inl e \<Rightarrow> Inl e
           | Inr i \<Rightarrow>
               if validate \<and> i \<notin> set (evalues d) then
                 Inl (foreign (''invalid integer for enum '' @ [CHR 0x27] @ ename d @ [CHR 0x27] @ '': '' @ int_str i) fr)
               else Inr i)
      | None \<Rightarrow>
          (case from_text j fr of
             Inl e \<Rightarrow> Inl e
           | Inr name \<Rightarrow>
               (case name_to_enum d name of
                  Some v \<Rightarrow> Inr v
                | None \<Rightarrow>
                    (case efallback d of
                       None \<Rightarrow> Inl (foreign (''invalid string for enum '' @ [CHR 0x27] @ ename d @ [CHR 0x27] @ '': '' @ name) fr)
                     | Some fb \<Rightarrow> Inr fb))))"

definition runValidator :: "validator option \<Rightarrow> cval \<Rightarrow> frame \<Rightarrow> jv_error + cval" where
  "runValidator val output next =
     (case val of
        None \<Rightarrow> Inr output
      | Some f \<Rightarrow> (case f output of Inr v \<Rightarrow> Inr v | Inl msg \<Rightarrow> Inl (foreign msg next)))"


subsection \<open>Into a document\<close>

text \<open>
  What \<^verbatim>\<open>From\<close> may do besides returning: throw, write behind the array of a tuple, or return an
  array with an element that was never written.
\<close>

datatype conv_fail = Throws jv_error | BadWrite nat | Unset nat

text \<open>\<^verbatim>\<open>maxIdxFor\<close>: the number of fields or the largest explicit index.\<close>

definition maxIdxFor :: "(field_desc \<times> 'c) list \<Rightarrow> nat" where
  "maxIdxFor fs =
     foldl (\<lambda>result f. case findex (fst f) of
                         Some i \<Rightarrow> if result < unat i then unat i else result
                       | None \<Rightarrow> result) (length fs) fs"

definition getIdxFor :: "field_desc \<Rightarrow> nat" where
  "getIdxFor f = (case findex f of None \<Rightarrow> 0 | Some i \<Rightarrow> unat i)"

fun read_slots :: "nat \<Rightarrow> json option list \<Rightarrow> conv_fail + json list" where
  "read_slots i [] = Inr []"
| "read_slots i (None # xs) = Inl (Unset i)"
| "read_slots i (Some x # xs) = map_sum id ((#) x) (read_slots (Suc i) xs)"

text \<open>
  The containers' part of a conversion, given the conversion of their elements.
\<close>

type_synonym writer = "cval \<Rightarrow> conv_fail + json"

fun into_list :: "writer list \<Rightarrow> cval list \<Rightarrow> conv_fail + json list" where
  "into_list (w # ws) (v # vs) =
     (case w v of Inl e \<Rightarrow> Inl e | Inr j \<Rightarrow> map_sum id ((#) j) (into_list ws vs))"
| "into_list _ _ = Inr []"

fun into_elems :: "writer \<Rightarrow> cval list \<Rightarrow> conv_fail + json list" where
  "into_elems w [] = Inr []"
| "into_elems w (v # vs) =
     (case w v of Inl e \<Rightarrow> Inl e | Inr j \<Rightarrow> map_sum id ((#) j) (into_elems w vs))"

fun into_members :: "writer \<Rightarrow> (string \<times> cval) list \<Rightarrow> conv_fail + json_pair list" where
  "into_members w [] = Inr []"
| "into_members w ((k, v) # kvs) =
     (case w v of Inl e \<Rightarrow> Inl e | Inr j \<Rightarrow> map_sum id ((#) (k, j)) (into_members w kvs))"

text \<open>
  A container is written to an array for 32 bits of its size: with more elements the first one that
  does not fit is written behind it.
\<close>

definition into_vec :: "writer \<Rightarrow> cval list \<Rightarrow> conv_fail + json" where
  "into_vec w vs =
     (let n = length vs mod 2 ^ 32 in
      if n = length vs then map_sum id JArray (into_elems w vs)
      else (case into_elems w (take (Suc n) vs) of Inl e \<Rightarrow> Inl e | Inr _ \<Rightarrow> Inl (BadWrite n)))"

definition into_map :: "writer \<Rightarrow> (string \<times> cval) list \<Rightarrow> conv_fail + json" where
  "into_map w kvs =
     (let n = length kvs mod 2 ^ 32 in
      if n = length kvs then map_sum id (JsonView_obj (sort_key fst)) (into_members w kvs)
      else (case into_members w (take n kvs) of Inl e \<Rightarrow> Inl e | Inr _ \<Rightarrow> Inl (BadWrite n)))"

lemma into_vec_short [simp]: "length vs < 2 ^ 32 \<Longrightarrow> into_vec w vs = map_sum id JArray (into_elems w vs)"
  by (simp add: into_vec_def)

lemma into_map_short [simp]:
  "length kvs < 2 ^ 32 \<Longrightarrow> into_map w kvs = map_sum id (JsonView_obj (sort_key fst)) (into_members w kvs)"
  by (simp add: into_map_def)

fun into_fields :: "(field_desc \<times> writer) list \<Rightarrow> cval list \<Rightarrow> json_pair list \<Rightarrow> conv_fail + json_pair list" where
  "into_fields ((f, w) # fs) (v # vs) obj =
     (case w v of
        Inl e \<Rightarrow> Inl e
      | Inr j \<Rightarrow> into_fields fs vs (SortedInsertJson obj (fname f) j))"
| "into_fields _ _ obj = Inr obj"

fun into_slots :: "(field_desc \<times> writer) list \<Rightarrow> cval list \<Rightarrow> nat \<Rightarrow> json option list \<Rightarrow> conv_fail + json list" where
  "into_slots ((f, w) # fs) (v # vs) n arr =
     (case w v of
        Inl e \<Rightarrow> Inl e
      | Inr j \<Rightarrow>
          (let manual = getIdxFor f; idx = (if manual \<noteq> 0 then manual else n) in
           if idx < length arr then into_slots fs vs (Suc n) (arr[idx := Some j])
           else Inl (BadWrite idx)))"
| "into_slots _ _ n arr = read_slots 0 arr"

definition serializeAsTuple :: "(field_desc \<times> writer) list \<Rightarrow> cval list \<Rightarrow> conv_fail + json" where
  "serializeAsTuple fs vs = map_sum id JArray (into_slots fs vs 0 (replicate (maxIdxFor fs) None))"

definition into_tuple :: "writer list \<Rightarrow> cval \<Rightarrow> conv_fail + json" where
  "into_tuple ws v = map_sum id JArray (into_list ws (val_list v))"

definition into_pair :: "writer \<Rightarrow> writer \<Rightarrow> cval \<Rightarrow> conv_fail + json" where
  "into_pair w1 w2 v = map_sum id JArray (into_list [w1, w2] (val_list v))"

definition into_optional :: "writer \<Rightarrow> cval \<Rightarrow> conv_fail + json" where
  "into_optional w v = (case val_opt v of None \<Rightarrow> Inr JNull | Some x \<Rightarrow> w x)"

declare into_tuple_def [simp] into_pair_def [simp] into_optional_def [simp]

primrec into :: "cty \<Rightarrow> cval \<Rightarrow> conv_fail + json" where
  "into TView = (\<lambda>v. Inr (val_view v))"
| "into TBool = (\<lambda>v. Inr (JBool (val_bool v)))"
| "into (TInt s b) = (\<lambda>v. Inr (into_int s (val_int v)))"
| "into TDouble = (\<lambda>v. Inr (JNumber (val_double v)))"
| "into TText = (\<lambda>v. Inr (text_view (val_text v)))"
| "into (TTuple ts) = into_tuple (map into ts)"
| "into (TPair a b) = into_pair (into a) (into b)"
| "into (TOpt t) = into_optional (into t)"
| "into (TVec t) = (\<lambda>v. into_vec (into t) (val_list v))"
| "into (TMap t) = (\<lambda>v. into_map (into t) (val_map v))"
| "into (TEnum d) = (\<lambda>v. map_sum Throws id (into_enum d (val_int v)))"
| "into (TStruct d fs) = (\<lambda>v.
     if as_tuple d then serializeAsTuple (map (map_prod id into) fs) (val_list v)
     else map_sum id JObject (into_fields (map (map_prod id into) fs) (val_list v) []))"

subsection \<open>From a document\<close>

fun is_optional :: "cty \<Rightarrow> bool" where
  "is_optional (TOpt t) = True"
| "is_optional _ = False"

definition isRequired :: "struct_desc \<Rightarrow> cty \<Rightarrow> bool" where
  "isRequired d t \<longleftrightarrow> \<not> (skip_missing d \<or> is_optional t)"

definition tupleGet :: "bool \<Rightarrow> u32 \<Rightarrow> json list \<Rightarrow> u32 \<Rightarrow> frame \<Rightarrow> jv_error + json" where
  "tupleGet required idx arr sz fr =
     (if sz \<le> idx then (if required then Inl (IndexError (exc_trace fr) idx sz) else Inr JNull)
      else Inr (arr ! unat idx))"

text \<open>
  The first value given to a reader is the object that is written to: a field that is missing and
  not required stays as it is. The object is lost when an exception leaves the function.
\<close>

type_synonym reader = "cval \<Rightarrow> json \<Rightarrow> frame \<Rightarrow> jv_error + cval"

fun from_list :: "reader list \<Rightarrow> cval list \<Rightarrow> json list \<Rightarrow> u32 \<Rightarrow> frame \<Rightarrow> jv_error + cval list" where
  "from_list (r # rs) (v # vs) (x # xs) i fr =
     (case r v x (Frame (KIdx i) fr) of
        Inl e \<Rightarrow> Inl e | Inr w \<Rightarrow> map_sum id ((#) w) (from_list rs vs xs (i + 1) fr))"
| "from_list _ _ _ i fr = Inr []"

fun from_elems :: "reader \<Rightarrow> cval \<Rightarrow> json list \<Rightarrow> u32 \<Rightarrow> frame \<Rightarrow> jv_error + cval list" where
  "from_elems r fresh [] i fr = Inr []"
| "from_elems r fresh (x # xs) i fr =
     (case r fresh x (Frame (KIdx i) fr) of
        Inl e \<Rightarrow> Inl e | Inr w \<Rightarrow> map_sum id ((#) w) (from_elems r fresh xs (i + 1) fr))"

fun from_members :: "reader \<Rightarrow> cval \<Rightarrow> json_pair list \<Rightarrow> frame \<Rightarrow> jv_error + (string \<times> cval) list" where
  "from_members r fresh [] fr = Inr []"
| "from_members r fresh ((k, x) # kvs) fr =
     (case r fresh x (Frame (KStr k) fr) of
        Inl e \<Rightarrow> Inl e | Inr w \<Rightarrow> map_sum id ((#) (k, w)) (from_members r fresh kvs fr))"

fun deserializeFields ::
    "bool list \<Rightarrow> (field_desc \<times> reader) list \<Rightarrow> cval list \<Rightarrow> json \<Rightarrow> frame \<Rightarrow> jv_error + cval list" where
  "deserializeFields (required # qs) ((f, r) # fs) (v # vs) j fr =
     (let next = Frame (KStr (fname f)) fr in
      case (if required then
              (case At_key j (fname f) fr of Inl e \<Rightarrow> Inl e | Inr x \<Rightarrow> r v x next)
            else
              (case FindVal j (fname f) fr of
                 Inl e \<Rightarrow> Inl e | Inr None \<Rightarrow> Inr v | Inr (Some x) \<Rightarrow> r v x next)) of
        Inl e \<Rightarrow> Inl e
      | Inr w \<Rightarrow>
          (case runValidator (fvalidator f) w next of
             Inl e \<Rightarrow> Inl e | Inr w' \<Rightarrow> map_sum id ((#) w') (deserializeFields qs fs vs j fr)))"
| "deserializeFields _ _ _ j fr = Inr []"

fun deserializeFromTuple ::
    "bool list \<Rightarrow> (field_desc \<times> reader) list \<Rightarrow> cval list \<Rightarrow> u32 \<Rightarrow> json \<Rightarrow> frame \<Rightarrow> jv_error + cval list" where
  "deserializeFromTuple (required # qs) ((f, r) # fs) (v # vs) n j fr =
     (let index = (case findex f of Some i \<Rightarrow> i | None \<Rightarrow> n); next = Frame (KStr (fname f)) fr in
      case tupleGet required index (array_of j) (data_size j) fr of
        Inl e \<Rightarrow> Inl e
      | Inr x \<Rightarrow>
          (case r v x next of
             Inl e \<Rightarrow> Inl e
           | Inr w \<Rightarrow>
               (case runValidator (fvalidator f) w next of
                  Inl e \<Rightarrow> Inl e
                | Inr w' \<Rightarrow> map_sum id ((#) w') (deserializeFromTuple qs fs vs (n + 1) j fr))))"
| "deserializeFromTuple _ _ _ n j fr = Inr []"

definition from_array :: "(json list \<Rightarrow> jv_error + cval) \<Rightarrow> json \<Rightarrow> frame \<Rightarrow> jv_error + cval" where
  "from_array body j fr = (case AssertType j t_array fr of Inl e \<Rightarrow> Inl e | Inr _ \<Rightarrow> body (array_of j))"

definition from_object :: "(json_pair list \<Rightarrow> jv_error + cval) \<Rightarrow> json \<Rightarrow> frame \<Rightarrow> jv_error + cval" where
  "from_object body j fr = (case AssertType j t_object fr of Inl e \<Rightarrow> Inl e | Inr _ \<Rightarrow> body (object_of j))"

definition from_tuple :: "reader list \<Rightarrow> reader" where
  "from_tuple rs old j fr = from_array (\<lambda>xs.
     if data_size j \<le> word_of_nat (length rs) then Inl (throwIndexError j (word_of_nat (length rs)) fr)
     else map_sum id VTuple (from_list rs (val_list old) xs 0 fr)) j fr"

definition from_pair :: "reader \<Rightarrow> reader \<Rightarrow> reader" where
  "from_pair r1 r2 old j fr = from_array (\<lambda>xs.
     if data_size j < 2 then Inl (throwIndexError j 2 fr)
     else map_sum id (\<lambda>vs. VPair (vs ! 0) (vs ! 1)) (from_list [r1, r2] (val_list old) xs 0 fr)) j fr"

definition from_optional :: "reader \<Rightarrow> cval \<Rightarrow> reader" where
  "from_optional r fresh old j fr =
     (if Is j t_null then Inr (VOpt None) else map_sum id (VOpt \<circ> Some) (r fresh j fr))"

declare from_tuple_def [simp] from_pair_def [simp] from_optional_def [simp]

primrec from_json :: "cty \<Rightarrow> cval \<Rightarrow> json \<Rightarrow> frame \<Rightarrow> jv_error + cval" where
  "from_json TView = (\<lambda>old j fr. Inr (VView j))"
| "from_json TBool = (\<lambda>old j fr. map_sum id VBool (from_bool j fr))"
| "from_json (TInt s b) = (\<lambda>old j fr. map_sum id VInt (from_int s b j fr))"
| "from_json TDouble = (\<lambda>old j fr. map_sum id VDouble (from_double j fr))"
| "from_json TText = (\<lambda>old j fr. map_sum id VText (from_text j fr))"
| "from_json (TTuple ts) = from_tuple (map from_json ts)"
| "from_json (TPair a b) = from_pair (from_json a) (from_json b)"
| "from_json (TOpt t) = from_optional (from_json t) (dflt t)"
| "from_json (TVec t) = (\<lambda>old j fr. from_array (\<lambda>xs.
     map_sum id VVec (from_elems (from_json t) (dflt t) xs 0 fr)) j fr)"
| "from_json (TMap t) = (\<lambda>old j fr. from_object (\<lambda>kvs.
     map_sum id VMap (from_members (from_json t) (dflt t) kvs fr)) j fr)"
| "from_json (TEnum d) = (\<lambda>old j fr. map_sum id VEnum (from_enum d j fr))"
| "from_json (TStruct d fs) = (\<lambda>old j fr.
     let qs = map (\<lambda>f. isRequired d (snd f)) fs; readers = map (map_prod id from_json) fs in
     case (if as_tuple d then
             (case AssertType j t_array fr of
                Inl e \<Rightarrow> Inl e | Inr _ \<Rightarrow> deserializeFromTuple qs readers (val_list old) 0 j fr)
           else
             (case AssertType j t_object fr of
                Inl e \<Rightarrow> Inl e | Inr _ \<Rightarrow> deserializeFields qs readers (val_list old) j fr)) of
       Inl e \<Rightarrow> Inl e
     | Inr vs \<Rightarrow> runValidator (svalidator d) (VStruct vs) (Frame (KStr (sname d)) fr))"

subsection \<open>Static views\<close>

text \<open>
  \<^verbatim>\<open>StaticJsonView\<close> lays a struct out in an array of pairs of fixed size (\<^verbatim>\<open>ComputeStaticStorage\<close>); a
  field that is not a struct is converted with an arena that has no memory.
\<close>

primrec static_objects :: "cty \<Rightarrow> nat" where
  "static_objects TView = 0"
| "static_objects TBool = 0"
| "static_objects (TInt s b) = 0"
| "static_objects TDouble = 0"
| "static_objects TText = 0"
| "static_objects (TTuple ts) = 0"
| "static_objects (TPair a b) = 0"
| "static_objects (TOpt t) = 0"
| "static_objects (TVec t) = 0"
| "static_objects (TMap t) = 0"
| "static_objects (TEnum d) = 0"
| "static_objects (TStruct d fs) = sum_list (map (\<lambda>f. 1 + snd f) (map (map_prod id static_objects) fs))"

primrec null_from :: "cty \<Rightarrow> cval \<Rightarrow> conv_fail + json" where
  "null_from TView = into TView"
| "null_from TBool = into TBool"
| "null_from (TInt s b) = into (TInt s b)"
| "null_from TDouble = into TDouble"
| "null_from TText = into TText"
| "null_from (TTuple ts) = (\<lambda>v. Inl (Throws BadAlloc))"
| "null_from (TPair a b) = (\<lambda>v. Inl (Throws BadAlloc))"
| "null_from (TOpt t) = (\<lambda>v. case val_opt v of None \<Rightarrow> Inr JNull | Some x \<Rightarrow> null_from t x)"
| "null_from (TVec t) = (\<lambda>v. if val_list v = [] then Inr (JArray []) else Inl (Throws BadAlloc))"
| "null_from (TMap t) = (\<lambda>v. if val_map v = [] then Inr (JObject []) else Inl (Throws BadAlloc))"
| "null_from (TEnum d) = into (TEnum d)"
| "null_from (TStruct d fs) = (\<lambda>v. if fs = [] then into (TStruct d fs) v else Inl (Throws BadAlloc))"

text \<open>
  The view of an object whose pairs start at slot \<open>base\<close>, the counter of consumed slots, and the
  slots written.
\<close>

type_synonym static_viewer = "cval \<Rightarrow> nat \<Rightarrow> nat \<Rightarrow> conv_fail + json \<times> nat \<times> nat list"

fun static_fields ::
    "nat \<Rightarrow> nat \<Rightarrow> (field_desc \<times> static_viewer) list \<Rightarrow> cval list \<Rightarrow> nat \<Rightarrow> nat \<Rightarrow> conv_fail + json_pair list \<times> nat \<times> nat list" where
  "static_fields amount base ((f, view) # fs) (v # vs) n consumed =
     (case view v (base + amount + consumed) consumed of
        Inl e \<Rightarrow> Inl e
      | Inr (j, consumed', slots) \<Rightarrow>
          (case static_fields amount base fs vs (Suc n) consumed' of
             Inl e \<Rightarrow> Inl e
           | Inr (kvs, consumed'', slots') \<Rightarrow>
               Inr ((fname f, j) # kvs, consumed'', (base + n) # slots @ slots')))"
| "static_fields amount base _ _ n consumed = Inr ([], consumed, [])"

definition static_leaf :: "(cval \<Rightarrow> conv_fail + json) \<Rightarrow> static_viewer" where
  "static_leaf conv v base consumed = map_sum id (\<lambda>j. (j, consumed, [])) (conv v)"

primrec staticView :: "cty \<Rightarrow> cval \<Rightarrow> nat \<Rightarrow> nat \<Rightarrow> conv_fail + json \<times> nat \<times> nat list" where
  "staticView TView = static_leaf (null_from TView)"
| "staticView TBool = static_leaf (null_from TBool)"
| "staticView (TInt s b) = static_leaf (null_from (TInt s b))"
| "staticView TDouble = static_leaf (null_from TDouble)"
| "staticView TText = static_leaf (null_from TText)"
| "staticView (TTuple ts) = static_leaf (null_from (TTuple ts))"
| "staticView (TPair a b) = static_leaf (null_from (TPair a b))"
| "staticView (TOpt t) = static_leaf (null_from (TOpt t))"
| "staticView (TVec t) = static_leaf (null_from (TVec t))"
| "staticView (TMap t) = static_leaf (null_from (TMap t))"
| "staticView (TEnum d) = static_leaf (null_from (TEnum d))"
| "staticView (TStruct d fs) = (\<lambda>v base consumed.
     let amount = length fs in
     map_sum id (\<lambda>(kvs, current, slots). (JsonView_obj (sort_key fst) kvs, consumed + amount + current, slots))
       (static_fields amount base (map (map_prod id staticView) fs) (val_list v) 0 0))"

definition StaticJsonView_Setup :: "cty \<Rightarrow> cval \<Rightarrow> conv_fail + json \<times> nat list" where
  "StaticJsonView_Setup t v = map_sum id (\<lambda>(j, consumed, slots). (j, slots)) (staticView t v 0 0)"

subsection \<open>Printed types\<close>

text \<open>\<^verbatim>\<open>DumpStruct\<close> (\<^verbatim>\<open>dump.hpp\<close>): the shape of a type as a document; other types do not compile.\<close>

definition int_name :: "bool \<Rightarrow> nat \<Rightarrow> string option" where
  "int_name s b =
     map_of [((False, 8), ''uint8''), ((True, 8), ''int8''), ((False, 16), ''uint16''), ((True, 16), ''int16''),
             ((False, 32), ''uint32''), ((True, 32), ''int32''), ((False, 64), ''uint64''), ((True, 64), ''int64'')] (s, b)"

primrec DumpStruct :: "cty \<Rightarrow> json option" where
  "DumpStruct TView = Some (JString ''json'')"
| "DumpStruct TBool = Some (JString ''bool'')"
| "DumpStruct (TInt s b) = map_option JString (int_name s b)"
| "DumpStruct TDouble = Some (JString ''double'')"
| "DumpStruct TText = Some (JString ''string'')"
| "DumpStruct (TTuple ts) = None"
| "DumpStruct (TPair a b) = None"
| "DumpStruct (TOpt t) = DumpStruct t"
| "DumpStruct (TVec t) = map_option (\<lambda>j. JObject [(''[index]'', j)]) (DumpStruct t)"
| "DumpStruct (TMap t) = map_option (\<lambda>j. JObject [(''<key>'', j)]) (DumpStruct t)"
| "DumpStruct (TEnum d) = Some (JString (ename d))"
| "DumpStruct (TStruct d fs) =
     map_option (\<lambda>js. JsonView_obj (sort_key fst) (zip (map (\<lambda>f. fname (fst f)) fs) js))
       (those (map snd (map (map_prod id DumpStruct) fs)))"

end
