(* ===== verification/Convert_Laws.thy ===== *)
theory Convert_Laws
  imports Json_Convert
begin

text \<open>
  What the conversions of \<^verbatim>\<open>Json_Convert\<close> promise: typed values and sound types, that reading keeps
  types, which values survive a round trip, where a static view writes, and the cases in which the
  code does not keep the promise.
\<close>

subsection \<open>Typed values\<close>

definition in_range :: "bool \<Rightarrow> nat \<Rightarrow> int \<Rightarrow> bool" where
  "in_range s b i \<longleftrightarrow> int_min s b \<le> i \<and> i \<le> int_max s b"

primrec has_type :: "cty \<Rightarrow> cval \<Rightarrow> bool" where
  "has_type TView = (\<lambda>v. case v of VView j \<Rightarrow> True | _ \<Rightarrow> False)"
| "has_type TBool = (\<lambda>v. case v of VBool b \<Rightarrow> True | _ \<Rightarrow> False)"
| "has_type (TInt s b) = (\<lambda>v. case v of VInt i \<Rightarrow> in_range s b i | _ \<Rightarrow> False)"
| "has_type TDouble = (\<lambda>v. case v of VDouble d \<Rightarrow> True | _ \<Rightarrow> False)"
| "has_type TText = (\<lambda>v. case v of VText s \<Rightarrow> True | _ \<Rightarrow> False)"
| "has_type (TTuple ts) = (\<lambda>v. case v of VTuple vs \<Rightarrow> list_all2 (\<lambda>P v. P v) (map has_type ts) vs | _ \<Rightarrow> False)"
| "has_type (TPair a b) = (\<lambda>v. case v of VPair x y \<Rightarrow> has_type a x \<and> has_type b y | _ \<Rightarrow> False)"
| "has_type (TOpt t) = (\<lambda>v. case v of VOpt x \<Rightarrow> pred_option (has_type t) x | _ \<Rightarrow> False)"
| "has_type (TVec t) = (\<lambda>v. case v of VVec vs \<Rightarrow> list_all (has_type t) vs | _ \<Rightarrow> False)"
| "has_type (TMap t) = (\<lambda>v. case v of
     VMap kvs \<Rightarrow> sorted_keys kvs \<and> list_all (\<lambda>p. has_type t (snd p)) kvs | _ \<Rightarrow> False)"
| "has_type (TEnum d) = (\<lambda>v. case v of VEnum i \<Rightarrow> in_range (esigned d) (ebits d) i | _ \<Rightarrow> False)"
| "has_type (TStruct d fs) = (\<lambda>v. case v of
     VStruct vs \<Rightarrow> list_all2 (\<lambda>f v. snd f v) (map (map_prod id has_type) fs) vs | _ \<Rightarrow> False)"

text \<open>
  A sound type: integers of at most 64 bits, enum names and defaults that are values of their
  types, validators that keep the type.
\<close>

definition keeps_type :: "(cval \<Rightarrow> bool) \<Rightarrow> validator option \<Rightarrow> bool" where
  "keeps_type P val \<longleftrightarrow> (\<forall>f v w. val = Some f \<longrightarrow> P v \<longrightarrow> f v = Inr w \<longrightarrow> P w)"

definition sound_enum :: "enum_desc \<Rightarrow> bool" where
  "sound_enum d \<longleftrightarrow> 1 \<le> ebits d \<and> ebits d \<le> 64 \<and>
     (\<forall>n v. name_to_enum d n = Some v \<longrightarrow> in_range (esigned d) (ebits d) v) \<and>
     (\<forall>v. efallback d = Some v \<longrightarrow> in_range (esigned d) (ebits d) v)"

primrec sound :: "cty \<Rightarrow> bool" where
  "sound TView = True"
| "sound TBool = True"
| "sound (TInt s b) = (1 \<le> b \<and> b \<le> 64)"
| "sound TDouble = True"
| "sound TText = True"
| "sound (TTuple ts) = (list_all id (map sound ts) \<and> length ts < 2 ^ 32)"
| "sound (TPair a b) = (sound a \<and> sound b)"
| "sound (TOpt t) = sound t"
| "sound (TVec t) = sound t"
| "sound (TMap t) = sound t"
| "sound (TEnum d) = sound_enum d"
| "sound (TStruct d fs) =
     (list_all snd (map (map_prod id sound) fs) \<and>
      (\<forall>(f, t) \<in> set fs. has_type t (fdefault f) \<and> keeps_type (has_type t) (fvalidator f)) \<and>
      keeps_type (has_type (TStruct d fs)) (svalidator d))"

lemma int_min_le_0 [simp]: "int_min s b \<le> 0"
  by (simp add: int_min_def)

lemma int_max_ge_0 [simp]: "0 \<le> int_max s b"
  by (simp add: int_max_def)

lemma in_range_0 [simp]: "in_range s b 0"
  by (simp add: in_range_def)

lemma from_int_correct:
  assumes "1 \<le> b" "b \<le> 64" "(j, n) \<in> {(JSigned i, sint i), (JUnsigned u, uint u)}"
  shows "from_int s b j fr =
    (if in_range s b n then Inr n
     else Inl (throwIntRangeError j (word_of_int (int_min s b)) (word_of_int (int_max s b)) fr))"
proof -
  have i: "- (2 ^ 63) \<le> sint i" "sint i \<le> 2 ^ 63 - 1"
    using sint_ge [of i] sint_lt [of i] by simp_all
  have u: "0 \<le> uint u" "uint u \<le> 2 ^ 64 - 1"
    using uint_lt2p [of u] by simp_all
  have l: "is_lossless f 64 s b \<Longrightarrow> b = 64 \<and> f = s" for f using assms(2) by (simp add: is_lossless_def)
  have r: "in_range True 64 (sint i)" "in_range False 64 (uint u)"
    using i u by (simp_all add: in_range_def int_min_def int_max_def)
  have m: "int_min False b = 0" "int_max True 64 = 2 ^ 63 - 1" by (simp_all add: int_min_def int_max_def)
  have z: "int_min s b \<le> uint u" by (rule order_trans [OF int_min_le_0]) simp
  show ?thesis
    using z assms(3) l [of True] l [of False] r i u m int_min_le_0 [of s b]
    by (cases s) (auto simp: from_int_def intChecked_def Let_def in_range_def)
qed

lemma sound_dflt: "sound T \<Longrightarrow> has_type T (dflt T)"
proof (induction T)
  case (TTuple ts)
  then show ?case by (simp add: list_all2_map1 list_all2_map2 list_all2_same list_all_iff)
next
  case (TStruct d fs)
  then show ?case by (auto simp: list_all2_map1 list_all2_map2 list_all2_same)
qed auto

subsection \<open>Reading keeps types\<close>

lemma map_sum_Inr [simp]: "map_sum g f x = Inr y \<longleftrightarrow> (\<exists>z. x = Inr z \<and> y = f z)"
  by (cases x) auto

lemma map_sum_Inl [simp]: "map_sum id f x = Inl e \<longleftrightarrow> x = Inl e"
  by (cases x) auto

definition typed_reader :: "(cval \<Rightarrow> bool) \<Rightarrow> reader \<Rightarrow> bool" where
  "typed_reader P r \<longleftrightarrow> (\<forall>old j fr v. P old \<longrightarrow> wf_json j \<longrightarrow> r old j fr = Inr v \<longrightarrow> P v)"

lemma typed_readerI:
  "(\<And>old j fr v. P old \<Longrightarrow> wf_json j \<Longrightarrow> r old j fr = Inr v \<Longrightarrow> P v) \<Longrightarrow> typed_reader P r"
  by (simp add: typed_reader_def)

lemma typed_readerD: "typed_reader P r \<Longrightarrow> P old \<Longrightarrow> wf_json j \<Longrightarrow> r old j fr = Inr v \<Longrightarrow> P v"
  by (simp add: typed_reader_def)

lemma from_list_typed:
  "from_list rs vs xs i fr = Inr ws \<Longrightarrow> list_all2 typed_reader Ps rs \<Longrightarrow> list_all2 (\<lambda>P v. P v) Ps vs \<Longrightarrow>
     \<forall>x \<in> set xs. wf_json x \<Longrightarrow> length rs \<le> length xs \<Longrightarrow> list_all2 (\<lambda>P v. P v) Ps ws"
proof (induction rs vs xs i fr arbitrary: Ps ws rule: from_list.induct)
  case (1 r rs v vs x xs i fr)
  then show ?case
    by (auto simp: list_all2_Cons2 typed_reader_def split: sum.splits)
next
  case "2_1"
  then show ?case by simp
qed auto

lemma from_elems_typed:
  "from_elems r fresh xs i fr = Inr ws \<Longrightarrow> typed_reader P r \<Longrightarrow> P fresh \<Longrightarrow>
     \<forall>x \<in> set xs. wf_json x \<Longrightarrow> list_all P ws"
  by (induction r fresh xs i fr arbitrary: ws rule: from_elems.induct)
    (auto simp: typed_reader_def split: sum.splits)

lemma from_members_typed:
  "from_members r fresh kvs fr = Inr ws \<Longrightarrow> typed_reader P r \<Longrightarrow> P fresh \<Longrightarrow>
     \<forall>p \<in> set kvs. wf_json (snd p) \<Longrightarrow> list_all (\<lambda>p. P (snd p)) ws \<and> map fst ws = map fst kvs"
  by (induction r fresh kvs fr arbitrary: ws rule: from_members.induct)
    (auto simp: typed_reader_def split: sum.splits)

lemma runValidator_typed: "runValidator val v fr = Inr w \<Longrightarrow> keeps_type P val \<Longrightarrow> P v \<Longrightarrow> P w"
  by (auto simp: runValidator_def keeps_type_def split: option.splits sum.splits)

lemma FindVal_wf: "FindVal j k fr = Inr (Some x) \<Longrightarrow> wf_json j \<Longrightarrow> wf_json x"
  by (cases j) (auto simp: FindVal_def AssertType_def Is_def t_defs object_find_map_of list_all_iff
      split: if_splits dest!: map_of_SomeD)

lemma At_key_wf: "At_key j k fr = Inr x \<Longrightarrow> wf_json j \<Longrightarrow> wf_json x"
  by (auto simp: At_key_def split: sum.splits option.splits dest: FindVal_wf)

lemma tupleGet_wf: "tupleGet q i xs (word_of_nat (length xs)) fr = Inr x \<Longrightarrow> wf_json (JArray xs) \<Longrightarrow> wf_json x"
  by (auto simp: tupleGet_def not_le word_less_nat_alt unsigned_of_nat take_bit_nat_eq_self list_all_iff
      split: if_splits)

definition field_typed :: "(cval \<Rightarrow> bool) \<Rightarrow> field_desc \<times> reader \<Rightarrow> bool" where
  "field_typed P f \<longleftrightarrow> typed_reader P (snd f) \<and> keeps_type P (fvalidator (fst f))"

lemma deserializeFields_typed:
  "deserializeFields qs fs vs j fr = Inr ws \<Longrightarrow> list_all2 field_typed Ps fs \<Longrightarrow> list_all2 (\<lambda>P v. P v) Ps vs \<Longrightarrow>
     wf_json j \<Longrightarrow> length qs = length fs \<Longrightarrow> list_all2 (\<lambda>P v. P v) Ps ws"
proof (induction qs fs vs j fr arbitrary: Ps ws rule: deserializeFields.induct)
  case (1 required qs f r fs v vs j fr)
  from "1.prems"(2,3) obtain P Ps' where P: "Ps = P # Ps'" "typed_reader P r" "keeps_type P (fvalidator f)"
    "list_all2 field_typed Ps' fs" "P v" "list_all2 (\<lambda>P v. P v) Ps' vs"
    by (auto simp: list_all2_Cons2 field_typed_def [of _ "(f, r)"])
  have t: "P w" if "r v x fr' = Inr w" "wf_json x" for x fr' w
    using P(2,5) that by (auto simp: typed_reader_def)
  have r: "P w'" if "runValidator (fvalidator f) w fr' = Inr w'" "P w" for w w' fr'
    by (rule runValidator_typed [OF that(1) P(3) that(2)])
  show ?case
    using "1.prems"(1,4,5) P(1,4,5,6) "1.IH" [where Ps = Ps'] t r
    by (auto simp: Let_def split: sum.splits option.splits if_splits dest: At_key_wf FindVal_wf)
qed auto

lemma deserializeFromTuple_typed:
  "deserializeFromTuple qs fs vs n (JArray xs) fr = Inr ws \<Longrightarrow> list_all2 field_typed Ps fs \<Longrightarrow> list_all2 (\<lambda>P v. P v) Ps vs \<Longrightarrow>
     wf_json (JArray xs) \<Longrightarrow> length qs = length fs \<Longrightarrow> list_all2 (\<lambda>P v. P v) Ps ws"
proof (induction qs fs vs n "JArray xs" fr arbitrary: Ps ws rule: deserializeFromTuple.induct)
  case (1 required qs f r fs v vs n fr)
  from "1.prems"(2,3) obtain P Ps' where P: "Ps = P # Ps'" "typed_reader P r" "keeps_type P (fvalidator f)"
    "list_all2 field_typed Ps' fs" "P v" "list_all2 (\<lambda>P v. P v) Ps' vs"
    by (auto simp: list_all2_Cons2 field_typed_def [of _ "(f, r)"])
  have t: "P w" if "r v x fr' = Inr w" "wf_json x" for x fr' w
    using P(2,5) that by (auto simp: typed_reader_def)
  have r: "P w'" if "runValidator (fvalidator f) w fr' = Inr w'" "P w" for w w' fr'
    by (rule runValidator_typed [OF that(1) P(3) that(2)])
  show ?case
    using "1.prems"(1,4,5) P(1,4,5,6) "1.hyps" [where Ps = Ps'] t r
    by (auto simp: Let_def split: sum.splits option.splits dest: tupleGet_wf)
qed auto

lemma from_array_typed:
  "(\<And>xs v. j = JArray xs \<Longrightarrow> body xs = Inr v \<Longrightarrow> P v) \<Longrightarrow> from_array body j fr = Inr v \<Longrightarrow> P v"
  by (cases j) (auto simp: from_array_def AssertType_def Is_def t_defs split: if_splits)

lemma from_object_typed:
  "(\<And>kvs v. j = JObject kvs \<Longrightarrow> body kvs = Inr v \<Longrightarrow> P v) \<Longrightarrow> from_object body j fr = Inr v \<Longrightarrow> P v"
  by (cases j) (auto simp: from_object_def AssertType_def Is_def t_defs split: if_splits)

lemma from_int_in_range: "1 \<le> b \<Longrightarrow> b \<le> 64 \<Longrightarrow> from_int s b j fr = Inr i \<Longrightarrow> in_range s b i"
  using from_int_correct [of b j _ _ _ s fr]
  by (cases j) (auto simp: from_int_def split: if_splits)

lemma from_enum_in_range: "sound_enum d \<Longrightarrow> from_enum d j fr = Inr i \<Longrightarrow> in_range (esigned d) (ebits d) i"
  using from_int_in_range [of "ebits d" "esigned d" j fr]
  by (auto simp: from_enum_def sound_enum_def split: option.splits sum.splits if_splits)

lemma cty_induct [case_names View Bool Int Double Text Tuple Pair Opt Vec Map Enum Struct]:
  assumes "P TView" "P TBool" "\<And>s b. P (TInt s b)" "P TDouble" "P TText"
    "\<And>ts. (\<And>t. t \<in> set ts \<Longrightarrow> P t) \<Longrightarrow> P (TTuple ts)" "\<And>a b. P a \<Longrightarrow> P b \<Longrightarrow> P (TPair a b)"
    "\<And>t. P t \<Longrightarrow> P (TOpt t)" "\<And>t. P t \<Longrightarrow> P (TVec t)" "\<And>t. P t \<Longrightarrow> P (TMap t)" "\<And>d. P (TEnum d)"
    "\<And>d fs. (\<And>f t. (f, t) \<in> set fs \<Longrightarrow> P t) \<Longrightarrow> P (TStruct d fs)"
  shows "P T"
proof (induction T)
  case (TStruct d fs)
  then show ?case using assms(12) by (metis snds.intros snd_conv)
qed (use assms in auto)

lemma from_json_typed: "sound T \<Longrightarrow> typed_reader (has_type T) (from_json T)"
proof (induction T rule: cty_induct)
  case (Int s b)
  then show ?case by (auto simp: typed_reader_def from_int_in_range)
next
  case (Tuple ts)
  then have r: "list_all2 typed_reader (map has_type ts) (map from_json ts)"
    by (simp add: list_all2_map1 list_all2_map2 list_all2_same list_all_iff)
  show ?case
  proof (rule typed_readerI)
    fix old j fr v
    assume o: "has_type (TTuple ts) old" and w: "wf_json j" and f: "from_json (TTuple ts) old j fr = Inr v"
    show "has_type (TTuple ts) v"
      using f unfolding from_json.simps from_tuple_def from_pair_def length_map
    proof (rule from_array_typed [rotated])
      fix xs v
      assume j: "j = JArray xs" and "(if data_size j \<le> word_of_nat (length ts) then Inl (throwIndexError j (word_of_nat (length ts)) fr)
        else map_sum id VTuple (from_list (map from_json ts) (val_list old) xs 0 fr)) = Inr v"
      moreover have "length ts < 2 ^ 32" using Tuple.prems by simp
      ultimately obtain ws where ws: "v = VTuple ws" "from_list (map from_json ts) (val_list old) xs 0 fr = Inr ws"
        and "length ts < length xs"
        using w by (auto simp: word_le_nat_alt unsigned_of_nat take_bit_nat_eq_self split: if_splits)
      moreover obtain vs where vs: "old = VTuple vs" "list_all2 (\<lambda>P v. P v) (map has_type ts) vs"
        using o by (cases old) auto
      ultimately show "has_type (TTuple ts) v"
        using from_list_typed [OF ws(2) r] w j by (simp add: list_all_iff)
    qed
  qed
next
  case (Pair a b)
  then have r: "list_all2 typed_reader [has_type a, has_type b] [from_json a, from_json b]" by simp
  show ?case
  proof (rule typed_readerI)
    fix old j fr v
    assume o: "has_type (TPair a b) old" and w: "wf_json j" and f: "from_json (TPair a b) old j fr = Inr v"
    show "has_type (TPair a b) v"
      using f unfolding from_json.simps from_tuple_def from_pair_def length_map
    proof (rule from_array_typed [rotated])
      fix xs v
      assume j: "j = JArray xs" and "(if data_size j < 2 then Inl (throwIndexError j 2 fr)
        else map_sum id (\<lambda>vs. VPair (vs ! 0) (vs ! 1)) (from_list [from_json a, from_json b] (val_list old) xs 0 fr)) = Inr v"
      then obtain ws where ws: "v = VPair (ws ! 0) (ws ! 1)" "from_list [from_json a, from_json b] (val_list old) xs 0 fr = Inr ws"
        and "2 \<le> length xs"
        using w by (auto simp: not_less word_le_nat_alt unsigned_of_nat take_bit_nat_eq_self split: if_splits)
      moreover obtain x y where "old = VPair x y" "has_type a x" "has_type b y"
        using o by (cases old) auto
      ultimately have "list_all2 (\<lambda>P v. P v) [has_type a, has_type b] ws"
        using from_list_typed [OF ws(2) r] w j by (simp add: list_all_iff)
      with ws(1) show "has_type (TPair a b) v" by (auto simp: list_all2_Cons1)
    qed
  qed
next
  case (Opt t)
  show ?case
  proof (rule typed_readerI)
    fix old j fr v
    assume "wf_json j" "from_json (TOpt t) old j fr = Inr v"
    then show "has_type (TOpt t) v"
      using typed_readerD [OF Opt.IH sound_dflt, of j fr] Opt.prems by (auto split: if_splits)
  qed
next
  case (Vec t)
  then have t: "typed_reader (has_type t) (from_json t)" "has_type t (dflt t)" by (auto intro: sound_dflt)
  show ?case
  proof (rule typed_readerI)
    fix old j fr v
    assume "wf_json j" "from_json (TVec t) old j fr = Inr v"
    then show "has_type (TVec t) v"
      using from_elems_typed [OF _ t] unfolding from_json.simps
      by (elim from_array_typed [rotated]) (auto simp: list_all_iff)
  qed
next
  case (Map t)
  then have t: "typed_reader (has_type t) (from_json t)" "has_type t (dflt t)" by (auto intro: sound_dflt)
  show ?case
  proof (rule typed_readerI)
    fix old j fr v
    assume "wf_json j" "from_json (TMap t) old j fr = Inr v"
    then show "has_type (TMap t) v"
      using from_members_typed [OF _ t] unfolding from_json.simps
      by (elim from_object_typed [rotated]) (fastforce simp: list_all_iff)
  qed
next
  case (Enum d)
  then show ?case by (auto simp: typed_reader_def from_enum_in_range)
next
  case (Struct d fs)
  define Ps where "Ps = map (\<lambda>f. has_type (snd f)) fs"
  have r: "list_all2 field_typed Ps (map (map_prod id from_json) fs)"
    using Struct by (auto simp: Ps_def list_all2_map1 list_all2_map2 list_all2_same field_typed_def list_all_iff)
  have T: "has_type (TStruct d fs) (VStruct vs) = list_all2 (\<lambda>P v. P v) Ps vs" for vs
    by (simp add: Ps_def list_all2_map1 list.map_comp comp_def)
  show ?case
  proof (rule typed_readerI)
    fix old j fr v
    assume o: "has_type (TStruct d fs) old" and w: "wf_json j" and f: "from_json (TStruct d fs) old j fr = Inr v"
    obtain vs where vs: "old = VStruct vs" using o by (cases old) auto
    let ?qs = "map (\<lambda>f. isRequired d (snd f)) fs" and ?rs = "map (map_prod id from_json) fs"
    obtain ws where ws: "(deserializeFields ?qs ?rs vs j fr = Inr ws \<or>
        (\<exists>xs. j = JArray xs \<and> deserializeFromTuple ?qs ?rs vs 0 j fr = Inr ws))"
      and v: "runValidator (svalidator d) (VStruct ws) (Frame (KStr (sname d)) fr) = Inr v"
      using f vs
      by (cases j) (auto simp: Let_def AssertType_def Is_def t_defs split: if_splits sum.splits)
    have "list_all2 (\<lambda>P v. P v) Ps ws"
      using ws deserializeFields_typed [OF _ r] deserializeFromTuple_typed [OF _ r] o w
      unfolding vs T by auto
    then have "has_type (TStruct d fs) (VStruct ws)" by (simp only: T)
    moreover have "keeps_type (has_type (TStruct d fs)) (svalidator d)" using Struct.prems by simp
    ultimately show "has_type (TStruct d fs) v" by (rule runValidator_typed [OF v, rotated])
  qed
qed (auto simp: typed_reader_def)

subsection \<open>Values that survive\<close>

text \<open>
  Values that a document can carry: enums that their names lead back to, containers whose sizes fit,
  objects that their validators accept unchanged.
\<close>

definition accepts :: "validator option \<Rightarrow> cval \<Rightarrow> bool" where
  "accepts val v \<longleftrightarrow> (\<forall>f. val = Some f \<longrightarrow> f v = Inr v)"

definition storable_enum :: "enum_desc \<Rightarrow> int \<Rightarrow> bool" where
  "storable_enum d i \<longleftrightarrow>
     (case eas_int d of
        Some validate \<Rightarrow> in_range (esigned d) (ebits d) i \<and> (validate \<longrightarrow> i \<in> set (evalues d))
      | None \<Rightarrow> (\<exists>n. enum_to_name d i = Some n \<and> name_to_enum d n = Some i \<and> length n < 2 ^ 32))"

primrec storable :: "cty \<Rightarrow> cval \<Rightarrow> bool" where
  "storable TView = (\<lambda>v. case v of VView j \<Rightarrow> True | _ \<Rightarrow> False)"
| "storable TBool = (\<lambda>v. case v of VBool b \<Rightarrow> True | _ \<Rightarrow> False)"
| "storable (TInt s b) = (\<lambda>v. case v of VInt i \<Rightarrow> in_range s b i | _ \<Rightarrow> False)"
| "storable TDouble = (\<lambda>v. case v of VDouble d \<Rightarrow> True | _ \<Rightarrow> False)"
| "storable TText = (\<lambda>v. case v of VText s \<Rightarrow> length s < 2 ^ 32 | _ \<Rightarrow> False)"
| "storable (TTuple ts) = (\<lambda>v. case v of VTuple vs \<Rightarrow> list_all2 (\<lambda>P v. P v) (map storable ts) vs | _ \<Rightarrow> False)"
| "storable (TPair a b) = (\<lambda>v. case v of VPair x y \<Rightarrow> storable a x \<and> storable b y | _ \<Rightarrow> False)"
| "storable (TOpt t) = (\<lambda>v. case v of VOpt x \<Rightarrow> pred_option (storable t) x | _ \<Rightarrow> False)"
| "storable (TVec t) = (\<lambda>v. case v of VVec vs \<Rightarrow> list_all (storable t) vs \<and> length vs < 2 ^ 32 | _ \<Rightarrow> False)"
| "storable (TMap t) = (\<lambda>v. case v of
     VMap kvs \<Rightarrow> sorted_keys kvs \<and> list_all (\<lambda>p. storable t (snd p)) kvs \<and> length kvs < 2 ^ 32 | _ \<Rightarrow> False)"
| "storable (TEnum d) = (\<lambda>v. case v of VEnum i \<Rightarrow> storable_enum d i | _ \<Rightarrow> False)"
| "storable (TStruct d fs) = (\<lambda>v. accepts (svalidator d) v \<and> (case v of
     VStruct vs \<Rightarrow> list_all2 (\<lambda>f v. snd f v \<and> accepts (fvalidator (fst f)) v) (map (map_prod id storable) fs) vs
   | _ \<Rightarrow> False))"

text \<open>
  Types without a \<^verbatim>\<open>std::tuple\<close>, whose reader refuses what its writer writes, without an optional
  of something that may be null itself, and without explicit tuple indices.
\<close>

fun never_null :: "cty \<Rightarrow> bool" where
  "never_null TView = False"
| "never_null (TOpt t) = False"
| "never_null _ = True"

primrec plain :: "cty \<Rightarrow> bool" where
  "plain TView = True"
| "plain TBool = True"
| "plain (TInt s b) = True"
| "plain TDouble = True"
| "plain TText = True"
| "plain (TTuple ts) = False"
| "plain (TPair a b) = (plain a \<and> plain b)"
| "plain (TOpt t) = (plain t \<and> never_null t)"
| "plain (TVec t) = plain t"
| "plain (TMap t) = plain t"
| "plain (TEnum d) = True"
| "plain (TStruct d fs) =
     (list_all snd (map (map_prod id plain) fs) \<and> distinct (map (\<lambda>f. fname (fst f)) fs) \<and>
      length fs < 2 ^ 32 \<and> (as_tuple d \<longrightarrow> (\<forall>f \<in> set fs. findex (fst f) = None)))"

text \<open>A value is carried when it is written and every object of the type reads it back.\<close>

definition carried :: "(cval \<Rightarrow> bool) \<Rightarrow> writer \<Rightarrow> reader \<Rightarrow> cval \<Rightarrow> bool" where
  "carried P w r v \<longleftrightarrow> (\<exists>j. w v = Inr j \<and> (\<forall>old fr. P old \<longrightarrow> r old j fr = Inr v))"

lemma elems_carried:
  "list_all (carried P w r) vs \<Longrightarrow> P fresh \<Longrightarrow>
     \<exists>js. into_elems w vs = Inr js \<and> length js = length vs \<and> (\<forall>i fr. from_elems r fresh js i fr = Inr vs)"
proof (induction vs)
  case (Cons v vs)
  then obtain j js where "w v = Inr j" "\<And>fr. r fresh j fr = Inr v" "into_elems w vs = Inr js"
    "length js = length vs" "\<And>i fr. from_elems r fresh js i fr = Inr vs"
    by (auto simp: carried_def)
  then show ?case by (intro exI [of _ "j # js"]) simp
qed simp

lemma members_carried:
  "list_all (\<lambda>p. carried P w r (snd p)) kvs \<Longrightarrow> P fresh \<Longrightarrow>
     \<exists>js. into_members w kvs = Inr js \<and> map fst js = map fst kvs \<and> (\<forall>fr. from_members r fresh js fr = Inr kvs)"
proof (induction kvs)
  case (Cons p kvs)
  obtain k v where p: "p = (k, v)" by (cases p)
  from Cons p obtain j js where "w v = Inr j" "\<And>fr. r fresh j fr = Inr v" "into_members w kvs = Inr js"
    "map fst js = map fst kvs" "\<And>fr. from_members r fresh js fr = Inr kvs"
    by (auto simp: carried_def)
  then show ?case unfolding p by (intro exI [of _ "(k, j) # js"]) simp
qed simp

text \<open>The fields of a struct: its three lists in step.\<close>

fun fields_carried :: "(cval \<Rightarrow> bool) list \<Rightarrow> (field_desc \<times> writer) list \<Rightarrow> (field_desc \<times> reader) list \<Rightarrow> cval list \<Rightarrow> bool" where
  "fields_carried (P # Ps) ((f, w) # ws) ((g, r) # rs) (v # vs) \<longleftrightarrow>
     g = f \<and> carried P w r v \<and> accepts (fvalidator f) v \<and> fields_carried Ps ws rs vs"
| "fields_carried [] [] [] [] \<longleftrightarrow> True"
| "fields_carried _ _ _ _ \<longleftrightarrow> False"

lemma runValidator_accepts [simp]: "accepts val v \<Longrightarrow> runValidator val v fr = Inr v"
  by (auto simp: runValidator_def accepts_def split: option.split)

fun outs :: "(field_desc \<times> writer) list \<Rightarrow> cval list \<Rightarrow> json list" where
  "outs ((f, w) # ws) (v # vs) = projr (w v) # outs ws vs"
| "outs _ _ = []"

lemma carriedD: "carried P w r v \<Longrightarrow> w v = Inr (projr (w v)) \<and> (P old \<longrightarrow> r old (projr (w v)) fr = Inr v)"
  by (auto simp: carried_def)

lemma fields_carried_length:
  "fields_carried Ps ws rs vs \<Longrightarrow> length (outs ws vs) = length ws \<and> length Ps = length ws \<and> length rs = length ws \<and>
     length vs = length ws"
  by (induction Ps ws rs vs rule: fields_carried.induct) auto

lemma into_fields_carried:
  "fields_carried Ps ws rs vs \<Longrightarrow> into_fields ws vs obj =
     Inr (foldl (\<lambda>acc (k, v). SortedInsertJson acc k v) obj (zip (map (\<lambda>f. fname (fst f)) ws) (outs ws vs)))"
proof (induction Ps ws rs vs arbitrary: obj rule: fields_carried.induct)
  case (1 P Ps f w ws g r rs v vs)
  then have "w v = Inr (projr (w v))" using carriedD by auto
  with 1 show ?case by (auto split: sum.split)
qed auto

lemma FindVal_object [simp]: "FindVal (JObject ob) k fr = Inr (object_find ob k)"
  by (simp add: FindVal_def AssertType_def Is_def t_defs)

lemma read_fields_carried:
  "fields_carried Ps ws rs vs \<Longrightarrow>
     \<forall>p \<in> set (zip (map (\<lambda>f. fname (fst f)) ws) (outs ws vs)). object_find ob (fst p) = Some (snd p) \<Longrightarrow>
     list_all2 (\<lambda>P v. P v) Ps olds \<Longrightarrow> length qs = length rs \<Longrightarrow>
     deserializeFields qs rs olds (JObject ob) fr = Inr vs"
proof (induction Ps ws rs vs arbitrary: olds qs rule: fields_carried.induct)
  case (1 P Ps f w ws g r rs v vs)
  from "1.prems" obtain q qs' old olds' where q: "qs = q # qs'" "olds = old # olds'" "P old"
    "list_all2 (\<lambda>P v. P v) Ps olds'" "length qs' = length rs"
    by (cases qs) (auto simp: list_all2_Cons1)
  have r: "r old (projr (w v)) fr' = Inr v" for fr' using carriedD [of P w r v old] "1.prems"(1) q(3) by simp
  have "object_find ob (fname f) = Some (projr (w v))" using "1.prems"(2) by simp
  with "1.prems" "1.IH" [OF _ _ q(4,5)] r q(1,2) show ?case by (simp add: Let_def At_key_def)
qed auto

lemma read_slots_Some: "read_slots i (map Some xs) = Inr xs"
  by (induction xs arbitrary: i) auto

lemma into_slots_carried:
  "fields_carried Ps ws rs vs \<Longrightarrow> \<forall>f \<in> set ws. findex (fst f) = None \<Longrightarrow>
     into_slots ws vs (length pre) (map Some pre @ replicate (length ws) None) = Inr (pre @ outs ws vs)"
proof (induction Ps ws rs vs arbitrary: pre rule: fields_carried.induct)
  case (1 P Ps f w ws g r rs v vs)
  have w: "w v = Inr (projr (w v))" using carriedD "1.prems"(1) by auto
  have "(map Some pre @ None # replicate (length ws) None)[length pre := Some (projr (w v))] =
      map Some (pre @ [projr (w v)]) @ replicate (length ws) None"
    by (simp add: list_update_append)
  then show ?case
    using "1.prems" "1.IH" [of "pre @ [projr (w v)]"] w
    by (auto simp: Let_def getIdxFor_def split: sum.split)
qed (auto simp: read_slots_Some)

lemma maxIdxFor_plain: "\<forall>f \<in> set fs. findex (fst f) = None \<Longrightarrow> maxIdxFor fs = length fs"
proof -
  assume "\<forall>f \<in> set fs. findex (fst f) = None"
  then have "foldl (\<lambda>result f. case findex (fst f) of Some i \<Rightarrow> if result < unat i then unat i else result
      | None \<Rightarrow> result) n fs = n" for n
    by (induction fs) auto
  then show ?thesis by (simp add: maxIdxFor_def)
qed

lemma read_tuple_carried:
  "fields_carried Ps ws rs vs \<Longrightarrow> \<forall>f \<in> set ws. findex (fst f) = None \<Longrightarrow> drop n xs = outs ws vs \<Longrightarrow>
     length xs < 2 ^ 32 \<Longrightarrow> list_all2 (\<lambda>P v. P v) Ps olds \<Longrightarrow> length qs = length rs \<Longrightarrow>
     deserializeFromTuple qs rs olds (word_of_nat n) (JArray xs) fr = Inr vs"
proof (induction Ps ws rs vs arbitrary: olds qs n rule: fields_carried.induct)
  case (1 P Ps f w ws g r rs v vs)
  from "1.prems" obtain q qs' old olds' where q: "qs = q # qs'" "olds = old # olds'" "P old"
    "list_all2 (\<lambda>P v. P v) Ps olds'" "length qs' = length rs"
    by (cases qs) (auto simp: list_all2_Cons1)
  have r: "r old (projr (w v)) fr' = Inr v" for fr' using carriedD [of P w r v old] "1.prems"(1) q(3) by simp
  have d: "drop n xs = projr (w v) # outs ws vs" using "1.prems"(3) by simp
  then have n: "n < length xs" "xs ! n = projr (w v)" "drop (Suc n) xs = outs ws vs"
    by (metis drop_all linorder_not_le list.discI, metis hd_drop_conv_nth drop_all linorder_not_le list.discI list.sel(1),
        metis drop_Suc tl_drop list.sel(3))
  have t: "tupleGet q (word_of_nat n) xs (word_of_nat (length xs)) fr = Inr (projr (w v))"
    using n(1,2) "1.prems"(4)
    by (simp add: tupleGet_def word_le_nat_alt unsigned_of_nat take_bit_nat_eq_self)
  have "deserializeFromTuple qs' rs olds' (word_of_nat (Suc n)) (JArray xs) fr = Inr vs"
    by (rule "1.IH") (use "1.prems" n(3) q in auto)
  with "1.prems"(1,2) r t q(1,2) show ?case by (simp add: Let_def add.commute)
qed auto

lemma int_bounds_mono:
  assumes "in_range s b i" "1 \<le> b" "b \<le> 64"
  shows "s \<Longrightarrow> - (2 ^ 63) \<le> i \<and> i < 2 ^ 63" and "\<not> s \<Longrightarrow> 0 \<le> i \<and> i < 2 ^ 64"
proof -
  have p: "(2::int) ^ (b - 1) \<le> 2 ^ 63" "(2::int) ^ b \<le> 2 ^ 64"
    using assms(2,3) power_increasing [of "b - 1" 63 "2::int"] power_increasing [of b 64 "2::int"] by simp_all
  show "s \<Longrightarrow> - (2 ^ 63) \<le> i \<and> i < 2 ^ 63" and "\<not> s \<Longrightarrow> 0 \<le> i \<and> i < 2 ^ 64"
    using assms(1) p by (simp_all add: in_range_def int_min_def int_max_def)
qed

lemma int_carried:
  assumes "in_range s b i" "1 \<le> b" "b \<le> 64"
  shows "from_int s b (into_int s i) fr = Inr i"
proof (cases s)
  case True
  have "sint (word_of_int i :: u64) = i"
    using int_bounds_mono(1) [OF assms True] by (simp add: signed_of_int signed_take_bit_int_eq_self)
  with True show ?thesis
    using from_int_correct [OF assms(2,3), of "into_int s i" i "word_of_int i" 0] assms(1)
    by (simp add: into_int_def)
next
  case False
  have "uint (word_of_int i :: u64) = i"
    using int_bounds_mono(2) [OF assms False] by (simp add: unsigned_of_int take_bit_int_eq_self)
  with False show ?thesis
    using from_int_correct [OF assms(2,3), of "into_int s i" i 0 "word_of_int i"] assms(1)
    by (simp add: into_int_def)
qed

lemma enum_carried:
  assumes "sound_enum d" "storable_enum d i"
  shows "\<exists>j. into_enum d i = Inr j \<and> (\<forall>fr. from_enum d j fr = Inr i)"
proof (cases "eas_int d")
  case None
  with assms(2) show ?thesis
    by (auto simp: storable_enum_def into_enum_def from_enum_def from_text_def text_view_short)
next
  case (Some validate)
  then show ?thesis
    using assms int_carried [of "esigned d" "ebits d" i]
    by (auto simp: storable_enum_def sound_enum_def into_enum_def from_enum_def)
qed

lemma into_not_null: "never_null T \<Longrightarrow> into T v = Inr j \<Longrightarrow> \<not> Is j t_null"
  by (cases T) (auto simp: into_int_def into_enum_def serializeAsTuple_def JsonView_obj_def Is_def t_defs
      text_view_def into_vec_def into_map_def Let_def split: if_splits option.splits sum.splits)

lemma fields_carried_map:
  "list_all2 (\<lambda>f v. storable (snd f) v \<and> accepts (fvalidator (fst f)) v) fs vs \<Longrightarrow>
     (\<And>f t v. (f, t) \<in> set fs \<Longrightarrow> storable t v \<Longrightarrow> carried (has_type t) (into t) (from_json t) v) \<Longrightarrow>
     fields_carried (map (\<lambda>f. has_type (snd f)) fs) (map (map_prod id into) fs) (map (map_prod id from_json) fs) vs"
proof (induction fs arbitrary: vs)
  case (Cons p fs)
  obtain f t where p: "p = (f, t)" by (cases p)
  from Cons.prems(1) obtain v vs' where vs: "vs = v # vs'" "storable t v" "accepts (fvalidator f) v"
    "list_all2 (\<lambda>f v. storable (snd f) v \<and> accepts (fvalidator (fst f)) v) fs vs'"
    by (auto simp: p list_all2_Cons1)
  from Cons.IH [OF vs(4)] Cons.prems(2) [of f t v] vs p Cons.prems(2) show ?case by auto
qed auto

text \<open>The two forms of a struct, given its fields.\<close>

lemma struct_carried:
  assumes "fields_carried Ps ws rs vs" "distinct (map (\<lambda>f. fname (fst f)) ws)"
  shows "\<exists>ob. into_fields ws vs [] = Inr ob \<and>
    (\<forall>qs olds fr. length qs = length ws \<longrightarrow> list_all2 (\<lambda>P v. P v) Ps olds \<longrightarrow>
       deserializeFields qs rs olds (JObject ob) fr = Inr vs)"
proof -
  let ?kvs = "zip (map (\<lambda>f. fname (fst f)) ws) (outs ws vs)"
  let ?ob = "foldl (\<lambda>acc (k, v). SortedInsertJson acc k v) [] ?kvs"
  note l = fields_carried_length [OF assms(1)]
  have "map fst ?kvs = map (\<lambda>f. fname (fst f)) ws" using l by simp
  then have "distinct (map fst ?kvs)" using assms(2) by simp
  then have d: "distinct (map fst (rev ?kvs))" by (simp only: rev_map [symmetric] distinct_rev)
  have "\<forall>p \<in> set ?kvs. object_find ?ob (fst p) = Some (snd p)"
  proof
    fix p assume "p \<in> set ?kvs"
    then have "map_of (rev ?kvs) (fst p) = Some (snd p)"
      by (simp only: map_of_eq_Some_iff [OF d] set_rev prod.collapse)
    then show "object_find ?ob (fst p) = Some (snd p)" by (simp only: ob.look_inserts)
  qed
  from read_fields_carried [OF assms(1) this] show ?thesis
    using into_fields_carried [OF assms(1)] l by auto
qed

lemma tuple_struct_carried:
  assumes "fields_carried Ps ws rs vs" "\<forall>f \<in> set ws. findex (fst f) = None" "length ws < 2 ^ 32"
  shows "\<exists>xs. serializeAsTuple ws vs = Inr (JArray xs) \<and>
    (\<forall>qs olds fr. length qs = length ws \<longrightarrow> list_all2 (\<lambda>P v. P v) Ps olds \<longrightarrow>
       deserializeFromTuple qs rs olds 0 (JArray xs) fr = Inr vs)"
  using into_slots_carried [OF assms(1,2), of "[]"] maxIdxFor_plain [OF assms(2)]
    read_tuple_carried [OF assms(1,2), of 0 "outs ws vs"] fields_carried_length [OF assms(1)] assms(3)
  by (simp add: serializeAsTuple_def)

lemma convert_carried: "sound T \<Longrightarrow> plain T \<Longrightarrow> storable T v \<Longrightarrow> carried (has_type T) (into T) (from_json T) v"
proof (induction T arbitrary: v rule: cty_induct)
  case (Int s b)
  then show ?case using int_carried [of s b] by (auto simp: carried_def split: cval.splits)
next
  case (Text)
  then show ?case by (auto simp: carried_def from_text_def text_view_short split: cval.splits)
next
  case (Pair a b)
  then obtain x y where v: "v = VPair x y" "carried (has_type a) (into a) (from_json a) x"
    "carried (has_type b) (into b) (from_json b) y"
    by (auto split: cval.splits)
  then obtain jx jy where "into a x = Inr jx" "into b y = Inr jy"
    "\<And>old fr. has_type a old \<Longrightarrow> from_json a old jx fr = Inr x"
    "\<And>old fr. has_type b old \<Longrightarrow> from_json b old jy fr = Inr y"
    unfolding carried_def by blast
  then show ?case
    unfolding v(1) carried_def
    by (intro exI [of _ "JArray [jx, jy]"])
      (auto simp: from_array_def AssertType_def Is_def t_defs split: cval.splits)
next
  case (Opt t)
  show ?case
  proof (cases v)
    case (VOpt x)
    show ?thesis
    proof (cases x)
      case None
      then show ?thesis using VOpt by (auto simp: carried_def Is_def t_defs)
    next
      case (Some y)
      with Opt VOpt have "carried (has_type t) (into t) (from_json t) y" by simp
      then obtain j where "into t y = Inr j" "\<And>fr. from_json t (dflt t) j fr = Inr y"
        using sound_dflt [of t] Opt.prems(1) by (auto simp: carried_def)
      then show ?thesis
        using VOpt Some into_not_null [of t y j] Opt.prems(2) by (auto simp: carried_def)
    qed
  qed (use Opt.prems in auto)
next
  case (Vec t)
  then obtain vs where v: "v = VVec vs" "list_all (carried (has_type t) (into t) (from_json t)) vs" "length vs < 2 ^ 32"
    by (auto simp: list_all_iff split: cval.splits)
  from elems_carried [OF v(2) sound_dflt] Vec.prems(1) obtain js where
    "into_elems (into t) vs = Inr js" "\<And>i fr. from_elems (from_json t) (dflt t) js i fr = Inr vs" by auto
  then show ?case
    using v(1,3) by (auto simp: carried_def from_array_def AssertType_def Is_def t_defs)
next
  case (Map t)
  then obtain kvs where v: "v = VMap kvs" "sorted_keys kvs"
    "list_all (\<lambda>p. carried (has_type t) (into t) (from_json t) (snd p)) kvs" "length kvs < 2 ^ 32"
    by (auto simp: list_all_iff split: cval.splits)
  from members_carried [OF v(3) sound_dflt] Map.prems(1) obtain js where
    js: "into_members (into t) kvs = Inr js" "map fst js = map fst kvs"
      "\<And>fr. from_members (from_json t) (dflt t) js fr = Inr kvs" by auto
  then have "JsonView_obj (sort_key fst) js = JObject js"
    using v(2) JsonView_obj_distinct [OF sorts_sort_key, of js] ob.inserts_mono [of js] sorted_keys_distinct [of js]
    by simp
  then show ?case
    using v(1,4) js by (auto simp: carried_def from_object_def AssertType_def Is_def t_defs)
next
  case (Enum d)
  then show ?case using enum_carried [of d] by (fastforce simp: carried_def split: cval.splits)
next
  case (Struct d fs)
  let ?ws = "map (map_prod id into) fs" and ?rs = "map (map_prod id from_json) fs"
  let ?Ps = "map (\<lambda>f. has_type (snd f)) fs" and ?qs = "map (\<lambda>f. isRequired d (snd f)) fs"
  obtain vs where vs: "v = VStruct vs" "accepts (svalidator d) v"
    "list_all2 (\<lambda>f v. storable (snd f) v \<and> accepts (fvalidator (fst f)) v) fs vs"
    using Struct.prems(3) by (auto simp: list_all2_map1 split: cval.splits)
  have "carried (has_type t) (into t) (from_json t) x" if "(f, t) \<in> set fs" "storable t x" for f t x
    by (rule Struct.IH [OF that(1) _ _ that(2)]) (use that(1) Struct.prems(1,2) in \<open>auto simp: list_all_iff\<close>)
  from fields_carried_map [OF vs(3) this] have c: "fields_carried ?Ps ?ws ?rs vs" .
  have d: "distinct (map (\<lambda>f. fname (fst f)) ?ws)" "length ?ws < 2 ^ 32"
    "as_tuple d \<Longrightarrow> \<forall>f \<in> set ?ws. findex (fst f) = None"
    using Struct.prems(2) by (auto simp: comp_def)
  have T: "\<exists>olds. old = VStruct olds \<and> list_all2 (\<lambda>P v. P v) ?Ps olds" if "has_type (TStruct d fs) old" for old
    using that by (cases old) (auto simp: list_all2_map1)
  show ?case
  proof (cases "as_tuple d")
    case True
    from tuple_struct_carried [OF c d(3) [OF True] d(2)] obtain xs where
      "serializeAsTuple ?ws vs = Inr (JArray xs)"
      "\<And>olds fr. list_all2 (\<lambda>P v. P v) ?Ps olds \<Longrightarrow> deserializeFromTuple ?qs ?rs olds 0 (JArray xs) fr = Inr vs"
      by auto
    then show ?thesis
      unfolding carried_def using True vs(1,2)
      by (intro exI [of _ "JArray xs"]) (auto simp: AssertType_def Is_def t_defs Let_def dest!: T simp del: has_type.simps)
  next
    case False
    from struct_carried [OF c d(1)] obtain ob where
      "into_fields ?ws vs [] = Inr ob"
      "\<And>olds fr. list_all2 (\<lambda>P v. P v) ?Ps olds \<Longrightarrow> deserializeFields ?qs ?rs olds (JObject ob) fr = Inr vs"
      by auto
    then show ?thesis
      unfolding carried_def using False vs(1,2)
      by (intro exI [of _ "JObject ob"]) (auto simp: AssertType_def Is_def t_defs Let_def dest!: T simp del: has_type.simps)
  qed
qed (auto simp: carried_def from_bool_def from_double_def split: cval.splits)

subsection \<open>Static views stay in their storage\<close>

definition viewer_ok :: "(cval \<Rightarrow> bool) \<Rightarrow> nat \<Rightarrow> static_viewer \<Rightarrow> bool" where
  "viewer_ok P n view \<longleftrightarrow> (\<forall>v base consumed j consumed' slots. P v \<longrightarrow> view v base consumed = Inr (j, consumed', slots) \<longrightarrow>
     consumed' = consumed + n \<and> distinct slots \<and> set slots \<subseteq> {base ..< base + n})"

text \<open>
  The fields' own slots are the first ones of the struct; what they consume lies behind all of them.
\<close>

lemma static_fields_ok:
  "static_fields amount base fs vs n consumed = Inr (kvs, consumed', slots) \<Longrightarrow>
     list_all2 (\<lambda>p f. viewer_ok (fst p) (snd p) (snd f)) ns fs \<Longrightarrow> list_all2 (\<lambda>p v. fst p v) ns vs \<Longrightarrow> n + length fs \<le> amount \<Longrightarrow>
     consumed' = consumed + sum_list (map snd ns) \<and> distinct slots \<and>
     set slots \<subseteq> {base + n ..< base + n + length fs} \<union> {base + amount + consumed ..< base + amount + consumed'}"
proof (induction amount base fs vs n consumed arbitrary: ns kvs consumed' slots rule: static_fields.induct)
  case (1 amount base f view fs v vs n consumed)
  from "1.prems"(2,3) obtain P k ns' where ns: "ns = (P, k) # ns'" "viewer_ok P k view" "P v"
    "list_all2 (\<lambda>p f. viewer_ok (fst p) (snd p) (snd f)) ns' fs" "list_all2 (\<lambda>p v. fst p v) ns' vs"
    by (auto simp: list_all2_Cons2)
  from "1.prems"(1) obtain j c1 s1 kvs' s2 where
    v: "view v (base + amount + consumed) consumed = Inr (j, c1, s1)"
    and r: "static_fields amount base fs vs (Suc n) c1 = Inr (kvs', consumed', s2)"
    and s: "slots = (base + n) # s1 @ s2"
    by (auto split: sum.splits)
  have 1: "c1 = consumed + k" "distinct s1"
    "set s1 \<subseteq> {base + amount + consumed ..< base + amount + consumed + k}"
    using ns(2,3) v by (auto simp: viewer_ok_def)
  have 2: "consumed' = c1 + sum_list (map snd ns')" "distinct s2"
    "set s2 \<subseteq> {base + Suc n ..< base + Suc n + length fs} \<union> {base + amount + c1 ..< base + amount + consumed'}"
    using "1.IH" [OF v refl refl r ns(4,5)] "1.prems"(4) by auto
  have n: "n + Suc (length fs) \<le> amount" using "1.prems"(4) by simp
  have "set s1 \<inter> set s2 = {}" "base + n \<notin> set s1" "base + n \<notin> set s2"
    using 1 2 n by fastforce+
  moreover have "set s1 \<subseteq> {base + amount + consumed ..< base + amount + consumed'}"
    using 1 2(1) by fastforce
  moreover have "set s2 \<subseteq> {base + n ..< base + n + Suc (length fs)} \<union> {base + amount + consumed ..< base + amount + consumed'}"
    using 1(1) 2(3) by fastforce
  ultimately show ?case using 1 2 by (auto simp: s ns(1))
qed auto

lemma static_leaf_ok: "viewer_ok P 0 (static_leaf f)"
  by (auto simp: viewer_ok_def static_leaf_def)

lemma static_leaf_member: "static_leaf f v base consumed = Inr (j, consumed', slots) \<longleftrightarrow>
    f v = Inr j \<and> consumed' = consumed \<and> slots = []"
  by (auto simp: static_leaf_def)

lemma staticView_ok: "viewer_ok (has_type T) (static_objects T) (staticView T)"
proof (induction T rule: cty_induct)
  case (Struct d fs)
  let ?ns = "map (\<lambda>f. (has_type (snd f), static_objects (snd f))) fs"
  have v: "list_all2 (\<lambda>p f. viewer_ok (fst p) (snd p) (snd f)) ?ns (map (map_prod id staticView) fs)"
    using Struct by (auto simp: list_all2_map1 list_all2_map2 list_all2_same)
  have sl: "static_objects (TStruct d fs) = length fs + sum_list (map snd ?ns)"
    by (induction fs) (auto simp: comp_def)
  show ?case
    unfolding viewer_ok_def
  proof (intro allI impI)
    fix x base consumed j consumed' slots
    assume t: "has_type (TStruct d fs) x" and r: "staticView (TStruct d fs) x base consumed = Inr (j, consumed', slots)"
    obtain vs where vs: "x = VStruct vs" "list_all2 (\<lambda>p v. fst p v) ?ns vs"
      using t by (cases x) (auto simp: list_all2_map1)
    from r obtain kvs cur where c: "static_fields (length fs) base (map (map_prod id staticView) fs) vs 0 0 = Inr (kvs, cur, slots)"
      "consumed' = consumed + length fs + cur"
      by (auto simp: vs(1) Let_def)
    from static_fields_ok [OF c(1) v vs(2)] show "consumed' = consumed + static_objects (TStruct d fs) \<and> distinct slots \<and>
        set slots \<subseteq> {base ..< base + static_objects (TStruct d fs)}"
      unfolding sl c(2) by fastforce
  qed
qed (simp_all add: static_leaf_ok)

text \<open>A static view is the document \<^verbatim>\<open>From\<close> makes, for structs that are not written as tuples.\<close>

primrec flat_structs :: "cty \<Rightarrow> bool" where
  "flat_structs TView = True"
| "flat_structs TBool = True"
| "flat_structs (TInt s b) = True"
| "flat_structs TDouble = True"
| "flat_structs TText = True"
| "flat_structs (TTuple ts) = True"
| "flat_structs (TPair a b) = True"
| "flat_structs (TOpt t) = True"
| "flat_structs (TVec t) = True"
| "flat_structs (TMap t) = True"
| "flat_structs (TEnum d) = True"
| "flat_structs (TStruct d fs) =
     (\<not> as_tuple d \<and> distinct (map (\<lambda>f. fname (fst f)) fs) \<and> list_all snd (map (map_prod id flat_structs) fs))"

lemma null_from_into: "null_from T v = Inr j \<Longrightarrow> into T v = Inr j"
proof (induction T arbitrary: v j rule: cty_induct)
  case (Opt t)
  then show ?case by (auto split: option.splits)
qed (auto simp: JsonView_obj_def sort_key_def split: if_splits)

definition views_as :: "static_viewer \<Rightarrow> writer \<Rightarrow> bool" where
  "views_as view w \<longleftrightarrow> (\<forall>v base consumed j consumed' slots. view v base consumed = Inr (j, consumed', slots) \<longrightarrow> w v = Inr j)"

lemma static_fields_into:
  "static_fields amount base fs vs n consumed = Inr (kvs, consumed', slots) \<Longrightarrow>
     list_all2 (\<lambda>f g. fst g = fst f \<and> views_as (snd f) (snd g)) fs ws \<Longrightarrow>
     into_fields ws vs ob = Inr (foldl (\<lambda>acc (k, v). SortedInsertJson acc k v) ob kvs) \<and>
     (\<exists>m. map fst kvs = take m (map (\<lambda>f. fname (fst f)) fs))"
proof (induction amount base fs vs n consumed arbitrary: ws kvs consumed' slots ob rule: static_fields.induct)
  case (1 amount base f view fs v vs n consumed)
  from "1.prems"(2) obtain w ws' where ws: "ws = (f, w) # ws'" "views_as view w"
    "list_all2 (\<lambda>f g. fst g = fst f \<and> views_as (snd f) (snd g)) fs ws'"
    by (auto simp: list_all2_Cons1)
  from "1.prems"(1) obtain j c1 s1 kvs' s2 where
    v: "view v (base + amount + consumed) consumed = Inr (j, c1, s1)"
    and r: "static_fields amount base fs vs (Suc n) c1 = Inr (kvs', consumed', s2)"
    and s: "kvs = (fname f, j) # kvs'"
    by (auto split: sum.splits)
  have "w v = Inr j" using ws(2) v unfolding views_as_def by blast
  moreover from "1.IH" [OF v refl refl r ws(3)] obtain m where
    "\<And>ob. into_fields ws' vs ob = Inr (foldl (\<lambda>acc (k, v). SortedInsertJson acc k v) ob kvs')"
    "map fst kvs' = take m (map (\<lambda>f. fname (fst f)) fs)" by metis
  ultimately show ?case by (auto simp: s ws(1) intro: exI [of _ "Suc m"])
next
  case "2_1"
  then show ?case by (auto intro: exI [of _ 0])
next
  case "2_2"
  then show ?case by (auto intro: exI [of _ 0])
qed

lemma static_leaf_views: "views_as (static_leaf (null_from T)) (into T)"
  unfolding views_as_def using static_leaf_member null_from_into by blast

lemma staticView_into: "flat_structs T \<Longrightarrow> views_as (staticView T) (into T)"
proof (induction T rule: cty_induct)
  case (Struct d fs)
  let ?vs = "map (map_prod id staticView) fs" and ?ws = "map (map_prod id into) fs"
  have l: "list_all2 (\<lambda>f g. fst g = fst f \<and> views_as (snd f) (snd g)) ?vs ?ws"
    using Struct by (auto simp: list_all2_map1 list_all2_map2 list_all2_same list_all_iff)
  show ?case
    unfolding views_as_def
  proof (intro allI impI)
    fix x base consumed j consumed' slots
    assume "staticView (TStruct d fs) x base consumed = Inr (j, consumed', slots)"
    then obtain kvs c where c: "static_fields (length fs) base ?vs (val_list x) 0 0 = Inr (kvs, c, slots)"
      "j = JsonView_obj (sort_key fst) kvs"
      by (auto simp: Let_def)
    from static_fields_into [OF c(1) l, of "[]"] obtain m where
      i: "into_fields ?ws (val_list x) [] = Inr (foldl (\<lambda>acc (k, v). SortedInsertJson acc k v) [] kvs)"
        "map fst kvs = take m (map (\<lambda>f. fname (fst f)) fs)"
      by (auto simp: comp_def)
    then have "distinct (map fst kvs)" using Struct.prems by (simp add: distinct_take)
    then show "into (TStruct d fs) x = Inr j"
      using Struct.prems i(1) c(2) JsonView_obj_distinct [OF sorts_sort_key, of kvs] by simp
  qed
qed (simp_all only: staticView.simps static_leaf_views)

subsection \<open>Limits of the conversions\<close>

text \<open>
  A \<^verbatim>\<open>std::tuple\<close> never reads back what it wrote: the reader wants more elements than the tuple has.
\<close>

lemma into_list_length: "into_list ws vs = Inr js \<Longrightarrow> length js \<le> length ws"
  by (induction ws vs arbitrary: js rule: into_list.induct) (auto split: sum.splits)

lemma tuple_never_reads_back:
  assumes "into (TTuple ts) v = Inr j" "length ts < 2 ^ 32"
  shows "\<exists>trace sz. from_json (TTuple ts) old j fr = Inl (IndexError trace (word_of_nat (length ts)) sz)"
proof -
  obtain js where j: "j = JArray js" "into_list (map into ts) (val_list v) = Inr js" using assms(1) by auto
  have "length js \<le> length ts" using into_list_length [OF j(2)] by simp
  then have "(word_of_nat (length js) :: u32) \<le> word_of_nat (length ts)"
    using assms(2) by (simp add: word_le_nat_alt unsigned_of_nat take_bit_nat_eq_self)
  then show ?thesis by (simp add: j(1) from_array_def AssertType_def Is_def t_defs throwIndexError_def)
qed

text \<open>
  A struct written as a tuple: an explicit index as large as the number of fields is written behind
  the array, and the explicit index 0 counts as none.
\<close>

definition idx_field :: "string \<Rightarrow> u32 option \<Rightarrow> field_desc" where
  "idx_field n i = \<lparr>fname = n, findex = i, fvalidator = None, fdefault = VBool False\<rparr>"

definition tuple_desc :: struct_desc where
  "tuple_desc = \<lparr>sname = ''T'', as_tuple = True, skip_missing = False, svalidator = None\<rparr>"

lemma tuple_index_out_of_bounds:
  "into (TStruct tuple_desc [(idx_field ''a'' (Some 1), TBool)]) (VStruct [VBool True]) = Inl (BadWrite 1)"
  by (simp add: tuple_desc_def idx_field_def serializeAsTuple_def maxIdxFor_def getIdxFor_def)

lemma tuple_index_zero_ignored:
  "into (TStruct tuple_desc [(idx_field ''a'' (Some 1), TBool), (idx_field ''b'' (Some 0), TBool)])
     (VStruct [VBool True, VBool False]) = Inl (Unset 0)"
  by (simp add: tuple_desc_def idx_field_def serializeAsTuple_def maxIdxFor_def getIdxFor_def)

text \<open>A string of 32 bits and one more is cut to one character.\<close>

lemma long_string_is_cut: "length s = 2 ^ 32 + 1 \<Longrightarrow> into TText (VText s) = Inr (JString (take 1 s))"
  by (simp add: text_view_def unsigned_of_nat take_bit_eq_mod)

text \<open>In a tuple, \<^verbatim>\<open>SkipMissing\<close> makes a missing element a null, which most types refuse.\<close>

lemma tuple_skip_missing_fails:
  "from_json (TStruct (tuple_desc\<lparr>skip_missing := True\<rparr>) [(idx_field ''a'' None, TBool)]) (VStruct [VBool True]) (JArray []) RootFrame =
     Inl (TypeMissmatch (exc_trace (Frame (KStr ''a'') RootFrame)) t_boolean t_null)"
  by (simp add: tuple_desc_def idx_field_def AssertType_def Is_def t_defs tupleGet_def isRequired_def Let_def
      from_bool_def throwMissmatch_def)

subsection \<open>Properties\<close>

text \<open>A described struct with a field of most kinds, for the examples.\<close>

definition sample_field :: "string \<Rightarrow> cval \<Rightarrow> field_desc" where
  "sample_field n d = \<lparr>fname = n, findex = None, fvalidator = None, fdefault = d\<rparr>"

definition color :: enum_desc where
  "color = \<lparr>ename = ''Color'', esigned = True, ebits = 32, eas_int = None, efallback = None, evalues = [0, 1],
     enum_to_name = map_of [(0, ''red''), (1, ''green'')], name_to_enum = map_of [(''red'', 0), (''green'', 1)]\<rparr>"

definition sample :: cty where
  "sample = TStruct \<lparr>sname = ''Sample'', as_tuple = False, skip_missing = False, svalidator = None\<rparr>
     [(sample_field ''size'' (VInt 0), TInt True 32), (sample_field ''color'' (VEnum 0), TEnum color),
      (sample_field ''tags'' (VVec []), TVec TText), (sample_field ''next'' (VOpt None), TOpt TDouble)]"

definition sample_value :: cval where
  "sample_value = VStruct [VInt (- 5), VEnum 1, VVec [VText ''x''], VOpt None]"

lemma sample_ok: "sound sample" "plain sample" "storable sample sample_value" "has_type sample sample_value"
proof -
  have c: "sound_enum color"
    by (auto simp: sound_enum_def color_def in_range_def int_min_def int_max_def split: if_splits)
  show "sound sample"
    by (simp add: sample_def sample_field_def keeps_type_def c)
  show "plain sample" "storable sample sample_value" "has_type sample sample_value"
    by (simp_all add: sample_def sample_value_def sample_field_def accepts_def storable_enum_def color_def
        in_range_def int_min_def int_max_def)
qed

text \<open>
  C16: the round trip of the conversions: for every type built from booleans, integers of up to 64
  bits, doubles, strings, views, enums, optionals of what is never null, pairs, vectors, maps and
  described structs (as objects or as tuples without explicit indices, with validators), but without
  \<^verbatim>\<open>std::tuple\<close>, a storable value is written without an exception and without a stray write, and every
  object of the type that reads the document becomes that value. Storable: every string and container
  is shorter than 32 bits can count, enums have names, validators leave the value alone.
\<close>

theorem Convert_roundtrip:
  assumes "sound T" "plain T" "storable T v"
  shows "\<exists>j. into T v = Inr j \<and> (\<forall>old fr. has_type T old \<longrightarrow> from_json T old j fr = Inr v)"
  using convert_carried [OF assms] by (simp add: carried_def)

theorem Convert_roundtrip_witness:
  "\<exists>j. into sample sample_value = Inr j \<and> from_json sample sample_value j RootFrame = Inr sample_value"
  using Convert_roundtrip [OF sample_ok(1-3)] sample_ok(4) by blast

text \<open>
  an integer is read exactly when it lies in the range of the target type, from either of the
  two integer forms of a document and for every width up to 64 bits; otherwise the exception
  carries the bounds.
\<close>

theorem intChecked_exact:
  assumes "1 \<le> b" "b \<le> 64" "(j, n) \<in> {(JSigned i, sint i), (JUnsigned u, uint u)}"
  shows "from_json (TInt s b) old j fr =
    (if int_min s b \<le> n \<and> n \<le> int_max s b then Inr (VInt n)
     else Inl (throwIntRangeError j (word_of_int (int_min s b)) (word_of_int (int_max s b)) fr))"
  using from_int_correct [OF assms] by (simp add: in_range_def)

theorem intChecked_exact_witness:
  "from_json (TInt True 8) (VInt 0) (JUnsigned 128) RootFrame =
     Inl (throwIntRangeError (JUnsigned 128) (- 128) 127 RootFrame)"
  using intChecked_exact [of 8 "JUnsigned 128" 128 0 128 True "VInt 0" RootFrame]
  by (simp add: int_min_def int_max_def)

text \<open>
  a static view never leaves its storage: setting it up writes every slot at most once, all of
  them inside the array that \<^verbatim>\<open>ComputeStaticStorage\<close> sizes, and for structs that are not written as
  tuples the view is the document that \<^verbatim>\<open>JsonView::From\<close> would allocate.
\<close>

theorem StaticJsonView_in_storage:
  assumes "has_type T v" "StaticJsonView_Setup T v = Inr (j, slots)"
  shows "distinct slots \<and> set slots \<subseteq> {0 ..< static_objects T} \<and> (flat_structs T \<longrightarrow> into T v = Inr j)"
proof -
  obtain c where c: "staticView T v 0 0 = Inr (j, c, slots)"
    using assms(2) by (auto simp: StaticJsonView_Setup_def)
  from staticView_ok [of T] assms(1) c have "distinct slots" "set slots \<subseteq> {0 ..< static_objects T}"
    by (fastforce simp: viewer_ok_def)+
  moreover have "into T v = Inr j" if "flat_structs T"
    using staticView_into [OF that] c unfolding views_as_def by blast
  ultimately show ?thesis by blast
qed

definition nested_sample :: cty where
  "nested_sample = TStruct (tuple_desc\<lparr>as_tuple := False\<rparr>)
     [(sample_field ''b'' (VBool False), TBool),
      (sample_field ''p'' (VStruct [VInt 0]),
         TStruct (tuple_desc\<lparr>as_tuple := False\<rparr>) [(sample_field ''x'' (VInt 0), TInt True 32)])]"

theorem StaticJsonView_in_storage_witness:
  "\<exists>j. StaticJsonView_Setup nested_sample (VStruct [VBool True, VStruct [VInt 4]]) = Inr (j, [0, 1, 2]) \<and>
     into nested_sample (VStruct [VBool True, VStruct [VInt 4]]) = Inr j"
proof -
  have t: "has_type nested_sample (VStruct [VBool True, VStruct [VInt 4]])" "flat_structs nested_sample"
    by (simp_all add: nested_sample_def tuple_desc_def sample_field_def in_range_def int_min_def int_max_def)
  obtain j where "StaticJsonView_Setup nested_sample (VStruct [VBool True, VStruct [VInt 4]]) = Inr (j, [0, 1, 2])"
    by (simp add: StaticJsonView_Setup_def nested_sample_def static_leaf_def Let_def)
  then show ?thesis using StaticJsonView_in_storage [OF t(1)] t(2) by blast
qed

end
