(* ===== verification/Convert_Reads.thy ===== *)
theory Convert_Reads
  imports Convert_Laws
begin

text \<open>
  What reading means, without frames, counters and the order of the steps: a relation between the
  object read into, the document and the value left, by recursion on the type. The reader of
  \<^verbatim>\<open>Json_Convert\<close> returns a value exactly when the relation holds.
\<close>

subsection \<open>The relation\<close>

fun number_of :: "json \<Rightarrow> int option" where
  "number_of (JSigned i) = Some (sint i)"
| "number_of (JUnsigned u) = Some (uint u)"
| "number_of _ = None"

definition validated :: "validator option \<Rightarrow> cval \<Rightarrow> cval \<Rightarrow> bool" where
  "validated val x y \<longleftrightarrow> (case val of None \<Rightarrow> y = x | Some f \<Rightarrow> f x = Inr y)"

definition reads_double :: "json \<Rightarrow> u64 \<Rightarrow> bool" where
  "reads_double j d \<longleftrightarrow> (case j of JNumber e \<Rightarrow> d = e | _ \<Rightarrow> map_option int_to_double (number_of j) = Some d)"

definition reads_enum :: "enum_desc \<Rightarrow> json \<Rightarrow> int \<Rightarrow> bool" where
  "reads_enum d j i \<longleftrightarrow>
     (case eas_int d of
        Some validate \<Rightarrow> number_of j = Some i \<and> in_range (esigned d) (ebits d) i \<and> (validate \<longrightarrow> i \<in> set (evalues d))
      | None \<Rightarrow> (\<exists>n. j = JString n \<and>
          (case name_to_enum d n of Some k \<Rightarrow> i = k | None \<Rightarrow> efallback d = Some i)))"

type_synonym reads_rel = "cval \<Rightarrow> json \<Rightarrow> cval \<Rightarrow> bool"

text \<open>
  One field: a missing member that is not required keeps the old value; in a tuple a missing element is
  read as null, and an explicit index replaces the position, a 32 bit counter.
\<close>

definition reads_member :: "bool \<Rightarrow> field_desc \<Rightarrow> reads_rel \<Rightarrow> json_pair list \<Rightarrow> cval \<Rightarrow> cval \<Rightarrow> bool" where
  "reads_member required f R ob old y \<longleftrightarrow>
     (\<exists>x. (case map_of ob (fname f) of Some j \<Rightarrow> R old j x | None \<Rightarrow> \<not> required \<and> x = old) \<and>
       validated (fvalidator f) x y)"

definition reads_slot :: "bool \<Rightarrow> field_desc \<Rightarrow> reads_rel \<Rightarrow> json list \<Rightarrow> nat \<Rightarrow> cval \<Rightarrow> cval \<Rightarrow> bool" where
  "reads_slot required f R xs k old y \<longleftrightarrow>
     (let i = (case findex f of Some i \<Rightarrow> unat i | None \<Rightarrow> k mod 2 ^ 32) in
      \<exists>x. (if i < length xs then R old (xs ! i) x else \<not> required \<and> R old JNull x) \<and> validated (fvalidator f) x y)"

primrec reads :: "cty \<Rightarrow> reads_rel" where
  "reads TView = (\<lambda>old j v. v = VView j)"
| "reads TBool = (\<lambda>old j v. \<exists>b. j = JBool b \<and> v = VBool b)"
| "reads (TInt s b) = (\<lambda>old j v. \<exists>n. number_of j = Some n \<and> in_range s b n \<and> v = VInt n)"
| "reads TDouble = (\<lambda>old j v. \<exists>d. reads_double j d \<and> v = VDouble d)"
| "reads TText = (\<lambda>old j v. \<exists>s. j = JString s \<and> v = VText s)"
| "reads (TTuple ts) = (\<lambda>old j v. \<exists>xs vs. j = JArray xs \<and> v = VTuple vs \<and> length ts < length xs \<and>
     length vs = length ts \<and> (\<forall>k < length ts. (map reads ts ! k) (val_list old ! k) (xs ! k) (vs ! k)))"
| "reads (TPair a b) = (\<lambda>old j v. \<exists>xs x y. j = JArray xs \<and> v = VPair x y \<and> 2 \<le> length xs \<and>
     reads a (val_list old ! 0) (xs ! 0) x \<and> reads b (val_list old ! 1) (xs ! 1) y)"
| "reads (TOpt t) = (\<lambda>old j v. if j = JNull then v = VOpt None else \<exists>x. v = VOpt (Some x) \<and> reads t (dflt t) j x)"
| "reads (TVec t) = (\<lambda>old j v. \<exists>xs vs. j = JArray xs \<and> v = VVec vs \<and> list_all2 (reads t (dflt t)) xs vs)"
| "reads (TMap t) = (\<lambda>old j v. \<exists>ob kvs. j = JObject ob \<and> v = VMap kvs \<and>
     list_all2 (\<lambda>p q. fst q = fst p \<and> reads t (dflt t) (snd p) (snd q)) ob kvs)"
| "reads (TEnum d) = (\<lambda>old j v. \<exists>i. reads_enum d j i \<and> v = VEnum i)"
| "reads (TStruct d fs) = (\<lambda>old j v. \<exists>ws. length ws = length fs \<and> validated (svalidator d) (VStruct ws) v \<and>
     (if as_tuple d then
        (\<exists>xs. j = JArray xs \<and> (\<forall>k < length fs. reads_slot (isRequired d (snd (fs ! k))) (fst (fs ! k))
           (snd (map (map_prod id reads) fs ! k)) xs k (val_list old ! k) (ws ! k)))
      else
        (\<exists>ob. j = JObject ob \<and> (\<forall>k < length fs. reads_member (isRequired d (snd (fs ! k))) (fst (fs ! k))
           (snd (map (map_prod id reads) fs ! k)) ob (val_list old ! k) (ws ! k)))))"

subsection \<open>The reader against the relation\<close>

definition exact :: "(cval \<Rightarrow> bool) \<Rightarrow> reads_rel \<Rightarrow> reader \<Rightarrow> bool" where
  "exact P R r \<longleftrightarrow> (\<forall>old j fr v. P old \<longrightarrow> wf_json j \<longrightarrow> (r old j fr = Inr v \<longleftrightarrow> R old j v))"

lemma exactI: "(\<And>old j fr v. P old \<Longrightarrow> wf_json j \<Longrightarrow> r old j fr = Inr v \<longleftrightarrow> R old j v) \<Longrightarrow> exact P R r"
  by (simp add: exact_def)

lemma exactD: "exact P R r \<Longrightarrow> P old \<Longrightarrow> wf_json j \<Longrightarrow> r old j fr = Inr v \<longleftrightarrow> R old j v"
  by (simp add: exact_def)

lemma exact_step:
  assumes "exact P R r" "P old" "wf_json j"
  obtains e where "r old j fr = Inl e" "\<And>u. \<not> R old j u" | w where "r old j fr = Inr w" "\<And>u. R old j u \<longleftrightarrow> u = w"
proof (cases "r old j fr")
  case (Inl e)
  then show ?thesis using exactD [OF assms, of fr] that(1) by auto
next
  case (Inr w)
  then show ?thesis using exactD [OF assms, of fr] that(2) by (metis sum.inject(2))
qed

lemma runValidator_Inr: "runValidator val x fr = Inr y \<longleftrightarrow> validated val x y"
  by (auto simp: runValidator_def validated_def split: option.split sum.split)

lemma from_int_number:
  assumes "1 \<le> b" "b \<le> 64"
  shows "from_int s b j fr = Inr n \<longleftrightarrow> number_of j = Some n \<and> in_range s b n"
proof (cases j)
  case (JSigned i)
  then show ?thesis using from_int_correct [OF assms, of j "sint i" i 0 s fr] by auto
next
  case (JUnsigned u)
  then show ?thesis using from_int_correct [OF assms, of j "uint u" 0 u s fr] by auto
qed (simp_all add: from_int_def)

lemma from_double_number: "from_double j fr = Inr d \<longleftrightarrow> reads_double j d"
  by (cases j) (auto simp: from_double_def reads_double_def)

lemma from_enum_number:
  assumes "sound_enum d"
  shows "from_enum d j fr = Inr i \<longleftrightarrow> reads_enum d j i"
proof (cases "eas_int d")
  case None
  then show ?thesis
    by (cases j) (auto simp: from_enum_def reads_enum_def from_text_def split: option.split)
next
  case (Some validate)
  have n: "from_int (esigned d) (ebits d) j fr = Inr i \<longleftrightarrow> number_of j = Some i \<and> in_range (esigned d) (ebits d) i" for i
    by (rule from_int_number) (use assms in \<open>auto simp: sound_enum_def\<close>)
  show ?thesis
  proof (cases "from_int (esigned d) (ebits d) j fr")
    case (Inl e)
    then show ?thesis using n [of i] Some by (auto simp: from_enum_def reads_enum_def)
  next
    case (Inr k)
    then show ?thesis using n [of i] n [of k] Some by (auto simp: from_enum_def reads_enum_def)
  qed
qed

lemma All_less_Suc_nth: "(\<forall>k < Suc n. Q k) \<longleftrightarrow> Q 0 \<and> (\<forall>k < n. Q (Suc k))"
  using All_less_Suc2 .

lemma ex_Cons_length: "(\<exists>ws. length ws = Suc n \<and> Q ws) \<longleftrightarrow> (\<exists>w ws. length ws = n \<and> Q (w # ws))"
  by (metis length_Suc_conv)

lemma from_elems_exact:
  assumes "exact P R r" "P fresh"
  shows "\<forall>x \<in> set xs. wf_json x \<Longrightarrow> from_elems r fresh xs i fr = Inr ws \<longleftrightarrow> list_all2 (R fresh) xs ws"
proof (induction xs arbitrary: i ws)
  case (Cons x xs)
  then have "wf_json x" by simp
  from exact_step [OF assms this, of "Frame (KIdx i) fr"] show ?case
    by cases (use Cons in \<open>cases ws; auto\<close>)+
qed auto

lemma from_members_exact:
  assumes "exact P R r" "P fresh"
  shows "\<forall>p \<in> set kvs. wf_json (snd p) \<Longrightarrow> from_members r fresh kvs fr = Inr ws \<longleftrightarrow>
    list_all2 (\<lambda>p q. fst q = fst p \<and> R fresh (snd p) (snd q)) kvs ws"
proof (induction kvs arbitrary: ws)
  case (Cons p kvs)
  obtain k x where p: "p = (k, x)" by (cases p)
  with Cons have "wf_json x" by simp
  from exact_step [OF assms this, of "Frame (KStr k) fr"] show ?case
    by cases (use Cons p in \<open>cases ws; auto\<close>)+
qed auto

lemma from_list_exact:
  assumes "list_all2 (\<lambda>(P, R) r. exact P R r) PRs rs" "list_all2 (\<lambda>(P, R) v. P v) PRs vs"
    "\<forall>x \<in> set xs. wf_json x" "length rs \<le> length xs"
  shows "from_list rs vs xs i fr = Inr ws \<longleftrightarrow>
    length ws = length rs \<and> (\<forall>k < length rs. snd (PRs ! k) (vs ! k) (xs ! k) (ws ! k))"
  using assms
proof (induction rs vs xs i fr arbitrary: PRs ws rule: from_list.induct)
  case (1 r rs v vs x xs i fr)
  then obtain P R PRs' where p: "PRs = (P, R) # PRs'" "exact P R r" "P v"
    "list_all2 (\<lambda>(P, R) r. exact P R r) PRs' rs" "list_all2 (\<lambda>(P, R) v. P v) PRs' vs"
    by (auto simp: list_all2_Cons2)
  have "wf_json x" using "1.prems"(3) by simp
  from exact_step [OF p(2,3) this, of "Frame (KIdx i) fr"] show ?case
  proof cases
    case 1
    then show ?thesis by (auto simp: p(1))
  next
    case (2 w)
    have ih: "from_list rs vs xs (i + 1) fr = Inr us \<longleftrightarrow>
        length us = length rs \<and> (\<forall>k < length rs. snd (PRs' ! k) (vs ! k) (xs ! k) (us ! k))" for us
      by (rule "1.IH" [OF 2(1) p(4,5)]) (use "1.prems" in auto)
    show ?thesis using 2 ih by (cases ws) (auto simp: p(1) All_less_Suc_nth)
  qed
qed (auto simp: list_all2_Cons1 list_all2_Cons2)

text \<open>One field of an object, and of a tuple, with its validator.\<close>

definition read_member :: "bool \<Rightarrow> field_desc \<Rightarrow> reader \<Rightarrow> cval \<Rightarrow> json \<Rightarrow> frame \<Rightarrow> jv_error + cval" where
  "read_member required f r v j fr =
     (let next = Frame (KStr (fname f)) fr in
      case (if required then
              (case At_key j (fname f) fr of Inl e \<Rightarrow> Inl e | Inr x \<Rightarrow> r v x next)
            else
              (case FindVal j (fname f) fr of
                 Inl e \<Rightarrow> Inl e | Inr None \<Rightarrow> Inr v | Inr (Some x) \<Rightarrow> r v x next)) of
        Inl e \<Rightarrow> Inl e | Inr w \<Rightarrow> runValidator (fvalidator f) w next)"

definition read_slot :: "bool \<Rightarrow> field_desc \<Rightarrow> reader \<Rightarrow> cval \<Rightarrow> u32 \<Rightarrow> json \<Rightarrow> frame \<Rightarrow> jv_error + cval" where
  "read_slot required f r v n j fr =
     (let index = (case findex f of Some i \<Rightarrow> i | None \<Rightarrow> n); next = Frame (KStr (fname f)) fr in
      case tupleGet required index (array_of j) (data_size j) fr of
        Inl e \<Rightarrow> Inl e
      | Inr x \<Rightarrow>
          (case r v x next of Inl e \<Rightarrow> Inl e | Inr w \<Rightarrow> runValidator (fvalidator f) w next))"

lemma deserializeFields_Cons:
  "deserializeFields (q # qs) ((f, r) # fs) (v # vs) j fr =
     (case read_member q f r v j fr of Inl e \<Rightarrow> Inl e | Inr w \<Rightarrow> map_sum id ((#) w) (deserializeFields qs fs vs j fr))"
  by (auto simp: read_member_def Let_def split: sum.split)

lemma deserializeFromTuple_Cons:
  "deserializeFromTuple (q # qs) ((f, r) # fs) (v # vs) n j fr =
     (case read_slot q f r v n j fr of
        Inl e \<Rightarrow> Inl e | Inr w \<Rightarrow> map_sum id ((#) w) (deserializeFromTuple qs fs vs (n + 1) j fr))"
  by (auto simp: read_slot_def Let_def split: sum.split)

lemma read_member_exact:
  assumes "exact P R r" "P v" "wf_json (JObject ob)"
  shows "read_member q f r v (JObject ob) fr = Inr y \<longleftrightarrow> reads_member q f R ob v y"
proof -
  have f: "object_find ob (fname f) = map_of ob (fname f)"
    using assms(3) by (simp add: object_find_map_of)
  show ?thesis
  proof (cases "map_of ob (fname f)")
    case None
    then show ?thesis
      by (auto simp: read_member_def reads_member_def At_key_def f runValidator_Inr Let_def)
  next
    case (Some x)
    then have "wf_json x" using assms(3) by (fastforce simp: list_all_iff dest: map_of_SomeD)
    from exact_step [OF assms(1,2) this, of "Frame (KStr (fname f)) fr"] show ?thesis
      by cases (auto simp: read_member_def reads_member_def At_key_def f Some runValidator_Inr Let_def)
  qed
qed

lemma read_slot_exact:
  assumes "exact P R r" "P v" "wf_json (JArray xs)"
  shows "read_slot q f r v (word_of_nat k) (JArray xs) fr = Inr y \<longleftrightarrow> reads_slot q f R xs k v y"
proof -
  define i where "i = (case findex f of Some i \<Rightarrow> unat i | None \<Rightarrow> k mod 2 ^ 32)"
  let ?w = "case findex f of Some i \<Rightarrow> i | None \<Rightarrow> (word_of_nat k :: u32)"
  have w: "unat ?w = i" by (simp add: i_def unsigned_of_nat take_bit_eq_mod split: option.split)
  have l: "length xs < 2 ^ 32" using assms(3) by simp
  have t: "tupleGet q ?w xs (word_of_nat (length xs)) fr =
      (if i < length xs then Inr (xs ! i) else if q then Inl (IndexError (exc_trace fr) ?w (word_of_nat (length xs))) else Inr JNull)"
    using l by (simp add: tupleGet_def w word_le_nat_alt unsigned_of_nat take_bit_nat_eq_self)
  have "wf_json (if i < length xs then xs ! i else JNull)" using assms(3) by (simp add: list_all_length)
  from exact_step [OF assms(1,2) this, of "Frame (KStr (fname f)) fr"] show ?thesis
    by cases (auto simp: read_slot_def reads_slot_def t runValidator_Inr Let_def simp flip: i_def split: if_splits)
qed

lemma deserializeFields_exact:
  assumes "list_all2 (\<lambda>(P, R) f. exact P R (snd f)) PRs fs" "list_all2 (\<lambda>(P, R) v. P v) PRs vs"
    "wf_json (JObject ob)" "length qs = length fs"
  shows "deserializeFields qs fs vs (JObject ob) fr = Inr ws \<longleftrightarrow>
    length ws = length fs \<and>
    (\<forall>k < length fs. reads_member (qs ! k) (fst (fs ! k)) (snd (PRs ! k)) ob (vs ! k) (ws ! k))"
  using assms
proof (induction fs arbitrary: PRs qs vs ws rule: list.induct)
  case (Cons fd fs)
  obtain f r where fd: "fd = (f, r)" by (cases fd)
  from Cons.prems obtain P R PRs' v vs' q qs' where p: "PRs = (P, R) # PRs'" "exact P R r" "P v" "vs = v # vs'"
    "list_all2 (\<lambda>(P, R) f. exact P R (snd f)) PRs' fs" "list_all2 (\<lambda>(P, R) v. P v) PRs' vs'"
    "qs = q # qs'" "length qs' = length fs"
    by (cases qs) (auto simp: list_all2_Cons2 list_all2_Cons1 fd)
  note m = read_member_exact [OF p(2,3) Cons.prems(3), of q f fr]
  note ih = Cons.IH [OF p(5,6) Cons.prems(3) p(8)]
  show ?case
  proof (cases "read_member q f r v (JObject ob) fr")
    case (Inl e)
    then show ?thesis using m by (auto simp: p(1,4,7) fd deserializeFields_Cons All_less_Suc_nth simp del: deserializeFields.simps)
  next
    case (Inr w)
    then have "reads_member q f R ob v u \<longleftrightarrow> u = w" for u using m [of u] by auto
    then show ?thesis using Inr ih
      by (cases ws) (auto simp: p(1,4,7) fd deserializeFields_Cons All_less_Suc_nth simp del: deserializeFields.simps)
  qed
qed auto

lemma deserializeFromTuple_exact:
  assumes "list_all2 (\<lambda>(P, R) f. exact P R (snd f)) PRs fs" "list_all2 (\<lambda>(P, R) v. P v) PRs vs"
    "wf_json (JArray xs)" "length qs = length fs"
  shows "deserializeFromTuple qs fs vs (word_of_nat n) (JArray xs) fr = Inr ws \<longleftrightarrow>
    length ws = length fs \<and>
    (\<forall>k < length fs. reads_slot (qs ! k) (fst (fs ! k)) (snd (PRs ! k)) xs (n + k) (vs ! k) (ws ! k))"
  using assms
proof (induction fs arbitrary: PRs qs vs ws n rule: list.induct)
  case (Cons fd fs)
  obtain f r where fd: "fd = (f, r)" by (cases fd)
  from Cons.prems obtain P R PRs' v vs' q qs' where p: "PRs = (P, R) # PRs'" "exact P R r" "P v" "vs = v # vs'"
    "list_all2 (\<lambda>(P, R) f. exact P R (snd f)) PRs' fs" "list_all2 (\<lambda>(P, R) v. P v) PRs' vs'"
    "qs = q # qs'" "length qs' = length fs"
    by (cases qs) (auto simp: list_all2_Cons2 list_all2_Cons1 fd)
  note m = read_slot_exact [OF p(2,3) Cons.prems(3), of q f n fr]
  have ih: "deserializeFromTuple qs' fs vs' (word_of_nat n + 1) (JArray xs) fr = Inr us \<longleftrightarrow>
      length us = length fs \<and>
      (\<forall>k < length fs. reads_slot (qs' ! k) (fst (fs ! k)) (snd (PRs' ! k)) xs (Suc n + k) (vs' ! k) (us ! k))" for us
    using Cons.IH [OF p(5,6) Cons.prems(3) p(8), of "Suc n" us] by (simp add: add.commute)
  show ?case
  proof (cases "read_slot q f r v (word_of_nat n) (JArray xs) fr")
    case (Inl e)
    then show ?thesis using m
      by (auto simp: p(1,4,7) fd deserializeFromTuple_Cons All_less_Suc_nth simp del: deserializeFromTuple.simps)
  next
    case (Inr w)
    then have "reads_slot q f R xs n v u \<longleftrightarrow> u = w" for u using m [of u] by auto
    then show ?thesis using Inr ih
      by (cases ws) (auto simp: p(1,4,7) fd deserializeFromTuple_Cons All_less_Suc_nth simp del: deserializeFromTuple.simps)
  qed
qed auto

lemma from_array_Inr: "from_array body j fr = Inr v \<longleftrightarrow> (\<exists>xs. j = JArray xs \<and> body xs = Inr v)"
  by (cases j) (auto simp: from_array_def AssertType_def Is_def t_defs)

lemma from_object_Inr: "from_object body j fr = Inr v \<longleftrightarrow> (\<exists>kvs. j = JObject kvs \<and> body kvs = Inr v)"
  by (cases j) (auto simp: from_object_def AssertType_def Is_def t_defs)

lemma Is_null: "wf_json j \<Longrightarrow> Is j t_null \<longleftrightarrow> j = JNull"
  by (cases j) (auto simp: Is_def t_defs)

lemma len_lt_word: "length xs < 2 ^ 32 \<Longrightarrow> n < 2 ^ 32 \<Longrightarrow>
    (word_of_nat (length xs) :: u32) \<le> word_of_nat n \<longleftrightarrow> length xs \<le> n"
  by (simp add: word_le_nat_alt unsigned_of_nat take_bit_nat_eq_self)

lemma fields_then_validator:
  "(case X of Inl e \<Rightarrow> Inl e | Inr vs \<Rightarrow> runValidator val (VStruct vs) fr) = Inr v \<longleftrightarrow>
     (\<exists>vs. X = Inr vs \<and> validated val (VStruct vs) v)"
  by (auto simp: runValidator_Inr split: sum.split)

text \<open>The fields of a struct with their types and relations, in step with the readers.\<close>

lemma struct_lists:
  assumes "\<And>f t. (f, t) \<in> set fs \<Longrightarrow> exact (has_type t) (reads t) (from_json t)"
    and "list_all2 (\<lambda>f v. snd f v) (map (map_prod id has_type) fs) vs"
  shows "list_all2 (\<lambda>(P, R) f. exact P R (snd f)) (map (\<lambda>f. (has_type (snd f), reads (snd f))) fs) (map (map_prod id from_json) fs)"
    and "list_all2 (\<lambda>(P, R) v. P v) (map (\<lambda>f. (has_type (snd f), reads (snd f))) fs) vs"
  using assms by (auto simp: list_all2_map1 list_all2_map2 list_all2_same)

lemma from_json_reads: "sound T \<Longrightarrow> exact (has_type T) (reads T) (from_json T)"
proof (induction T rule: cty_induct)
  case (Int s b)
  then show ?case by (auto simp: exact_def from_int_number)
next
  case (Tuple ts)
  let ?PRs = "map (\<lambda>t. (has_type t, reads t)) ts"
  have r: "list_all2 (\<lambda>(P, R) r. exact P R r) ?PRs (map from_json ts)"
    using Tuple by (simp add: list_all2_map1 list_all2_map2 list_all2_same list_all_iff)
  show ?case
  proof (rule exactI)
    fix old j fr v
    assume o1: "has_type (TTuple ts) old" and w: "wf_json j"
    obtain vs where vs: "old = VTuple vs" "list_all2 (\<lambda>(P, R) v. P v) ?PRs vs"
      using o1 by (cases old) (auto simp: list_all2_map1)
    show "from_json (TTuple ts) old j fr = Inr v \<longleftrightarrow> reads (TTuple ts) old j v"
    proof (cases "\<exists>xs. j = JArray xs")
      case True
      then obtain xs where j: "j = JArray xs" ..
      have l: "(data_size j \<le> word_of_nat (length ts)) = (length xs \<le> length ts)"
        using w Tuple.prems by (simp add: j len_lt_word)
      show ?thesis
      proof (cases "length xs \<le> length ts")
        case True
        then show ?thesis using l by (auto simp: from_array_Inr j)
      next
        case False
        have "from_list (map from_json ts) vs xs 0 fr = Inr ws \<longleftrightarrow>
            length ws = length ts \<and> (\<forall>k < length ts. snd (?PRs ! k) (vs ! k) (xs ! k) (ws ! k))" for ws
          using from_list_exact [OF r vs(2), of xs 0 fr ws] w False by (simp add: j list_all_iff)
        then show ?thesis using l False by (auto simp: from_array_Inr j vs(1) not_le)
      qed
    qed (auto simp: from_array_Inr)
  qed
next
  case (Pair a b)
  let ?PRs = "[(has_type a, reads a), (has_type b, reads b)]"
  have r: "list_all2 (\<lambda>(P, R) r. exact P R r) ?PRs [from_json a, from_json b]" using Pair by simp
  show ?case
  proof (rule exactI)
    fix old j fr v
    assume o1: "has_type (TPair a b) old" and w: "wf_json j"
    obtain x y where vs: "old = VPair x y" "list_all2 (\<lambda>(P, R) v. P v) ?PRs [x, y]"
      using o1 by (cases old) auto
    show "from_json (TPair a b) old j fr = Inr v \<longleftrightarrow> reads (TPair a b) old j v"
    proof (cases "\<exists>xs. j = JArray xs")
      case True
      then obtain xs where j: "j = JArray xs" ..
      have l: "(data_size j < 2) = (length xs < 2)"
        using w len_lt_word [of "[(), ()]" "length xs"] len_lt_word [of xs 1]
        by (simp add: j word_less_nat_alt unsigned_of_nat take_bit_nat_eq_self)
      show ?thesis
      proof (cases "length xs < 2")
        case True
        then show ?thesis using l by (auto simp: from_array_Inr j)
      next
        case False
        have "from_list [from_json a, from_json b] [x, y] xs 0 fr = Inr ws \<longleftrightarrow>
            length ws = 2 \<and> (\<forall>k < 2. snd (?PRs ! k) ([x, y] ! k) (xs ! k) (ws ! k))" for ws
          using from_list_exact [OF r vs(2), of xs 0 fr ws] w False by (simp add: j list_all_iff numeral_2_eq_2)
        then show ?thesis using l False
          by (auto simp: from_array_Inr j vs(1) numeral_2_eq_2 All_less_Suc_nth)
            (metis (no_types, lifting) length_Cons list.size(3) nth_Cons_0 nth_Cons_Suc)
      qed
    qed (auto simp: from_array_Inr)
  qed
next
  case (Opt t)
  then have t: "exact (has_type t) (reads t) (from_json t)" "has_type t (dflt t)" by (auto intro: sound_dflt)
  show ?case
    by (rule exactI) (use exactD [OF t] in \<open>auto simp: Is_null\<close>)
next
  case (Vec t)
  then have t: "exact (has_type t) (reads t) (from_json t)" "has_type t (dflt t)" by (auto intro: sound_dflt)
  show ?case
    by (rule exactI) (use from_elems_exact [OF t] in \<open>auto simp: from_array_Inr list_all_iff\<close>)
next
  case (Map t)
  then have t: "exact (has_type t) (reads t) (from_json t)" "has_type t (dflt t)" by (auto intro: sound_dflt)
  show ?case
    by (rule exactI) (use from_members_exact [OF t] in \<open>auto simp: from_object_Inr list_all_iff\<close>)
next
  case (Enum d)
  then show ?case by (auto simp: exact_def from_enum_number)
next
  case (Struct d fs)
  let ?PRs = "map (\<lambda>f. (has_type (snd f), reads (snd f))) fs"
  let ?qs = "map (\<lambda>f. isRequired d (snd f)) fs" and ?rs = "map (map_prod id from_json) fs"
  have e: "exact (has_type t) (reads t) (from_json t)" if "(f, t) \<in> set fs" for f t
    using Struct.IH [OF that] Struct.prems that by (auto simp: list_all_iff)
  show ?case
  proof (rule exactI)
    fix old j fr v
    assume o1: "has_type (TStruct d fs) old" and w: "wf_json j"
    obtain vs where vs: "old = VStruct vs" "list_all2 (\<lambda>f v. snd f v) (map (map_prod id has_type) fs) vs"
      using o1 by (cases old) auto
    have l: "list_all2 (\<lambda>(P, R) f. exact P R (snd f)) ?PRs ?rs" "list_all2 (\<lambda>(P, R) v. P v) ?PRs vs"
      by (rule struct_lists [OF _ vs(2)], rule e, assumption)+
    show "from_json (TStruct d fs) old j fr = Inr v \<longleftrightarrow> reads (TStruct d fs) old j v"
    proof (cases "as_tuple d")
      case True
      show ?thesis
      proof (cases "\<exists>xs. j = JArray xs")
        case j: True
        then obtain xs where j: "j = JArray xs" ..
        have "deserializeFromTuple ?qs ?rs vs 0 j fr = Inr ws \<longleftrightarrow> length ws = length fs \<and>
          (\<forall>k < length fs. reads_slot (isRequired d (snd (fs ! k))) (fst (fs ! k)) (reads (snd (fs ! k))) xs k (vs ! k) (ws ! k))" for ws
          using deserializeFromTuple_exact [OF l, of xs ?qs 0 fr ws] w by (simp add: j)
        then show ?thesis using True
          by (auto simp: j vs(1) AssertType_def Is_def t_defs Let_def fields_then_validator)
      next
        case False
        then show ?thesis using True by (cases j) (auto simp: AssertType_def Is_def t_defs)
      qed
    next
      case False
      show ?thesis
      proof (cases "\<exists>ob. j = JObject ob")
        case True
        then obtain ob where j: "j = JObject ob" ..
        have "deserializeFields ?qs ?rs vs j fr = Inr ws \<longleftrightarrow> length ws = length fs \<and>
          (\<forall>k < length fs. reads_member (isRequired d (snd (fs ! k))) (fst (fs ! k)) (reads (snd (fs ! k))) ob (vs ! k) (ws ! k))" for ws
          using deserializeFields_exact [OF l, of ob ?qs fr ws] w by (simp add: j)
        then show ?thesis using False
          by (auto simp: j vs(1) AssertType_def Is_def t_defs Let_def fields_then_validator)
      next
        case j: False
        then show ?thesis using False by (cases j) (auto simp: AssertType_def Is_def t_defs)
      qed
    qed
  qed
qed (auto simp: exact_def from_bool_def from_text_def from_double_number split: json.splits)

subsection \<open>Properties\<close>

text \<open>
  C17: reading is exact and type safe: for every sound type, well-formed document and object of the
  type, the call returns a value exactly when the relation holds between them (otherwise it throws), and
  that value is of the type, with every integer and enum in its range. In particular the value depends
  on the document as the relation says: members by their names, elements by their places, and only
  fields that are missing and not required keep what the object held.
\<close>

theorem from_json_type:
  assumes "sound T" "has_type T old" "wf_json j"
  shows "(from_json T old j fr = Inr v \<longleftrightarrow> reads T old j v) \<and> (from_json T old j fr = Inr v \<longrightarrow> has_type T v)"
  using exactD [OF from_json_reads [OF assms(1)] assms(2,3)] typed_readerD [OF from_json_typed [OF assms(1)] assms(2,3)]
  by blast

text \<open>A struct with an optional field that is missing in the document, and one that is out of range.\<close>

definition partial_doc :: json where
  "partial_doc = JObject [(''color'', JString ''green''), (''size'', JUnsigned 7), (''tags'', JArray [JString ''x''])]"

theorem from_json_type_witness:
  "from_json sample (VStruct [VInt 0, VEnum 0, VVec [], VOpt (Some (VDouble 9))]) partial_doc RootFrame =
     Inr (VStruct [VInt 7, VEnum 1, VVec [VText ''x''], VOpt (Some (VDouble 9))]) \<and>
   \<not> (\<exists>v. from_json (TInt False 8) (VInt 3) (JSigned 300) RootFrame = Inr v)"
proof -
  let ?old = "VStruct [VInt 0, VEnum 0, VVec [], VOpt (Some (VDouble 9))]"
  have t: "has_type sample ?old" "wf_json partial_doc"
    by (simp_all add: sample_def color_def in_range_def int_min_def int_max_def partial_doc_def less_char_def)
  have "reads sample ?old partial_doc (VStruct [VInt 7, VEnum 1, VVec [VText ''x''], VOpt (Some (VDouble 9))])"
    by (simp add: sample_def sample_field_def partial_doc_def validated_def reads_member_def reads_enum_def color_def
        isRequired_def in_range_def int_min_def int_max_def All_less_Suc_nth)
  with from_json_type [OF sample_ok(1) t] have
    "from_json sample ?old partial_doc RootFrame = Inr (VStruct [VInt 7, VEnum 1, VVec [VText ''x''], VOpt (Some (VDouble 9))])"
    by blast
  moreover have "\<not> (\<exists>v. from_json (TInt False 8) (VInt 3) (JSigned 300) RootFrame = Inr v)"
  proof -
    have s: "sound (TInt False 8)" "has_type (TInt False 8) (VInt 3)" "wf_json (JSigned 300)"
      by (simp_all add: in_range_def int_min_def int_max_def)
    have "\<not> reads (TInt False 8) (VInt 3) (JSigned 300) v" for v
      by (simp add: in_range_def int_max_def)
    with from_json_type [OF s] show ?thesis by blast
  qed
  ultimately show ?thesis by blast
qed

end
