(* ===== verification/Membuff.thy ===== *)
theory Membuff
  imports Rpcxx_Prelude
begin

text \<open>
  The half-virtual buffers of \<^verbatim>\<open>membuff.hpp\<close>. An output is its memory, the position, the capacity, the
  last error and what was handed to the sink before; an input is its memory, the position, the
  capacity and the rest of its source. \<^verbatim>\<open>Grow\<close> and \<^verbatim>\<open>Refill\<close> are parameters of the routines. The loops
  may run forever, which is the value \<^term>\<open>None\<close>.
\<close>

subsection \<open>Output\<close>

record out =
  obuf :: string
  optr :: nat
  ocap :: nat
  oerr :: int
  osink :: string

definition SpaceLeft :: "out \<Rightarrow> nat" where
  "SpaceLeft s = ocap s - optr s"

text \<open>\<^verbatim>\<open>memcpy(buffer + ptr, data, n)\<close>\<close>

definition put_bytes :: "string \<Rightarrow> out \<Rightarrow> out" where
  "put_bytes data s =
     s\<lparr>obuf := take (optr s) (obuf s) @ data @ drop (optr s + length data) (obuf s), optr := optr s + length data\<rparr>"

definition grow_amount :: "nat \<Rightarrow> nat \<Rightarrow> nat" where
  "grow_amount hint capacity = (if hint \<noteq> 0 then hint else capacity)"

partial_function (option) write_loop :: "(nat \<Rightarrow> out \<Rightarrow> out) \<Rightarrow> nat \<Rightarrow> string \<Rightarrow> out \<Rightarrow> out option" where
  "write_loop grow hint data s =
     (let s1 = grow (grow_amount hint (ocap s)) s in
      if oerr s1 \<noteq> 0 then Some s1
      else
        (let n = min (length data) (SpaceLeft s1); s2 = put_bytes (take n data) s1; rest = drop n data in
         if rest \<noteq> [] then write_loop grow hint rest s2 else Some s2))"

definition Write :: "(nat \<Rightarrow> out \<Rightarrow> out) \<Rightarrow> nat \<Rightarrow> string \<Rightarrow> out \<Rightarrow> out option" where
  "Write grow hint data s =
     (if ocap s < optr s + length data then write_loop grow hint data s
      else Some (put_bytes data s))"

definition Write_byte :: "(nat \<Rightarrow> out \<Rightarrow> out) \<Rightarrow> nat \<Rightarrow> char \<Rightarrow> out \<Rightarrow> out" where
  "Write_byte grow hint byte s =
     (let s0 = s\<lparr>oerr := 0\<rparr> in
      if ocap s0 \<le> optr s0 then
        (let s1 = grow (grow_amount hint (ocap s0)) s0 in
         if oerr s1 \<noteq> 0 then s1 else put_bytes [byte] s1)
      else put_bytes [byte] s0)"

text \<open>\<^verbatim>\<open>StringOut\<close>: the memory is a string that is resized; new bytes are zero.\<close>

definition StringOut_Grow :: "nat \<Rightarrow> out \<Rightarrow> out" where
  "StringOut_Grow amount s =
     (let buf = obuf s @ replicate amount (CHR 0x00) in s\<lparr>obuf := buf, ocap := length buf\<rparr>)"

definition StringOut_init :: "nat \<Rightarrow> out" where
  "StringOut_init startSize =
     \<lparr>obuf = replicate startSize (CHR 0x00), optr = 0, ocap = startSize, oerr = 0, osink = []\<rparr>"

definition StringOut_Consume :: "out \<Rightarrow> string \<times> out" where
  "StringOut_Consume s =
     (take (optr s) (obuf s) @ replicate (optr s - length (obuf s)) (CHR 0x00),
      s\<lparr>obuf := [], ocap := 0, optr := 0\<rparr>)"

text \<open>\<^verbatim>\<open>FuncOut\<close>: a fixed array that is flushed to a function.\<close>

definition FuncOut_Flush :: "out \<Rightarrow> out" where
  "FuncOut_Flush s = s\<lparr>osink := osink s @ take (optr s) (obuf s), optr := 0\<rparr>"

definition FuncOut_Grow :: "nat \<Rightarrow> out \<Rightarrow> out" where
  "FuncOut_Grow amount s = FuncOut_Flush s"

definition FuncOut_init :: "nat \<Rightarrow> string \<Rightarrow> out" where
  "FuncOut_init buff stor = \<lparr>obuf = stor, optr = 0, ocap = buff, oerr = 0, osink = []\<rparr>"

subsection \<open>Input\<close>

record inp =
  ibuf :: string
  iptr :: nat
  icap :: nat
  ierr :: int
  isrc :: string

definition Available :: "inp \<Rightarrow> nat" where
  "Available s = icap s - iptr s"

text \<open>A byte read outside of the memory is \<^term>\<open>None\<close>.\<close>

definition ReadByte :: "(nat \<Rightarrow> inp \<Rightarrow> inp) \<Rightarrow> nat \<Rightarrow> inp \<Rightarrow> char option \<times> inp" where
  "ReadByte refill hint s =
     (let s0 = s\<lparr>ierr := 0\<rparr>;
          s1 = (if icap s0 \<le> iptr s0 then refill (grow_amount hint (icap s0)) s0 else s0) in
      if icap s0 \<le> iptr s0 \<and> icap s1 = 0 then (Some (CHR 0x00), s1)
      else (if iptr s1 < length (ibuf s1) then Some (ibuf s1 ! iptr s1) else None, s1\<lparr>iptr := iptr s1 + 1\<rparr>))"

definition in_bytes :: "nat \<Rightarrow> inp \<Rightarrow> string" where
  "in_bytes n s = take n (drop (iptr s) (ibuf s))"

text \<open>
  \<^verbatim>\<open>Read\<close> returns the bytes that it stores one after the other at the caller's pointer; \<open>wanted\<close> is the
  number the caller asked for.
\<close>

partial_function (option) read_loop :: "(nat \<Rightarrow> inp \<Rightarrow> inp) \<Rightarrow> nat \<Rightarrow> nat \<Rightarrow> string \<Rightarrow> inp \<Rightarrow> (string \<times> inp) option" where
  "read_loop refill hint wanted stored s =
     (let stored1 = stored @ in_bytes (Available s) s;
          s1 = refill (grow_amount hint (icap s)) (s\<lparr>iptr := 0\<rparr>) in
      if icap s1 = 0 then Some (stored1, s1)
      else
        (let n = min wanted (Available s1); stored2 = stored1 @ in_bytes n s1; s2 = s1\<lparr>iptr := iptr s1 + n\<rparr> in
         if wanted - n \<noteq> 0 then read_loop refill hint (wanted - n) stored2 s2 else Some (stored2, s2)))"

definition Read :: "(nat \<Rightarrow> inp \<Rightarrow> inp) \<Rightarrow> nat \<Rightarrow> nat \<Rightarrow> inp \<Rightarrow> (string \<times> inp) option" where
  "Read refill hint wanted s =
     (if icap s < iptr s + wanted then read_loop refill hint wanted [] s
      else Some (in_bytes wanted s, s\<lparr>iptr := iptr s + wanted\<rparr>))"

text \<open>\<^verbatim>\<open>IStreamIn\<close>: an array of 2048 bytes in front of a stream.\<close>

definition IStreamIn_Refill :: "nat \<Rightarrow> inp \<Rightarrow> inp" where
  "IStreamIn_Refill amount s =
     (let got = take 2048 (isrc s);
          s1 = s\<lparr>ibuf := got @ drop (length got) (ibuf s), isrc := drop 2048 (isrc s)\<rparr> in
      if got \<noteq> [] then s1\<lparr>icap := length got\<rparr> else s1\<lparr>ierr := 0, icap := 0\<rparr>)"

definition IStreamIn_init :: "string \<Rightarrow> string \<Rightarrow> inp" where
  "IStreamIn_init garbage src =
     IStreamIn_Refill 0 \<lparr>ibuf = garbage, iptr = 0, icap = 0, ierr = 0, isrc = src\<rparr>"

subsection \<open>The contract of an output\<close>

text \<open>What an output holds: what went to the sink and the bytes before the position.\<close>

definition content :: "out \<Rightarrow> string" where
  "content s = osink s @ take (optr s) (obuf s)"

text \<open>
  A provider of \<^verbatim>\<open>Grow\<close> keeps its states good and their content, and makes room when it is asked for a
  positive amount and reports no error.
\<close>

locale out_buffer =
  fixes grow :: "nat \<Rightarrow> out \<Rightarrow> out" and good :: "out \<Rightarrow> bool"
  assumes good_mem: "good s \<Longrightarrow> length (obuf s) = ocap s \<and> optr s \<le> ocap s"
    and good_put: "good s \<Longrightarrow> length data \<le> SpaceLeft s \<Longrightarrow> good (put_bytes data s)"
    and good_err: "good s \<Longrightarrow> good (s\<lparr>oerr := 0\<rparr>)"
    and grow_good: "good s \<Longrightarrow> 0 < amount \<Longrightarrow> good (grow amount s)"
    and grow_content: "good s \<Longrightarrow> content (grow amount s) = content s"
    and grow_room: "good s \<Longrightarrow> 0 < amount \<Longrightarrow> oerr (grow amount s) = 0 \<Longrightarrow> 0 < SpaceLeft (grow amount s)"
    and grow_cap: "good s \<Longrightarrow> ocap s \<le> ocap (grow amount s)"
begin

lemma content_put:
  "good s \<Longrightarrow> length data \<le> SpaceLeft s \<Longrightarrow> content (put_bytes data s) = content s @ data"
  using good_mem [of s] by (simp add: content_def put_bytes_def SpaceLeft_def)

text \<open>Every output that can grow takes all the bytes, in order, or stops with an error.\<close>

lemma write_loop_appends:
  assumes "good s" "0 < grow_amount hint (ocap s)"
  shows "\<exists>s'. write_loop grow hint data s = Some s' \<and> good s' \<and>
    (if oerr s' = 0 then content s' = content s @ data else \<exists>n. content s' = content s @ take n data)"
  using assms
proof (induction data arbitrary: s rule: length_induct)
  case (1 data)
  let ?s1 = "grow (grow_amount hint (ocap s)) s"
  note g = grow_good [OF "1.prems"] grow_content [OF "1.prems"(1)]
  show ?case
  proof (cases "oerr ?s1 = 0")
    case False
    then show ?thesis using g by (subst write_loop.simps) (auto intro: exI [of _ 0])
  next
    case True
    define n where "n = min (length data) (SpaceLeft ?s1)"
    define s2 where "s2 = put_bytes (take n data) ?s1"
    have l: "length (take n data) \<le> SpaceLeft ?s1" by (simp add: n_def)
    have s2: "good s2" "content s2 = content s @ take n data"
      unfolding s2_def using good_put [OF g(1) l] content_put [OF g(1) l] g(2) by simp_all
    have w: "write_loop grow hint data s =
        (if drop n data \<noteq> [] then write_loop grow hint (drop n data) s2 else Some s2)"
      using True by (subst write_loop.simps) (simp add: Let_def n_def s2_def)
    show ?thesis
    proof (cases "drop n data = []")
      case True
      then show ?thesis using w s2 by (auto intro: exI [of _ n])
    next
      case False
      have "0 < n" using grow_room [OF "1.prems" True] False by (auto simp: n_def)
      then have d: "length (drop n data) < length data" using False by auto
      have "ocap s2 = ocap ?s1" by (simp add: s2_def put_bytes_def)
      then have "0 < grow_amount hint (ocap s2)"
        using "1.prems"(2) grow_cap [OF "1.prems"(1), of "grow_amount hint (ocap s)"] by (auto simp: grow_amount_def split: if_splits)
      from "1.IH" [rule_format, OF d s2(1) this] obtain s' where
        s': "write_loop grow hint (drop n data) s2 = Some s'" "good s'"
          "if oerr s' = 0 then content s' = content s2 @ drop n data else \<exists>m. content s' = content s2 @ take m (drop n data)"
        by auto
      have "\<exists>k. content s2 @ take m (drop n data) = content s @ take k data" for m
        using s2(2) by (auto simp: take_add [symmetric])
      with s' w s2(2) False show ?thesis by (auto split: if_splits)
    qed
  qed
qed

lemma Write_appends:
  assumes "good s" "0 < grow_amount hint (ocap s)"
  shows "\<exists>s'. Write grow hint data s = Some s' \<and> good s' \<and>
    (oerr s' = 0 \<longrightarrow> content s' = content s @ data)"
proof (cases "ocap s < optr s + length data")
  case True
  with write_loop_appends [OF assms, of data] show ?thesis by (auto simp: Write_def split: if_splits)
next
  case False
  then have "length data \<le> SpaceLeft s" by (simp add: SpaceLeft_def)
  with False good_put [OF assms(1)] content_put [OF assms(1)] show ?thesis by (simp add: Write_def)
qed

lemma Write_byte_appends:
  assumes "good s" "0 < grow_amount hint (ocap s)" "s' = Write_byte grow hint byte s"
  shows "good s' \<and> (oerr s' = 0 \<longrightarrow> content s' = content s @ [byte])"
proof -
  let ?s0 = "s\<lparr>oerr := 0\<rparr>"
  let ?s1 = "grow (grow_amount hint (ocap s)) ?s0"
  have g: "good ?s0" "content ?s0 = content s" using good_err [OF assms(1)] by (simp_all add: content_def)
  have a: "0 < grow_amount hint (ocap ?s0)" using assms(2) by simp
  show ?thesis
  proof (cases "ocap s \<le> optr s")
    case True
    have "good ?s1" "content ?s1 = content s" using grow_good [OF g(1) assms(2)] grow_content [OF g(1)] g(2) by simp_all
    then show ?thesis
      using True assms(3) grow_room [OF g(1) assms(2)] good_put [of ?s1 "[byte]"] content_put [of ?s1 "[byte]"]
      by (auto simp: Write_byte_def Let_def)
  next
    case False
    then have "length [byte] \<le> SpaceLeft ?s0" by (simp add: SpaceLeft_def)
    then show ?thesis
      using False assms(3) good_put [OF g(1)] content_put [OF g(1)] g(2) by (simp add: Write_byte_def Let_def)
  qed
qed

end

subsection \<open>The two outputs\<close>

definition string_good :: "out \<Rightarrow> bool" where
  "string_good s \<longleftrightarrow> length (obuf s) = ocap s \<and> optr s \<le> ocap s"

definition func_good :: "out \<Rightarrow> bool" where
  "func_good s \<longleftrightarrow> length (obuf s) = ocap s \<and> optr s \<le> ocap s \<and> 0 < ocap s"

interpretation so: out_buffer StringOut_Grow string_good
  by unfold_locales
    (auto simp: string_good_def put_bytes_def SpaceLeft_def StringOut_Grow_def content_def Let_def)

interpretation fo: out_buffer FuncOut_Grow func_good
  by unfold_locales
    (auto simp: func_good_def put_bytes_def SpaceLeft_def FuncOut_Grow_def FuncOut_Flush_def content_def)

lemma StringOut_init_good [simp]: "string_good (StringOut_init n)"
  by (simp add: string_good_def StringOut_init_def)

text \<open>
  Without a hint, an empty \<^verbatim>\<open>StringOut\<close> asks for no bytes at all and its loop never ends. A consumed
  one is empty.
\<close>

lemma empty_StringOut_never_returns:
  assumes "write_loop grow hint data s = Some s'"
  shows "\<not> (grow = StringOut_Grow \<and> hint = 0 \<and> data \<noteq> [] \<and> ocap s = 0 \<and> obuf s = [] \<and> optr s = 0 \<and> oerr s = 0)"
  using assms
proof (rule write_loop.raw_induct [where P = "\<lambda>grow hint data s s'.
    \<not> (grow = StringOut_Grow \<and> hint = 0 \<and> data \<noteq> [] \<and> ocap s = 0 \<and> obuf s = [] \<and> optr s = 0 \<and> oerr s = 0)", rotated])
  fix loop grow hint data and s s' :: out
  let ?empty = "\<lambda>grow hint data (s :: out).
    grow = StringOut_Grow \<and> hint = (0 :: nat) \<and> data \<noteq> [] \<and> ocap s = 0 \<and> obuf s = [] \<and> optr s = 0 \<and> oerr s = 0"
  assume ih: "\<And>grow hint data s s'. loop grow hint data s = Some s' \<Longrightarrow> \<not> ?empty grow hint data s"
    and r: "(let s1 = grow (grow_amount hint (ocap s)) s in
      if oerr s1 \<noteq> 0 then Some s1
      else let n = min (length data) (SpaceLeft s1); s2 = put_bytes (take n data) s1; rest = drop n data in
           if rest \<noteq> [] then loop grow hint rest s2 else Some s2) = Some s'"
  show "\<not> ?empty grow hint data s"
  proof
    assume e: "?empty grow hint data s"
    then have "grow (grow_amount hint (ocap s)) s = s" by (cases s) (simp add: StringOut_Grow_def grow_amount_def)
    moreover from e have "SpaceLeft s = 0" "put_bytes [] s = s" by (cases s, simp add: SpaceLeft_def put_bytes_def)+
    ultimately have "loop grow hint data s = Some s'" using r e by simp
    from ih [OF this] e show False by blast
  qed
qed

lemma Write_after_Consume_hangs:
  "data \<noteq> [] \<Longrightarrow> oerr s = 0 \<Longrightarrow> Write StringOut_Grow 0 data (snd (StringOut_Consume s)) = None"
proof (rule ccontr)
  let ?s = "snd (StringOut_Consume s)"
  assume d: "data \<noteq> []" "oerr s = 0" and "Write StringOut_Grow 0 data ?s \<noteq> None"
  then obtain s' where "write_loop StringOut_Grow 0 data ?s = Some s'"
    by (auto simp: Write_def StringOut_Consume_def)
  from empty_StringOut_never_returns [OF this] d show False by (simp add: StringOut_Consume_def)
qed

subsection \<open>Input from a stream\<close>

text \<open>What is still to be read: the rest of the array and the stream.\<close>

definition unread :: "inp \<Rightarrow> string" where
  "unread s = take (icap s - iptr s) (drop (iptr s) (ibuf s)) @ isrc s"

definition stream_ok :: "inp \<Rightarrow> bool" where
  "stream_ok s \<longleftrightarrow> length (ibuf s) = 2048 \<and> icap s \<le> 2048 \<and> iptr s \<le> icap s"

lemma stream_Refill:
  assumes "length (ibuf s) = 2048" "got = take 2048 (isrc s)" "s1 = IStreamIn_Refill n (s\<lparr>iptr := 0\<rparr>)"
  shows "iptr s1 = 0" "icap s1 = length got" "isrc s1 = drop 2048 (isrc s)" "length (ibuf s1) = 2048"
    "take (length got) (ibuf s1) = got"
proof -
  have "length got \<le> 2048" using assms(2) by simp
  then show "iptr s1 = 0" "icap s1 = length got" "isrc s1 = drop 2048 (isrc s)" "length (ibuf s1) = 2048"
      "take (length got) (ibuf s1) = got"
    using assms(1) by (auto simp: IStreamIn_Refill_def Let_def assms(3) assms(2) [symmetric])
qed

text \<open>From an array without unread bytes, the loop delivers the next bytes of the stream.\<close>

lemma read_loop_stream:
  assumes "length (ibuf s) = 2048" "Available s = 0" "0 < wanted"
  shows "\<exists>s'. read_loop IStreamIn_Refill hint wanted stored s = Some (stored @ take wanted (isrc s), s') \<and>
    stream_ok s' \<and> unread s' = drop wanted (isrc s)"
  using assms
proof (induction wanted arbitrary: s stored rule: less_induct)
  case (less wanted)
  define got where "got = take 2048 (isrc s)"
  define s1 where "s1 = IStreamIn_Refill (grow_amount hint (icap s)) (s\<lparr>iptr := 0\<rparr>)"
  note r = stream_Refill [OF less.prems(1) got_def s1_def]
  have st: "in_bytes (Available s) s = []" using less.prems(2) by (simp add: in_bytes_def)
  have l: "length got \<le> 2048" by (simp add: got_def)
  show ?case
  proof (cases "isrc s = []")
    case True
    then have "got = []" by (simp add: got_def)
    with True r st show ?thesis
      by (subst read_loop.simps) (simp add: s1_def [symmetric] unread_def stream_ok_def)
  next
    case False
    then have c: "0 < length got" by (simp add: got_def)
    define n where "n = min wanted (length got)"
    define s2 where "s2 = s1\<lparr>iptr := n\<rparr>"
    have av: "Available s1 = length got" using r by (simp add: Available_def)
    have b: "in_bytes n s1 = take n (isrc s)"
    proof -
      have "take n (ibuf s1) = take n (take (length got) (ibuf s1))" by (simp add: n_def min_def)
      also have "\<dots> = take n (isrc s)" unfolding r(5) by (simp add: got_def n_def min_def)
      finally show ?thesis using r(1) by (simp add: in_bytes_def)
    qed
    have w: "read_loop IStreamIn_Refill hint wanted stored s =
        (if wanted - n \<noteq> 0 then read_loop IStreamIn_Refill hint (wanted - n) (stored @ take n (isrc s)) s2
         else Some (stored @ take n (isrc s), s2))"
      using r c st b av
      by (subst read_loop.simps) (simp add: s1_def [symmetric] Let_def s2_def n_def [symmetric])
    show ?thesis
    proof (cases "wanted \<le> length got")
      case True
      then have n: "n = wanted" by (simp add: n_def)
      have "unread s2 = drop n (take (length got) (ibuf s1)) @ drop 2048 (isrc s)"
        using r drop_take [of n "length got" "ibuf s1"] by (simp add: unread_def s2_def)
      also have "\<dots> = drop n (isrc s)"
        unfolding r(5) using True n drop_append [of n got "drop 2048 (isrc s)"] by (simp add: got_def)
      finally have "unread s2 = drop wanted (isrc s)" using n by simp
      moreover have "stream_ok s2" using r l True by (simp add: stream_ok_def s2_def n)
      ultimately show ?thesis using w n by simp
    next
      case False
      then have n: "n = length got" by (simp add: n_def)
      have full: "length got = 2048 \<or> drop 2048 (isrc s) = []" by (auto simp: got_def)
      have s2: "length (ibuf s2) = 2048" "Available s2 = 0" "isrc s2 = drop 2048 (isrc s)"
        using r n by (simp_all add: s2_def Available_def)
      have "wanted - n < wanted" "0 < wanted - n" using False n c less.prems(3) by auto
      from less.IH [OF this(1) s2(1,2) this(2), of "stored @ take n (isrc s)"] obtain s' where
        s': "read_loop IStreamIn_Refill hint (wanted - n) (stored @ take n (isrc s)) s2 =
            Some ((stored @ take n (isrc s)) @ take (wanted - n) (isrc s2), s')"
          "stream_ok s'" "unread s' = drop (wanted - n) (isrc s2)" by blast
      have "take n (isrc s) @ take (wanted - n) (isrc s2) = take wanted (isrc s)"
        "drop (wanted - n) (isrc s2) = drop wanted (isrc s)"
        using full n False s2(3) by (auto simp: got_def take_add [symmetric] min_def split: if_splits)
      with s' w \<open>0 < wanted - n\<close> show ?thesis by auto
    qed
  qed
qed

lemma in_bytes_unread: "n \<le> Available s \<Longrightarrow> in_bytes n s = take n (unread s)"
  if "stream_ok s" for s
  using that by (auto simp: in_bytes_def unread_def Available_def stream_ok_def min_def)

lemma unread_advance: "stream_ok s \<Longrightarrow> n \<le> Available s \<Longrightarrow> unread (s\<lparr>iptr := iptr s + n\<rparr>) = drop n (unread s)"
  by (auto simp: unread_def Available_def stream_ok_def drop_take add.commute min_def)

lemma read_loop_leftover:
  "read_loop refill hint wanted stored s =
     read_loop refill hint wanted (stored @ in_bytes (Available s) s) (s\<lparr>iptr := icap s\<rparr>)"
proof -
  have "in_bytes (Available (s\<lparr>iptr := icap s\<rparr>)) (s\<lparr>iptr := icap s\<rparr>) = []"
    by (simp add: in_bytes_def Available_def)
  then show ?thesis by (subst (1 2) read_loop.simps) simp
qed

subsection \<open>Properties\<close>

text \<open>
  writing to either output takes all the bytes in order: \<^verbatim>\<open>Write\<close> returns, whatever the sizes of
  the data, of the memory and of the hint, provided there is a hint or some memory to start with;
  what went to the sink and what is in the memory are together the old content and the data; and
  the state stays good.
\<close>

theorem Write_appends_all:
  assumes "hint \<noteq> 0 \<or> ocap s \<noteq> 0"
  shows "(string_good s \<longrightarrow> (\<exists>s'. Write StringOut_Grow hint data s = Some s' \<and> string_good s' \<and>
           (oerr s' = 0 \<longrightarrow> content s' = content s @ data) \<and>
           string_good (Write_byte StringOut_Grow hint byte s) \<and>
           content (Write_byte StringOut_Grow hint byte s) = content s @ [byte])) \<and>
    (func_good s \<longrightarrow> (\<exists>s'. Write FuncOut_Grow hint data s = Some s' \<and> func_good s' \<and>
           (oerr s' = 0 \<longrightarrow> content s' = content s @ data) \<and>
           func_good (Write_byte FuncOut_Grow hint byte s) \<and>
           content (Write_byte FuncOut_Grow hint byte s) = content s @ [byte]))"
proof -
  have a: "0 < grow_amount hint (ocap s)" using assms by (auto simp: grow_amount_def)
  have "oerr (Write_byte StringOut_Grow hint byte s) = 0" "oerr (Write_byte FuncOut_Grow hint byte s) = 0"
    by (simp_all add: Write_byte_def StringOut_Grow_def FuncOut_Grow_def FuncOut_Flush_def put_bytes_def Let_def)
  then show ?thesis
    using so.Write_appends [OF _ a, of data] fo.Write_appends [OF _ a, of data]
      so.Write_byte_appends [OF _ a refl, of byte] fo.Write_byte_appends [OF _ a refl, of byte]
    by blast
qed

theorem Write_appends_all_witness:
  "\<exists>s'. Write StringOut_Grow 0 ''hello'' (StringOut_init 2) = Some s' \<and> string_good s'"
  using Write_appends_all [of 0 "StringOut_init 2" "''hello''" "CHR ''x''"]
  by (simp add: StringOut_init_def string_good_def) blast

text \<open>
  C34: reading from a stream never skips, repeats or reorders bytes, and returns; but the number of
  bytes stored is the one asked for only when they are in the memory already or the memory is used
  up: a read that spans a refill stores the bytes left in the memory and, behind them, as many as
  were asked for.
\<close>

theorem Read_stream:
  assumes "stream_ok s" "0 < wanted"
    and "n = (if wanted \<le> Available s then wanted else Available s + wanted)"
  shows "\<exists>s'. Read IStreamIn_Refill hint wanted s = Some (take n (unread s), s') \<and> stream_ok s' \<and>
    unread s' = drop n (unread s)"
proof (cases "wanted \<le> Available s")
  case True
  then show ?thesis
    using assms in_bytes_unread [OF assms(1) True] unread_advance [OF assms(1) True]
    by (auto simp: Read_def stream_ok_def Available_def)
next
  case False
  let ?s = "s\<lparr>iptr := icap s\<rparr>"
  have "length (ibuf ?s) = 2048" "Available ?s = 0" using assms(1) by (simp_all add: stream_ok_def Available_def)
  from read_loop_stream [OF this assms(2), of hint "in_bytes (Available s) s"] obtain s' where
    "read_loop IStreamIn_Refill hint wanted (in_bytes (Available s) s) ?s =
        Some (in_bytes (Available s) s @ take wanted (isrc s), s')"
    "stream_ok s'" "unread s' = drop wanted (isrc s)" by auto
  moreover have "unread s = in_bytes (Available s) s @ isrc s" "length (in_bytes (Available s) s) = Available s"
    using assms(1) by (auto simp: unread_def in_bytes_def Available_def stream_ok_def min_def)
  ultimately show ?thesis
    using False assms(1,3) read_loop_leftover [of IStreamIn_Refill hint wanted "[]" s]
    by (auto simp: Read_def Available_def stream_ok_def)
qed

theorem Read_stream_witness:
  "\<exists>r s'. Read IStreamIn_Refill 0 4 (IStreamIn_init (replicate 2048 (CHR ''?'')) ''abcdef'') = Some (r, s') \<and> r = ''abcd''"
proof -
  let ?s = "IStreamIn_init (replicate 2048 (CHR ''?'')) ''abcdef''"
  have s: "stream_ok ?s" "Available ?s = 6" "unread ?s = ''abcdef''"
    by (simp_all add: IStreamIn_init_def IStreamIn_Refill_def stream_ok_def Available_def unread_def Let_def)
  show ?thesis using Read_stream [OF s(1), of 4 4 0] s(2,3) by auto
qed

text \<open>
  A stream of more than one array: after the last byte of the first one, \<^verbatim>\<open>ReadByte\<close> refills but does
  not go back to the start, and reads behind the array.
\<close>

lemma ReadByte_out_of_bounds:
  assumes "stream_ok s" "iptr s = 2048" "isrc s \<noteq> []"
  shows "fst (ReadByte IStreamIn_Refill hint s) = None"
proof -
  have "icap s = 2048" using assms(1,2) by (simp add: stream_ok_def)
  with assms show ?thesis
    by (auto simp: ReadByte_def Let_def IStreamIn_Refill_def stream_ok_def)
qed

end
