(* ===== verification/Arena_Alloc.thy ===== *)
theory Arena_Alloc
  imports Rpcxx_Prelude
begin

text \<open>
  The arena of \<^verbatim>\<open>alloc.hpp\<close>: a bump allocator over a buffer on the stack and blocks of the heap.
  Addresses are natural numbers; the address that \<^verbatim>\<open>::operator new\<close> returns is an argument of the
  operation that calls it. Regions are pairs of an address and a size.
\<close>

subsection \<open>The allocator\<close>

type_synonym region = "nat \<times> nat"

definition max_align :: nat where "max_align = 16"

record arena =
  buffptr :: nat
  aspace :: nat
  blockSize :: nat
  allocs :: "region list"

text \<open>\<^verbatim>\<open>std::align\<close>: the next aligned address in the space, if the bytes fit behind it.\<close>

definition std_align :: "nat \<Rightarrow> nat \<Rightarrow> nat \<Rightarrow> nat \<Rightarrow> region option" where
  "std_align align bytes p space =
     (let pad = (align - p mod align) mod align in
      if space < bytes + pad then None else Some (p + pad, space - pad))"

definition newBlock :: "nat \<Rightarrow> arena \<Rightarrow> arena" where
  "newBlock new a = a\<lparr>buffptr := new, allocs := (new, blockSize a) # allocs a, aspace := blockSize a\<rparr>"

definition doAlloc :: "nat \<Rightarrow> nat \<Rightarrow> nat \<Rightarrow> arena \<Rightarrow> nat \<times> arena" where
  "doAlloc new bytes align a =
     (if blockSize a < bytes then (new, a\<lparr>allocs := (new, bytes) # allocs a\<rparr>)
      else
        (let a1 = (case std_align align bytes (buffptr a) (aspace a) of
                     Some (p, space) \<Rightarrow> a\<lparr>buffptr := p, aspace := space\<rparr>
                   | None \<Rightarrow> newBlock new a)
         in (buffptr a1, a1\<lparr>aspace := aspace a1 - bytes, buffptr := buffptr a1 + bytes\<rparr>)))"

definition arena_clear :: "arena \<Rightarrow> arena" where
  "arena_clear a = a\<lparr>allocs := [], buffptr := 0, aspace := 0\<rparr>"

definition Clear :: "region \<Rightarrow> arena \<Rightarrow> arena" where
  "Clear stack a = (arena_clear a)\<lparr>buffptr := fst stack, aspace := snd stack\<rparr>"

definition SetBlockSize :: "nat \<Rightarrow> arena \<Rightarrow> arena" where
  "SetBlockSize sz a = a\<lparr>blockSize := sz\<rparr>"

definition DefaultArena_init :: "region \<Rightarrow> nat \<Rightarrow> arena" where
  "DefaultArena_init stack sz = Clear stack (SetBlockSize sz \<lparr>buffptr = 0, aspace = 0, blockSize = 0, allocs = []\<rparr>)"

subsection \<open>Runs\<close>

text \<open>
  What the system allocator promises for a call: the address is aligned, and the bytes belong to
  no region that the arena owns.
\<close>

definition region_bytes :: "region \<Rightarrow> nat set" where
  "region_bytes r = {fst r ..< fst r + snd r}"

definition owned :: "region \<Rightarrow> arena \<Rightarrow> region list" where
  "owned stack a = stack # allocs a"

definition request_size :: "nat \<Rightarrow> arena \<Rightarrow> nat" where
  "request_size bytes a = (if blockSize a < bytes then bytes else blockSize a)"

definition fresh :: "region \<Rightarrow> arena \<Rightarrow> nat \<Rightarrow> nat \<Rightarrow> bool" where
  "fresh stack a new sz \<longleftrightarrow> max_align dvd new \<and>
     (\<forall>r \<in> set (owned stack a). region_bytes r \<inter> region_bytes (new, sz) = {})"

text \<open>The states of an arena with the regions handed out since it was last cleared.\<close>

inductive alloc_run :: "region \<Rightarrow> arena \<Rightarrow> region list \<Rightarrow> bool" for stack :: region where
  init: "alloc_run stack (DefaultArena_init stack sz) []"
| alloc: "alloc_run stack a hs \<Longrightarrow> fresh stack a new (request_size bytes a) \<Longrightarrow> 0 < align \<Longrightarrow> align dvd max_align \<Longrightarrow>
    doAlloc new bytes align a = (p, a') \<Longrightarrow> alloc_run stack a' ((p, bytes) # hs)"
| clear: "alloc_run stack a hs \<Longrightarrow> alloc_run stack (Clear stack a) []"
| resize: "alloc_run stack a hs \<Longrightarrow> alloc_run stack (SetBlockSize sz a) hs"

inductive_cases alloc_run_Cons: "alloc_run stack a (h # hs)"

definition inside :: "region \<Rightarrow> region list \<Rightarrow> bool" where
  "inside r rs \<longleftrightarrow> (\<exists>s \<in> set rs. region_bytes r \<subseteq> region_bytes s)"

definition free_region :: "arena \<Rightarrow> region" where
  "free_region a = (buffptr a, aspace a)"

abbreviation disj :: "region \<Rightarrow> region \<Rightarrow> bool" where
  "disj r s \<equiv> region_bytes r \<inter> region_bytes s = {}"

abbreviation apart :: "region list \<Rightarrow> bool" where
  "apart rs \<equiv> sorted_wrt disj rs"

text \<open>
  Owned regions are apart; the free region and the regions handed out are apart and each inside an
  owned one.
\<close>

definition arena_inv :: "region \<Rightarrow> arena \<Rightarrow> region list \<Rightarrow> bool" where
  "arena_inv stack a hs \<longleftrightarrow>
     apart (owned stack a) \<and> apart (free_region a # hs) \<and>
     (\<forall>h \<in> set (free_region a # hs). inside h (owned stack a))"

lemma inside_mono: "inside r rs \<Longrightarrow> set rs \<subseteq> set ss \<Longrightarrow> inside r ss"
  by (auto simp: inside_def)

lemma inside_sub: "inside r rs \<Longrightarrow> region_bytes q \<subseteq> region_bytes r \<Longrightarrow> inside q rs"
  unfolding inside_def by blast

lemma inside_fresh: "inside r rs \<Longrightarrow> \<forall>s \<in> set rs. disj s q \<Longrightarrow> disj r q"
  unfolding inside_def by blast

lemma std_align_Some:
  assumes "std_align align bytes p space = Some (q, space')" "0 < align"
  shows "align dvd q" "bytes \<le> space'" "p \<le> q" "q + space' = p + space"
proof -
  define pad where "pad = (align - p mod align) mod align"
  have q: "q = p + pad" "space' = space - pad" "bytes + pad \<le> space"
    using assms(1) by (auto simp: std_align_def pad_def Let_def split: if_splits)
  have "(p + pad) mod align = (p mod align + (align - p mod align)) mod align"
    by (simp add: pad_def mod_simps)
  also have "\<dots> = 0" using assms(2) by simp
  finally show "align dvd q" using q(1) by (simp add: dvd_eq_mod_eq_0)
  show "bytes \<le> space'" "p \<le> q" "q + space' = p + space" using q by auto
qed

text \<open>Three steps: a large block, a bump inside the free region, and a new block with a bump in it.\<close>

lemma large_inv:
  assumes "arena_inv stack a hs" "fresh stack a new n"
  shows "arena_inv stack (a\<lparr>allocs := (new, n) # allocs a\<rparr>) ((new, n) # hs)"
proof -
  have d: "\<forall>h \<in> set (free_region a # hs). disj h (new, n)"
    using assms by (auto simp: arena_inv_def fresh_def dest!: inside_fresh [of _ "owned stack a" "(new, n)"])
  show ?thesis
    using assms d inside_mono [of _ "owned stack a" "owned stack (a\<lparr>allocs := (new, n) # allocs a\<rparr>)"]
    by (auto simp: arena_inv_def fresh_def owned_def free_region_def inside_def Int_commute)
qed

lemma bump_inv:
  assumes "arena_inv stack a hs" "buffptr a \<le> q" "q + sp = buffptr a + aspace a" "bytes \<le> sp"
  shows "arena_inv stack (a\<lparr>buffptr := q + bytes, aspace := sp - bytes\<rparr>) ((q, bytes) # hs)"
proof -
  have s: "region_bytes (q, bytes) \<subseteq> region_bytes (free_region a)"
    "region_bytes (q + bytes, sp - bytes) \<subseteq> region_bytes (free_region a)"
    "disj (q + bytes, sp - bytes) (q, bytes)"
    using assms(2-4) by (auto simp: region_bytes_def free_region_def)
  have "\<forall>h \<in> set hs. disj (free_region a) h" using assms(1) by (simp add: arena_inv_def)
  then have d: "\<forall>h \<in> set hs. disj (q, bytes) h" "\<forall>h \<in> set hs. disj (q + bytes, sp - bytes) h"
    using s(1,2) by blast+
  have "inside (free_region a) (owned stack a)" using assms(1) by (simp add: arena_inv_def)
  then have "inside (q, bytes) (owned stack a)" "inside (q + bytes, sp - bytes) (owned stack a)"
    using inside_sub s(1,2) by blast+
  then show ?thesis
    using assms(1) d s(3) by (simp add: arena_inv_def owned_def free_region_def)
qed

lemma newBlock_inv:
  assumes "arena_inv stack a hs" "fresh stack a new (blockSize a)"
  shows "arena_inv stack (newBlock new a) hs"
proof -
  have d: "\<forall>h \<in> set hs. disj h (new, blockSize a)"
    using assms by (auto simp: arena_inv_def fresh_def dest!: inside_fresh [of _ "owned stack a" "(new, blockSize a)"])
  show ?thesis
    using assms d
    by (auto simp: arena_inv_def fresh_def owned_def free_region_def newBlock_def inside_def Int_commute)
qed

lemma doAlloc_inv:
  assumes "arena_inv stack a hs" "fresh stack a new (request_size bytes a)" "0 < align" "align dvd max_align"
    and "doAlloc new bytes align a = (p, a')"
  shows "arena_inv stack a' ((p, bytes) # hs) \<and> align dvd p"
proof -
  have al: "align dvd new" using assms(2,4) by (auto simp: fresh_def)
  show ?thesis
  proof (cases "blockSize a < bytes")
    case True
    then show ?thesis using assms(2,5) large_inv [OF assms(1)] al by (auto simp: doAlloc_def request_size_def)
  next
    case False
    show ?thesis
    proof (cases "std_align align bytes (buffptr a) (aspace a)")
      case None
      have "fresh stack a new (blockSize a)" using assms(2) False by (simp add: request_size_def)
      from bump_inv [OF newBlock_inv [OF assms(1) this], of new "blockSize a" bytes]
      have "arena_inv stack ((newBlock new a)\<lparr>buffptr := new + bytes, aspace := blockSize a - bytes\<rparr>) ((new, bytes) # hs)"
        using False by (simp add: newBlock_def)
      then show ?thesis using False None assms(5) al by (cases a) (auto simp: doAlloc_def newBlock_def)
    next
      case (Some r)
      obtain q sp where r: "r = (q, sp)" by (cases r)
      note st = std_align_Some [OF Some [unfolded r] assms(3)]
      from bump_inv [OF assms(1) st(3,4,2)] st(1) show ?thesis
        using False Some r assms(5) by (cases a) (auto simp: doAlloc_def)
    qed
  qed
qed

lemma Clear_inv: "arena_inv stack (Clear stack a) []"
  by (simp add: arena_inv_def Clear_def arena_clear_def owned_def free_region_def inside_def)

lemma SetBlockSize_inv: "arena_inv stack (SetBlockSize sz a) hs = arena_inv stack a hs"
  by (simp add: arena_inv_def SetBlockSize_def owned_def free_region_def)

lemma alloc_run_inv: "alloc_run stack a hs \<Longrightarrow> arena_inv stack a hs"
proof (induction rule: alloc_run.induct)
  case (init sz)
  show ?case by (simp add: DefaultArena_init_def Clear_inv)
next
  case (alloc a hs new bytes align p a')
  then show ?case using doAlloc_inv by blast
qed (simp_all add: Clear_inv SetBlockSize_inv)

subsection \<open>Properties\<close>

text \<open>
  C31: allocation is safe: after any sequence of allocations, clearings and changes of the block
  size, an allocation returns memory that is aligned as asked for (up to the largest alignment),
  lies inside the stack buffer or a block the arena owns, and overlaps nothing handed out since the
  last clearing; and all of that is still inside what the arena owns.
\<close>

theorem arena_alloc_safe:
  assumes "alloc_run stack a hs" "fresh stack a new (request_size bytes a)"
    and "0 < align" "align dvd max_align" "doAlloc new bytes align a = (p, a')"
  shows "align dvd p \<and> inside (p, bytes) (owned stack a') \<and>
    (\<forall>h \<in> set hs. disj (p, bytes) h \<and> inside h (owned stack a'))"
  using doAlloc_inv [OF alloc_run_inv [OF assms(1)] assms(2-5)] by (auto simp: arena_inv_def)

theorem arena_alloc_safe_witness:
  "(let a = DefaultArena_init (100, 32) 64; (p, a1) = doAlloc 4096 10 4 a; (q, a2) = doAlloc 4096 32 8 a1 in
     p = 100 \<and> q = 4096 \<and> inside (q, 32) (owned (100, 32) a2) \<and> disj (q, 32) (p, 10))"
proof -
  let ?a = "DefaultArena_init (100, 32) 64" and ?st = "(100, 32)"
  have f: "fresh ?st ?a 4096 (request_size 10 ?a)"
    by (simp add: fresh_def max_align_def owned_def DefaultArena_init_def Clear_def arena_clear_def SetBlockSize_def
        request_size_def region_bytes_def)
  define a1 where "a1 = snd (doAlloc 4096 10 4 ?a)"
  have a1: "doAlloc 4096 10 4 ?a = (100, a1)" "allocs a1 = []" "blockSize a1 = 64" "buffptr a1 = 110" "aspace a1 = 22"
    by (simp_all add: a1_def doAlloc_def std_align_def DefaultArena_init_def Clear_def arena_clear_def SetBlockSize_def)
  have r: "alloc_run ?st a1 [(100, 10)]"
    by (rule alloc_run.alloc [OF alloc_run.init f _ _ a1(1)]) (simp_all add: max_align_def)
  have f1: "fresh ?st a1 4096 (request_size 32 a1)"
    by (simp add: fresh_def max_align_def owned_def a1 request_size_def region_bytes_def)
  obtain a2 where a2: "doAlloc 4096 32 8 a1 = (4096, a2)"
    by (simp add: doAlloc_def std_align_def a1 newBlock_def)
  show ?thesis
    using arena_alloc_safe [OF r f1 _ _ a2] a1(1) a2 by (simp add: max_align_def)
qed

end
