(* ===== verification/Fut_Core.thy ===== *)
theory Fut_Core
  imports Rpc_Protocol "HOL-Library.Multiset"
begin

text \<open>
  The futures of \<^verbatim>\<open>future.hpp\<close> and \<^verbatim>\<open>future.cpp\<close>: the shared states, the critical sections in which
  the code reads and writes them under their locks, and \<^verbatim>\<open>continueChain\<close>, which claims a
  continuation and runs it. A thread is the list of the sections it has still to run, so a program
  of several threads is an interleaving of such lists. Functions of the user are functions from a
  result to an outcome; what they do to other futures are operations of the program.
\<close>

subsection \<open>Shared states\<close>

type_synonym sid = nat

text \<open>\<^verbatim>\<open>Result<T>\<close>; \<^verbatim>\<open>Inr None\<close> is the result of a \<^verbatim>\<open>Future<void>\<close>.\<close>

type_synonym 'v result = "exc + 'v option"

text \<open>
  What a function of the user does: it returns nothing, a value, or a future (none: an invalid one),
  or it throws.
\<close>

datatype 'v outcome = RetVoid | Ret 'v | RetFut "sid option" | Throws exc

text \<open>
  The function under \<^verbatim>\<open>ctx\<close>, by the \<^verbatim>\<open>notify\<close> it was installed with: \<^verbatim>\<open>notifyImpl\<close>, \<^verbatim>\<open>notifyTryImpl\<close>,
  \<^verbatim>\<open>notifyLastImpl\<close> (does it throw?). Functors are numbered as they are allocated.
\<close>

datatype 'v func =
    FThen "'v option \<Rightarrow> 'v outcome"
  | FTry "'v result \<Rightarrow> 'v outcome"
  | FLast "'v result \<Rightarrow> bool"

datatype 'v notify = Call nat "'v func" | Forward

record 'v fstate =
  is_void :: bool \<comment> \<open>\<^verbatim>\<open>Data<void>\<close>\<close>
  fullfilled :: bool
  has_val :: bool
  future_taken :: bool
  fexc :: "exc option"
  buff :: "'v option" \<comment> \<open>none: not yet constructed\<close>
  fnotify :: "'v notify option"
  fexec :: "nat option"
  fchain :: "sid option"
  promises :: nat

definition new_Data :: "bool \<Rightarrow> nat \<Rightarrow> 'v fstate" where
  "new_Data void n =
     \<lparr>is_void = void, fullfilled = False, has_val = False, future_taken = False, fexc = None,
      buff = None, fnotify = None, fexec = None, fchain = None, promises = n\<rparr>"

text \<open>
  What the code must never do: dereference an invalid future a function returned, read a value that
  was never constructed, touch a state that does not exist.
\<close>

datatype fault = Null_Future | No_Value | Dangling

record 'v futures =
  states :: "'v fstate list"
  handles :: "sid set" \<comment> \<open>valid \<^verbatim>\<open>Future\<close> objects\<close>
  stopped :: "nat set" \<comment> \<open>executors after \<^verbatim>\<open>Stop\<close>\<close>
  next_fn :: nat
  ran :: "(nat \<times> 'v result) list" \<comment> \<open>functors that were called\<close>
  deleted :: "nat list" \<comment> \<open>functors deleted\<close>
  dropped :: "nat list list" \<comment> \<open>those deleted by \<^verbatim>\<open>notif(self, false)\<close>\<close>
  faults :: "fault list"
  aborted :: bool \<comment> \<open>\<^verbatim>\<open>std::terminate\<close> from \<^verbatim>\<open>onLastExc\<close>\<close>

definition st :: "'v futures \<Rightarrow> sid \<Rightarrow> 'v fstate" where
  "st w s = states w ! s"

definition upd :: "sid \<Rightarrow> ('v fstate \<Rightarrow> 'v fstate) \<Rightarrow> 'v futures \<Rightarrow> 'v futures" where
  "upd s f w = w\<lparr>states := (states w)[s := f (st w s)]\<rparr>"

definition fail :: "fault \<Rightarrow> 'v futures \<Rightarrow> 'v futures" where
  "fail x w = w\<lparr>faults := x # faults w\<rparr>"

subsection \<open>Storing a result\<close>

text \<open>\<^verbatim>\<open>operator()\<close> of a promise is given an exception pointer, nothing, or a value.\<close>

datatype 'v answer = Exc "exc option" | Void | Val 'v

definition fulfilExc :: "exc option \<Rightarrow> 'v fstate \<Rightarrow> bool \<times> 'v fstate" where
  "fulfilExc e d = (if fullfilled d then (False, d) else (True, d\<lparr>fexc := e, fullfilled := True\<rparr>))"

definition fulfilVoid :: "'v fstate \<Rightarrow> bool \<times> 'v fstate" where
  "fulfilVoid d = (if fullfilled d then (False, d) else (True, d\<lparr>fullfilled := True\<rparr>))"

definition fulfilValue :: "'v \<Rightarrow> 'v fstate \<Rightarrow> bool \<times> 'v fstate" where
  "fulfilValue v d =
     (if fullfilled d then (False, d)
      else (True, d\<lparr>buff := Some v, fullfilled := True, has_val := True\<rparr>))"

fun fulfil_with :: "'v answer \<Rightarrow> 'v fstate \<Rightarrow> bool \<times> 'v fstate" where
  "fulfil_with (Exc e) d = fulfilExc e d"
| "fulfil_with Void d = fulfilVoid d"
| "fulfil_with (Val v) d = fulfilValue v d"

definition put :: "sid \<Rightarrow> 'v answer \<Rightarrow> 'v futures \<Rightarrow> 'v futures" where
  "put s a w = upd s (\<lambda>d. snd (fulfil_with a d)) w"

definition put_chain :: "sid option \<Rightarrow> 'v answer \<Rightarrow> 'v futures \<Rightarrow> 'v futures" where
  "put_chain c a w = (case c of None \<Rightarrow> w | Some s \<Rightarrow> put s a w)"

text \<open>\<^verbatim>\<open>getRes\<close>: none when the buffer is read though no value was constructed in it.\<close>

definition getRes :: "'v fstate \<Rightarrow> 'v result option" where
  "getRes d =
     (case fexc d of
        Some e \<Rightarrow> Some (Inl e)
      | None \<Rightarrow> if is_void d then Some (Inr None)
                else (case buff d of Some v \<Rightarrow> Some (Inr (Some v)) | None \<Rightarrow> None))"

subsection \<open>Tasks\<close>

text \<open>
  The sections of a thread: \<^verbatim>\<open>Fulfil\<close> and \<^verbatim>\<open>Break\<close> of a promise, \<^verbatim>\<open>Publish\<close> of \<^verbatim>\<open>install\<close>, \<^verbatim>\<open>Drive\<close> a turn
  of the loop of \<^verbatim>\<open>continueChain\<close>, \<^verbatim>\<open>Submit\<close> the \<^verbatim>\<open>Execute\<close> of an executor with its \<^verbatim>\<open>NotifyCtx\<close>, \<^verbatim>\<open>Notify\<close>
  the call of a claimed continuation and \<^verbatim>\<open>Delete\<close> the \<^verbatim>\<open>delete fn\<close> after it.
\<close>

datatype 'v task =
    Fulfil sid "'v answer"
  | Break sid
  | Publish sid "'v notify" "nat option" "sid option"
  | Drive "sid option"
  | Submit nat "'v notify" sid "sid option"
  | Notify "'v notify" sid "sid option"
  | Delete nat

fun functors :: "'v notify \<Rightarrow> nat list" where
  "functors (Call k f) = [k]"
| "functors Forward = []"

text \<open>\<^verbatim>\<open>notif(self, false)\<close>\<close>

definition drop_notify :: "'v notify \<Rightarrow> 'v futures \<Rightarrow> 'v futures" where
  "drop_notify n w = w\<lparr>deleted := deleted w @ functors n, dropped := dropped w @ [functors n]\<rparr>"

text \<open>A returned future gets the chain and \<^verbatim>\<open>notifyForward\<close>, whatever it had before, and is driven.\<close>

definition splice :: "sid option \<Rightarrow> sid option \<Rightarrow> 'v futures \<Rightarrow> 'v task list \<times> 'v futures" where
  "splice c fut w =
     (case fut of
        None \<Rightarrow> ([], fail Null_Future w)
      | Some p \<Rightarrow>
          if p \<notin> handles w \<or> length (states w) \<le> p then ([], fail Null_Future w)
          else ([Drive (Some p)],
                (upd p (\<lambda>d. d\<lparr>fchain := c, fnotify := Some Forward\<rparr>) w)\<lparr>handles := handles w - {p}\<rparr>))"

fun set_outcome :: "sid option \<Rightarrow> 'v outcome \<Rightarrow> 'v futures \<Rightarrow> 'v task list \<times> 'v futures" where
  "set_outcome c RetVoid w = ([], put_chain c Void w)"
| "set_outcome c (Ret v) w = ([], put_chain c (Val v) w)"
| "set_outcome c (Throws e) w = ([], put_chain c (Exc (Some e)) w)"
| "set_outcome c (RetFut fut) w = splice c fut w"

definition note_run :: "nat \<Rightarrow> 'v result \<Rightarrow> 'v futures \<Rightarrow> 'v futures" where
  "note_run k r w = w\<lparr>ran := ran w @ [(k, r)]\<rparr>"

text \<open>\<^verbatim>\<open>setResult\<close>; with \<^verbatim>\<open>unpack\<close> an exception skips the function.\<close>

fun setResult :: "nat \<Rightarrow> 'v func \<Rightarrow> sid option \<Rightarrow> 'v result \<Rightarrow> 'v futures \<Rightarrow> 'v task list \<times> 'v futures" where
  "setResult k (FThen f) c (Inl e) w = ([], put_chain c (Exc (Some e)) w)"
| "setResult k (FThen f) c (Inr v) w = set_outcome c (f v) (note_run k (Inr v) w)"
| "setResult k (FTry f) c r w = set_outcome c (f r) (note_run k r w)"
| "setResult k (FLast f) c r w = ([], (note_run k r w)\<lparr>aborted := f r\<rparr>)"

definition notifyForward :: "sid \<Rightarrow> 'v futures \<Rightarrow> 'v futures" where
  "notifyForward s w =
     (let d = st w s in
      case fexc d of
        Some e \<Rightarrow> put_chain (fchain d) (Exc (Some e)) (upd s (\<lambda>d. d\<lparr>fexc := None\<rparr>) w)
      | None \<Rightarrow>
          if is_void d then put_chain (fchain d) Void w
          else (case buff d of
                  Some v \<Rightarrow> put_chain (fchain d) (Val v) w
                | None \<Rightarrow> fail No_Value w))"

fun call_notify :: "'v notify \<Rightarrow> sid \<Rightarrow> 'v futures \<Rightarrow> 'v task list \<times> 'v futures" where
  "call_notify Forward s w = ([], notifyForward s w)"
| "call_notify (Call k f) s w =
     (case getRes (st w s) of
        None \<Rightarrow> ([Delete k], fail No_Value w)
      | Some r \<Rightarrow> (let (ts, w') = setResult k f (fchain (st w s)) r w in (ts @ [Delete k], w')))"

text \<open>The section of \<^verbatim>\<open>continueChain\<close> under the lock, and what follows it.\<close>

definition claim :: "sid \<Rightarrow> 'v futures \<Rightarrow> 'v task list \<times> 'v futures" where
  "claim s w =
     (let d = st w s in
      if \<not> fullfilled d then ([], w)
      else (case fnotify d of
              None \<Rightarrow> ([], w)
            | Some n \<Rightarrow>
                ([case fexec d of Some x \<Rightarrow> Submit x n s (fchain d) | None \<Rightarrow> Notify n s (fchain d)],
                 upd s (\<lambda>d. d\<lparr>fnotify := None\<rparr>) w)))"

definition publish :: "sid \<Rightarrow> 'v notify \<Rightarrow> nat option \<Rightarrow> sid option \<Rightarrow> 'v futures \<Rightarrow> 'v task list \<times> 'v futures" where
  "publish s n x c w =
     (case fnotify (st w s) of
        Some m \<Rightarrow> ([], (drop_notify n w)\<lparr>handles := insert s (handles w)\<rparr>)
      | None \<Rightarrow> ([Drive (Some s)], upd s (\<lambda>d. d\<lparr>fexec := x, fchain := c, fnotify := Some n\<rparr>) w))"

text \<open>\<^verbatim>\<open>StoppableExecutor::Execute\<close>; a dropped job deletes its functor.\<close>

definition Execute :: "nat \<Rightarrow> 'v notify \<Rightarrow> sid \<Rightarrow> sid option \<Rightarrow> 'v futures \<Rightarrow> 'v task list \<times> 'v futures" where
  "Execute x n s c w = (if x \<in> stopped w then ([], drop_notify n w) else ([Notify n s c], w))"

fun sids :: "'v task \<Rightarrow> sid list" where
  "sids (Fulfil s a) = [s]"
| "sids (Break s) = [s]"
| "sids (Publish s n x c) = s # (case c of None \<Rightarrow> [] | Some c \<Rightarrow> [c])"
| "sids (Drive d) = (case d of None \<Rightarrow> [] | Some c \<Rightarrow> [c])"
| "sids (Submit x n s c) = s # (case c of None \<Rightarrow> [] | Some c \<Rightarrow> [c])"
| "sids (Notify n s c) = s # (case c of None \<Rightarrow> [] | Some c \<Rightarrow> [c])"
| "sids (Delete k) = []"

fun run_task :: "'v task \<Rightarrow> 'v futures \<Rightarrow> 'v task list \<times> 'v futures" where
  "run_task (Fulfil s a) w = ([Drive (Some s)], put s a w)"
| "run_task (Break s) w =
     ((if fullfilled (st w s) then [] else [Fulfil s (Exc (Some (FutureError ''Broken Promise'')))]), w)"
| "run_task (Publish s n x c) w = publish s n x c w"
| "run_task (Drive None) w = ([], w)"
| "run_task (Drive (Some s)) w = claim s w"
| "run_task (Submit x n s c) w = Execute x n s c w"
| "run_task (Notify n s c) w = (let (ts, w') = call_notify n s w in (ts @ [Drive c], w'))"
| "run_task (Delete k) w = ([], w\<lparr>deleted := deleted w @ [k]\<rparr>)"

definition exec_task :: "'v task \<Rightarrow> 'v futures \<Rightarrow> 'v task list \<times> 'v futures" where
  "exec_task t w =
     (if \<forall>s \<in> set (sids t). s < length (states w) then run_task t w else ([], fail Dangling w))"

subsection \<open>One thread\<close>

text \<open>Every section makes the work left smaller, so a thread that is left alone ends.\<close>

fun cost :: "'v notify \<Rightarrow> nat" where
  "cost (Call k f) = 10"
| "cost Forward = 5"

definition waiting_cost :: "'v fstate \<Rightarrow> nat" where
  "waiting_cost d = (case fnotify d of None \<Rightarrow> 0 | Some n \<Rightarrow> cost n)"

fun task_cost :: "'v task \<Rightarrow> nat" where
  "task_cost (Fulfil s a) = 2"
| "task_cost (Break s) = 3"
| "task_cost (Publish s n x c) = cost n + 2"
| "task_cost (Drive s) = 1"
| "task_cost (Submit x n s c) = cost n"
| "task_cost (Notify n s c) = cost n - 1"
| "task_cost (Delete k) = 1"

definition world_cost :: "'v futures \<Rightarrow> nat" where
  "world_cost w = sum_list (map waiting_cost (states w))"

definition work :: "'v task list \<Rightarrow> 'v futures \<Rightarrow> nat" where
  "work ts w = sum_list (map task_cost ts) + world_cost w"

lemma sum_list_map_update:
  fixes f :: "'a \<Rightarrow> nat"
  shows "i < length xs \<Longrightarrow> sum_list (map f (xs[i := x])) + f (xs ! i) = sum_list (map f xs) + f x"
  by (induction xs arbitrary: i) (auto split: nat.splits)

lemma world_cost_upd:
  "s < length (states w) \<Longrightarrow>
     world_cost (upd s f w) + waiting_cost (st w s) = world_cost w + waiting_cost (f (st w s))"
  unfolding world_cost_def upd_def st_def by (simp add: sum_list_map_update)

lemma world_cost_upd_id:
  assumes "\<And>d. fnotify (f d) = fnotify d"
  shows "world_cost (upd s f w) = world_cost w"
proof (cases "s < length (states w)")
  case True
  with world_cost_upd [OF this, of f] show ?thesis by (simp add: waiting_cost_def assms)
next
  case False
  then show ?thesis by (simp add: world_cost_def upd_def list_update_beyond)
qed

lemma fulfil_with_frame [simp]:
  "fnotify (snd (fulfil_with a d)) = fnotify d" "fchain (snd (fulfil_with a d)) = fchain d"
  "fexec (snd (fulfil_with a d)) = fexec d" "promises (snd (fulfil_with a d)) = promises d"
  "future_taken (snd (fulfil_with a d)) = future_taken d" "is_void (snd (fulfil_with a d)) = is_void d"
  "fullfilled (snd (fulfil_with a d))"
  by (cases a; simp add: fulfilExc_def fulfilVoid_def fulfilValue_def)+

lemma world_cost_put [simp]: "world_cost (put s a w) = world_cost w"
  unfolding put_def by (rule world_cost_upd_id) simp

lemma world_cost_put_chain [simp]: "world_cost (put_chain c a w) = world_cost w"
  by (simp add: put_chain_def split: option.splits)

lemma world_cost_simps [simp]:
  "world_cost (w\<lparr>handles := h\<rparr>) = world_cost w" "world_cost (w\<lparr>ran := l\<rparr>) = world_cost w"
  "world_cost (w\<lparr>deleted := l'\<rparr>) = world_cost w" "world_cost (w\<lparr>aborted := a\<rparr>) = world_cost w"
  "world_cost (fail x w) = world_cost w" "world_cost (note_run k r w) = world_cost w"
  "world_cost (drop_notify n w) = world_cost w"
  by (simp_all add: world_cost_def fail_def note_run_def drop_notify_def)

lemma states_length [simp]:
  "length (states (upd s f w)) = length (states w)" "length (states (put s a w)) = length (states w)"
  "length (states (put_chain c a w)) = length (states w)" "states (fail x w) = states w"
  "states (note_run k r w) = states w" "states (drop_notify n w) = states w"
  by (simp_all add: upd_def put_def put_chain_def fail_def note_run_def drop_notify_def split: option.splits)

lemma splice_cost: "splice c fut w = (ts, w') \<Longrightarrow> work ts w' \<le> world_cost w + 6"
proof (cases fut)
  case (Some p)
  assume "splice c fut w = (ts, w')"
  with Some world_cost_upd [of p w "\<lambda>d. d\<lparr>fchain := c, fnotify := Some Forward\<rparr>"] show ?thesis
    by (auto simp: splice_def work_def waiting_cost_def split: if_splits)
qed (auto simp: splice_def work_def)

lemma set_outcome_cost: "set_outcome c r w = (ts, w') \<Longrightarrow> work ts w' \<le> world_cost w + 6"
  by (cases r) (auto simp: work_def dest: splice_cost)

lemma setResult_cost: "setResult k f c r w = (ts, w') \<Longrightarrow> work ts w' \<le> world_cost w + 6"
  by (cases "(k, f, c, r, w)" rule: setResult.cases) (auto simp: work_def dest!: set_outcome_cost)

lemma notifyForward_cost [simp]: "world_cost (notifyForward s w) = world_cost w"
  by (simp add: notifyForward_def world_cost_upd_id Let_def split: option.splits)

lemma cost_pos: "5 \<le> cost n"
  by (cases n) auto

lemma cost_pos_simps [simp]: "0 < cost n" "Suc 0 < cost n" "cost n - Suc 0 < cost n"
  using cost_pos [of n] by linarith+

lemma call_notify_cost:
  "call_notify n s w = (ts, w') \<Longrightarrow> work ts w' + 2 < world_cost w + cost n"
  by (cases n) (auto simp: work_def split: option.splits prod.splits dest!: setResult_cost)

lemma claim_cost: "s < length (states w) \<Longrightarrow> claim s w = (ts, w') \<Longrightarrow> work ts w' < world_cost w + 1"
  using world_cost_upd [of s w "\<lambda>d. d\<lparr>fnotify := None\<rparr>"] cost_pos [of "the (fnotify (st w s))"]
  by (auto simp: claim_def work_def waiting_cost_def Let_def split: option.splits if_splits)

lemma publish_cost:
  "s < length (states w) \<Longrightarrow> publish s n x c w = (ts, w') \<Longrightarrow> work ts w' < world_cost w + cost n + 2"
  using world_cost_upd [of s w "\<lambda>d. d\<lparr>fexec := x, fchain := c, fnotify := Some n\<rparr>"] cost_pos [of n]
  by (auto simp: publish_def work_def waiting_cost_def split: option.splits)

lemma exec_task_cost: "exec_task t w = (ts, w') \<Longrightarrow> work ts w' < work [t] w"
  by (cases "(t, w)" rule: run_task.cases)
    (auto simp: exec_task_def work_def Execute_def split: if_splits prod.splits
      dest: claim_cost publish_cost dest!: call_notify_cost)

lemma work_append: "work (ts @ us) w = work ts w + sum_list (map task_cost us)"
  by (simp add: work_def)

function run_thread :: "'v task list \<Rightarrow> 'v futures \<Rightarrow> 'v futures" where
  "run_thread [] w = w"
| "run_thread (t # ts) w =
     (if aborted w then w else (let (new, w') = exec_task t w in run_thread (new @ ts) w'))"
  by pat_completeness auto
termination
  by (relation "measure (\<lambda>(ts, w). work ts w)")
    (auto simp: work_append dest!: exec_task_cost [OF sym] simp: work_def)


subsection \<open>Programs\<close>

text \<open>
  What the threads of a program do with promises and futures. A \<^verbatim>\<open>Then\<close>, \<^verbatim>\<open>Try\<close> or \<^verbatim>\<open>AtLast\<close> takes the
  \<^verbatim>\<open>Future\<close> it is called on.
\<close>

datatype 'v operation =
    NewPromise bool
  | CopyPromise sid
  | DropPromise sid
  | GetFuture sid
  | Resolve sid "'v answer"
  | Install sid "nat option" "'v func" bool
  | DropFuture sid
  | Stop nat

fun is_last :: "'v func \<Rightarrow> bool" where
  "is_last (FLast f) = True"
| "is_last (FThen f) = False"
| "is_last (FTry f) = False"

definition has_promise :: "'v futures \<Rightarrow> sid \<Rightarrow> bool" where
  "has_promise w s \<longleftrightarrow> s < length (states w) \<and> 0 < promises (st w s)"

definition add_state :: "bool \<Rightarrow> nat \<Rightarrow> 'v futures \<Rightarrow> 'v futures" where
  "add_state void n w = w\<lparr>states := states w @ [new_Data void n]\<rparr>"

definition ref_promise :: "sid \<Rightarrow> 'v futures \<Rightarrow> 'v futures" where
  "ref_promise s w = upd s (\<lambda>d. d\<lparr>promises := promises d + 1\<rparr>) w"

definition deref_promise :: "sid \<Rightarrow> 'v futures \<Rightarrow> 'v task list \<times> 'v futures" where
  "deref_promise s w =
     ((if promises (st w s) = 1 then [Break s] else []), upd s (\<lambda>d. d\<lparr>promises := promises d - 1\<rparr>) w)"

text \<open>A second call throws and changes nothing.\<close>

definition take_future :: "sid \<Rightarrow> 'v futures \<Rightarrow> 'v futures" where
  "take_future s w =
     (if future_taken (st w s) then w
      else (upd s (\<lambda>d. d\<lparr>future_taken := True\<rparr>) w)\<lparr>handles := insert s (handles w)\<rparr>)"

definition install_op :: "sid \<Rightarrow> nat option \<Rightarrow> 'v func \<Rightarrow> bool \<Rightarrow> 'v futures \<Rightarrow> 'v task list \<times> 'v futures" where
  "install_op s x f void w =
     (let n = Call (next_fn w) f; c = length (states w);
          w' = w\<lparr>handles := handles w - {s}, next_fn := next_fn w + 1\<rparr>
      in if is_last f then ([Publish s n x None], w')
         else ([Publish s n x (Some c)], (add_state void 0 w')\<lparr>handles := insert c (handles w')\<rparr>))"

fun perform :: "'v operation \<Rightarrow> 'v futures \<Rightarrow> ('v task list \<times> 'v futures) option" where
  "perform (NewPromise void) w = Some ([], add_state void 1 w)"
| "perform (CopyPromise s) w = (if has_promise w s then Some ([], ref_promise s w) else None)"
| "perform (DropPromise s) w = (if has_promise w s then Some (deref_promise s w) else None)"
| "perform (GetFuture s) w = (if has_promise w s then Some ([], take_future s w) else None)"
| "perform (Resolve s a) w = (if has_promise w s then Some ([Fulfil s a], w) else None)"
| "perform (Install s x f void) w = (if s \<in> handles w then Some (install_op s x f void w) else None)"
| "perform (DropFuture s) w = (if s \<in> handles w then Some ([], w\<lparr>handles := handles w - {s}\<rparr>) else None)"
| "perform (Stop x) w = Some ([], w\<lparr>stopped := insert x (stopped w)\<rparr>)"

text \<open>
  Threads take turns section by section. An executor may also keep a job for another thread
  (\<^verbatim>\<open>Defer\<close>) or destroy it (\<^verbatim>\<open>Cancel\<close>).
\<close>

type_synonym 'v config = "'v task list list \<times> 'v futures"

definition start :: "'v config" where
  "start =
     ([], \<lparr>states = [], handles = {}, stopped = {}, next_fn = 0, ran = [], deleted = [], dropped = [],
           faults = [], aborted = False\<rparr>)"

inductive internal_step :: "'v config \<Rightarrow> 'v config \<Rightarrow> bool" where
  run: "\<not> aborted w \<Longrightarrow> i < length ths \<Longrightarrow> ths ! i = t # ts \<Longrightarrow> exec_task t w = (new, w') \<Longrightarrow>
     internal_step (ths, w) (ths[i := new @ ts], w')"
| defer_job: "\<not> aborted w \<Longrightarrow> i < length ths \<Longrightarrow> ths ! i = Submit x n s c # ts \<Longrightarrow> ts \<noteq> [] \<Longrightarrow>
     internal_step (ths, w) (ths[i := ts] @ [[Submit x n s c]], w)"
| cancel_job: "\<not> aborted w \<Longrightarrow> i < length ths \<Longrightarrow> ths ! i = Submit x n s c # ts \<Longrightarrow>
     internal_step (ths, w) (ths[i := ts], drop_notify n w)"

inductive thread_step :: "'v config \<Rightarrow> 'v config \<Rightarrow> bool" where
  perform: "\<not> aborted w \<Longrightarrow> perform a w = Some (ts, w') \<Longrightarrow> thread_step (ths, w) (ths @ [ts], w')"
| internal: "internal_step c c' \<Longrightarrow> thread_step c c'"

inductive reachable :: "'v config \<Rightarrow> bool" where
  initial: "reachable start"
| more: "reachable c \<Longrightarrow> thread_step c c' \<Longrightarrow> reachable c'"

end
