(* ===== verification/Fut_Inv.thy ===== *)
theory Fut_Inv
  imports Fut_Core
begin

text \<open>
  The invariant of the threads that share futures: what every section, every operation of a program
  and every decision of an executor keeps. The laws of \<open>Fut_Laws\<close> are read off it.
\<close>

subsection \<open>The invariant\<close>

text \<open>
  Over the sections the threads have left, in any order: they name states that exist (\<^verbatim>\<open>ids_exist\<close>), a
  state has at most one consumer, which is its \<^verbatim>\<open>Future\<close>, its continuation or the section that has
  claimed it (\<^verbatim>\<open>singly_owned\<close>), a claimed continuation knows the chain of its state (\<^verbatim>\<open>wired\<close>), a fulfilled
  state with a continuation is about to be driven (\<^verbatim>\<open>awake\<close>), every functor is in one place (\<^verbatim>\<open>linear\<close>)
  and is deleted after its call (\<^verbatim>\<open>runs_deleted\<close>), and a pending state has somebody who will fulfil it
  (\<^verbatim>\<open>fed\<close>).
\<close>

definition ids_exist :: "'v task multiset \<Rightarrow> 'v futures \<Rightarrow> bool" where
  "ids_exist M w \<longleftrightarrow>
     (\<forall>t. t \<in># M \<longrightarrow> (\<forall>s \<in> set (sids t). s < length (states w))) \<and>
     (\<forall>s \<in> handles w. s < length (states w)) \<and>
     (\<forall>s < length (states w). \<forall>c. fchain (st w s) = Some c \<longrightarrow> c < length (states w)) \<and>
     Dangling \<notin> set (faults w)"

fun consumer :: "'v task \<Rightarrow> sid option" where
  "consumer (Publish s n x c) = Some s"
| "consumer (Submit x n s c) = Some s"
| "consumer (Notify n s c) = Some s"
| "consumer _ = None"

definition owners :: "'v task multiset \<Rightarrow> 'v futures \<Rightarrow> sid \<Rightarrow> nat" where
  "owners M w s =
     size {#t \<in># M. consumer t = Some s#} + of_bool (s \<in> handles w) + of_bool (fnotify (st w s) \<noteq> None)"

definition singly_owned :: "'v task multiset \<Rightarrow> 'v futures \<Rightarrow> bool" where
  "singly_owned M w \<longleftrightarrow>
     (\<forall>s < length (states w). owners M w s \<le> 1 \<and>
        (0 < promises (st w s) \<longrightarrow> \<not> future_taken (st w s) \<longrightarrow> owners M w s = 0))"

fun last_call :: "'v notify \<Rightarrow> bool" where
  "last_call (Call k f) = is_last f"
| "last_call Forward = False"

fun wired_task :: "'v futures \<Rightarrow> 'v task \<Rightarrow> bool" where
  "wired_task w (Publish s n x c) = (last_call n \<longrightarrow> c = None)"
| "wired_task w (Submit x n s c) = (c = fchain (st w s) \<and> (last_call n \<longrightarrow> c = None))"
| "wired_task w (Notify n s c) = (c = fchain (st w s) \<and> (last_call n \<longrightarrow> c = None))"
| "wired_task w _ = True"

definition wired :: "'v task multiset \<Rightarrow> 'v futures \<Rightarrow> bool" where
  "wired M w \<longleftrightarrow>
     (\<forall>t. t \<in># M \<longrightarrow> wired_task w t) \<and>
     (\<forall>s < length (states w). \<forall>n. fnotify (st w s) = Some n \<longrightarrow> last_call n \<longrightarrow> fchain (st w s) = None)"

definition awake :: "'v task multiset \<Rightarrow> 'v futures \<Rightarrow> bool" where
  "awake M w \<longleftrightarrow>
     (\<forall>s < length (states w). fullfilled (st w s) \<longrightarrow> fnotify (st w s) \<noteq> None \<longrightarrow> Drive (Some s) \<in># M)"

fun task_functors :: "'v task \<Rightarrow> nat list" where
  "task_functors (Publish s n x c) = functors n"
| "task_functors (Submit x n s c) = functors n"
| "task_functors (Notify n s c) = functors n"
| "task_functors (Delete k) = [k]"
| "task_functors _ = []"

definition kept_functors :: "'v fstate \<Rightarrow> nat list" where
  "kept_functors d = (case fnotify d of None \<Rightarrow> [] | Some n \<Rightarrow> functors n)"

definition linear :: "'v task multiset \<Rightarrow> 'v futures \<Rightarrow> bool" where
  "linear M w \<longleftrightarrow>
     mset (concat (map kept_functors (states w))) + \<Sum>\<^sub># (image_mset (\<lambda>t. mset (task_functors t)) M) +
       mset (deleted w) = mset [0..<next_fn w]"

fun deletion :: "'v task \<Rightarrow> nat list" where
  "deletion (Delete k) = [k]"
| "deletion _ = []"

definition runs_deleted :: "'v task multiset \<Rightarrow> 'v futures \<Rightarrow> bool" where
  "runs_deleted M w \<longleftrightarrow>
     mset (map fst (ran w)) + mset (concat (dropped w)) \<subseteq>#
       mset (deleted w) + \<Sum>\<^sub># (image_mset (\<lambda>t. mset (deletion t)) M)"

fun feeds :: "'v task \<Rightarrow> sid option" where
  "feeds (Fulfil s a) = Some s"
| "feeds (Break s) = Some s"
| "feeds (Publish s n x c) = c"
| "feeds (Submit x n s c) = c"
| "feeds (Notify n s c) = c"
| "feeds _ = None"

definition fed :: "'v task multiset \<Rightarrow> 'v futures \<Rightarrow> bool" where
  "fed M w \<longleftrightarrow>
     faults w = [] \<longrightarrow> dropped w = [] \<longrightarrow>
     (\<forall>s < length (states w). fullfilled (st w s) \<or> 0 < promises (st w s) \<or> (\<exists>t. t \<in># M \<and> feeds t = Some s) \<or>
        (\<exists>p < length (states w). fnotify (st w p) \<noteq> None \<and> fchain (st w p) = Some s))"

definition tasks :: "'v task list list \<Rightarrow> 'v task multiset" where
  "tasks ths = mset (concat ths)"


subsection \<open>What the sections leave alone\<close>

lemma st_upd: "st (upd s f w) r = (if r = s \<and> s < length (states w) then f (st w s) else st w r)"
  by (auto simp: st_def upd_def list_update_beyond)

lemma upd_fields [simp]:
  "handles (upd s f w) = handles w" "stopped (upd s f w) = stopped w" "next_fn (upd s f w) = next_fn w"
  "ran (upd s f w) = ran w" "deleted (upd s f w) = deleted w" "dropped (upd s f w) = dropped w"
  "faults (upd s f w) = faults w" "aborted (upd s f w) = aborted w"
  by (simp_all add: upd_def)

lemma put_fields [simp]:
  "handles (put s a w) = handles w" "stopped (put s a w) = stopped w" "next_fn (put s a w) = next_fn w"
  "ran (put s a w) = ran w" "deleted (put s a w) = deleted w" "dropped (put s a w) = dropped w"
  "faults (put s a w) = faults w" "aborted (put s a w) = aborted w"
  by (simp_all add: put_def)

lemma put_chain_fields [simp]:
  "handles (put_chain c a w) = handles w" "stopped (put_chain c a w) = stopped w"
  "next_fn (put_chain c a w) = next_fn w" "ran (put_chain c a w) = ran w"
  "deleted (put_chain c a w) = deleted w" "dropped (put_chain c a w) = dropped w"
  "faults (put_chain c a w) = faults w" "aborted (put_chain c a w) = aborted w"
  by (simp_all add: put_chain_def split: option.splits)

lemma st_simps [simp]:
  "st (w\<lparr>handles := h\<rparr>) s = st w s" "st (w\<lparr>stopped := x\<rparr>) s = st w s" "st (w\<lparr>next_fn := n\<rparr>) s = st w s"
  "st (w\<lparr>ran := l\<rparr>) s = st w s" "st (w\<lparr>deleted := l'\<rparr>) s = st w s" "st (w\<lparr>dropped := l''\<rparr>) s = st w s"
  "st (w\<lparr>faults := e\<rparr>) s = st w s" "st (w\<lparr>aborted := a\<rparr>) s = st w s"
  "st (fail y w) s = st w s" "st (note_run k r w) s = st w s" "st (drop_notify m w) s = st w s"
  by (simp_all add: st_def fail_def note_run_def drop_notify_def)

lemma other_fields [simp]:
  "handles (fail y w) = handles w" "handles (note_run k r w) = handles w" "handles (drop_notify m w) = handles w"
  "next_fn (fail y w) = next_fn w" "next_fn (note_run k r w) = next_fn w" "next_fn (drop_notify m w) = next_fn w"
  "faults (fail y w) = y # faults w" "faults (note_run k r w) = faults w" "faults (drop_notify m w) = faults w"
  "ran (fail y w) = ran w" "ran (note_run k r w) = ran w @ [(k, r)]" "ran (drop_notify m w) = ran w"
  "deleted (fail y w) = deleted w" "deleted (note_run k r w) = deleted w"
  "deleted (drop_notify m w) = deleted w @ functors m"
  "dropped (fail y w) = dropped w" "dropped (note_run k r w) = dropped w"
  "dropped (drop_notify m w) = dropped w @ [functors m]"
  by (simp_all add: fail_def note_run_def drop_notify_def)

text \<open>Storing a result changes nothing of how the states are linked.\<close>

lemma put_links [simp]:
  "fnotify (st (put s a w) r) = fnotify (st w r)" "fchain (st (put s a w) r) = fchain (st w r)"
  "fexec (st (put s a w) r) = fexec (st w r)" "promises (st (put s a w) r) = promises (st w r)"
  "future_taken (st (put s a w) r) = future_taken (st w r)"
  "fullfilled (st (put s a w) r) \<longleftrightarrow> fullfilled (st w r) \<or> (r = s \<and> s < length (states w))"
  by (auto simp: put_def st_upd)

lemma put_chain_links [simp]:
  "fnotify (st (put_chain c a w) r) = fnotify (st w r)" "fchain (st (put_chain c a w) r) = fchain (st w r)"
  "fexec (st (put_chain c a w) r) = fexec (st w r)" "promises (st (put_chain c a w) r) = promises (st w r)"
  "future_taken (st (put_chain c a w) r) = future_taken (st w r)"
  "fullfilled (st (put_chain c a w) r) \<longleftrightarrow> fullfilled (st w r) \<or> (c = Some r \<and> r < length (states w))"
  by (auto simp: put_chain_def split: option.splits)

lemma forget_links [simp]:
  "fnotify (st (upd s (fexc_update g) w) r) = fnotify (st w r)"
  "fchain (st (upd s (fexc_update g) w) r) = fchain (st w r)"
  "fexec (st (upd s (fexc_update g) w) r) = fexec (st w r)"
  "promises (st (upd s (fexc_update g) w) r) = promises (st w r)"
  "future_taken (st (upd s (fexc_update g) w) r) = future_taken (st w r)"
  "fullfilled (st (upd s (fexc_update g) w) r) = fullfilled (st w r)"
  by (auto simp: st_upd)

text \<open>
  What a called continuation does: a fault, a result for the chain, the end of the program, or a
  future that takes over the chain.
\<close>

definition same_links :: "'v futures \<Rightarrow> 'v futures \<Rightarrow> bool" where
  "same_links w w' \<longleftrightarrow>
     length (states w') = length (states w) \<and> handles w' = handles w \<and> next_fn w' = next_fn w \<and>
     deleted w' = deleted w \<and> dropped w' = dropped w \<and>
     (\<forall>s. fnotify (st w' s) = fnotify (st w s) \<and> fchain (st w' s) = fchain (st w s) \<and>
          promises (st w' s) = promises (st w s) \<and> future_taken (st w' s) = future_taken (st w s))"

definition deletes :: "'v notify \<Rightarrow> 'v task list" where
  "deletes n = map Delete (functors n)"

definition one_more_run :: "'v notify \<Rightarrow> 'v futures \<Rightarrow> 'v futures \<Rightarrow> bool" where
  "one_more_run n w w' \<longleftrightarrow> (\<exists>ks. mset ks \<subseteq># mset (functors n) \<and> map fst (ran w') = map fst (ran w) @ ks)"

definition faulty :: "'v futures \<Rightarrow> 'v futures \<Rightarrow> bool" where
  "faulty w w' \<longleftrightarrow>
     same_links w w' \<and> faults w' \<noteq> [] \<and> Dangling \<notin> set (faults w') - set (faults w) \<and>
     (\<forall>r. fullfilled (st w' r) = fullfilled (st w r))"

definition answered :: "sid option \<Rightarrow> 'v futures \<Rightarrow> 'v futures \<Rightarrow> bool" where
  "answered c w w' \<longleftrightarrow>
     same_links w w' \<and> faults w' = faults w \<and>
     (\<forall>r < length (states w). fullfilled (st w' r) \<longleftrightarrow> fullfilled (st w r) \<or> c = Some r)"

definition spliced :: "sid \<Rightarrow> sid option \<Rightarrow> 'v futures \<Rightarrow> 'v futures \<Rightarrow> bool" where
  "spliced p c w w' \<longleftrightarrow>
     p \<in> handles w \<and> p < length (states w) \<and>
     (\<exists>l. w' = (upd p (\<lambda>d. d\<lparr>fchain := c, fnotify := Some Forward\<rparr>) w)\<lparr>ran := l, handles := handles w - {p}\<rparr>)"

lemma call_notify_cases:
  assumes "call_notify n s w = (ts, w')"
  obtains (fault) "ts = deletes n" "faulty w w'" "one_more_run n w w'"
  | (answer) "ts = deletes n" "answered (if last_call n then None else fchain (st w s)) w w'" "one_more_run n w w'"
  | (future) p where "ts = Drive (Some p) # deletes n" "spliced p (fchain (st w s)) w w'" "\<not> last_call n"
      "one_more_run n w w'"
proof (cases n)
  case Forward
  with assms have w': "ts = []" "w' = notifyForward s w" by auto
  have "w' = fail No_Value w \<or>
     (\<exists>a w0. w' = put_chain (fchain (st w s)) a w0 \<and> (w0 = w \<or> w0 = upd s (\<lambda>d. d\<lparr>fexc := None\<rparr>) w))"
    unfolding w'(2) notifyForward_def Let_def by (cases "fexc (st w s)"; cases "buff (st w s)"; simp; blast)
  then show ?thesis
  proof (elim disjE exE conjE)
    assume "w' = fail No_Value w"
    then show ?thesis
      by (intro fault) (simp_all add: w'(1) Forward deletes_def faulty_def same_links_def one_more_run_def)
  next
    fix a w0
    assume "w' = put_chain (fchain (st w s)) a w0" "w0 = w"
    then show ?thesis
      by (intro answer) (simp_all add: w'(1) Forward deletes_def answered_def same_links_def one_more_run_def)
  next
    fix a w0
    assume "w' = put_chain (fchain (st w s)) a w0" "w0 = upd s (\<lambda>d. d\<lparr>fexc := None\<rparr>) w"
    then show ?thesis
      by (intro answer) (simp_all add: w'(1) Forward deletes_def answered_def same_links_def one_more_run_def)
  qed
next
  case (Call k f)
  have skip: "one_more_run (Call k f) w w0" if "ran w0 = ran w" for w0 :: "'a futures"
    using that by (simp add: one_more_run_def)
  have rn: "one_more_run (Call k f) w w0" if "ran w0 = ran w @ [(k, r)]" for w0 :: "'a futures" and r
    using that by (auto simp: one_more_run_def)
  have out: thesis if "set_outcome (fchain (st w s)) y (note_run k r w) = (us, w')" "\<not> is_last f" "ts = us @ [Delete k]"
    for y r us
  proof (cases y)
    case (RetFut fut)
    with that have us: "splice (fchain (st w s)) fut (note_run k r w) = (us, w')" by simp
    show ?thesis
    proof (cases "\<exists>p. fut = Some p \<and> p \<in> handles w \<and> p < length (states w)")
      case True
      then obtain p where p: "fut = Some p" "p \<in> handles w" "p < length (states w)" by blast
      with us have u: "us = [Drive (Some p)]"
        and w': "w' = (upd p (\<lambda>d. d\<lparr>fchain := fchain (st w s), fnotify := Some Forward\<rparr>)
          (note_run k r w))\<lparr>handles := handles w - {p}\<rparr>"
        by (simp_all add: splice_def)
      show ?thesis
      proof (rule future)
        show "ts = Drive (Some p) # deletes n" by (simp add: that(3) u deletes_def Call)
        show "one_more_run n w w'" unfolding Call by (rule rn [of _ r]) (simp add: w')
        show "\<not> last_call n" by (simp add: Call that(2))
        have "upd p F (note_run k r w) = (upd p F w)\<lparr>ran := ran w @ [(k, r)]\<rparr>" for F
          by (simp add: upd_def note_run_def st_def)
        with p show "spliced p (fchain (st w s)) w w'" by (auto simp: spliced_def w')
      qed
    next
      case False
      with us have u: "us = []" and w': "w' = fail Null_Future (note_run k r w)"
        by (auto simp: splice_def split: option.splits if_splits)
      show ?thesis
      proof (rule fault)
        show "ts = deletes n" by (simp add: that(3) u deletes_def Call)
        show "one_more_run n w w'" unfolding Call by (rule rn [of _ r]) (simp add: w')
        show "faulty w w'" by (auto simp: faulty_def same_links_def w')
      qed
    qed
  qed (use that rn [of w' r] answer [unfolded Call] in
      \<open>auto simp: deletes_def Call answered_def same_links_def\<close>)
  show ?thesis
  proof (cases "getRes (st w s)")
    case None
    with assms Call skip [of w'] fault show ?thesis
      by (auto simp: deletes_def faulty_def same_links_def)
  next
    case (Some r)
    with assms Call obtain us where us: "setResult k f (fchain (st w s)) r w = (us, w')" "ts = us @ [Delete k]"
      by (auto split: prod.splits)
    show ?thesis
    proof (cases f)
      case (FThen g)
      with us out skip [of w'] answer Call show ?thesis
        by (cases r) (auto simp: deletes_def answered_def same_links_def)
    next
      case (FTry g)
      with us out show ?thesis by auto
    next
      case (FLast g)
      with us rn [of w' r] answer Call show ?thesis
        by (auto simp: deletes_def answered_def same_links_def)
    qed
  qed
qed

subsection \<open>The sections keep the invariant\<close>

definition futures_inv :: "'v task multiset \<Rightarrow> 'v futures \<Rightarrow> bool" where
  "futures_inv M w \<longleftrightarrow>
     ids_exist M w \<and> singly_owned M w \<and> wired M w \<and> awake M w \<and> linear M w \<and> runs_deleted M w \<and> fed M w"

lemma futures_invD:
  assumes "futures_inv M w"
  shows "ids_exist M w" "singly_owned M w" "wired M w" "awake M w" "linear M w" "runs_deleted M w" "fed M w"
  using assms by (simp_all add: futures_inv_def)

lemma ids_exist_add [simp]:
  "ids_exist (add_mset t M) w \<longleftrightarrow> (\<forall>s \<in> set (sids t). s < length (states w)) \<and> ids_exist M w"
  by (auto simp: ids_exist_def)

lemma owners_add [simp]: "owners (add_mset t M) w s = of_bool (consumer t = Some s) + owners M w s"
  by (simp add: owners_def)

lemma wired_add [simp]: "wired (add_mset t M) w \<longleftrightarrow> wired_task w t \<and> wired M w"
  by (auto simp: wired_def)

lemma filter_mset_empty: "filter_mset P M = {#} \<longleftrightarrow> (\<forall>t. t \<in># M \<longrightarrow> \<not> P t)"
  by (auto simp: multiset_eq_iff count_eq_zero_iff)

lemma no_owner: "owners M w s = 0 \<Longrightarrow> t \<in># M \<Longrightarrow> consumer t \<noteq> Some s"
  by (auto simp: owners_def size_eq_0_iff_empty filter_mset_empty)

lemma no_consumer: "owners M w s \<le> 1 \<Longrightarrow> s \<in> handles w \<or> fnotify (st w s) \<noteq> None \<Longrightarrow> t \<in># M \<Longrightarrow> consumer t \<noteq> Some s"
  by (auto simp: owners_def size_eq_0_iff_empty filter_mset_empty)

lemma deletes_add [simp]:
  "ids_exist (mset (deletes n) + M) w = ids_exist M w"
  "owners (mset (deletes n) + M) w s = owners M w s"
  "wired (mset (deletes n) + M) w = wired M w"
  "singly_owned (mset (deletes n) + M) w = singly_owned M w"
  by (cases n; auto simp: deletes_def singly_owned_def)+

text \<open>What only the links of the states decide.\<close>

lemma same_links_owned:
  assumes "same_links w w'"
  shows "owners M w' s = owners M w s" "singly_owned M w' = singly_owned M w"
  using assms by (auto simp: same_links_def owners_def singly_owned_def)

lemma same_links_wired: "same_links w w' \<Longrightarrow> wired_task w' t = wired_task w t"
  by (cases t) (auto simp: same_links_def)

lemma same_links_wired_all: "same_links w w' \<Longrightarrow> wired M w' = wired M w"
  using same_links_wired [of w w'] by (auto simp: wired_def same_links_def)

lemma same_links_in_range:
  "same_links w w' \<Longrightarrow> ids_exist M w \<Longrightarrow> (Dangling \<in> set (faults w') \<longrightarrow> Dangling \<in> set (faults w)) \<Longrightarrow> ids_exist M w'"
  by (auto simp: same_links_def ids_exist_def)

lemma exec_task_run: "ids_exist (add_mset t M) w \<Longrightarrow> exec_task t w = run_task t w"
  by (auto simp: exec_task_def)

lemma claim_cases:
  assumes "claim s w = (ts, w')"
  obtains (nothing) "ts = []" "w' = w" "\<not> fullfilled (st w s) \<or> fnotify (st w s) = None"
  | (claimed) n t where "ts = [t]" "fnotify (st w s) = Some n" "fullfilled (st w s)"
      "t = Notify n s (fchain (st w s)) \<or> (\<exists>x. t = Submit x n s (fchain (st w s)))"
      "w' = upd s (\<lambda>d. d\<lparr>fnotify := None\<rparr>) w"
  using assms by (auto simp: claim_def Let_def split: if_splits option.splits)

lemma publish_cases:
  assumes "publish s n x c w = (ts, w')"
  obtains (twice) "ts = []" "w' = (drop_notify n w)\<lparr>handles := insert s (handles w)\<rparr>" "fnotify (st w s) \<noteq> None"
  | (published) "ts = [Drive (Some s)]" "fnotify (st w s) = None"
      "w' = upd s (\<lambda>d. d\<lparr>fexec := x, fchain := c, fnotify := Some n\<rparr>) w"
  using assms by (auto simp: publish_def split: option.splits)

lemma notify_run:
  assumes "run_task (Notify n s c) w = (ts, w')"
  obtains us where "call_notify n s w = (us, w')" "ts = us @ [Drive c]"
  using assms by (auto split: prod.splits)

lemma spliced_links:
  assumes "spliced p c w w'"
  shows "fnotify (st w' r) = (if r = p then Some Forward else fnotify (st w r))"
    "fchain (st w' r) = (if r = p then c else fchain (st w r))"
    "promises (st w' r) = promises (st w r)" "future_taken (st w' r) = future_taken (st w r)"
    "fullfilled (st w' r) = fullfilled (st w r)"
    "handles w' = handles w - {p}" "length (states w') = length (states w)" "faults w' = faults w"
    "deleted w' = deleted w" "dropped w' = dropped w" "next_fn w' = next_fn w"
  using assms by (auto simp: spliced_def st_upd split: if_splits)

lemma singly_owned_mono:
  assumes "singly_owned M w" "length (states w') = length (states w)"
    and "\<And>s. s < length (states w) \<Longrightarrow> owners M' w' s \<le> owners M w s"
    and "\<And>s. promises (st w' s) = promises (st w s)" "\<And>s. future_taken (st w' s) = future_taken (st w s)"
  shows "singly_owned M' w'"
  unfolding singly_owned_def assms(2,4,5)
proof (intro allI impI conjI)
  fix s assume "s < length (states w)"
  with assms(1,3) show "owners M' w' s \<le> 1" by (fastforce simp: singly_owned_def)
  assume "0 < promises (st w s)" "\<not> future_taken (st w s)"
  with \<open>s < length (states w)\<close> assms(1,3) show "owners M' w' s = 0" by (fastforce simp: singly_owned_def)
qed

lemma owners_exec:
  assumes "run_task t w = (ts, w')" "ids_exist (add_mset t M) w" "r < length (states w)"
  shows "owners (mset ts + M) w' r \<le> owners (add_mset t M) w r"
proof (cases t)
  case (Publish s n x c)
  with assms(1) have "publish s n x c w = (ts, w')" by simp
  then show ?thesis
    by (cases rule: publish_cases) (use Publish in \<open>auto simp: owners_def st_upd\<close>)
next
  case (Drive d)
  show ?thesis
  proof (cases d)
    case (Some s)
    with Drive assms(1) have "claim s w = (ts, w')" by simp
    then show ?thesis
      by (cases rule: claim_cases) (use Drive Some assms in \<open>auto simp: owners_def st_upd\<close>)
  qed (use assms Drive in \<open>auto simp: owners_def\<close>)
next
  case (Notify n s c)
  from assms(1) obtain us where us: "call_notify n s w = (us, w')" "ts = us @ [Drive c]"
    unfolding Notify by (rule notify_run)
  from us(1) show ?thesis
  proof (cases rule: call_notify_cases)
    case fault
    then show ?thesis using us(2) Notify by (simp add: faulty_def same_links_owned(1) [of w w'])
  next
    case answer
    then show ?thesis using us(2) Notify by (simp add: answered_def same_links_owned(1) [of w w'])
  next
    case (future p)
    then have "owners M w' r \<le> owners M w r"
      by (auto simp: owners_def spliced_links [OF future(2)] spliced_def)
    with future us(2) Notify show ?thesis by simp
  qed
qed (use assms in \<open>auto simp: owners_def Execute_def split: if_splits\<close>)

lemma kept_by_exec:
  assumes "run_task t w = (ts, w')"
  shows "length (states w') = length (states w)" "promises (st w' r) = promises (st w r)"
    "future_taken (st w' r) = future_taken (st w r)" "next_fn w' = next_fn w"
    "fullfilled (st w r) \<and> r < length (states w) \<longrightarrow> fullfilled (st w' r)"
proof -
  have "length (states w') = length (states w) \<and> promises (st w' r) = promises (st w r) \<and>
    future_taken (st w' r) = future_taken (st w r) \<and> next_fn w' = next_fn w \<and>
    (fullfilled (st w r) \<and> r < length (states w) \<longrightarrow> fullfilled (st w' r))"
  proof (cases t)
    case (Publish s n x c)
    with assms show ?thesis by (auto simp: publish_def st_upd split: option.splits if_splits)
  next
    case (Drive d)
    show ?thesis
    proof (cases d)
      case (Some s)
      with Drive assms(1) have "claim s w = (ts, w')" by simp
      then show ?thesis by (cases rule: claim_cases) (auto simp: st_upd)
    qed (use assms Drive in auto)
  next
    case (Notify n s c)
    from assms(1) obtain us where us: "call_notify n s w = (us, w')" "ts = us @ [Drive c]"
      unfolding Notify by (rule notify_run)
    from us(1) show ?thesis
    proof (cases rule: call_notify_cases)
      case (future p)
      then show ?thesis by (simp add: spliced_links [OF future(2)])
    qed (auto simp: faulty_def answered_def same_links_def)
  qed (use assms in \<open>auto simp: Execute_def split: if_splits\<close>)
  then show "length (states w') = length (states w)" "promises (st w' r) = promises (st w r)"
    "future_taken (st w' r) = future_taken (st w r)" "next_fn w' = next_fn w"
    "fullfilled (st w r) \<and> r < length (states w) \<longrightarrow> fullfilled (st w' r)" by auto
qed

lemma singly_owned_exec:
  assumes "futures_inv (add_mset t M) w" "run_task t w = (ts, w')"
  shows "singly_owned (mset ts + M) w'"
  by (rule singly_owned_mono [OF futures_invD(2) [OF assms(1)]])
    (use kept_by_exec [OF assms(2)] owners_exec [OF assms(2) futures_invD(1) [OF assms(1)]] in auto)

lemma ids_exist_notify:
  assumes "call_notify n s w = (us, w')" "ids_exist M w" "s < length (states w)"
  shows "ids_exist (mset us + M) w'"
  using assms(1)
proof (cases rule: call_notify_cases)
  case fault
  then show ?thesis using assms same_links_in_range [of w w' M] by (simp add: faulty_def)
next
  case answer
  then show ?thesis using assms same_links_in_range [of w w' M] by (simp add: answered_def)
next
  case (future p)
  have "ids_exist M w'" using assms(2,3) spliced_links [OF future(2)]
    by (auto simp: ids_exist_def)
  then show ?thesis using future spliced_links [OF future(2)] by (simp add: spliced_def)
qed

lemma ids_exist_exec:
  assumes "futures_inv (add_mset t M) w" "run_task t w = (ts, w')"
  shows "ids_exist (mset ts + M) w'"
proof -
  note rng = futures_invD(1) [OF assms(1)]
  show ?thesis
  proof (cases t)
    case (Fulfil s a)
    with assms(2) rng show ?thesis by (auto simp: ids_exist_def)
  next
    case (Break s)
    with assms(2) rng show ?thesis by auto
  next
    case (Publish s n x c)
    with assms(2) have "publish s n x c w = (ts, w')" by simp
    then show ?thesis
      by (cases rule: publish_cases)
        (use rng Publish in \<open>auto simp: ids_exist_def st_upd split: option.splits\<close>)
  next
    case (Drive d)
    show ?thesis
    proof (cases d)
      case (Some s)
      with Drive assms(2) have "claim s w = (ts, w')" by simp
      then show ?thesis
      proof (cases rule: claim_cases)
        case (claimed n u)
        have s: "s < length (states w)" and M: "ids_exist M w" using rng Drive Some by auto
        then have "\<forall>r \<in> set (sids u). r < length (states w)"
          using claimed(4) by (cases "fchain (st w s)") (auto simp: ids_exist_def)
        moreover have "ids_exist M w'" using M by (auto simp: ids_exist_def st_upd claimed(5) split: if_splits)
        ultimately show ?thesis by (simp add: claimed(1,5))
      qed (use rng Drive in auto)
    qed (use assms rng Drive in auto)
  next
    case (Submit x n s c)
    with assms(2) rng show ?thesis by (auto simp: Execute_def ids_exist_def split: if_splits)
  next
    case (Notify n s c)
    from assms(2) obtain us where us: "call_notify n s w = (us, w')" "ts = us @ [Drive c]"
      unfolding Notify by (rule notify_run)
    have "length (states w') = length (states w)" using kept_by_exec(1) [OF assms(2)] .
    with us(2) rng Notify ids_exist_notify [OF us(1), of M] show ?thesis by (auto split: option.splits)
  next
    case (Delete k)
    with assms(2) rng show ?thesis by (auto simp: ids_exist_def)
  qed
qed

lemma wired_mono:
  assumes "wired M w" "length (states w') = length (states w)"
    and "\<And>t. t \<in># M \<Longrightarrow> wired_task w t \<Longrightarrow> wired_task w' t"
    and "\<And>s n. s < length (states w) \<Longrightarrow> fnotify (st w' s) = Some n \<Longrightarrow> last_call n \<Longrightarrow>
      fchain (st w' s) = None \<or> (fnotify (st w s) = Some n \<and> fchain (st w' s) = fchain (st w s))"
  shows "wired M w'"
  using assms(1,3,4) unfolding wired_def assms(2) by metis

lemma wired_frame:
  assumes "wired M w" "length (states w') = length (states w)"
    "\<And>s. fnotify (st w' s) = fnotify (st w s)" "\<And>s. fchain (st w' s) = fchain (st w s)"
  shows "wired M w'"
proof (rule wired_mono [OF assms(1,2)])
  show "wired_task w' t" if "wired_task w t" for t using that assms(4) by (cases t) auto
qed (use assms(3,4) in auto)

text \<open>A task that is no consumer of \<open>s\<close> does not see a new chain of \<open>s\<close>.\<close>

lemma wired_other:
  "consumer t \<noteq> Some s \<Longrightarrow> (\<And>r. r \<noteq> s \<Longrightarrow> fchain (st w' r) = fchain (st w r)) \<Longrightarrow>
     wired_task w t \<Longrightarrow> wired_task w' t"
  by (cases t) auto

lemma wired_same: "(\<And>r. fchain (st w' r) = fchain (st w r)) \<Longrightarrow> wired_task w' t = wired_task w t"
  by (cases t) auto

lemma wired_exec:
  assumes "futures_inv (add_mset t M) w" "run_task t w = (ts, w')"
  shows "wired (mset ts + M) w'"
proof -
  note own = futures_invD(2) [OF assms(1)] and wrd = futures_invD(3) [OF assms(1)]
    and rng = futures_invD(1) [OF assms(1)]
  show ?thesis
  proof (cases t)
    case (Fulfil s a)
    have "wired M (put s a w)" by (rule wired_frame [of M w]) (use wrd Fulfil in auto)
    with assms(2) Fulfil show ?thesis by auto
  next
    case (Break s)
    with assms(2) wrd show ?thesis by auto
  next
    case (Publish s n x c)
    have M: "consumer u \<noteq> Some s" if "u \<in># M" for u
      using own rng Publish by (intro no_owner [OF _ that, of w]) (auto simp: singly_owned_def)
    from assms(2) Publish have "publish s n x c w = (ts, w')" by simp
    then show ?thesis
    proof (cases rule: publish_cases)
      case twice
      then show ?thesis using wrd Publish by (auto intro: wired_frame [of M w])
    next
      case published
      have "wired M w'"
      proof (rule wired_mono [of M w])
        show "wired_task w' u" if "u \<in># M" "wired_task w u" for u
          by (rule wired_other [OF M [OF that(1)] _ that(2)]) (simp add: published(3) st_upd)
      qed (use wrd Publish in \<open>auto simp: published(3) st_upd split: if_splits\<close>)
      then show ?thesis by (simp add: published(1))
    qed
  next
    case (Drive d)
    show ?thesis
    proof (cases d)
      case (Some s)
      with Drive assms(2) have "claim s w = (ts, w')" by simp
      then show ?thesis
      proof (cases rule: claim_cases)
        case (claimed n u)
        have "wired M w'"
        proof (rule wired_mono [of M w])
          show "wired_task w' u" if "wired_task w u" for u
            using that wired_same [of w' w u] by (simp add: claimed(5) st_upd)
        qed (use wrd Drive in \<open>auto simp: claimed(5) st_upd split: if_splits\<close>)
        moreover have "wired_task w' u"
          using claimed(4) wrd Drive Some rng claimed(2)
          by (auto simp: claimed(5) st_upd wired_def)
        ultimately show ?thesis by (simp add: claimed(1))
      qed (use wrd Drive in auto)
    qed (use assms wrd Drive in auto)
  next
    case (Submit x n s c)
    with assms(2) wrd show ?thesis
      by (auto simp: Execute_def intro: wired_frame [of M w] split: if_splits)
  next
    case (Notify n s c)
    from assms(2) obtain us where us: "call_notify n s w = (us, w')" "ts = us @ [Drive c]"
      unfolding Notify by (rule notify_run)
    from us(1) show ?thesis
    proof (cases rule: call_notify_cases)
      case fault
      then show ?thesis using us(2) wrd Notify using same_links_wired_all [of w w'] by (simp add: faulty_def)
    next
      case answer
      then show ?thesis using us(2) wrd Notify using same_links_wired_all [of w w'] by (simp add: answered_def)
    next
      case (future p)
      have M: "consumer u \<noteq> Some p" if "u \<in># M" for u
        using own future(2) by (intro no_consumer [OF _ _ that, of w]) (auto simp: singly_owned_def spliced_def)
      have "wired M w'"
      proof (rule wired_mono [of M w])
        show "wired_task w' u" if "u \<in># M" "wired_task w u" for u
          by (rule wired_other [OF M [OF that(1)] _ that(2)]) (simp add: spliced_links [OF future(2)])
      qed (use wrd Notify in \<open>auto simp: spliced_links [OF future(2)] split: if_splits\<close>)
      then show ?thesis using us(2) future(1) by simp
    qed
  next
    case (Delete k)
    with assms(2) wrd show ?thesis by (auto intro: wired_frame [of M w])
  qed
qed

lemma awake_exec:
  assumes "futures_inv (add_mset t M) w" "run_task t w = (ts, w')"
  shows "awake (mset ts + M) w'"
proof -
  note own = futures_invD(2) [OF assms(1)] and wrd = futures_invD(3) [OF assms(1)]
    and awk = futures_invD(4) [OF assms(1)]
  show ?thesis
  proof (cases t)
    case (Fulfil s a)
    with assms(2) awk show ?thesis by (auto simp: awake_def)
  next
    case (Break s)
    with assms(2) awk show ?thesis by (auto simp: awake_def)
  next
    case (Publish s n x c)
    with assms(2) have "publish s n x c w = (ts, w')" by simp
    then show ?thesis
      by (cases rule: publish_cases) (use awk Publish in \<open>auto simp: awake_def st_upd split: if_splits\<close>)
  next
    case (Drive d)
    show ?thesis
    proof (cases d)
      case (Some s)
      with Drive assms(2) have "claim s w = (ts, w')" by simp
      then show ?thesis
        by (cases rule: claim_cases) (use awk Drive Some in \<open>auto simp: awake_def st_upd split: if_splits\<close>)
    qed (use assms awk Drive in \<open>auto simp: awake_def\<close>)
  next
    case (Submit x n s c)
    with assms(2) awk show ?thesis by (auto simp: awake_def Execute_def split: if_splits)
  next
    case (Notify n s c)
    from assms(2) obtain us where us: "call_notify n s w = (us, w')" "ts = us @ [Drive c]"
      unfolding Notify by (rule notify_run)
    have c: "c = fchain (st w s)" using wrd Notify by simp
    from us(1) show ?thesis
    proof (cases rule: call_notify_cases)
      case fault
      then show ?thesis using us(2) awk Notify by (auto simp: awake_def faulty_def same_links_def)
    next
      case answer
      then show ?thesis using us(2) awk Notify
        by (auto simp: awake_def answered_def same_links_def c split: if_splits)
    next
      case (future p)
      then show ?thesis using us(2) awk Notify spliced_links [OF future(2)]
        by (auto simp: awake_def split: if_splits)
    qed
  next
    case (Delete k)
    with assms(2) awk show ?thesis by (auto simp: awake_def)
  qed
qed

definition kept :: "'v futures \<Rightarrow> nat multiset" where
  "kept w = mset (concat (map kept_functors (states w)))"

lemma mset_concat_update:
  "i < length xs \<Longrightarrow>
     mset (concat (map f (xs[i := x]))) + mset (f (xs ! i)) = mset (concat (map f xs)) + mset (f x)"
  by (induction xs arbitrary: i) (auto split: nat.splits)

lemma kept_upd:
  "s < length (states w) \<Longrightarrow>
     kept (upd s f w) + mset (kept_functors (st w s)) = kept w + mset (kept_functors (f (st w s)))"
  by (simp add: kept_def upd_def st_def mset_concat_update)

lemma kept_same:
  assumes "length (states w') = length (states w)" "\<And>s. fnotify (st w' s) = fnotify (st w s)"
  shows "kept w' = kept w"
proof -
  have "map kept_functors (states w') = map kept_functors (states w)"
    using assms by (intro nth_equalityI) (auto simp: kept_functors_def st_def)
  then show ?thesis by (simp add: kept_def)
qed

definition placed :: "'v task multiset \<Rightarrow> nat multiset" where
  "placed M = \<Sum>\<^sub># (image_mset (\<lambda>t. mset (task_functors t)) M)"

lemma placed_add [simp]:
  "placed (add_mset t M) = mset (task_functors t) + placed M"
  "placed (mset (deletes n) + M) = mset (functors n) + placed M" "placed (M + N) = placed M + placed N"
  "placed {#} = {#}"
  by (cases n; simp add: placed_def deletes_def)+

lemma linear_alt: "linear M w \<longleftrightarrow> kept w + placed M + mset (deleted w) = mset [0..<next_fn w]"
  by (simp add: linear_def kept_def placed_def)

lemma linear_exec:
  assumes "futures_inv (add_mset t M) w" "run_task t w = (ts, w')"
  shows "linear (mset ts + M) w'"
proof -
  note lin = futures_invD(5) [OF assms(1), unfolded linear_alt]
    and rng = futures_invD(1) [OF assms(1)] and own = futures_invD(2) [OF assms(1)]
  have "kept w' + placed (mset ts) + mset (deleted w') = kept w + mset (task_functors t) + mset (deleted w)"
  proof (cases t)
    case (Fulfil s a)
    with assms(2) kept_same [of w' w] show ?thesis by auto
  next
    case (Publish s n x c)
    with assms(2) have "publish s n x c w = (ts, w')" by simp
    then show ?thesis
    proof (cases rule: publish_cases)
      case twice
      then show ?thesis using Publish kept_same [of w' w] by simp
    next
      case published
      have "s < length (states w)" using rng Publish by simp
      from kept_upd [OF this, of "\<lambda>d. d\<lparr>fexec := x, fchain := c, fnotify := Some n\<rparr>"] published Publish
      show ?thesis by (simp add: kept_functors_def)
    qed
  next
    case (Drive d)
    show ?thesis
    proof (cases d)
      case (Some s)
      with Drive assms(2) have "claim s w = (ts, w')" by simp
      then show ?thesis
      proof (cases rule: claim_cases)
        case (claimed n u)
        have "s < length (states w)" using rng Drive Some by simp
        from kept_upd [OF this, of "\<lambda>d. d\<lparr>fnotify := None\<rparr>"] claimed Drive Some
        show ?thesis by (auto simp: kept_functors_def)
      qed (use Drive in auto)
    qed (use assms Drive in auto)
  next
    case (Submit x n s c)
    with assms(2) kept_same [of w' w] show ?thesis by (auto simp: Execute_def split: if_splits)
  next
    case (Notify n s c)
    from assms(2) obtain us where us: "call_notify n s w = (us, w')" "ts = us @ [Drive c]"
      unfolding Notify by (rule notify_run)
    from us(1) show ?thesis
    proof (cases rule: call_notify_cases)
      case fault
      then show ?thesis using us(2) Notify kept_same [of w' w] placed_add(2) [of n "{#}"]
        by (simp add: faulty_def same_links_def)
    next
      case answer
      then show ?thesis using us(2) Notify kept_same [of w' w] placed_add(2) [of n "{#}"]
        by (simp add: answered_def same_links_def)
    next
      case (future p)
      then have p: "p < length (states w)" "fnotify (st w p) = None"
        using own by (auto simp: spliced_def singly_owned_def owners_def)
      obtain l where w': "w' = (upd p (\<lambda>d. d\<lparr>fchain := fchain (st w s), fnotify := Some Forward\<rparr>) w)
          \<lparr>ran := l, handles := handles w - {p}\<rparr>"
        using future(2) by (auto simp: spliced_def)
      have "kept w' = kept w"
        using kept_upd [OF p(1), of "\<lambda>d. d\<lparr>fchain := fchain (st w s), fnotify := Some Forward\<rparr>"]
        by (simp add: w' kept_functors_def p(2) kept_def)
      then show ?thesis using us(2) future(1) Notify placed_add(2) [of n "{#}"]
          spliced_links [OF future(2)] by simp
    qed
  next
    case (Delete k)
    with assms(2) kept_same [of w' w] show ?thesis by auto
  qed (use assms in auto)
  with lin kept_by_exec(4) [OF assms(2)] show ?thesis
    by (simp add: linear_alt ac_simps) (metis (no_types) add.assoc add.commute)
qed

definition deleting :: "'v task multiset \<Rightarrow> nat multiset" where
  "deleting M = \<Sum>\<^sub># (image_mset (\<lambda>t. mset (deletion t)) M)"

lemma deleting_add [simp]:
  "deleting (add_mset t M) = mset (deletion t) + deleting M"
  "deleting (mset (deletes n) + M) = mset (functors n) + deleting M"
  "deleting (M + N) = deleting M + deleting N" "deleting {#} = {#}"
  by (cases n; simp add: deleting_def deletes_def)+

lemma runs_deleted_alt:
  "runs_deleted M w \<longleftrightarrow> mset (map fst (ran w)) + mset (concat (dropped w)) \<subseteq># mset (deleted w) + deleting M"
  by (simp add: runs_deleted_def deleting_def)

lemma runs_deleted_exec:
  assumes "futures_inv (add_mset t M) w" "run_task t w = (ts, w')"
  shows "runs_deleted (mset ts + M) w'"
proof -
  note cal = futures_invD(6) [OF assms(1), unfolded runs_deleted_alt]
  have grow: "A \<subseteq># B \<Longrightarrow> C \<subseteq># D \<Longrightarrow> A + C \<subseteq># B + D" for A B C D :: "nat multiset"
    by (rule subset_mset.add_mono)
  show ?thesis
  proof (cases t)
    case (Publish s n x c)
    with assms(2) have "publish s n x c w = (ts, w')" by simp
    then show ?thesis
      by (cases rule: publish_cases)
        (use cal Publish in \<open>auto simp: runs_deleted_alt intro: grow [of _ _ "mset (functors n)", simplified ac_simps]\<close>)
  next
    case (Drive d)
    show ?thesis
    proof (cases d)
      case (Some s)
      with Drive assms(2) have "claim s w = (ts, w')" by simp
      then show ?thesis by (cases rule: claim_cases) (use cal Drive in \<open>auto simp: runs_deleted_alt\<close>)
    qed (use assms cal Drive in \<open>auto simp: runs_deleted_alt\<close>)
  next
    case (Notify n s c)
    from assms(2) obtain us where us: "call_notify n s w = (us, w')" "ts = us @ [Drive c]"
      unfolding Notify by (rule notify_run)
    have "one_more_run n w w' \<and> deleted w' = deleted w \<and> dropped w' = dropped w \<and> deleting (mset us) = mset (functors n)"
      using us(1) deleting_add(2) [of n "{#}"]
      by (cases rule: call_notify_cases)
        (auto simp: faulty_def answered_def same_links_def spliced_links)
    moreover obtain ks where "mset ks \<subseteq># mset (functors n)" "map fst (ran w') = map fst (ran w) @ ks"
      using calculation by (auto simp: one_more_run_def)
    ultimately show ?thesis
      using grow [of "mset (map fst (ran w)) + mset (concat (dropped w))" "mset (deleted w) + deleting M"
          "mset ks" "mset (functors n)"] cal us(2) Notify
      by (simp add: runs_deleted_alt ac_simps)
  next
    case (Submit x n s c)
    with assms(2) cal show ?thesis
      by (auto simp: runs_deleted_alt Execute_def ac_simps split: if_splits
          intro: grow [of _ _ "mset (functors n)", simplified ac_simps])
  qed (use assms cal in \<open>auto simp: runs_deleted_alt ac_simps split: if_splits\<close>)
qed

text \<open>Who will fulfil \<open>s\<close>.\<close>

definition source :: "'v task multiset \<Rightarrow> 'v futures \<Rightarrow> sid \<Rightarrow> bool" where
  "source M w s \<longleftrightarrow>
     0 < promises (st w s) \<or> (\<exists>t. t \<in># M \<and> feeds t = Some s) \<or>
     (\<exists>p < length (states w). fnotify (st w p) \<noteq> None \<and> fchain (st w p) = Some s)"

lemma fed_alt:
  "fed M w \<longleftrightarrow> faults w = [] \<longrightarrow> dropped w = [] \<longrightarrow>
     (\<forall>s < length (states w). fullfilled (st w s) \<or> source M w s)"
  by (simp add: fed_def source_def)

lemma source_add [simp]: "source (add_mset t M) w s \<longleftrightarrow> feeds t = Some s \<or> source M w s"
  by (auto simp: source_def)

lemma source_grow: "source M w s \<Longrightarrow> source (N + M) w s"
  by (auto simp: source_def)

lemma source_mono:
  assumes "source M w r" "length (states w') = length (states w)" "0 < promises (st w r) \<Longrightarrow> 0 < promises (st w' r)"
    and "\<And>p. fnotify (st w p) \<noteq> None \<Longrightarrow> fchain (st w p) = Some r \<Longrightarrow>
      fnotify (st w' p) \<noteq> None \<and> fchain (st w' p) = Some r"
  shows "source M w' r"
  using assms by (auto simp: source_def)

lemma source_links:
  assumes "same_links w w'"
  shows "source M w' s = source M w s"
  using assms by (auto simp: source_def same_links_def)

lemma fedI:
  assumes "fed (add_mset t M) w" "length (states w') = length (states w)"
    and "faults w' = [] \<Longrightarrow> faults w = []" "dropped w' = [] \<Longrightarrow> dropped w = []"
    and "\<And>s. s < length (states w) \<Longrightarrow> faults w' = [] \<Longrightarrow> dropped w' = [] \<Longrightarrow>
      fullfilled (st w s) \<or> feeds t = Some s \<or> source M w s \<Longrightarrow> fullfilled (st w' s) \<or> source N w' s"
  shows "fed N w'"
  using assms by (auto simp: fed_alt)

lemma fed_exec:
  assumes "futures_inv (add_mset t M) w" "run_task t w = (ts, w')"
  shows "fed (mset ts + M) w'"
proof -
  note own = futures_invD(2) [OF assms(1)] and wrd = futures_invD(3) [OF assms(1)]
    and rng = futures_invD(1) [OF assms(1)] and len = kept_by_exec(1) [OF assms(2)]
  note fI = fedI [OF futures_invD(7) [OF assms(1)] len]
  show ?thesis
  proof (cases t)
    case (Fulfil s a)
    have "same_links w (put s a w)" by (simp add: same_links_def)
    with Fulfil assms(2) show ?thesis
      by (intro fI) (auto simp: source_links [of w "put s a w"])
  next
    case (Break s)
    with assms(2) show ?thesis by (intro fI) (auto split: if_splits)
  next
    case (Publish s n x c)
    with rng have s: "s < length (states w)" by simp
    from Publish assms(2) have "publish s n x c w = (ts, w')" by simp
    then show ?thesis
    proof (cases rule: publish_cases)
      case twice
      then have "dropped w' \<noteq> []" by simp
      then show ?thesis by (simp add: fed_def)
    next
      case published
      have "source M w' r" if "source M w r" for r
        by (rule source_mono [OF that]) (use published(2) in \<open>auto simp: published(3) st_upd\<close>)
      moreover have "source M w' r" if "c = Some r" for r
        using that s by (auto simp: source_def published(3) st_upd)
      ultimately show ?thesis using Publish s
        by (intro fI) (auto simp: published(1,3) st_upd split: if_splits)
    qed
  next
    case (Drive d)
    show ?thesis
    proof (cases d)
      case (Some s)
      with Drive assms(2) have "claim s w = (ts, w')" by simp
      then show ?thesis
      proof (cases rule: claim_cases)
        case nothing
        then show ?thesis using Drive by (intro fI) auto
      next
        case (claimed n u)
        have "source (add_mset u M) w' r" if "source M w r" for r
        proof (cases "fchain (st w s) = Some r")
          case True
          then show ?thesis using claimed(4) by auto
        next
          case False
          have "source M w' r"
            by (rule source_mono [OF that]) (use False in \<open>auto simp: claimed(5) st_upd\<close>)
          then show ?thesis by simp
        qed
        then show ?thesis using Drive
          by (intro fI) (auto simp: claimed(1,5) st_upd split: if_splits)
      qed
    qed (use assms(2) Drive in \<open>auto intro!: fI\<close>)
  next
    case (Submit x n s c)
    show ?thesis
    proof (cases "x \<in> stopped w")
      case True
      with Submit assms(2) have "dropped w' \<noteq> []" by (auto simp: Execute_def)
      then show ?thesis by (simp add: fed_def)
    qed (use Submit assms(2) in \<open>auto simp: Execute_def intro!: fI\<close>)
  next
    case (Notify n s c)
    from assms(2) obtain us where us: "call_notify n s w = (us, w')" "ts = us @ [Drive c]"
      unfolding Notify by (rule notify_run)
    have c: "c = fchain (st w s)" "last_call n \<longrightarrow> c = None" using wrd Notify by auto
    from us(1) show ?thesis
    proof (cases rule: call_notify_cases)
      case fault
      then have "faults w' \<noteq> []" by (simp add: faulty_def)
      then show ?thesis by (simp add: fed_def)
    next
      case answer
      show ?thesis
      proof (rule fI)
        fix r assume "r < length (states w)" "fullfilled (st w r) \<or> feeds t = Some r \<or> source M w r"
        with answer(2) source_links [of w w' M r] c Notify
        have "fullfilled (st w' r) \<or> source M w' r" by (auto simp: answered_def)
        then show "fullfilled (st w' r) \<or> source (mset ts + M) w' r" by (blast intro: source_grow)
      qed (use answer in \<open>auto simp: answered_def same_links_def\<close>)
    next
      case (future p)
      note l = spliced_links [OF future(2)]
      have p: "fnotify (st w p) = None" "p < length (states w)"
        using own future(2) by (auto simp: singly_owned_def owners_def spliced_def)
      show ?thesis
      proof (rule fI)
        fix r assume "r < length (states w)" "fullfilled (st w r) \<or> feeds t = Some r \<or> source M w r"
        then consider "fullfilled (st w r)" | "fchain (st w s) = Some r" | "source M w r"
          using c Notify by auto
        then have "fullfilled (st w' r) \<or> source M w' r"
        proof cases
          case 2
          then have "source M w' r" using p(2) by (auto simp: source_def l)
          then show ?thesis ..
        next
          case 3
          then have "source M w' r" by (rule source_mono) (use p(1) in \<open>auto simp: l\<close>)
          then show ?thesis ..
        qed (simp add: l)
        then show "fullfilled (st w' r) \<or> source (mset ts + M) w' r" by (blast intro: source_grow)
      qed (use l in auto)
    qed
  next
    case (Delete k)
    with assms(2) show ?thesis
      by (intro fI) (auto simp: source_def)
  qed
qed

lemma futures_inv_exec:
  assumes "futures_inv (add_mset t M) w" "exec_task t w = (ts, w')"
  shows "futures_inv (mset ts + M) w'"
proof -
  have "run_task t w = (ts, w')"
    using assms exec_task_run [OF futures_invD(1) [OF assms(1)]] by simp
  note r = assms(1) this
  show ?thesis
    unfolding futures_inv_def
    using ids_exist_exec [OF r] singly_owned_exec [OF r] wired_exec [OF r] awake_exec [OF r] linear_exec [OF r]
      runs_deleted_exec [OF r] fed_exec [OF r] by blast
qed

subsection \<open>So do the operations of the program\<close>

lemma st_add_state:
  "s < length (states w) \<Longrightarrow> st (add_state v n w) s = st w s"
  "st (add_state v n w) (length (states w)) = new_Data v n"
  by (simp_all add: st_def add_state_def nth_append)

lemma add_state_fields [simp]:
  "handles (add_state v n w) = handles w" "next_fn (add_state v n w) = next_fn w"
  "ran (add_state v n w) = ran w" "deleted (add_state v n w) = deleted w"
  "dropped (add_state v n w) = dropped w" "faults (add_state v n w) = faults w"
  "length (states (add_state v n w)) = Suc (length (states w))"
  by (simp_all add: add_state_def)

lemma new_Data_simps [simp]:
  "fnotify (new_Data v n) = None" "fchain (new_Data v n) = None" "promises (new_Data v n) = n"
  "fullfilled (new_Data v n) = False" "future_taken (new_Data v n) = False" "fexec (new_Data v n) = None"
  by (simp_all add: new_Data_def)

lemma fresh_no_task:
  "ids_exist M w \<Longrightarrow> t \<in># M \<Longrightarrow> consumer t \<noteq> Some (length (states w))"
  by (cases t) (auto simp: ids_exist_def)

text \<open>A new state with a promise, or with a future.\<close>

lemma wired_task_add:
  "(\<forall>s \<in> set (sids t). s < length (states w)) \<Longrightarrow> wired_task (add_state v n w) t = wired_task w t"
  by (cases t) (auto simp: st_add_state)

lemma kept_add_state [simp]: "kept (add_state v n w) = kept w"
  by (simp add: kept_def add_state_def kept_functors_def)

lemma wired_same_all:
  assumes "length (states w') = length (states w)"
    "\<forall>s. fnotify (st w' s) = fnotify (st w s) \<and> fchain (st w' s) = fchain (st w s)"
  shows "wired M w' = wired M w"
  using assms wired_frame [of M w w'] wired_frame [of M w' w] by auto

definition core_inv :: "'v task multiset \<Rightarrow> 'v futures \<Rightarrow> bool" where
  "core_inv M w \<longleftrightarrow> ids_exist M w \<and> singly_owned M w \<and> wired M w \<and> awake M w \<and> linear M w \<and> runs_deleted M w"

lemma futures_inv_core: "futures_inv M w \<longleftrightarrow> core_inv M w \<and> fed M w"
  by (auto simp: futures_inv_def core_inv_def)

lemma core_add_state:
  assumes "core_inv M w"
  shows "core_inv M (add_state v n w)"
proof -
  from assms have rng: "ids_exist M w" and own: "singly_owned M w" and wrd: "wired M w" and awk: "awake M w"
    and lin: "linear M w" and cal: "runs_deleted M w"
    by (auto simp: core_inv_def)
  have cs: "s < length (states w) \<or> s = length (states w)" if "s < length (states (add_state v n w))" for s
    using that by auto
  have ids_exist: "ids_exist M (add_state v n w)"
    using rng by (auto simp: ids_exist_def less_Suc_eq st_add_state)
  have "owners M (add_state v n w) s = owners M w s" if "s < length (states w)" for s
    using that by (simp add: owners_def st_add_state)
  moreover have "owners M (add_state v n w) (length (states w)) = 0"
    using fresh_no_task [OF rng] rng
    by (auto simp: owners_def st_add_state ids_exist_def filter_mset_empty)
  ultimately have "singly_owned M (add_state v n w)"
    using own by (auto simp: singly_owned_def less_Suc_eq st_add_state)
  moreover have "wired M (add_state v n w)"
    using wrd rng wired_task_add [of _ w v n]
    by (auto simp: wired_def ids_exist_def less_Suc_eq st_add_state)
  moreover have "awake M (add_state v n w)"
    using awk by (auto simp: awake_def less_Suc_eq st_add_state)
  ultimately show ?thesis using ids_exist lin cal
    by (simp add: core_inv_def linear_alt runs_deleted_alt)
qed

lemma core_new_handle:
  assumes "core_inv M w" "c < length (states w)" "owners M w c = 0"
    and "promises (st w c) = 0 \<or> future_taken (st w c)"
  shows "core_inv M (w\<lparr>handles := insert c (handles w)\<rparr>)"
proof -
  have "owners M (w\<lparr>handles := insert c (handles w)\<rparr>) s = (if s = c then 1 else owners M w s)" for s
    using assms(3) by (auto simp: owners_def)
  with assms show ?thesis
    using wired_same_all [of w "w\<lparr>handles := insert c (handles w)\<rparr>" M]
    by (auto simp: core_inv_def ids_exist_def singly_owned_def awake_def linear_alt runs_deleted_alt kept_def)
qed

lemma core_drop_handle:
  assumes "core_inv M w"
  shows "core_inv M (w\<lparr>handles := handles w - {s}\<rparr>)"
proof -
  have le: "owners M (w\<lparr>handles := handles w - {s}\<rparr>) r \<le> owners M w r" for r
    by (simp add: owners_def)
  have "singly_owned M w" using assms by (simp add: core_inv_def)
  then have "singly_owned M (w\<lparr>handles := handles w - {s}\<rparr>)"
    by (rule singly_owned_mono) (simp_all add: le)
  with assms show ?thesis
    using wired_same_all [of w "w\<lparr>handles := handles w - {s}\<rparr>" M]
    by (auto simp: core_inv_def ids_exist_def awake_def linear_alt runs_deleted_alt kept_def)
qed

lemma core_taken:
  assumes "core_inv M w"
  shows "core_inv M (upd s (\<lambda>d. d\<lparr>future_taken := True\<rparr>) w)"
proof -
  let ?w = "upd s (\<lambda>d. d\<lparr>future_taken := True\<rparr>) w"
  have l: "fnotify (st ?w r) = fnotify (st w r)" "fchain (st ?w r) = fchain (st w r)"
    "fullfilled (st ?w r) = fullfilled (st w r)" "promises (st ?w r) = promises (st w r)"
    "future_taken (st w r) \<longrightarrow> future_taken (st ?w r)" for r
    by (auto simp: st_upd)
  have "owners M ?w r = owners M w r" for r by (auto simp: owners_def l)
  with assms show ?thesis
    using wired_same_all [of w ?w M] kept_same [of ?w w] l(5)
    by (auto simp: core_inv_def ids_exist_def singly_owned_def awake_def linear_alt runs_deleted_alt l(1,2,3,4))
qed

lemma core_promises:
  assumes "core_inv M w" "0 < promises (st w s)"
  shows "core_inv M (upd s (\<lambda>d. d\<lparr>promises := k\<rparr>) w)"
proof -
  let ?w = "upd s (\<lambda>d. d\<lparr>promises := k\<rparr>) w"
  have l: "fnotify (st ?w r) = fnotify (st w r)" "fchain (st ?w r) = fchain (st w r)"
    "fullfilled (st ?w r) = fullfilled (st w r)" "future_taken (st ?w r) = future_taken (st w r)"
    "0 < promises (st ?w r) \<longrightarrow> 0 < promises (st w r)" for r
    using assms(2) by (auto simp: st_upd)
  have "owners M ?w r = owners M w r" for r by (auto simp: owners_def l)
  with assms show ?thesis
    using wired_same_all [of w ?w M] kept_same [of ?w w] l(5)
    by (auto simp: core_inv_def ids_exist_def singly_owned_def awake_def linear_alt runs_deleted_alt l(1,2,3,4))
qed

lemma core_publish:
  assumes "core_inv M w" "s < length (states w)" "owners M w s = 0"
    and "promises (st w s) = 0 \<or> future_taken (st w s)"
    and "\<forall>r. c = Some r \<longrightarrow> r < length (states w)" "is_last f \<longrightarrow> c = None"
  shows "core_inv (add_mset (Publish s (Call (next_fn w) f) x c) M) (w\<lparr>next_fn := next_fn w + 1\<rparr>)"
proof -
  let ?w = "w\<lparr>next_fn := next_fn w + 1\<rparr>" and ?M = "add_mset (Publish s (Call (next_fn w) f) x c) M"
  have o: "owners M ?w r = owners M w r" for r by (simp add: owners_def)
  then have "singly_owned ?M ?w" using assms(1,3,4) by (auto simp: core_inv_def singly_owned_def)
  moreover have "ids_exist ?M ?w"
    using assms(1,2,5) by (auto simp: core_inv_def ids_exist_def split: option.splits)
  moreover have "wired ?M ?w"
    using assms(1,6) wired_same_all [of w ?w M] by (simp add: core_inv_def)
  moreover have "linear ?M ?w"
    using assms(1) by (simp add: core_inv_def linear_alt kept_def)
  ultimately show ?thesis
    using assms(1) by (auto simp: core_inv_def awake_def runs_deleted_alt)
qed

lemma not_owned_yet:
  assumes "futures_inv M w" "s \<in> handles w"
  shows "s < length (states w)" "promises (st w s) = 0 \<or> future_taken (st w s)"
    "owners M (w\<lparr>handles := handles w - {s}\<rparr>) s = 0" "fnotify (st w s) = None"
proof -
  show s: "s < length (states w)" using assms(2) futures_invD(1) [OF assms(1)] by (auto simp: ids_exist_def)
  then have "owners M w s \<le> 1" "0 < promises (st w s) \<longrightarrow> \<not> future_taken (st w s) \<longrightarrow> owners M w s = 0"
    using futures_invD(2) [OF assms(1)] by (auto simp: singly_owned_def)
  with assms(2) show "promises (st w s) = 0 \<or> future_taken (st w s)"
    "owners M (w\<lparr>handles := handles w - {s}\<rparr>) s = 0" "fnotify (st w s) = None"
    by (auto simp: owners_def)
qed

lemma source_add_state:
  assumes "source M w s" "s < length (states w)"
  shows "source M (add_state v n w) s"
  using assms(1) unfolding source_def
proof (elim disjE exE conjE)
  fix p assume "p < length (states w)" "fnotify (st w p) \<noteq> None" "fchain (st w p) = Some s"
  then have "p < length (states (add_state v n w)) \<and> fnotify (st (add_state v n w) p) \<noteq> None \<and>
    fchain (st (add_state v n w) p) = Some s"
    by (simp add: st_add_state)
  then show "0 < promises (st (add_state v n w) s) \<or> (\<exists>t. t \<in># M \<and> feeds t = Some s) \<or>
    (\<exists>p < length (states (add_state v n w)). fnotify (st (add_state v n w) p) \<noteq> None \<and>
      fchain (st (add_state v n w) p) = Some s)" by blast
qed (use assms(2) in \<open>auto simp: st_add_state\<close>)

lemma fed_more:
  assumes "fed M w" "length (states w') = length (states w)"
    and "faults w' = faults w" "dropped w' = dropped w"
    and "\<And>s. s < length (states w) \<Longrightarrow> fullfilled (st w s) \<Longrightarrow> fullfilled (st w' s)"
    and "\<And>s. s < length (states w) \<Longrightarrow> source M w s \<Longrightarrow> source N w' s"
  shows "fed N w'"
  using assms by (auto simp: fed_alt)

lemma add_state_next:
  "add_state v n (w\<lparr>next_fn := k\<rparr>) = (add_state v n w)\<lparr>next_fn := k\<rparr>"
  by (rule futures.equality) (simp_all add: add_state_def)

lemma futures_inv_install:
  assumes inv: "futures_inv M w" and s: "s \<in> handles w" and op: "install_op s x f v w = (ts, w')"
  shows "futures_inv (mset ts + M) w'"
proof -
  let ?h = "w\<lparr>handles := handles w - {s}\<rparr>" and ?c = "length (states w)"
  note no = not_owned_yet [OF inv s]
  have core: "core_inv M w" and fed: "fed M w" using inv by (simp_all add: futures_inv_core)
  have h: "core_inv M ?h" using core by (rule core_drop_handle)
  show ?thesis
  proof (cases "is_last f")
    case True
    let ?t = "Publish s (Call (next_fn w) f) x None"
    have w': "ts = [?t]" "w' = ?h\<lparr>next_fn := next_fn ?h + 1\<rparr>"
      using op True by (simp_all add: install_op_def Let_def)
    have "core_inv (add_mset (Publish s (Call (next_fn ?h) f) x None) M) w'"
      unfolding w' by (rule core_publish) (use h no in auto)
    moreover have "fed (add_mset ?t M) w'"
      by (rule fed_more [OF fed]) (auto simp: w' source_def)
    ultimately show ?thesis by (simp add: futures_inv_core w'(1))
  next
    case False
    let ?a = "add_state v 0 ?h"
    let ?n = "?a\<lparr>next_fn := next_fn ?a + 1\<rparr>"
    let ?t = "Publish s (Call (next_fn w) f) x (Some ?c)"
    have w': "ts = [?t]" "w' = ?n\<lparr>handles := insert ?c (handles ?n)\<rparr>"
      using op False by (auto simp: install_op_def Let_def add_state_next)
    have a: "core_inv M ?a" by (rule core_add_state [OF h])
    have st: "st ?a r = st w r" if "r < ?c" for r using that st_add_state(1) [of r ?h] by simp
    have st_c: "st ?a ?c = new_Data v 0" using st_add_state(2) [of v 0 ?h] by simp
    have "owners M ?a s = 0" using no st by (simp add: owners_def)
    then have p: "core_inv (add_mset (Publish s (Call (next_fn ?a) f) x (Some ?c)) M) ?n"
      by (intro core_publish a) (use no st False in auto)
    have "owners (add_mset ?t M) ?n ?c = 0"
      using fresh_no_task [OF futures_invD(1) [OF inv]] no(1) futures_invD(1) [OF inv]
      by (auto simp: owners_def st_c filter_mset_empty ids_exist_def)
    then have "core_inv (add_mset ?t M) w'"
      unfolding w'(2) by (intro core_new_handle) (use p in \<open>simp_all add: st_c\<close>)
    moreover have "source M w' r" if "source M w r" "r < ?c" for r
      using source_add_state [of M ?h r v 0] that by (simp add: source_def w'(2))
    then have "fed (add_mset ?t M) w'"
      using fed by (auto simp: w' fed_alt less_Suc_eq st st_c)
    ultimately show ?thesis by (simp add: futures_inv_core w'(1))
  qed
qed

lemma futures_inv_perform:
  assumes "futures_inv M w" "perform a w = Some (ts, w')"
  shows "futures_inv (mset ts + M) w'"
proof -
  have core: "core_inv M w" and fed: "fed M w" using assms(1) by (simp_all add: futures_inv_core)
  show ?thesis
  proof (cases a)
    case (NewPromise v)
    have "fed M (add_state v 1 w)"
      using fed source_add_state [of M w]
      by (auto simp: fed_alt less_Suc_eq st_add_state) (simp add: source_def st_add_state)
    with NewPromise assms(2) core_add_state [OF core] show ?thesis by (auto simp: futures_inv_core)
  next
    case (CopyPromise s)
    then have w': "ts = []" "w' = ref_promise s w" "has_promise w s" using assms(2) by (auto split: if_splits)
    have "core_inv M w'" unfolding w'(2) ref_promise_def
      using core_promises [OF core, of s "promises (st w s) + 1"] w'(3)
      by (simp add: upd_def has_promise_def)
    moreover have "fed M w'"
      by (rule fed_more [OF fed]) (auto simp: w'(2) ref_promise_def st_upd intro!: source_mono [of M w])
    ultimately show ?thesis by (simp add: futures_inv_core w'(1))
  next
    case (DropPromise s)
    then have w': "deref_promise s w = (ts, w')" "has_promise w s" using assms(2) by (auto split: if_splits)
    have "core_inv M w'" using core_promises [OF core, of s "promises (st w s) - 1"] w'
      by (auto simp: upd_def has_promise_def deref_promise_def)
    then have "core_inv (mset ts + M) w'"
      using w' by (auto simp: deref_promise_def core_inv_def has_promise_def singly_owned_def awake_def linear_alt
          runs_deleted_alt split: if_splits)
    moreover have "fed (mset ts + M) w'"
    proof (rule fed_more [OF fed])
      fix r assume r: "r < length (states w)" "source M w r"
      show "source (mset ts + M) w' r"
      proof (cases "r = s \<and> promises (st w s) = 1")
        case True
        then show ?thesis using w'(1) by (auto simp: deref_promise_def)
      next
        case False
        then have "0 < promises (st w r) \<Longrightarrow> 0 < promises (st w' r)"
          using w' by (auto simp: deref_promise_def st_upd has_promise_def)
        then have "source M w' r"
          by (intro source_mono [OF r(2)]) (use w' in \<open>auto simp: deref_promise_def st_upd\<close>)
        then show ?thesis by (rule source_grow)
      qed
    qed (use w' in \<open>auto simp: deref_promise_def st_upd\<close>)
    ultimately show ?thesis by (simp add: futures_inv_core)
  next
    case (GetFuture s)
    then have w': "ts = []" "w' = take_future s w" and s: "s < length (states w)" "0 < promises (st w s)"
      using assms(2) by (auto split: if_splits simp: has_promise_def)
    show ?thesis
    proof (cases "future_taken (st w s)")
      case False
      let ?u = "upd s (\<lambda>d. d\<lparr>future_taken := True\<rparr>) w"
      have o: "owners M ?u s = 0"
        using False s futures_invD(2) [OF assms(1)] by (auto simp: owners_def singly_owned_def st_upd)
      have "core_inv M (?u\<lparr>handles := insert s (handles ?u)\<rparr>)"
        by (rule core_new_handle [OF core_taken [OF core]]) (use s o in \<open>simp_all add: st_upd\<close>)
      then have "core_inv M w'" using False by (simp add: w'(2) take_future_def)
      moreover have "fed M w'"
        using False by (intro fed_more [OF fed]) (auto simp: w'(2) take_future_def st_upd intro!: source_mono [of M w])
      ultimately show ?thesis by (simp add: futures_inv_core w'(1))
    qed (use w' assms(1) in \<open>simp add: take_future_def\<close>)
  next
    case (Resolve s r)
    then have w': "ts = [Fulfil s r]" "w' = w" "has_promise w s" using assms(2) by (auto split: if_splits)
    have "core_inv (mset ts + M) w'"
      using core w' by (auto simp: core_inv_def has_promise_def singly_owned_def awake_def linear_alt runs_deleted_alt)
    moreover have "fed (mset ts + M) w'" using fed by (auto simp: w' fed_alt)
    ultimately show ?thesis by (simp add: futures_inv_core)
  next
    case (Install s x f v)
    then show ?thesis using assms futures_inv_install by (auto split: if_splits)
  next
    case (DropFuture s)
    then have w': "ts = []" "w' = w\<lparr>handles := handles w - {s}\<rparr>" using assms(2) by (auto split: if_splits)
    have "fed M w'" using fed by (auto simp: w' fed_alt source_def)
    with core_drop_handle [OF core] w' show ?thesis by (simp add: futures_inv_core)
  next
    case (Stop x)
    then have w': "ts = []" "w' = w\<lparr>stopped := insert x (stopped w)\<rparr>" using assms(2) by auto
    have eq: "owners M w' r = owners M w r" "source M w' r = source M w r" "wired M w' = wired M w" for r
      using wired_same_all [of w' w M] by (simp_all add: w'(2) owners_def source_def)
    have "futures_inv M w'"
      using futures_invD [OF assms(1)]
      by (simp add: futures_inv_def ids_exist_def singly_owned_def awake_def linear_alt runs_deleted_alt fed_alt eq)
        (simp add: w'(2) kept_def)
    with w' show ?thesis by simp
  qed
qed

subsection \<open>Reachable configurations\<close>

lemma tasks_at:
  assumes "i < length ths" "ths ! i = t # ts"
  obtains M where "tasks ths = add_mset t M" "\<forall>new. tasks (ths[i := new @ ts]) = mset new + M"
proof
  have s: "ths = take i ths @ (t # ts) # drop (Suc i) ths" using assms id_take_nth_drop by metis
  let ?M = "mset (concat (take i ths)) + mset ts + mset (concat (drop (Suc i) ths))"
  show "tasks ths = add_mset t ?M" unfolding tasks_def by (subst s) simp
  show "\<forall>new. tasks (ths[i := new @ ts]) = mset new + ?M"
    unfolding tasks_def using assms(1) by (simp add: upd_conv_take_nth_drop)
qed

lemma futures_inv_drop_job:
  assumes "futures_inv (add_mset (Submit x n s c) M) w"
  shows "futures_inv M (drop_notify n w)"
proof -
  note d = futures_invD [OF assms]
  have "singly_owned M (drop_notify n w)"
    by (rule singly_owned_mono [OF d(2)]) (simp_all add: owners_def)
  moreover have "wired M (drop_notify n w)"
    using d(3) wired_same_all [of "drop_notify n w" w M] by simp
  moreover have "linear M (drop_notify n w)"
    using d(5) kept_same [of "drop_notify n w" w] by (simp add: linear_alt ac_simps)
  moreover have "runs_deleted M (drop_notify n w)"
    using d(6) subset_mset.add_mono [OF _ subset_mset.order_refl]
    by (simp add: runs_deleted_alt flip: add.assoc)
  ultimately show ?thesis using d(1,4)
    by (auto simp: futures_inv_def ids_exist_def awake_def fed_def)
qed

lemma futures_inv_start: "futures_inv (tasks (fst start)) (snd start)"
  by (simp add: start_def tasks_def futures_inv_def ids_exist_def singly_owned_def wired_def awake_def
      linear_def runs_deleted_def fed_def)

inductive_cases thread_stepE: "thread_step c c'"
inductive_cases internal_stepE: "internal_step c c'"

lemma internal_step_inv:
  assumes "internal_step (ths, w) (ths', w')" "futures_inv (tasks ths) w"
  shows "futures_inv (tasks ths') w'"
  using assms(1)
proof (cases rule: internal_step.cases)
  case (run i t ts new)
  from run(3,4) obtain M where M: "tasks ths = add_mset t M" "\<forall>new. tasks (ths[i := new @ ts]) = mset new + M"
    by (rule tasks_at)
  with run assms(2) show ?thesis using futures_inv_exec by metis
next
  case (defer_job i x n s c ts)
  from defer_job(4,5) obtain M where M: "tasks ths = add_mset (Submit x n s c) M"
    "\<forall>new. tasks (ths[i := new @ ts]) = mset new + M"
    by (rule tasks_at)
  have "tasks (ths[i := ts] @ [[Submit x n s c]]) = tasks ths"
    using M(1) spec [OF M(2), of "[]"] by (simp add: tasks_def)
  with defer_job assms(2) show ?thesis by simp
next
  case (cancel_job i x n s c ts)
  from cancel_job(4,5) obtain M where M: "tasks ths = add_mset (Submit x n s c) M"
    "\<forall>new. tasks (ths[i := new @ ts]) = mset new + M"
    by (rule tasks_at)
  with cancel_job assms(2) futures_inv_drop_job spec [OF M(2), of "[]"] show ?thesis by simp
qed

lemma reachable_inv: "reachable c \<Longrightarrow> futures_inv (tasks (fst c)) (snd c)"
proof (induction rule: reachable.induct)
  case initial
  show ?case by (rule futures_inv_start)
next
  case (more c c')
  from more.hyps(2) show ?case
  proof (cases rule: thread_step.cases)
    case (perform w a ts w' ths)
    with more.IH futures_inv_perform [of "tasks ths" w a ts w'] show ?thesis
      by (simp add: tasks_def add.commute)
  next
    case internal
    with more.IH internal_step_inv show ?thesis by (cases c; cases c') simp
  qed
qed

end
