(* ===== verification/Fut_Laws.thy ===== *)
theory Fut_Laws
  imports Fut_Inv
begin

text \<open>
  What every program of futures can rely on: continuations run once, no resolution is lost, threads
  end, abandoned futures are resolved, a chain delivers what its functions compute; and what a program
  must avoid.
\<close>

subsection \<open>What holds of every program\<close>

definition waits :: "'v futures \<Rightarrow> (sid \<times> sid) set" where
  "waits w = {(p, s). p < length (states w) \<and> fnotify (st w p) \<noteq> None \<and> fchain (st w p) = Some s}"

lemma waits_finite: "finite (waits w)"
proof (rule finite_subset)
  show "waits w \<subseteq> (\<lambda>p. (p, the (fchain (st w p)))) ` {..<length (states w)}"
    by (force simp: waits_def)
qed simp

lemma settles:
  assumes inv: "futures_inv {#} w" and "faults w = []" "dropped w = []"
    and prom: "\<forall>s < length (states w). promises (st w s) = 0" and acy: "acyclic (waits w)"
  shows "s < length (states w) \<Longrightarrow> fullfilled (st w s)"
proof (induction s rule: wf_induct [OF finite_acyclic_wf [OF waits_finite acy]])
  case (1 s)
  show ?case
  proof (rule ccontr)
    assume "\<not> fullfilled (st w s)"
    then have "source {#} w s" using futures_invD(7) [OF inv] assms(2,3) 1(2) unfolding fed_alt by blast
    then obtain p where p: "p < length (states w)" "(p, s) \<in> waits w"
      using prom 1(2) by (auto simp: source_def waits_def)
    then have "fullfilled (st w p)" using 1(1) by blast
    then show False using p futures_invD(4) [OF inv] by (auto simp: awake_def waits_def)
  qed
qed

lemma distinct_part: "mset xs \<subseteq># mset ys \<Longrightarrow> distinct ys \<Longrightarrow> distinct xs"
proof -
  assume a: "mset xs \<subseteq># mset ys" "distinct ys"
  have "count (mset xs) k = (if k \<in> set xs then 1 else 0)" for k
  proof (cases "k \<in> set xs")
    case True
    then have "0 < count (mset xs) k" by simp
    moreover have "count (mset xs) k \<le> 1"
    proof -
      have "count (mset ys) k = (if k \<in> set ys then 1 else 0)"
        using a(2) unfolding distinct_count_atmost_1 by blast
      then have "count (mset ys) k \<le> 1" by simp
      with mset_subset_eq_count [OF a(1), of k] show ?thesis by (rule le_trans)
    qed
    ultimately have "count (mset xs) k = 1" by linarith
    then show ?thesis using True by simp
  qed (simp add: count_mset_0_iff)
  then show "distinct xs" by (simp add: distinct_count_atmost_1)
qed

lemma deleting_placed: "deleting M \<subseteq># placed M"
proof (induction M)
  case (add t M)
  have "mset (deletion t) \<subseteq># mset (task_functors t)" by (cases t) auto
  with add show ?case by (simp add: subset_mset.add_mono)
qed (simp add: deleting_def placed_def)

lemma linear_parts:
  assumes "futures_inv M w"
  shows "distinct (map fst (ran w) @ concat (dropped w))" "distinct (deleted w)"
proof -
  have lin: "kept w + placed M + mset (deleted w) = mset [0..<next_fn w]"
    using futures_invD(5) [OF assms] by (simp add: linear_alt)
  have "mset (map fst (ran w) @ concat (dropped w)) \<subseteq># mset (deleted w) + deleting M"
    using futures_invD(6) [OF assms] by (simp add: runs_deleted_alt)
  also have "\<dots> \<subseteq># kept w + placed M + mset (deleted w)"
    using deleting_placed [of M] by (simp add: subset_mset.add_increasing add.commute add.left_commute)
  finally show "distinct (map fst (ran w) @ concat (dropped w))"
    unfolding lin by (rule distinct_part) simp
  have "mset (deleted w) \<subseteq># mset [0..<next_fn w]" unfolding lin [symmetric] by simp
  then show "distinct (deleted w)" by (rule distinct_part) simp
qed

lemma in_kept: "k \<in># kept w \<longleftrightarrow> (\<exists>s < length (states w). \<exists>f. fnotify (st w s) = Some (Call k f))"
proof -
  have "k \<in> set (kept_functors d) \<longleftrightarrow> (\<exists>f. fnotify d = Some (Call k f))" for d :: "'a fstate"
    by (cases "fnotify d"; cases "the (fnotify d)") (auto simp: kept_functors_def)
  then have "k \<in># kept w \<longleftrightarrow> (\<exists>d \<in> set (states w). \<exists>f. fnotify d = Some (Call k f))"
    by (simp add: kept_def)
  then show ?thesis unfolding st_def by (metis in_set_conv_nth)
qed

lemma idle_functors:
  assumes "futures_inv {#} w" "k < next_fn w"
  shows "k \<in> set (deleted w) \<longleftrightarrow>
    \<not> (\<exists>s < length (states w). \<not> fullfilled (st w s) \<and> (\<exists>f. fnotify (st w s) = Some (Call k f)))"
proof -
  have lin: "kept w + mset (deleted w) = mset [0..<next_fn w]"
    using futures_invD(5) [OF assms(1)] by (simp add: linear_alt)
  have "count (kept w + mset (deleted w)) k = 1"
    unfolding lin using assms(2) distinct_count_atmost_1 [of "[0..<next_fn w]"] by simp
  then have "k \<in> set (deleted w) \<longleftrightarrow> k \<notin># kept w"
    unfolding set_mset_mset [symmetric] count_greater_zero_iff [symmetric] count_union by linarith
  also have "k \<in># kept w \<longleftrightarrow>
    (\<exists>s < length (states w). \<not> fullfilled (st w s) \<and> (\<exists>f. fnotify (st w s) = Some (Call k f)))"
    using futures_invD(4) [OF assms(1)] by (auto simp: in_kept awake_def)
  finally show ?thesis by blast
qed

text \<open>
  C6: Once every thread is done and every promise is gone, every future is resolved: with its result, or
  with the exception of a broken promise. That takes functions that return valid futures and executors that
  drop no job, and no ring of futures that wait for each other, which only a returned future can close.\<close>

theorem futures_settle:
  assumes "reachable (ths, w)" "concat ths = []" "faults w = []" "dropped w = []"
    and "\<forall>s < length (states w). promises (st w s) = 0" "acyclic (waits w)"
  shows "\<forall>s < length (states w). fullfilled (st w s)"
proof -
  have "futures_inv {#} w" using reachable_inv [OF assms(1)] assms(2) by (simp add: tasks_def)
  with assms(3-6) settles show ?thesis by blast
qed

text \<open>
  C5: No continuation is called twice, or called and dropped, or deleted twice. When the threads are
  done, each one has been deleted, after its call where it was called, or waits in a state that is not
  resolved.\<close>

theorem continuation_once:
  assumes "reachable (ths, w)"
  shows "distinct (map fst (ran w) @ concat (dropped w)) \<and> distinct (deleted w) \<and>
    (concat ths = [] \<longrightarrow> fst ` set (ran w) \<subseteq> set (deleted w) \<and>
      (\<forall>k < next_fn w. k \<in> set (deleted w) \<longleftrightarrow>
         \<not> (\<exists>s < length (states w). \<not> fullfilled (st w s) \<and> (\<exists>f. fnotify (st w s) = Some (Call k f)))))"
proof -
  have inv: "futures_inv (tasks ths) w" using reachable_inv [OF assms] by simp
  have "fst ` set (ran w) \<subseteq> set (deleted w)" if "tasks ths = {#}"
  proof
    fix k assume "k \<in> fst ` set (ran w)"
    then have "k \<in># mset (map fst (ran w)) + mset (concat (dropped w))" by auto
    moreover have "mset (map fst (ran w)) + mset (concat (dropped w)) \<subseteq># mset (deleted w)"
      using futures_invD(6) [OF inv] that by (simp add: runs_deleted_alt)
    ultimately have "k \<in># mset (deleted w)" by (rule mset_subset_eqD [rotated])
    then show "k \<in> set (deleted w)" by simp
  qed
  moreover have "k \<in> set (deleted w) \<longleftrightarrow>
      \<not> (\<exists>s < length (states w). \<not> fullfilled (st w s) \<and> (\<exists>f. fnotify (st w s) = Some (Call k f)))"
    if "tasks ths = {#}" "k < next_fn w" for k
    using idle_functors [of w k] inv that by simp
  ultimately show ?thesis using linear_parts [OF inv] unfolding tasks_def mset_zero_iff by blast
qed

text \<open>
  C2: Under every interleaving a resolved state that has a continuation is about to be driven by some
  thread; a continuation is published only where there is none before, so \<^verbatim>\<open>Then() Called Twice\<close> is
  never thrown; and the state of a valid future, the one a continuation can be attached to or that can
  be spliced, has no continuation. Numbers stand for the shared states, which the model never frees: this
  says nothing of their lifetime.\<close>

theorem no_lost_wakeup:
  assumes "reachable (ths, w)"
  shows "(\<forall>s < length (states w). fullfilled (st w s) \<and> fnotify (st w s) \<noteq> None \<longrightarrow>
      (\<exists>ts \<in> set ths. Drive (Some s) \<in> set ts)) \<and>
    (\<forall>ts \<in> set ths. \<forall>s n x c. Publish s n x c \<in> set ts \<longrightarrow> fnotify (st w s) = None) \<and>
    (\<forall>s \<in> handles w. s < length (states w) \<and> fnotify (st w s) = None)"
proof -
  have inv: "futures_inv (tasks ths) w" using reachable_inv [OF assms] by simp
  have t: "t \<in># tasks ths \<longleftrightarrow> (\<exists>ts \<in> set ths. t \<in> set ts)" for t by (simp add: tasks_def)
  show ?thesis
  proof (intro conjI allI ballI impI)
    fix s assume "s < length (states w)" "fullfilled (st w s) \<and> fnotify (st w s) \<noteq> None"
    then have "Drive (Some s) \<in># tasks ths" using futures_invD(4) [OF inv] unfolding awake_def by blast
    then show "\<exists>ts \<in> set ths. Drive (Some s) \<in> set ts" by (simp only: t)
  next
    fix ts s n x c assume "ts \<in> set ths" "Publish s n x c \<in> set ts"
    then have "Publish s n x c \<in># tasks ths" using t by blast
    then obtain M where "tasks ths = add_mset (Publish s n x c) M" by (metis insert_DiffM)
    then show "fnotify (st w s) = None"
      using futures_invD(1,2) [OF inv] by (auto simp: singly_owned_def owners_def)
  qed (use not_owned_yet(1,4) [OF inv] in auto)
qed

subsection \<open>The threads end\<close>

definition config_work :: "'v config \<Rightarrow> nat" where
  "config_work c = work (concat (fst c)) (snd c)"

definition spread :: "'v config \<Rightarrow> nat" where
  "spread c = sum_list (map (\<lambda>ts. length ts * length ts) (fst c))"

lemma config_work_update:
  assumes "i < length ths" "ths ! i = t # ts"
  shows "config_work (ths[i := new @ ts], w') + work [t] w = config_work (ths, w) + work new w'"
proof -
  have s: "ths = take i ths @ (t # ts) # drop (Suc i) ths" using assms id_take_nth_drop by metis
  have u: "ths[i := new @ ts] = take i ths @ (new @ ts) # drop (Suc i) ths"
    using assms(1) by (simp add: upd_conv_take_nth_drop)
  show ?thesis
    unfolding config_work_def u by (subst (2) s) (simp add: work_def)
qed

lemma internal_step_decreases:
  assumes "internal_step c c'"
  shows "(c', c) \<in> measures [config_work, spread]"
  using assms
proof cases
  case (run w i ths t ts new w')
  then show ?thesis
    using config_work_update [of i ths t ts new w' w] exec_task_cost [of t w new w'] by simp
next
  case (defer_job w i ths x n s c ts)
  let ?t = "Submit x n s c"
  have "config_work (ths[i := ts], w) + cost n = config_work (ths, w)"
    using config_work_update [OF defer_job(4,5), of "[]" w w] by (simp add: work_def)
  then have "config_work (ths[i := ts] @ [[?t]], w) = config_work (ths, w)"
    by (simp add: config_work_def work_def)
  moreover have "spread (ths[i := ts] @ [[?t]], w) < spread (ths, w)"
    using sum_list_map_update [OF defer_job(4), of "\<lambda>ts. length ts * length ts" ts] defer_job(5,6)
    by (auto simp: spread_def neq_Nil_conv)
  ultimately show ?thesis using defer_job(1,2) by simp
next
  case (cancel_job w i ths x n s c ts)
  have "world_cost (drop_notify n w) = world_cost w" by simp
  then show ?thesis
    using config_work_update [OF cancel_job(4,5), of "[]" "drop_notify n w" w] cancel_job(1,2) cost_pos [of n]
    by (simp add: work_def)
qed

text \<open>
  C38: However the scheduler and the executors decide, threads that are given no new operation end.\<close>

theorem threads_end: "wfp (\<lambda>c' c. internal_step c c')"
proof -
  have "{(c', c). internal_step c c'} \<subseteq> measures [config_work, spread]"
    using internal_step_decreases by blast
  then show ?thesis unfolding wfp_def by (rule wf_subset [OF wf_measures])
qed

subsection \<open>A chain delivers\<close>

text \<open>A function of a \<^verbatim>\<open>Then\<close> that returns a value or throws, and what a chain of them computes.\<close>

fun then_of :: "('v \<Rightarrow> exc + 'v) \<Rightarrow> 'v option \<Rightarrow> 'v outcome" where
  "then_of g (Some v) = (case g v of Inl e \<Rightarrow> Throws e | Inr u \<Rightarrow> Ret u)"
| "then_of g None = RetVoid"

fun follow :: "exc + 'v \<Rightarrow> ('v \<Rightarrow> exc + 'v) list \<Rightarrow> exc + 'v" where
  "follow r [] = r"
| "follow r (g # gs) = follow (case r of Inl e \<Rightarrow> Inl e | Inr v \<Rightarrow> g v) gs"

fun as_answer :: "exc + 'v \<Rightarrow> 'v answer" where
  "as_answer (Inl e) = Exc (Some e)"
| "as_answer (Inr v) = Val v"

definition pending :: "'v fstate \<Rightarrow> bool" where
  "pending d \<longleftrightarrow> \<not> is_void d \<and> \<not> fullfilled d \<and> fexc d = None"

fun linked :: "'v futures \<Rightarrow> sid \<Rightarrow> ('v \<Rightarrow> exc + 'v) list \<Rightarrow> bool" where
  "linked w s [] \<longleftrightarrow> s < length (states w) \<and> fnotify (st w s) = None"
| "linked w s (g # gs) \<longleftrightarrow>
     s < length (states w) \<and> fexec (st w s) = None \<and>
     (\<exists>k c. fnotify (st w s) = Some (Call k (FThen (then_of g))) \<and> fchain (st w s) = Some c \<and> s < c \<and>
        pending (st w c) \<and> linked w c gs)"

fun chain_end :: "'v futures \<Rightarrow> sid \<Rightarrow> ('v \<Rightarrow> exc + 'v) list \<Rightarrow> sid" where
  "chain_end w s [] = s"
| "chain_end w s (g # gs) = chain_end w (the (fchain (st w s))) gs"

lemma linked_range: "linked w s gs \<Longrightarrow> s < length (states w)"
  by (cases gs) auto

lemma linked_frame:
  assumes "linked w s gs" "length (states w') = length (states w)"
    and "fnotify (st w' s) = fnotify (st w s)" "fexec (st w' s) = fexec (st w s)" "fchain (st w' s) = fchain (st w s)"
    and "\<And>r. s < r \<Longrightarrow> st w' r = st w r"
  shows "linked w' s gs \<and> chain_end w' s gs = chain_end w s gs"
  using assms
proof (induction gs arbitrary: s)
  case (Cons g gs)
  from Cons.prems(1) obtain k c where c: "fnotify (st w s) = Some (Call k (FThen (then_of g)))"
    "fchain (st w s) = Some c" "s < c" "pending (st w c)" "linked w c gs" by auto
  have "linked w' c gs \<and> chain_end w' c gs = chain_end w c gs"
    by (rule Cons.IH [OF c(5) Cons.prems(2)]) (use c(3) Cons.prems(6) in auto)
  with c Cons.prems show ?case by auto
qed simp

definition holds_result :: "'v fstate \<Rightarrow> exc + 'v \<Rightarrow> bool" where
  "holds_result d r \<longleftrightarrow> fullfilled d \<and> getRes d = Some (map_sum id Some r)"

lemma put_answer: "pending d \<Longrightarrow> holds_result (snd (fulfil_with (as_answer r) d)) r"
  by (cases r) (auto simp: pending_def holds_result_def getRes_def fulfilExc_def fulfilValue_def)

lemma st_put: "st (put s a w) r = (if r = s \<and> s < length (states w) then snd (fulfil_with a (st w s)) else st w r)"
  by (simp add: put_def st_upd)

lemma getRes_claimed [simp]: "getRes (d\<lparr>fnotify := n\<rparr>) = getRes d"
  by (simp add: getRes_def cong: option.case_cong)

lemma drive_delivers:
  "\<not> aborted w \<Longrightarrow> linked w s gs \<Longrightarrow> holds_result (st w s) r \<Longrightarrow>
     holds_result (st (run_thread [Drive (Some s)] w) (chain_end w s gs)) (follow r gs)"
proof (induction gs arbitrary: w s r)
  case Nil
  then show ?case by (simp add: exec_task_def claim_def holds_result_def Let_def)
next
  case (Cons g gs)
  from Cons.prems(2) obtain k c where c: "s < length (states w)" "fexec (st w s) = None"
    "fnotify (st w s) = Some (Call k (FThen (then_of g)))" "fchain (st w s) = Some c" "s < c"
    "pending (st w c)" "linked w c gs" by auto
  note cr = linked_range [OF c(7)]
  let ?r = "case r of Inl e \<Rightarrow> Inl e | Inr v \<Rightarrow> g v"
  let ?u = "upd s (\<lambda>d. d\<lparr>fnotify := None\<rparr>) w"
  have res: "getRes (st ?u s) = Some (map_sum id Some r)"
    using Cons.prems(3) c(1) by (simp add: holds_result_def st_upd getRes_claimed)
  obtain w1 where w1: "call_notify (Call k (FThen (then_of g))) s ?u = ([Delete k], put c (as_answer ?r) w1)"
    "states w1 = states ?u" "aborted w1 = aborted ?u"
  proof (cases r)
    case (Inl e)
    with res show ?thesis using c(1,4) Inl that [of ?u] by (simp add: st_upd put_chain_def)
  next
    case (Inr v)
    with res show ?thesis using c(1,4) Inr that [of "note_run k (Inr (Some v)) ?u"]
      by (auto simp: st_upd put_chain_def note_run_def split: sum.splits)
  qed
  let ?w = "(put c (as_answer ?r) w1)\<lparr>deleted := deleted w1 @ [k]\<rparr>"
  have st1: "st w1 x = st ?u x" for x by (simp add: st_def w1(2))
  have run: "run_thread [Drive (Some s)] w = run_thread [Drive (Some c)] ?w"
    using Cons.prems(1,3) c cr w1
    by (simp add: exec_task_def claim_def holds_result_def Let_def)
  have "linked ?w c gs \<and> chain_end ?w c gs = chain_end w c gs"
    by (rule linked_frame [OF c(7)]) (use c(5) w1(2) in \<open>auto simp: st_put st1 st_upd\<close>)
  moreover have "holds_result (st ?w c) ?r"
    using put_answer [OF c(6), of ?r] cr c(5) w1(2) by (simp add: st_put st1 st_upd)
  ultimately have "holds_result (st (run_thread [Drive (Some c)] ?w) (chain_end w c gs)) (follow ?r gs)"
    using Cons.IH [of ?w c ?r] Cons.prems(1) w1(3) by simp
  then show ?case unfolding run using c(4) by simp
qed

text \<open>
  C14: Resolving the promise at the head of a chain of \<^verbatim>\<open>Then\<close>s, by a value or an exception, resolves the
  future at its end, and with what the functions compute one after the other: the first exception
  skips the rest.\<close>

theorem then_chain_delivers:
  assumes "\<not> aborted w" "linked w s gs" "pending (st w s)"
  shows "getRes (st (run_thread [Fulfil s (as_answer r)] w) (chain_end w s gs)) =
    Some (map_sum id Some (follow r gs))"
proof -
  note s = linked_range [OF assms(2)]
  let ?w = "put s (as_answer r) w"
  have "linked ?w s gs \<and> chain_end ?w s gs = chain_end w s gs"
    by (rule linked_frame [OF assms(2)]) (auto simp: st_put)
  moreover have "holds_result (st ?w s) r" using put_answer [OF assms(3)] s by (simp add: st_put)
  moreover have "run_thread [Fulfil s (as_answer r)] w = run_thread [Drive (Some s)] ?w"
    using assms(1) s by (simp add: exec_task_def)
  ultimately show ?thesis
    using drive_delivers [of ?w s gs r] assms(1) by (simp add: holds_result_def)
qed

subsection \<open>A program that is run\<close>

text \<open>Each operation is performed by a thread that runs to its end before the next one.\<close>

fun play :: "'v operation list \<Rightarrow> 'v futures \<Rightarrow> 'v futures option" where
  "play [] w = Some w"
| "play (a # as) w =
     (if aborted w then None
      else (case perform a w of None \<Rightarrow> None | Some (ts, w') \<Rightarrow> play as (run_thread ts w')))"

lemma run_thread_reachable:
  "reachable (ths @ [ts], w) \<Longrightarrow> \<not> aborted (run_thread ts w) \<Longrightarrow> reachable (ths @ [[]], run_thread ts w)"
proof (induction ts w rule: run_thread.induct)
  case (2 t ts w)
  obtain new w' where e: "exec_task t w = (new, w')" by fastforce
  have a: "\<not> aborted w" using 2(3) by auto
  have "internal_step (ths @ [t # ts], w) ((ths @ [t # ts])[length ths := new @ ts], w')"
    by (rule internal_step.run [OF a _ _ e]) auto
  then have "reachable (ths @ [new @ ts], w')"
    using 2(2) by (auto intro: reachable.more thread_step.internal)
  then show ?case using 2(1) [OF a e [symmetric]] 2(3) a e by (simp add: Let_def)
qed simp

lemma play_reachable:
  "play as w = Some w' \<Longrightarrow> \<not> aborted w' \<Longrightarrow> reachable (ths, w) \<Longrightarrow> concat ths = [] \<Longrightarrow>
     \<exists>ths'. reachable (ths', w') \<and> concat ths' = []"
proof (induction as arbitrary: w ths)
  case (Cons a as)
  then obtain ts u where u: "\<not> aborted w" "perform a w = Some (ts, u)" "play as (run_thread ts u) = Some w'"
    by (auto split: if_splits option.splits)
  from u(1,2) have "reachable (ths @ [ts], u)"
    using Cons.prems(3) by (blast intro: reachable.more thread_step.perform)
  moreover have "\<not> aborted (run_thread ts u)"
    using u(3) Cons.prems(2) by (cases as) (auto split: if_splits)
  ultimately have "reachable (ths @ [[]], run_thread ts u)" by (rule run_thread_reachable)
  then show ?case using Cons.IH [OF u(3) Cons.prems(2)] Cons.prems(4) by simp
qed auto

definition increment :: "nat func" where
  "increment = FThen (then_of (\<lambda>n. Inr (n + 1)))"

definition sample_ops :: "nat operation list" where
  "sample_ops =
     [NewPromise False, GetFuture 0, Install 0 None increment False, Install 1 None increment False,
      Resolve 0 (Val 40), DropPromise 0]"

definition sample_end :: "nat futures" where
  "sample_end =
     \<lparr>states =
        [(new_Data False 0)\<lparr>fullfilled := True, has_val := True, future_taken := True, buff := Some 40, fchain := Some 1\<rparr>,
         (new_Data False 0)\<lparr>fullfilled := True, has_val := True, buff := Some 41, fchain := Some 2\<rparr>,
         (new_Data False 0)\<lparr>fullfilled := True, has_val := True, buff := Some 42\<rparr>],
      handles = {2}, stopped = {}, next_fn = 2, ran = [(0, Inr (Some 40)), (1, Inr (Some 41))],
      deleted = [0, 1], dropped = [], faults = [], aborted = False\<rparr>"

lemma sample_run: "play sample_ops (snd start) = Some sample_end"
  by (simp add: sample_ops_def sample_end_def increment_def start_def add_state_def has_promise_def take_future_def
      new_Data_def st_def upd_def install_op_def Let_def exec_task_def publish_def claim_def put_def put_chain_def
      fulfilValue_def getRes_def note_run_def deref_promise_def insert_commute)

lemma sample_reachable: "\<exists>ths. reachable (ths, sample_end) \<and> concat ths = []"
proof (rule play_reachable [OF sample_run])
  show "reachable ([], snd start)" using reachable.initial by (simp add: start_def)
qed (simp_all add: sample_end_def)

theorem futures_settle_witness:
  "fullfilled (st sample_end 0) \<and> fullfilled (st sample_end 1) \<and> fullfilled (st sample_end 2)"
proof -
  obtain ths where ths: "reachable (ths, sample_end)" "concat ths = []" using sample_reachable by blast
  have len: "length (states sample_end) = 3" by (simp add: sample_end_def)
  have p: "\<forall>s < length (states sample_end). promises (st sample_end s) = 0"
    by (auto simp: sample_end_def st_def new_Data_def less_Suc_eq numeral_3_eq_3)
  have "fnotify (st sample_end s) = None" if "s < 3" for s
    using that by (auto simp: sample_end_def st_def new_Data_def less_Suc_eq numeral_3_eq_3)
  then have "waits sample_end = {}" by (auto simp: waits_def len)
  then have "acyclic (waits sample_end)" by (simp add: acyclic_def)
  moreover have "faults sample_end = []" "dropped sample_end = []" by (simp_all add: sample_end_def)
  ultimately have "\<forall>s < length (states sample_end). fullfilled (st sample_end s)"
    using futures_settle [OF ths _ _ p] by blast
  then show ?thesis by (simp add: len)
qed

theorem continuation_once_witness:
  "distinct (map fst (ran sample_end) @ concat (dropped sample_end)) \<and> fst ` set (ran sample_end) = {0, 1}"
proof -
  obtain ths where "reachable (ths, sample_end)" using sample_reachable by blast
  from continuation_once [OF this] show ?thesis by (simp add: sample_end_def)
qed

definition sample_before :: "nat futures" where
  "sample_before = the (play (take 4 sample_ops) (snd start))"

lemmas sample_eval =
  sample_ops_def increment_def start_def add_state_def has_promise_def take_future_def new_Data_def st_def upd_def
  install_op_def Let_def exec_task_def publish_def claim_def

lemma sample_before_run: "play (take 4 sample_ops) (snd start) = Some sample_before"
  by (simp add: sample_before_def sample_eval)

lemma sample_before_facts:
  "length (states sample_before) = 3" "\<not> aborted sample_before" "promises (st sample_before 0) = 1"
  "fnotify (st sample_before 0) = Some (Call 0 increment)"
  by (simp_all add: sample_before_def sample_eval)

text \<open>After the result is stored, and before \<^verbatim>\<open>continueChain\<close> has looked at it.\<close>

theorem no_lost_wakeup_witness:
  "\<exists>ths. reachable (ths, put 0 (Val 40) sample_before) \<and> (\<exists>ts \<in> set ths. Drive (Some 0) \<in> set ts)"
proof -
  obtain ths where "reachable (ths, sample_before)"
    using play_reachable [OF sample_before_run sample_before_facts(2), of "[]"] reachable.initial
    by (auto simp: start_def)
  moreover have "thread_step (ths, sample_before) (ths @ [[Fulfil 0 (Val 40)]], sample_before)"
    by (rule thread_step.perform [where a = "Resolve 0 (Val 40)"]) (simp_all add: has_promise_def sample_before_facts)
  ultimately have "reachable (ths @ [[Fulfil 0 (Val 40)]], sample_before)" by (rule reachable.more)
  moreover have "internal_step (ths @ [[Fulfil 0 (Val 40)]], sample_before)
      ((ths @ [[Fulfil 0 (Val 40)]])[length ths := [Drive (Some 0)] @ []], put 0 (Val 40) sample_before)"
    by (rule internal_step.run) (use sample_before_facts in \<open>auto simp: exec_task_def\<close>)
  ultimately have r: "reachable ((ths @ [[Fulfil 0 (Val 40)]])[length ths := [Drive (Some 0)] @ []], put 0 (Val 40) sample_before)"
    by (blast intro: reachable.more thread_step.internal)
  from no_lost_wakeup [OF this] sample_before_facts
  have "\<exists>ts \<in> set ((ths @ [[Fulfil 0 (Val 40)]])[length ths := [Drive (Some 0)] @ []]). Drive (Some 0) \<in> set ts"
    by (elim conjE) (drule spec [of _ 0], simp)
  with r show ?thesis by blast
qed

theorem then_chain_delivers_witness:
  "getRes (st (run_thread [Fulfil 0 (Val 40)] sample_before) 2) = Some (Inr (Some 42))"
proof -
  let ?g = "\<lambda>n :: nat. Inr (n + 1)"
  have "\<not> aborted sample_before \<and> linked sample_before 0 [?g, ?g] \<and> pending (st sample_before 0) \<and>
    chain_end sample_before 0 [?g, ?g] = 2"
    by (simp add: sample_before_def sample_eval pending_def)
  then show ?thesis using then_chain_delivers [of sample_before 0 "[?g, ?g]" "Inr 40"] by simp
qed

subsection \<open>What programs must avoid\<close>

text \<open>
  A job dropped by a stopped executor leaves the next future of the chain unresolved for ever, though
  no promise is left: it is not broken.
\<close>

lemma stopped_executor_leaves_pending:
  "\<exists>w. play [NewPromise False, GetFuture 0, Install 0 (Some 7) increment False, Stop 7, Resolve 0 (Val 1), DropPromise 0]
       (snd start) = Some w \<and>
     promises (st w 0) = 0 \<and> promises (st w 1) = 0 \<and> \<not> fullfilled (st w 1) \<and> ran w = [] \<and> deleted w = [0]"
  by (simp add: increment_def start_def add_state_def has_promise_def take_future_def
      new_Data_def st_def upd_def install_op_def Let_def exec_task_def publish_def claim_def put_def
      fulfilValue_def deref_promise_def Execute_def drop_notify_def)

text \<open>A promise that is given a null exception pointer is resolved, and its continuation reads a value that was never made.\<close>

lemma null_exception_reads_no_value:
  "\<exists>w. play [NewPromise False, GetFuture 0, Install 0 None increment False, Resolve 0 (Exc None)] (snd start) = Some w \<and>
     faults w = [No_Value]"
  by (simp add: increment_def start_def add_state_def has_promise_def take_future_def
      new_Data_def st_def upd_def install_op_def Let_def exec_task_def publish_def claim_def put_def
      fulfilExc_def getRes_def fail_def)

text \<open>A function that returns an invalid future makes \<^verbatim>\<open>setResult\<close> lock a null pointer.\<close>

lemma invalid_future_is_dereferenced:
  "\<exists>w. play [NewPromise False, GetFuture 0, Install 0 None (FThen (\<lambda>_. RetFut None)) False, Resolve 0 (Val (1 :: nat))]
       (snd start) = Some w \<and> faults w = [Null_Future]"
  by (simp add: start_def add_state_def has_promise_def take_future_def
      new_Data_def st_def upd_def install_op_def Let_def exec_task_def publish_def claim_def put_def
      fulfilValue_def getRes_def fail_def splice_def note_run_def)

text \<open>Two chains that return each other's future wait for ever: the hypothesis of \<open>futures_settle\<close> on rings is needed.\<close>

lemma ring_never_resolves:
  "\<exists>w. play [NewPromise False, GetFuture 0, Install 0 None (FThen (\<lambda>_. RetFut (Some 2))) False,
        Install 1 None increment False, Resolve 0 (Val 1), DropPromise 0] (snd start) = Some w \<and>
     faults w = [] \<and> dropped w = [] \<and> (\<forall>s < 3. promises (st w s) = 0) \<and> \<not> fullfilled (st w 1) \<and> \<not> fullfilled (st w 2)"
  by (simp add: increment_def start_def add_state_def has_promise_def take_future_def
      new_Data_def st_def upd_def install_op_def Let_def exec_task_def publish_def claim_def put_def
      fulfilValue_def getRes_def splice_def note_run_def deref_promise_def less_Suc_eq numeral_3_eq_3)

end
