(* ===== verification/Fut_Gather.thy ===== *)
theory Fut_Gather
  imports Rpc_Protocol
begin

text \<open>
  What \<^verbatim>\<open>gather.hpp\<close>, \<^verbatim>\<open>multi_future.hpp\<close> and \<^verbatim>\<open>cancel_token.hpp\<close> build from futures: the handlers they
  install with \<^verbatim>\<open>AtLastSync\<close>, as functions of the state they share. Each handler runs under its lock, so
  the completions are a sequence. A promise is what it was resolved with, none while it is pending.
\<close>

subsection \<open>Gather\<close>

record 'v gather_ctx =
  results :: "'v list"
  remaining :: nat \<comment> \<open>\<^verbatim>\<open>left\<close>\<close>
  gathered :: "(exc + 'v list) option" \<comment> \<open>\<^verbatim>\<open>prom\<close>\<close>

text \<open>\<^verbatim>\<open>Gather\<close> of a range; an empty one is resolved at once. \<open>d\<close> is \<^verbatim>\<open>T{}\<close>.\<close>

definition Gather :: "'v \<Rightarrow> nat \<Rightarrow> 'v gather_ctx" where
  "Gather d n =
     (if n = 0 then \<lparr>results = [], remaining = 0, gathered = Some (Inr [])\<rparr>
      else \<lparr>results = replicate n d, remaining = n, gathered = None\<rparr>)"

definition GatherHandler :: "nat \<Rightarrow> exc + 'v \<Rightarrow> 'v gather_ctx \<Rightarrow> 'v gather_ctx" where
  "GatherHandler pos res ctx =
     (if gathered ctx \<noteq> None then ctx
      else (case res of
              Inr v \<Rightarrow>
                (let ctx' = ctx\<lparr>results := (results ctx)[pos := v], remaining := remaining ctx - 1\<rparr>
                 in if remaining ctx' = 0 then ctx'\<lparr>gathered := Some (Inr (results ctx'))\<rparr> else ctx')
            | Inl e \<Rightarrow> ctx\<lparr>gathered := Some (Inl e)\<rparr>))"

text \<open>\<^verbatim>\<open>GatherTuple\<close> counts upwards; its futures may be of different types.\<close>

record 'v tuple_ctx =
  tresults :: "'v list"
  doneCount :: nat
  setter :: "(exc + 'v list) option"

definition GatherTuple :: "'v list \<Rightarrow> 'v tuple_ctx" where
  "GatherTuple ds = \<lparr>tresults = ds, doneCount = 0, setter = None\<rparr>"

definition handleSingleFut :: "nat \<Rightarrow> exc + 'v \<Rightarrow> 'v tuple_ctx \<Rightarrow> 'v tuple_ctx" where
  "handleSingleFut idx res ctx =
     (if setter ctx \<noteq> None then ctx
      else (case res of
              Inl e \<Rightarrow> ctx\<lparr>setter := Some (Inl e)\<rparr>
            | Inr v \<Rightarrow>
                (let ctx' = ctx\<lparr>tresults := (tresults ctx)[idx := v], doneCount := doneCount ctx + 1\<rparr>
                 in if doneCount ctx' = length (tresults ctx')
                    then ctx'\<lparr>setter := Some (Inr (tresults ctx'))\<rparr> else ctx')))"

text \<open>The completions, in the order they happen.\<close>

type_synonym 'v completions = "(nat \<times> (exc + 'v)) list"

definition gather_all :: "'v completions \<Rightarrow> 'v gather_ctx \<Rightarrow> 'v gather_ctx" where
  "gather_all es ctx = fold (\<lambda>(i, r). GatherHandler i r) es ctx"

definition tuple_all :: "'v completions \<Rightarrow> 'v tuple_ctx \<Rightarrow> 'v tuple_ctx" where
  "tuple_all es ctx = fold (\<lambda>(i, r). handleSingleFut i r) es ctx"

text \<open>What was gathered: the first failure, or every value at its index once all are there.\<close>

fun first_failure :: "'v completions \<Rightarrow> exc option" where
  "first_failure [] = None"
| "first_failure ((i, Inl e) # es) = Some e"
| "first_failure ((i, Inr v) # es) = first_failure es"

fun value_at :: "'v completions \<Rightarrow> 'v list \<Rightarrow> 'v list" where
  "value_at [] vs = vs"
| "value_at ((i, Inl e) # es) vs = vs"
| "value_at ((i, Inr v) # es) vs = value_at es (vs[i := v])"

definition gather_spec :: "'v completions \<Rightarrow> nat \<Rightarrow> 'v list \<Rightarrow> (exc + 'v list) option" where
  "gather_spec es n vs =
     (case first_failure es of
        Some e \<Rightarrow> Some (Inl e)
      | None \<Rightarrow> if length es = n then Some (Inr (value_at es vs)) else None)"

lemma gather_done: "gathered ctx \<noteq> None \<Longrightarrow> gather_all es ctx = ctx"
  by (induction es) (auto simp: gather_all_def GatherHandler_def)

lemma gather_all_Cons: "gather_all ((i, r) # es) ctx = gather_all es (GatherHandler i r ctx)"
  by (simp add: gather_all_def)

lemma gather_all_spec:
  "gathered ctx = None \<Longrightarrow> 0 < remaining ctx \<Longrightarrow> length es \<le> remaining ctx \<Longrightarrow>
     gathered (gather_all es ctx) = gather_spec es (remaining ctx) (results ctx)"
proof (induction es arbitrary: ctx)
  case Nil
  then show ?case by (simp add: gather_all_def gather_spec_def)
next
  case (Cons p es)
  obtain i r where p: "p = (i, r)" by fastforce
  show ?case
  proof (cases r)
    case (Inl e)
    with Cons.prems show ?thesis
      by (simp add: p gather_all_Cons GatherHandler_def gather_done gather_spec_def)
  next
    case (Inr v)
    let ?c = "ctx\<lparr>results := (results ctx)[i := v], remaining := remaining ctx - 1\<rparr>"
    show ?thesis
    proof (cases "remaining ctx = 1")
      case True
      with Cons.prems have "es = []" by simp
      with True Inr Cons.prems show ?thesis
        by (simp add: p gather_all_def GatherHandler_def gather_spec_def Let_def)
    next
      case False
      with Cons.prems have "gathered (gather_all es ?c) = gather_spec es (remaining ctx - 1) ((results ctx)[i := v])"
        using Cons.IH [of ?c] by simp
      moreover have "Suc (length es) = remaining ctx \<longleftrightarrow> length es = remaining ctx - 1"
        using Cons.prems(2) by linarith
      ultimately show ?thesis using False Cons.prems Inr
        by (simp add: p gather_all_Cons GatherHandler_def gather_spec_def Let_def cong: option.case_cong)
    qed
  qed
qed

text \<open>The order of the completions does not matter for the values.\<close>

lemma value_at_nth:
  assumes "first_failure es = None" "distinct (map fst es)" "i < length vs"
  shows "value_at es vs ! i = (case map_of es i of Some (Inr v) \<Rightarrow> v | _ \<Rightarrow> vs ! i)"
  using assms
proof (induction es vs rule: value_at.induct)
  case (3 k v es vs)
  have "map_of es k = None" using 3(3) by (auto simp: map_of_eq_None_iff)
  with 3 show ?case by (auto split: option.splits sum.splits)
qed auto

lemma value_at_length [simp]: "length (value_at es vs) = length vs"
  by (induction es vs rule: value_at.induct) auto

lemma first_failure_None: "first_failure es = None \<longleftrightarrow> (\<forall>(i, r) \<in> set es. \<exists>v. r = Inr v)"
  by (induction es rule: first_failure.induct) auto

text \<open>\<^verbatim>\<open>GatherTuple\<close> does the same.\<close>

definition same_gather :: "'v gather_ctx \<Rightarrow> 'v tuple_ctx \<Rightarrow> bool" where
  "same_gather c t \<longleftrightarrow>
     tresults t = results c \<and> setter t = gathered c \<and>
     (gathered c = None \<longrightarrow> doneCount t + remaining c = length (results c) \<and> 0 < remaining c)"

lemma same_gather_step:
  "same_gather c t \<Longrightarrow> same_gather (GatherHandler i r c) (handleSingleFut i r t)"
  by (cases r) (auto simp: same_gather_def GatherHandler_def handleSingleFut_def Let_def)

lemma same_gather_all: "same_gather c t \<Longrightarrow> same_gather (gather_all es c) (tuple_all es t)"
proof (induction es arbitrary: c t)
  case (Cons p es)
  then show ?case
    using same_gather_step [OF Cons.prems, of "fst p" "snd p"]
    by (cases p) (simp add: gather_all_def tuple_all_def)
qed (simp add: gather_all_def tuple_all_def)

text \<open>
  C30: A gathered future is resolved by the first failure, or once every future has completed, with the value
  of each at its place, in whatever order they complete; before that it is pending. The tuple form
  agrees at every moment.
\<close>

theorem Gather_any_order:
  assumes "distinct (map fst es)" "fst ` set es \<subseteq> {..<n}" "0 < n"
  shows "gathered (gather_all es (Gather d n)) =
      (case first_failure es of
         Some e \<Rightarrow> Some (Inl e)
       | None \<Rightarrow>
           if length es = n then Some (Inr (map (\<lambda>i. case map_of es i of Some (Inr v) \<Rightarrow> v | _ \<Rightarrow> d) [0..<n]))
           else None) \<and>
    setter (tuple_all es (GatherTuple (replicate n d))) = gathered (gather_all es (Gather d n))"
proof -
  have "card (fst ` set es) \<le> n" using card_mono [OF _ assms(2)] by simp
  then have len: "length es \<le> n" using assms(1) distinct_card [of "map fst es"] by simp
  have "gathered (gather_all es (Gather d n)) = gather_spec es n (replicate n d)"
    using gather_all_spec [of "Gather d n" es] len assms(3) by (simp add: Gather_def)
  moreover have "value_at es (replicate n d) = map (\<lambda>i. case map_of es i of Some (Inr v) \<Rightarrow> v | _ \<Rightarrow> d) [0..<n]"
    if "first_failure es = None"
    using value_at_nth [OF that assms(1), of _ "replicate n d"]
    by (intro nth_equalityI) (auto split: option.splits sum.splits)
  moreover have "same_gather (Gather d n) (GatherTuple (replicate n d))"
    using assms(3) by (simp add: same_gather_def Gather_def GatherTuple_def)
  then have "setter (tuple_all es (GatherTuple (replicate n d))) = gathered (gather_all es (Gather d n))"
    using same_gather_all by (auto simp: same_gather_def)
  ultimately show ?thesis by (simp add: gather_spec_def split: option.splits)
qed

theorem Gather_any_order_witness:
  "gathered (gather_all [(1, Inr 20), (0, Inr (10 :: nat))] (Gather 0 2)) = Some (Inr [10, 20])"
  using Gather_any_order [of "[(1, Inr 20), (0, Inr (10 :: nat))]" 2 0] by (simp add: upt_rec)

subsection \<open>MultiFuture\<close>

text \<open>The state of \<^verbatim>\<open>MultiState\<close>: what the future was resolved with, and the promises handed out.\<close>

record 'v multi =
  outcome :: "(exc + 'v) option" \<comment> \<open>\<^verbatim>\<open>done\<close>, \<^verbatim>\<open>exc\<close>, \<^verbatim>\<open>buff\<close>\<close>
  proms :: "(exc + 'v) list list" \<comment> \<open>what each promise was called with, in order\<close>

definition MultiFuture :: "'v multi" where
  "MultiFuture = \<lparr>outcome = None, proms = []\<rparr>"

definition tryRes :: "'v multi \<Rightarrow> (exc + 'v) list \<Rightarrow> (exc + 'v) list" where
  "tryRes m p = (case outcome m of None \<Rightarrow> p | Some r \<Rightarrow> p @ [r])"

definition multi_resolve :: "exc + 'v \<Rightarrow> 'v multi \<Rightarrow> 'v multi" where
  "multi_resolve r m = (let m' = m\<lparr>outcome := Some r\<rparr> in m'\<lparr>proms := map (tryRes m') (proms m')\<rparr>)"

definition multi_GetFuture :: "'v multi \<Rightarrow> 'v multi" where
  "multi_GetFuture m = m\<lparr>proms := proms m @ [tryRes m []]\<rparr>"

datatype 'v multi_event = Ask | Resolved "exc + 'v"

fun multi_step :: "'v multi_event \<Rightarrow> 'v multi \<Rightarrow> 'v multi" where
  "multi_step Ask m = multi_GetFuture m"
| "multi_step (Resolved r) m = multi_resolve r m"

fun resolutions :: "'v multi_event list \<Rightarrow> (exc + 'v) list" where
  "resolutions [] = []"
| "resolutions (Ask # es) = resolutions es"
| "resolutions (Resolved r # es) = r # resolutions es"

lemma multi_steps:
  "outcome m = None \<Longrightarrow> set (proms m) \<subseteq> {[]} \<Longrightarrow> length (resolutions es) \<le> 1 \<Longrightarrow>
     set (proms (fold multi_step es m)) \<subseteq> {resolutions es} \<and>
     length (proms (fold multi_step es m)) = length (proms m) + length (filter (\<lambda>e. e = Ask) es)"
  "outcome m = Some r \<Longrightarrow> set (proms m) \<subseteq> {[r]} \<Longrightarrow> resolutions es = [] \<Longrightarrow>
     set (proms (fold multi_step es m)) \<subseteq> {[r]} \<and>
     length (proms (fold multi_step es m)) = length (proms m) + length (filter (\<lambda>e. e = Ask) es)"
proof -
  have late: "outcome m = Some r \<Longrightarrow> set (proms m) \<subseteq> {[r]} \<Longrightarrow> resolutions es = [] \<Longrightarrow>
     set (proms (fold multi_step es m)) \<subseteq> {[r]} \<and>
     length (proms (fold multi_step es m)) = length (proms m) + length (filter (\<lambda>e. e = Ask) es)" for m r and es :: "'a multi_event list"
    by (induction es arbitrary: m rule: resolutions.induct) (auto simp: multi_GetFuture_def tryRes_def)
  show "outcome m = Some r \<Longrightarrow> set (proms m) \<subseteq> {[r]} \<Longrightarrow> resolutions es = [] \<Longrightarrow>
     set (proms (fold multi_step es m)) \<subseteq> {[r]} \<and>
     length (proms (fold multi_step es m)) = length (proms m) + length (filter (\<lambda>e. e = Ask) es)"
    by (rule late)
  show "outcome m = None \<Longrightarrow> set (proms m) \<subseteq> {[]} \<Longrightarrow> length (resolutions es) \<le> 1 \<Longrightarrow>
     set (proms (fold multi_step es m)) \<subseteq> {resolutions es} \<and>
     length (proms (fold multi_step es m)) = length (proms m) + length (filter (\<lambda>e. e = Ask) es)"
  proof (induction es arbitrary: m rule: resolutions.induct)
    case (2 es)
    then show ?case by (auto simp: multi_GetFuture_def tryRes_def)
  next
    case (3 r es)
    have "set (proms (multi_resolve r m)) \<subseteq> {[r]}" "outcome (multi_resolve r m) = Some r"
      "length (proms (multi_resolve r m)) = length (proms m)"
      using 3(3) by (auto simp: multi_resolve_def tryRes_def Let_def)
    with late [of "multi_resolve r m" r es] 3(4) show ?case by simp
  qed auto
qed

text \<open>
  Whoever asks a \<^verbatim>\<open>MultiFuture\<close> for a future gets one that is resolved exactly once and with the
  result of the shared one, whether it was asked before or after that was there.
\<close>

theorem MultiFuture_shares:
  assumes "length (resolutions es) \<le> 1"
  shows "proms (fold multi_step es MultiFuture) = replicate (length (filter (\<lambda>e. e = Ask) es)) (resolutions es)"
  using multi_steps(1) [of MultiFuture es, OF _ _ assms]
  by (intro replicate_eqI) (auto simp: MultiFuture_def)

theorem MultiFuture_shares_witness:
  "proms (fold multi_step [Ask, Resolved (Inr 5), Ask] MultiFuture) = [[Inr (5 :: nat)], [Inr 5]]"
  using MultiFuture_shares [of "[Ask, Resolved (Inr (5 :: nat)), Ask]"] by (simp add: numeral_2_eq_2)

subsection \<open>Cancellation\<close>

text \<open>
  A cancel signal runs a handler with the reason; a controller destroyed without cancelling breaks
  its promise, which the handler swallows.
\<close>

record 'h controller =
  cancelled :: "string option"
  broken :: bool
  handlers :: "'h list" \<comment> \<open>installed by \<^verbatim>\<open>OnCancel\<close>\<close>
  invoked :: "('h \<times> string) list"

definition CancelController :: "'h controller" where
  "CancelController = \<lparr>cancelled = None, broken = False, handlers = [], invoked = []\<rparr>"

definition cancel :: "string \<Rightarrow> 'h controller \<Rightarrow> 'h controller" where
  "cancel reason c =
     (if cancelled c \<noteq> None \<or> broken c then c
      else c\<lparr>cancelled := Some reason, invoked := invoked c @ map (\<lambda>h. (h, reason)) (handlers c)\<rparr>)"

definition OnCancel :: "'h \<Rightarrow> 'h controller \<Rightarrow> 'h controller" where
  "OnCancel h c =
     (case cancelled c of
        Some reason \<Rightarrow> c\<lparr>handlers := handlers c @ [h], invoked := invoked c @ [(h, reason)]\<rparr>
      | None \<Rightarrow> c\<lparr>handlers := handlers c @ [h]\<rparr>)"

definition destroy_controller :: "'h controller \<Rightarrow> 'h controller" where
  "destroy_controller c = (if cancelled c = None then c\<lparr>broken := True\<rparr> else c)"

definition controller_inv :: "'h controller \<Rightarrow> bool" where
  "controller_inv c \<longleftrightarrow>
     invoked c = (case cancelled c of None \<Rightarrow> [] | Some reason \<Rightarrow> map (\<lambda>h. (h, reason)) (handlers c)) \<and>
     \<not> (broken c \<and> cancelled c \<noteq> None)"

lemma controller_inv_steps:
  "controller_inv CancelController"
  "controller_inv c \<Longrightarrow> controller_inv (cancel reason c)"
  "controller_inv c \<Longrightarrow> controller_inv (OnCancel h c)"
  "controller_inv c \<Longrightarrow> controller_inv (destroy_controller c)"
  by (auto simp: controller_inv_def CancelController_def cancel_def OnCancel_def destroy_controller_def
      split: option.splits)

end
