(* ===== verification/Rc_Counting.thy ===== *)
theory Rc_Counting
  imports Rpcxx_Prelude "HOL-Library.Multiset"
begin

text \<open>
  The reference counts of \<^verbatim>\<open>rc.hpp\<close>: \<^verbatim>\<open>Strong\<close> over a heap of counted objects, whose members may be
  \<^verbatim>\<open>Strong\<close> pointers themselves, and the pointer arithmetic of \<^verbatim>\<open>Weak\<close>.
\<close>

subsection \<open>The heap\<close>

type_synonym rid = nat

record robj =
  refs :: nat \<comment> \<open>\<^verbatim>\<open>_refs\<close>\<close>
  members :: "rid option list" \<comment> \<open>members of type \<^verbatim>\<open>Strong\<close>\<close>

record rc_heap =
  objs :: "robj option list" \<comment> \<open>none: deleted\<close>
  vars :: "rid option list" \<comment> \<open>variables of type \<^verbatim>\<open>Strong\<close>\<close>
  use_after_free :: bool

definition live :: "rc_heap \<Rightarrow> rid \<Rightarrow> robj option" where
  "live h d = (if d < length (objs h) then objs h ! d else None)"

definition store :: "rid \<Rightarrow> robj option \<Rightarrow> rc_heap \<Rightarrow> rc_heap" where
  "store d r h = h\<lparr>objs := (objs h)[d := r]\<rparr>"

definition trap :: "rc_heap \<Rightarrow> rc_heap" where
  "trap h = h\<lparr>use_after_free := True\<rparr>"

definition AddRef :: "rid \<Rightarrow> rc_heap \<Rightarrow> rc_heap" where
  "AddRef d h = (case live h d of None \<Rightarrow> trap h | Some r \<Rightarrow> store d (Some (r\<lparr>refs := refs r + 1\<rparr>)) h)"

definition pointees :: "rid option list \<Rightarrow> rid list" where
  "pointees ps = map the (filter (\<lambda>p. p \<noteq> None) ps)"

definition live_objects :: "rc_heap \<Rightarrow> nat" where
  "live_objects h = length (filter (\<lambda>r. r \<noteq> None) (objs h))"

lemma live_objects_free:
  "live h d = Some r \<Longrightarrow> live_objects (store d None h) < live_objects h"
proof -
  have "i < length xs \<Longrightarrow> xs ! i = Some r \<Longrightarrow>
    Suc (length (filter (\<lambda>r. r \<noteq> None) (xs[i := None]))) = length (filter (\<lambda>r. r \<noteq> None) xs)" for i xs
    by (induction xs arbitrary: i) (auto split: nat.splits)
  then show "live h d = Some r \<Longrightarrow> live_objects (store d None h) < live_objects h"
    by (auto simp: live_def live_objects_def store_def split: if_splits) (metis lessI)
qed

lemma live_objects_store:
  "live h d = Some r \<Longrightarrow> live_objects (store d (Some r') h) = live_objects h"
proof -
  have "i < length xs \<Longrightarrow> xs ! i = Some r \<Longrightarrow>
    length (filter (\<lambda>r. r \<noteq> None) (xs[i := Some r'])) = length (filter (\<lambda>r. r \<noteq> None) xs)" for i xs
    by (induction xs arbitrary: i) (auto split: nat.splits)
  then show "live h d = Some r \<Longrightarrow> live_objects (store d (Some r') h) = live_objects h"
    by (auto simp: live_def live_objects_def store_def split: if_splits)
qed

text \<open>
  \<^verbatim>\<open>Unref\<close>: the last one deletes the object, and with it the pointers that are its members, so the
  calls nest. The list holds the calls that are still to be made, the innermost first.
\<close>

function Unref_all :: "rid list \<Rightarrow> rc_heap \<Rightarrow> rc_heap" where
  "Unref_all [] h = h"
| "Unref_all (d # ds) h =
     (case live h d of
        None \<Rightarrow> trap h
      | Some r \<Rightarrow>
          if refs r = 1 then Unref_all (pointees (members r) @ ds) (store d None h)
          else Unref_all ds (store d (Some (r\<lparr>refs := refs r - 1\<rparr>)) h))"
  by pat_completeness auto
termination
  by (relation "measures [\<lambda>(ds, h). live_objects h, \<lambda>(ds, h). length ds]")
    (auto simp: live_objects_free live_objects_store)

definition Unref :: "rid \<Rightarrow> rc_heap \<Rightarrow> rc_heap" where
  "Unref d h = Unref_all [d] h"

definition Unref_opt :: "rid option \<Rightarrow> rc_heap \<Rightarrow> rc_heap" where
  "Unref_opt p h = (case p of None \<Rightarrow> h | Some d \<Rightarrow> Unref d h)"

definition AddRef_opt :: "rid option \<Rightarrow> rc_heap \<Rightarrow> rc_heap" where
  "AddRef_opt p h = (case p of None \<Rightarrow> h | Some d \<Rightarrow> AddRef d h)"

subsection \<open>Strong\<close>

text \<open>A \<^verbatim>\<open>Strong\<close> is a variable or a member of an object; a member of a deleted object is gone.\<close>

datatype loc = Var nat | Member rid nat

fun exists_loc :: "rc_heap \<Rightarrow> loc \<Rightarrow> bool" where
  "exists_loc h (Var x) \<longleftrightarrow> x < length (vars h)"
| "exists_loc h (Member d i) \<longleftrightarrow> (case live h d of None \<Rightarrow> False | Some r \<Rightarrow> i < length (members r))"

fun data_of :: "rc_heap \<Rightarrow> loc \<Rightarrow> rid option" where
  "data_of h (Var x) = vars h ! x"
| "data_of h (Member d i) = (case live h d of None \<Rightarrow> None | Some r \<Rightarrow> members r ! i)"

fun set_data :: "loc \<Rightarrow> rid option \<Rightarrow> rc_heap \<Rightarrow> rc_heap" where
  "set_data (Var x) p h = h\<lparr>vars := (vars h)[x := p]\<rparr>"
| "set_data (Member d i) p h =
     (case live h d of None \<Rightarrow> trap h | Some r \<Rightarrow> store d (Some (r\<lparr>members := (members r)[i := p]\<rparr>)) h)"

text \<open>\<^verbatim>\<open>operator=(const Strong&)\<close>: the old object is released before the source is read.\<close>

definition copy_assign :: "loc \<Rightarrow> loc \<Rightarrow> rc_heap \<Rightarrow> rc_heap" where
  "copy_assign self src h =
     (if self = src then h
      else (let h1 = Unref_opt (data_of h self) h
            in if \<not> exists_loc h1 self \<or> \<not> exists_loc h1 src then trap h1
               else AddRef_opt (data_of h1 src) (set_data self (data_of h1 src) h1)))"

text \<open>\<^verbatim>\<open>operator=(Strong&&)\<close> swaps.\<close>

definition move_assign :: "loc \<Rightarrow> loc \<Rightarrow> rc_heap \<Rightarrow> rc_heap" where
  "move_assign self src h = set_data src (data_of h self) (set_data self (data_of h src) h)"

text \<open>A variable is declared null, from \<^verbatim>\<open>new T\<close>, or as a copy; at the end of its scope it is destroyed.\<close>

definition declare_null :: "rc_heap \<Rightarrow> rc_heap" where
  "declare_null h = h\<lparr>vars := vars h @ [None]\<rparr>"

definition declare_new :: "nat \<Rightarrow> rc_heap \<Rightarrow> rc_heap" where
  "declare_new n h =
     AddRef (length (objs h))
       (h\<lparr>objs := objs h @ [Some \<lparr>refs = 0, members = replicate n None\<rparr>], vars := vars h @ [Some (length (objs h))]\<rparr>)"

definition declare_copy :: "loc \<Rightarrow> rc_heap \<Rightarrow> rc_heap" where
  "declare_copy src h = AddRef_opt (data_of h src) (h\<lparr>vars := vars h @ [data_of h src]\<rparr>)"

definition destroy_last :: "rc_heap \<Rightarrow> rc_heap" where
  "destroy_last h = Unref_opt (last (vars h)) (h\<lparr>vars := butlast (vars h)\<rparr>)"

subsection \<open>Counts are exact\<close>


text \<open>
  With the calls of \<^verbatim>\<open>Unref\<close> that are due: a live object is counted once by every pointer to it, and no
  pointer leads to a deleted one.
\<close>

definition refcount :: "rc_heap \<Rightarrow> rid \<Rightarrow> nat" where
  "refcount h d = (case live h d of None \<Rightarrow> 0 | Some r \<Rightarrow> refs r)"







lemma store_fields [simp]:
  "vars (store d q h) = vars h" "use_after_free (store d q h) = use_after_free h"
  "length (objs (store d q h)) = length (objs h)"
  by (simp_all add: store_def)





text \<open>Variables play no part in \<^verbatim>\<open>Unref\<close>.\<close>

lemma live_vars [simp]: "live (h\<lparr>vars := v\<rparr>) d = live h d"
  by (simp add: live_def)




lemma pointees_simps [simp]:
  "pointees [] = []" "pointees (None # ps) = pointees ps" "pointees (Some d # ps) = d # pointees ps"
  "pointees (ps @ qs) = pointees ps @ pointees qs" "pointees (replicate n None) = []"
  by (simp_all add: pointees_def)



lemma refcount_vars [simp]: "refcount (h\<lparr>vars := v\<rparr>) d = refcount h d"
  by (simp add: refcount_def)












subsection \<open>Programs of pointers\<close>

datatype rc_op =
    DeclareNull | DeclareNew nat | DeclareCopy loc | CopyAssign nat loc | MoveAssign loc loc | EndScope

text \<open>An operation whose pointers do not exist cannot be written.\<close>

fun rc_step :: "rc_op \<Rightarrow> rc_heap \<Rightarrow> rc_heap option" where
  "rc_step DeclareNull h = Some (declare_null h)"
| "rc_step (DeclareNew n) h = Some (declare_new n h)"
| "rc_step (DeclareCopy l) h = (if exists_loc h l then Some (declare_copy l h) else None)"
| "rc_step (CopyAssign x l) h =
     (if x < length (vars h) \<and> exists_loc h l then Some (copy_assign (Var x) l h) else None)"
| "rc_step (MoveAssign l m) h =
     (if exists_loc h l \<and> exists_loc h m then Some (move_assign l m h) else None)"
| "rc_step EndScope h = (if vars h = [] then None else Some (destroy_last h))"

fun rc_run :: "rc_op list \<Rightarrow> rc_heap \<Rightarrow> rc_heap option" where
  "rc_run [] h = Some h"
| "rc_run (a # as) h = (case rc_step a h of None \<Rightarrow> None | Some h' \<Rightarrow> if use_after_free h' then Some h' else rc_run as h')"

definition empty_heap :: rc_heap where
  "empty_heap = \<lparr>objs = [], vars = [], use_after_free = False\<rparr>"









text \<open>
  Without the hypothesis the copy assignment reads its source after it released the last pointer to the
  object that holds it, as in \<^verbatim>\<open>head = head->next\<close>.
\<close>

lemma copy_assign_from_own_member:
  "\<exists>h. rc_run [DeclareNew 1, CopyAssign 0 (Member 0 0)] empty_heap = Some h \<and> use_after_free h"
  by (simp add: empty_heap_def declare_new_def copy_assign_def AddRef_def Unref_opt_def Unref_def live_def store_def
      trap_def Let_def)

subsection \<open>Weak\<close>

text \<open>
  The block that an object and its weak pointers share holds the address the first \<^verbatim>\<open>Weak\<close> was made from,
  0 once the object is destroyed; each \<^verbatim>\<open>Weak\<close> keeps its distance from that address. Addresses are integers.
\<close>

record weak =
  block :: "int option" \<comment> \<open>\<^verbatim>\<open>block->data\<close>\<close>
  offset :: int

definition GetWeak :: "int option \<Rightarrow> int \<Rightarrow> weak" where
  "GetWeak b d =
     (case b of
        None \<Rightarrow> \<lparr>block = Some d, offset = 0\<rparr>
      | Some data \<Rightarrow> \<lparr>block = Some data, offset = d - data\<rparr>)"

definition peek :: "weak \<Rightarrow> int" where
  "peek w = (case block w of None \<Rightarrow> 0 | Some data \<Rightarrow> data + offset w)"

definition object_destroyed :: "weak \<Rightarrow> weak" where
  "object_destroyed w = (case block w of None \<Rightarrow> w | Some d \<Rightarrow> w\<lparr>block := Some 0\<rparr>)"

lemma peek_GetWeak: "peek (GetWeak b d) = d"
  by (simp add: peek_def GetWeak_def split: option.splits)

text \<open>
  A weak pointer made from another base than the first one was is not null after the object is gone.
\<close>

lemma peek_of_destroyed: "peek (object_destroyed (GetWeak (Some data) d)) = d - data"
  by (simp add: peek_def GetWeak_def object_destroyed_def)

end
