(* ===== verification/Move_Func.thy ===== *)
theory Move_Func
  imports Rpcxx_Prelude
begin

text \<open>
  \<^verbatim>\<open>MoveFunc\<close> (\<^verbatim>\<open>include/future/move_func.hpp\<close>), the movable function object that holds every callback
  of the library, with the life of the callables it stores: a small one lives in the buffer of the
  object and is moved to a new place when the object is, a big one is allocated and only its pointer
  moves. It is refined to what its users rely on: a slot that is empty or holds a callable.

  The instances \<^verbatim>\<open>_manager<Fn>\<close> and \<^verbatim>\<open>_invoke<Ret, Fn, Args...>\<close> are named by the type \<^verbatim>\<open>Fn\<close>; the size of a
  type and what calling an object of it does are parameters.
\<close>

subsection \<open>Callables in memory\<close>

text \<open>
  Every object that is constructed gets a cell of its own; a destroyed one leaves none behind. What
  \<^verbatim>\<open>Storage\<close> holds is read through the member the code names: the other member is not readable.
\<close>

definition SOO :: nat where "SOO = 24"

datatype mf_storage = Raw | Buffer nat | Pointer "nat option"

record ('t, 's) callables =
  cells :: "('t \<times> 's) option list"
  mf_broken :: bool \<comment> \<open>undefined behaviour happened\<close>

definition new_cell :: "'t \<times> 's \<Rightarrow> ('t, 's) callables \<Rightarrow> nat \<times> ('t, 's) callables" where
  "new_cell c h = (length (cells h), h\<lparr>cells := cells h @ [Some c]\<rparr>)"

text \<open>A read of an object of type \<^verbatim>\<open>Fn\<close>: there must be one.\<close>

definition object_at :: "'t \<Rightarrow> nat \<Rightarrow> ('t, 's) callables \<Rightarrow> 's option" where
  "object_at t i h =
     (if i < length (cells h) then
        (case cells h ! i of Some (u, x) \<Rightarrow> if u = t then Some x else None | None \<Rightarrow> None)
      else None)"

definition kill_cell :: "'t \<Rightarrow> nat \<Rightarrow> ('t, 's) callables \<Rightarrow> ('t, 's) callables" where
  "kill_cell t i h =
     (case object_at t i h of None \<Rightarrow> h\<lparr>mf_broken := True\<rparr> | Some _ \<Rightarrow> h\<lparr>cells := (cells h)[i := None]\<rparr>)"

definition isBig :: "('t \<Rightarrow> nat) \<Rightarrow> 't \<Rightarrow> bool" where
  "isBig size_of t \<longleftrightarrow> size_of t > SOO"

definition cast_fn :: "('t \<Rightarrow> nat) \<Rightarrow> 't \<Rightarrow> mf_storage \<Rightarrow> nat option" where
  "cast_fn size_of t s =
     (if isBig size_of t then (case s of Pointer p \<Rightarrow> p | _ \<Rightarrow> None)
      else (case s of Buffer i \<Rightarrow> Some i | _ \<Rightarrow> None))"

subsection \<open>\<^verbatim>\<open>_invoke\<close> and \<^verbatim>\<open>_manager\<close>\<close>

type_synonym ('t, 's, 'a, 'r) applies = "'t \<Rightarrow> 's \<Rightarrow> 'a \<Rightarrow> 'r \<times> 's"

definition invoke_fn :: "('t \<Rightarrow> nat) \<Rightarrow> ('t, 's, 'a, 'r) applies \<Rightarrow> 't \<Rightarrow> mf_storage \<Rightarrow> 'a \<Rightarrow>
    ('t, 's) callables \<Rightarrow> 'r option \<times> ('t, 's) callables" where
  "invoke_fn size_of app t s a h =
     (case cast_fn size_of t s of
        None \<Rightarrow> (None, h\<lparr>mf_broken := True\<rparr>)
      | Some i \<Rightarrow>
          (case object_at t i h of
             None \<Rightarrow> (None, h\<lparr>mf_broken := True\<rparr>)
           | Some x \<Rightarrow> (let (r, x') = app t x a in (Some r, h\<lparr>cells := (cells h)[i := Some (t, x')]\<rparr>))))"

text \<open>\<^verbatim>\<open>delete\<close> of a null pointer does nothing.\<close>

definition manager_destroy :: "('t \<Rightarrow> nat) \<Rightarrow> 't \<Rightarrow> mf_storage \<Rightarrow> ('t, 's) callables \<Rightarrow> ('t, 's) callables" where
  "manager_destroy size_of t s h =
     (case cast_fn size_of t s of
        Some i \<Rightarrow> kill_cell t i h
      | None \<Rightarrow> if isBig size_of t \<and> s = Pointer None then h else h\<lparr>mf_broken := True\<rparr>)"

text \<open>The storage of the object moved to, that of the other one, and the memory.\<close>

definition manager_move :: "('t \<Rightarrow> nat) \<Rightarrow> 't \<Rightarrow> mf_storage \<Rightarrow> ('t, 's) callables \<Rightarrow>
    mf_storage \<times> mf_storage \<times> ('t, 's) callables" where
  "manager_move size_of t oth h =
     (if isBig size_of t then
        (case oth of Pointer p \<Rightarrow> (Pointer p, Pointer None, h)
         | _ \<Rightarrow> (Raw, oth, h\<lparr>mf_broken := True\<rparr>))
      else
        (case cast_fn size_of t oth of
           None \<Rightarrow> (Raw, oth, h\<lparr>mf_broken := True\<rparr>)
         | Some j \<Rightarrow>
             (case object_at t j h of
                None \<Rightarrow> (Raw, oth, h\<lparr>mf_broken := True\<rparr>)
              | Some x \<Rightarrow>
                  (let (i, h1) = new_cell (t, x) h in (Buffer i, oth, kill_cell t j h1)))))"

subsection \<open>\<^verbatim>\<open>MoveFunc\<close>\<close>

record 't move_func =
  stor :: mf_storage
  manager :: "'t option"
  call_fn :: "'t option"

definition MoveFunc_empty :: "'t move_func" where
  "MoveFunc_empty = \<lparr>stor = Raw, manager = None, call_fn = None\<rparr>"

definition MoveFunc_new :: "('t \<Rightarrow> nat) \<Rightarrow> 't \<Rightarrow> 's \<Rightarrow> ('t, 's) callables \<Rightarrow> 't move_func \<times> ('t, 's) callables" where
  "MoveFunc_new size_of t x h =
     (let (i, h') = new_cell (t, x) h in
      (\<lparr>stor = (if isBig size_of t then Pointer (Some i) else Buffer i), manager = Some t, call_fn = Some t\<rparr>, h'))"

definition to_bool :: "'t move_func \<Rightarrow> bool" where
  "to_bool f \<longleftrightarrow> manager f \<noteq> None"

text \<open>\<^verbatim>\<open>operator()\<close>: the left result is \<^verbatim>\<open>InvalidMoveFuncCall\<close>.\<close>

datatype mf_error = InvalidMoveFuncCall

definition MoveFunc_call :: "('t \<Rightarrow> nat) \<Rightarrow> ('t, 's, 'a, 'r) applies \<Rightarrow> 't move_func \<Rightarrow> 'a \<Rightarrow>
    ('t, 's) callables \<Rightarrow> (mf_error + 'r) option \<times> ('t, 's) callables" where
  "MoveFunc_call size_of app f a h =
     (if \<not> to_bool f then (Some (Inl InvalidMoveFuncCall), h)
      else (case call_fn f of
          None \<Rightarrow> (None, h\<lparr>mf_broken := True\<rparr>)
        | Some t \<Rightarrow> map_prod (map_option Inr) id (invoke_fn size_of app t (stor f) a h)))"

definition mf_deref :: "('t \<Rightarrow> nat) \<Rightarrow> 't move_func \<Rightarrow> ('t, 's) callables \<Rightarrow> ('t, 's) callables" where
  "mf_deref size_of f h = (case manager f of None \<Rightarrow> h | Some t \<Rightarrow> manager_destroy size_of t (stor f) h)"

definition moveIn :: "('t \<Rightarrow> nat) \<Rightarrow> 't move_func \<Rightarrow> 't move_func \<Rightarrow> ('t, 's) callables \<Rightarrow>
    't move_func \<times> 't move_func \<times> ('t, 's) callables" where
  "moveIn size_of f oth h =
     (let f1 = f\<lparr>call_fn := call_fn oth, manager := manager oth\<rparr>;
          oth1 = oth\<lparr>call_fn := None, manager := None\<rparr> in
      case manager f1 of
        None \<Rightarrow> (f1, oth1, h)
      | Some t \<Rightarrow>
          (let (s, s', h') = manager_move size_of t (stor oth1) h in
           (f1\<lparr>stor := s\<rparr>, oth1\<lparr>stor := s'\<rparr>, h')))"

definition MoveFunc_assign :: "('t \<Rightarrow> nat) \<Rightarrow> 't move_func \<Rightarrow> 't move_func \<Rightarrow> ('t, 's) callables \<Rightarrow>
    't move_func \<times> 't move_func \<times> ('t, 's) callables" where
  "MoveFunc_assign size_of f oth h = moveIn size_of f oth (mf_deref size_of f h)"

subsection \<open>Programs over \<^verbatim>\<open>MoveFunc\<close> variables\<close>

text \<open>
  A variable has a \<^verbatim>\<open>MoveFunc\<close> while it lives. A step of a program constructs one (the new variable is
  the next), assigns, calls or ends it; naming a variable that is not alive is no step of a program.
\<close>

datatype ('t, 's, 'a) mf_op = New_empty | New_from 't 's | New_move nat | Assign_move nat nat | Call_var nat 'a
  | End_var nat

record ('t, 's) mf_state =
  mem :: "('t, 's) callables"
  mvars :: "'t move_func option list"

definition mf_start :: "('t, 's) mf_state" where
  "mf_start = \<lparr>mem = \<lparr>cells = [], mf_broken = False\<rparr>, mvars = []\<rparr>"

definition slot_at :: "nat \<Rightarrow> 'b option list \<Rightarrow> 'b option" where
  "slot_at v xs = (if v < length xs then xs ! v else None)"

fun mf_step :: "('t \<Rightarrow> nat) \<Rightarrow> ('t, 's, 'a, 'r) applies \<Rightarrow> ('t, 's, 'a) mf_op \<Rightarrow> ('t, 's) mf_state \<Rightarrow>
    (('t, 's) mf_state \<times> (mf_error + 'r) option) option" where
  "mf_step size_of app New_empty m = Some (m\<lparr>mvars := mvars m @ [Some MoveFunc_empty]\<rparr>, None)"
| "mf_step size_of app (New_from t x) m =
     (let (f, h) = MoveFunc_new size_of t x (mem m) in Some (\<lparr>mem = h, mvars = mvars m @ [Some f]\<rparr>, None))"
| "mf_step size_of app (New_move w) m =
     (case slot_at w (mvars m) of None \<Rightarrow> None | Some g \<Rightarrow>
        (let (f, g', h) = moveIn size_of MoveFunc_empty g (mem m) in
         Some (\<lparr>mem = h, mvars = (mvars m)[w := Some g'] @ [Some f]\<rparr>, None)))"
| "mf_step size_of app (Assign_move v w) m =
     (case (slot_at v (mvars m), slot_at w (mvars m)) of
        (Some f, Some g) \<Rightarrow>
          if v = w then Some (m, None)
          else (let (f', g', h) = MoveFunc_assign size_of f g (mem m) in
                Some (\<lparr>mem = h, mvars = (mvars m)[v := Some f', w := Some g']\<rparr>, None))
      | _ \<Rightarrow> None)"
| "mf_step size_of app (Call_var v a) m =
     (case slot_at v (mvars m) of None \<Rightarrow> None | Some f \<Rightarrow>
        (let (r, h) = MoveFunc_call size_of app f a (mem m) in Some (m\<lparr>mem := h\<rparr>, r)))"
| "mf_step size_of app (End_var v) m =
     (case slot_at v (mvars m) of None \<Rightarrow> None | Some f \<Rightarrow>
        Some (\<lparr>mem = mf_deref size_of f (mem m), mvars = (mvars m)[v := None]\<rparr>, None))"

fun mf_run :: "('t \<Rightarrow> nat) \<Rightarrow> ('t, 's, 'a, 'r) applies \<Rightarrow> ('t, 's, 'a) mf_op list \<Rightarrow> ('t, 's) mf_state \<Rightarrow>
    (('t, 's) mf_state \<times> (mf_error + 'r) option list) option" where
  "mf_run size_of app [] m = Some (m, [])"
| "mf_run size_of app (p # ps) m =
     (case mf_step size_of app p m of None \<Rightarrow> None | Some (m1, r) \<Rightarrow>
        map_option (\<lambda>(m2, rs). (m2, r # rs)) (mf_run size_of app ps m1))"

subsection \<open>Slots\<close>

text \<open>What a user sees: an object holds a callable or nothing, and a move empties its source.\<close>

type_synonym ('t, 's) slots = "('t \<times> 's) option option list"

fun slot_step :: "('t, 's, 'a, 'r) applies \<Rightarrow> ('t, 's, 'a) mf_op \<Rightarrow> ('t, 's) slots \<Rightarrow>
    (('t, 's) slots \<times> (mf_error + 'r) option) option" where
  "slot_step app New_empty s = Some (s @ [Some None], None)"
| "slot_step app (New_from t x) s = Some (s @ [Some (Some (t, x))], None)"
| "slot_step app (New_move w) s =
     (case slot_at w s of None \<Rightarrow> None | Some c \<Rightarrow> Some (s[w := Some None] @ [Some c], None))"
| "slot_step app (Assign_move v w) s =
     (case (slot_at v s, slot_at w s) of
        (Some _, Some c) \<Rightarrow> Some (if v = w then s else s[v := Some c, w := Some None], None)
      | _ \<Rightarrow> None)"
| "slot_step app (Call_var v a) s =
     (case slot_at v s of
        None \<Rightarrow> None
      | Some None \<Rightarrow> Some (s, Some (Inl InvalidMoveFuncCall))
      | Some (Some (t, x)) \<Rightarrow> (let (r, x') = app t x a in Some (s[v := Some (Some (t, x'))], Some (Inr r))))"
| "slot_step app (End_var v) s =
     (case slot_at v s of None \<Rightarrow> None | Some _ \<Rightarrow> Some (s[v := None], None))"

fun slot_run :: "('t, 's, 'a, 'r) applies \<Rightarrow> ('t, 's, 'a) mf_op list \<Rightarrow> ('t, 's) slots \<Rightarrow>
    (('t, 's) slots \<times> (mf_error + 'r) option list) option" where
  "slot_run app [] s = Some (s, [])"
| "slot_run app (p # ps) s =
     (case slot_step app p s of None \<Rightarrow> None | Some (s1, r) \<Rightarrow>
        map_option (\<lambda>(s2, rs). (s2, r # rs)) (slot_run app ps s1))"

text \<open>The object a variable holds, and the slots a state implements.\<close>

definition handle_of :: "('t \<Rightarrow> nat) \<Rightarrow> 't move_func \<Rightarrow> nat option" where
  "handle_of size_of f = (case manager f of None \<Rightarrow> None | Some t \<Rightarrow> cast_fn size_of t (stor f))"

definition held_by :: "('t \<Rightarrow> nat) \<Rightarrow> ('t, 's) callables \<Rightarrow> 't move_func \<Rightarrow> ('t \<times> 's) option" where
  "held_by size_of h f = (case handle_of size_of f of None \<Rightarrow> None | Some i \<Rightarrow> slot_at i (cells h))"

definition slots_of :: "('t \<Rightarrow> nat) \<Rightarrow> ('t, 's) mf_state \<Rightarrow> ('t, 's) slots" where
  "slots_of size_of m = map (map_option (held_by size_of (mem m))) (mvars m)"

definition holds_cell :: "('t \<Rightarrow> nat) \<Rightarrow> ('t, 's) mf_state \<Rightarrow> nat \<Rightarrow> nat \<Rightarrow> bool" where
  "holds_cell size_of m v i \<longleftrightarrow> (\<exists>f. slot_at v (mvars m) = Some f \<and> handle_of size_of f = Some i)"

subsection \<open>The invariant\<close>

text \<open>
  Nothing undefined happened; every living variable has a consistent table of functions and, unless it
  is empty, an object of the type they were instantiated for; no two hold the same object, and every
  object is held.
\<close>

definition owns :: "('t \<Rightarrow> nat) \<Rightarrow> ('t, 's) callables \<Rightarrow> 't move_func \<Rightarrow> bool" where
  "owns size_of h f \<longleftrightarrow> call_fn f = manager f \<and>
     (\<forall>t. manager f = Some t \<longrightarrow> (\<exists>i x. cast_fn size_of t (stor f) = Some i \<and> slot_at i (cells h) = Some (t, x)))"

definition mf_ok :: "('t \<Rightarrow> nat) \<Rightarrow> ('t, 's) mf_state \<Rightarrow> bool" where
  "mf_ok size_of m \<longleftrightarrow> \<not> mf_broken (mem m) \<and>
     (\<forall>v f. slot_at v (mvars m) = Some f \<longrightarrow> owns size_of (mem m) f) \<and>
     (\<forall>v w i. holds_cell size_of m v i \<longrightarrow> holds_cell size_of m w i \<longrightarrow> v = w) \<and>
     (\<forall>i c. slot_at i (cells (mem m)) = Some c \<longrightarrow> (\<exists>v. holds_cell size_of m v i))"

lemma slot_at_update [simp]: "slot_at v (xs[w := y]) = (if v = w \<and> w < length xs then y else slot_at v xs)"
  by (auto simp: slot_at_def)

lemma slot_at_append [simp]: "slot_at v (xs @ [y]) = (if v = length xs then y else slot_at v xs)"
  by (auto simp: slot_at_def nth_append)

lemma slot_at_Nil [simp]: "slot_at v [] = None"
  by (simp add: slot_at_def)

lemma slot_at_bound: "slot_at v xs = Some y \<Longrightarrow> v < length xs"
  by (auto simp: slot_at_def split: if_splits)

lemma slot_at_length [simp]: "slot_at (length xs) xs = None"
  by (simp add: slot_at_def)

lemma slot_at_map [simp]: "slot_at v (map (map_option g) xs) = map_option g (slot_at v xs)"
  by (simp add: slot_at_def)

lemma slot_at_ext:
  assumes "length xs = length ys" and "\<And>v. slot_at v xs = slot_at v ys"
  shows "xs = ys"
proof (rule nth_equalityI)
  fix i assume "i < length xs"
  with assms(1) assms(2) [of i] show "xs ! i = ys ! i" by (simp add: slot_at_def)
qed (rule assms(1))

lemma object_at_at_slot:
  "object_at t i h = (case slot_at i (cells h) of Some (u, x) \<Rightarrow> if u = t then Some x else None | None \<Rightarrow> None)"
  by (simp add: object_at_def slot_at_def)

lemma handle_of_None [simp]: "manager f = None \<Longrightarrow> handle_of size_of f = None"
  by (simp add: handle_of_def)

lemma owns_handle:
  assumes "owns size_of h f" and "manager f = Some t"
  obtains i x where "handle_of size_of f = Some i" and "cast_fn size_of t (stor f) = Some i"
    and "slot_at i (cells h) = Some (t, x)" and "call_fn f = Some t"
  using assms by (auto simp: owns_def handle_of_def)

lemma owns_empty: "owns size_of h f \<Longrightarrow> handle_of size_of f = None \<Longrightarrow> manager f = None"
  by (cases "manager f") (auto elim: owns_handle)

lemma mf_deref_owns:
  "owns size_of h f \<Longrightarrow>
   mf_deref size_of f h = (case handle_of size_of f of None \<Rightarrow> h | Some i \<Rightarrow> h\<lparr>cells := (cells h)[i := None]\<rparr>)"
  by (cases "manager f")
    (auto simp: mf_deref_def manager_destroy_def kill_cell_def object_at_at_slot elim!: owns_handle)

text \<open>A move relocates a small object to a new cell and leaves a big one where it is.\<close>

lemma moveIn_moves:
  assumes "owns size_of h g" and "manager g = Some t" and "handle_of size_of g = Some j"
    and "slot_at j (cells h) = Some (t, x)"
  obtains f' g' h' i where "moveIn size_of f g h = (f', g', h')"
    and "manager g' = None" and "call_fn g' = None" and "manager f' = Some t" and "call_fn f' = Some t"
    and "handle_of size_of f' = Some i" and "cast_fn size_of t (stor f') = Some i"
    and "i = j \<or> i = length (cells h)" and "mf_broken h' = mf_broken h"
    and "\<And>k. slot_at k (cells h') = (if k = i then Some (t, x) else if k = j then None else slot_at k (cells h))"
proof (cases "isBig size_of t")
  case True
  have s: "stor g = Pointer (Some j)" and c: "call_fn g = Some t"
    using assms True by (auto simp: handle_of_def cast_fn_def owns_def split: mf_storage.splits)
  show ?thesis
    by (rule that [of "f\<lparr>call_fn := Some t, manager := Some t, stor := Pointer (Some j)\<rparr>"
          "g\<lparr>call_fn := None, manager := None, stor := Pointer None\<rparr>" h j])
      (simp_all add: moveIn_def manager_move_def assms(2,4) s c True handle_of_def cast_fn_def)
next
  case False
  have s: "stor g = Buffer j" and c: "call_fn g = Some t"
    using assms False by (auto simp: handle_of_def cast_fn_def owns_def split: mf_storage.splits)
  have "j < length (cells h)" using assms(4) by (rule slot_at_bound)
  with assms(4) have k: "kill_cell t j (h\<lparr>cells := cells h @ [Some (t, x)]\<rparr>) =
      h\<lparr>cells := (cells h @ [Some (t, x)])[j := None]\<rparr>"
    by (simp add: kill_cell_def object_at_at_slot)
  show ?thesis
    by (rule that [of "f\<lparr>call_fn := Some t, manager := Some t, stor := Buffer (length (cells h))\<rparr>"
          "g\<lparr>call_fn := None, manager := None\<rparr>" "h\<lparr>cells := (cells h @ [Some (t, x)])[j := None]\<rparr>" "length (cells h)"])
      (use \<open>j < length (cells h)\<close> in \<open>auto simp: moveIn_def manager_move_def assms(2,4) s c False handle_of_def cast_fn_def
        object_at_at_slot new_cell_def k\<close>)
qed

lemma moveIn_empty:
  assumes "owns size_of h g" and "manager g = None"
  shows "moveIn size_of f g h = (f\<lparr>call_fn := None, manager := None\<rparr>, g\<lparr>call_fn := None, manager := None\<rparr>, h)"
  using assms by (simp add: moveIn_def owns_def)

subsection \<open>Every step refines the step on slots\<close>

definition step_sim :: "('t \<Rightarrow> nat) \<Rightarrow> ('t, 's, 'a, 'r) applies \<Rightarrow> ('t, 's, 'a) mf_op \<Rightarrow> ('t, 's) mf_state \<Rightarrow> bool" where
  "step_sim size_of app p m \<longleftrightarrow>
     map_option (map_prod (slots_of size_of) id) (mf_step size_of app p m) = slot_step app p (slots_of size_of m) \<and>
     (\<forall>m' r. mf_step size_of app p m = Some (m', r) \<longrightarrow> mf_ok size_of m')"

lemma slot_at_slots [simp]:
  "slot_at v (slots_of size_of m) = map_option (held_by size_of (mem m)) (slot_at v (mvars m))"
  by (simp add: slots_of_def)

lemma length_slots [simp]: "length (slots_of size_of m) = length (mvars m)"
  by (simp add: slots_of_def)

lemma held_by_None [simp]: "manager f = None \<Longrightarrow> held_by size_of h f = None"
  by (simp add: held_by_def)

lemma owns_None [simp]: "manager f = None \<Longrightarrow> owns size_of h f \<longleftrightarrow> call_fn f = None"
  by (auto simp: owns_def)

lemma ok_owns: "mf_ok size_of m \<Longrightarrow> slot_at v (mvars m) = Some f \<Longrightarrow> owns size_of (mem m) f"
  by (simp add: mf_ok_def)

lemma ok_held_by_one:
  "mf_ok size_of m \<Longrightarrow> slot_at v (mvars m) = Some f \<Longrightarrow> slot_at w (mvars m) = Some g \<Longrightarrow>
   handle_of size_of f = Some i \<Longrightarrow> handle_of size_of g = Some i \<Longrightarrow> v = w"
  by (auto simp: mf_ok_def holds_cell_def)

lemma ok_held:
  "mf_ok size_of m \<Longrightarrow> slot_at i (cells (mem m)) = Some c \<Longrightarrow>
   \<exists>v f. slot_at v (mvars m) = Some f \<and> handle_of size_of f = Some i"
  by (auto simp: mf_ok_def holds_cell_def)

text \<open>What a step leaves alone keeps its object when no cell in use by it changes.\<close>

lemma owns_keep:
  assumes "owns size_of h f" and "\<And>i. handle_of size_of f = Some i \<Longrightarrow> slot_at i (cells h') = slot_at i (cells h)"
  shows "owns size_of h' f" and "held_by size_of h' f = held_by size_of h f"
proof -
  show "owns size_of h' f"
    using assms by (cases "manager f") (auto simp: owns_def handle_of_def)
  show "held_by size_of h' f = held_by size_of h f"
    using assms(2) by (auto simp: held_by_def split: option.splits)
qed

lemma sim_New_empty: "mf_ok size_of m \<Longrightarrow> step_sim size_of app New_empty m"
  by (auto simp: step_sim_def MoveFunc_empty_def slots_of_def mf_ok_def holds_cell_def owns_def
      intro!: slot_at_ext split: if_splits) (metis slot_at_length option.distinct(1))+

lemma sim_New_from: "mf_ok size_of m \<Longrightarrow> step_sim size_of app (New_from t x) m"
proof -
  assume ok: "mf_ok size_of m"
  define n where "n = length (cells (mem m))"
  define f where "f = \<lparr>stor = (if isBig size_of t then Pointer (Some n) else Buffer n), manager = Some t, call_fn = Some t\<rparr>"
  define m' where "m' = \<lparr>mem = (mem m)\<lparr>cells := cells (mem m) @ [Some (t, x)]\<rparr>, mvars = mvars m @ [Some f]\<rparr>"
  have step: "mf_step size_of app (New_from t x) m = Some (m', None)"
    by (simp add: MoveFunc_new_def new_cell_def n_def f_def m'_def)
  have hf: "handle_of size_of f = Some n" "cast_fn size_of t (stor f) = Some n" "manager f = Some t" "call_fn f = Some t"
    by (auto simp: handle_of_def cast_fn_def f_def)
  have keep: "owns size_of (mem m') g \<and> held_by size_of (mem m') g = held_by size_of (mem m) g \<and> handle_of size_of g \<noteq> Some n"
    if g: "slot_at w (mvars m) = Some g" for w g
  proof -
    have o: "owns size_of (mem m) g" using ok g by (rule ok_owns)
    have ne: "handle_of size_of g \<noteq> Some n"
      using o by (cases "manager g") (auto simp: n_def elim!: owns_handle)
    have same: "slot_at i (cells (mem m')) = slot_at i (cells (mem m))" if "handle_of size_of g = Some i" for i
      using ne that by (auto simp: m'_def n_def)
    with o ne show ?thesis using owns_keep [OF o same] by blast
  qed
  have "mf_ok size_of m'"
    unfolding mf_ok_def holds_cell_def
  proof (intro conjI allI impI)
    show "\<not> mf_broken (mem m')" using ok by (simp add: mf_ok_def m'_def)
  next
    fix v g assume "slot_at v (mvars m') = Some g"
    then show "owns size_of (mem m') g"
      using keep hf by (cases "v = length (mvars m)") (auto simp: m'_def owns_def n_def)
  next
    fix v w i
    assume "\<exists>f. slot_at v (mvars m') = Some f \<and> handle_of size_of f = Some i"
      and "\<exists>f. slot_at w (mvars m') = Some f \<and> handle_of size_of f = Some i"
    then show "v = w"
      using keep hf ok_held_by_one [OF ok] by (auto simp: m'_def split: if_splits)
  next
    fix i c assume "slot_at i (cells (mem m')) = Some c"
    then show "\<exists>v f. slot_at v (mvars m') = Some f \<and> handle_of size_of f = Some i"
      using ok_held [OF ok, of i c] hf
      by (auto simp: m'_def n_def split: if_splits) (metis slot_at_length option.distinct(1))
  qed
  moreover have "held_by size_of (mem m') f = Some (t, x)"
    by (simp add: held_by_def hf(1)) (simp add: m'_def n_def)
  then have "slots_of size_of m' = slots_of size_of m @ [Some (Some (t, x))]"
    by (intro slot_at_ext) (use keep in \<open>auto simp: m'_def intro!: option.map_cong\<close>)
  ultimately show ?thesis by (simp only: step_sim_def step) simp
qed

lemma sim_End_var: "mf_ok size_of m \<Longrightarrow> step_sim size_of app (End_var v) m"
proof -
  assume ok: "mf_ok size_of m"
  show ?thesis
  proof (cases "slot_at v (mvars m)")
    case None
    then show ?thesis by (simp add: step_sim_def)
  next
    case (Some f)
    have o: "owns size_of (mem m) f" using ok Some by (rule ok_owns)
    define m' where "m' = \<lparr>mem = mf_deref size_of f (mem m), mvars = (mvars m)[v := None]\<rparr>"
    have step: "mf_step size_of app (End_var v) m = Some (m', None)" by (simp add: Some m'_def)
    have cell: "slot_at i (cells (mem m')) = (if handle_of size_of f = Some i then None else slot_at i (cells (mem m)))" for i
      using o by (auto simp: m'_def mf_deref_owns split: option.splits) (metis slot_at_def)
    have other: "slot_at w (mvars m') = (if w = v then None else slot_at w (mvars m))" for w
      using Some by (auto simp: m'_def dest: slot_at_bound)
    have keep: "owns size_of (mem m') g \<and> held_by size_of (mem m') g = held_by size_of (mem m) g"
      if g: "slot_at w (mvars m) = Some g" and w: "w \<noteq> v" for w g
    proof -
      have same: "slot_at i (cells (mem m')) = slot_at i (cells (mem m))" if "handle_of size_of g = Some i" for i
        using ok_held_by_one [OF ok g Some that] w by (auto simp: cell)
      show ?thesis using owns_keep [OF ok_owns [OF ok g] same] by blast
    qed
    have "mf_ok size_of m'"
      unfolding mf_ok_def holds_cell_def
    proof (intro conjI allI impI)
      show "\<not> mf_broken (mem m')" using ok o by (auto simp: mf_ok_def m'_def mf_deref_owns split: option.splits)
    next
      fix w g assume "slot_at w (mvars m') = Some g"
      then show "owns size_of (mem m') g" using keep by (auto simp: other split: if_splits)
    next
      fix u w i
      assume "\<exists>f. slot_at u (mvars m') = Some f \<and> handle_of size_of f = Some i"
        and "\<exists>f. slot_at w (mvars m') = Some f \<and> handle_of size_of f = Some i"
      then show "u = w" using ok_held_by_one [OF ok] by (auto simp: other split: if_splits)
    next
      fix i c assume "slot_at i (cells (mem m')) = Some c"
      then show "\<exists>w g. slot_at w (mvars m') = Some g \<and> handle_of size_of g = Some i"
        using ok_held [OF ok, of i c] Some by (auto simp: cell other split: if_splits) (metis option.inject)
    qed
    moreover have "slots_of size_of m' = (slots_of size_of m)[v := None]"
      by (rule slot_at_ext) (use keep Some other in \<open>auto simp: m'_def dest: slot_at_bound intro!: option.map_cong\<close>)
    ultimately show ?thesis by (simp only: step_sim_def step) (simp add: Some)
  qed
qed

lemma sim_Call_var: "mf_ok size_of m \<Longrightarrow> step_sim size_of app (Call_var v a) m"
proof -
  assume ok: "mf_ok size_of m"
  show ?thesis
  proof (cases "slot_at v (mvars m)")
    case None
    then show ?thesis by (simp add: step_sim_def)
  next
    case (Some f)
    have o: "owns size_of (mem m) f" using ok Some by (rule ok_owns)
    show ?thesis
    proof (cases "manager f")
      case None
      have "(slots_of size_of m)[v := Some None] = slots_of size_of m"
        by (rule slot_at_ext) (use None Some in auto)
      with None Some ok show ?thesis by (simp add: step_sim_def MoveFunc_call_def to_bool_def)
    next
      case (Some t)
      note mf = \<open>slot_at v (mvars m) = Some f\<close>
      obtain i x where h: "handle_of size_of f = Some i" and c: "cast_fn size_of t (stor f) = Some i"
        and x: "slot_at i (cells (mem m)) = Some (t, x)" and cl: "call_fn f = Some t"
        using o Some by (rule owns_handle)
      obtain r x' where app: "app t x a = (r, x')" by (cases "app t x a")
      define m' where "m' = m\<lparr>mem := (mem m)\<lparr>cells := (cells (mem m))[i := Some (t, x')]\<rparr>\<rparr>"
      have step: "mf_step size_of app (Call_var v a) m = Some (m', Some (Inr r))"
        by (simp add: mf MoveFunc_call_def to_bool_def Some cl invoke_fn_def c object_at_at_slot x app m'_def)
      have keep: "held_by size_of (mem m') g = (if w = v then Some (t, x') else held_by size_of (mem m) g) \<and>
          owns size_of (mem m') g" if g: "slot_at w (mvars m) = Some g" for w g
      proof (cases "w = v")
        case True
        with g mf h c x cl Some show ?thesis by (auto simp: m'_def held_by_def owns_def dest: slot_at_bound)
      next
        case False
        have "slot_at j (cells (mem m')) = slot_at j (cells (mem m))" if "handle_of size_of g = Some j" for j
          using ok_held_by_one [OF ok g mf that] h False by (auto simp: m'_def)
        with owns_keep [OF ok_owns [OF ok g], where h' = "mem m'"] False show ?thesis by auto
      qed
      have "mf_ok size_of m'"
        unfolding mf_ok_def holds_cell_def
      proof (intro conjI allI impI)
        show "\<not> mf_broken (mem m')" using ok by (simp add: mf_ok_def m'_def)
      next
        fix w g assume "slot_at w (mvars m') = Some g"
        then show "owns size_of (mem m') g" using keep by (simp add: m'_def)
      next
        fix u w j
        assume "\<exists>f. slot_at u (mvars m') = Some f \<and> handle_of size_of f = Some j"
          and "\<exists>f. slot_at w (mvars m') = Some f \<and> handle_of size_of f = Some j"
        then show "u = w" using ok_held_by_one [OF ok] by (auto simp: m'_def)
      next
        fix j c assume "slot_at j (cells (mem m')) = Some c"
        then show "\<exists>w g. slot_at w (mvars m') = Some g \<and> handle_of size_of g = Some j"
          using ok_held [OF ok, of j] x by (auto simp: m'_def split: if_splits)
      qed
      moreover have "slots_of size_of m' = (slots_of size_of m)[v := Some (Some (t, x'))]"
        by (rule slot_at_ext) (use keep mf in \<open>auto simp: m'_def dest: slot_at_bound intro!: option.map_cong\<close>)
      ultimately show ?thesis by (simp only: step_sim_def step) (simp add: mf held_by_def h x app)
    qed
  qed
qed

text \<open>Moving into a variable that holds nothing; what its storage contained does not matter.\<close>

lemma fill_empty:
  assumes ok: "mf_ok size_of m" and g: "slot_at w (mvars m) = Some g" and e: "slot_at u (mvars m) = Some e"
    and none: "manager e = None" and uw: "u \<noteq> w"
    and mv: "moveIn size_of f g (mem m) = (f', g', h)"
    and m': "m' = \<lparr>mem = h, mvars = (mvars m)[u := Some f', w := Some g']\<rparr>"
  shows "mf_ok size_of m'"
    and "slots_of size_of m' = (slots_of size_of m)[u := Some (held_by size_of (mem m) g), w := Some None]"
proof -
  have o: "owns size_of (mem m) g" using ok g by (rule ok_owns)
  have b: "u < length (mvars m)" "w < length (mvars m)" using g e by (auto dest: slot_at_bound)
  have var: "slot_at z (mvars m') = (if z = w then Some g' else if z = u then Some f' else slot_at z (mvars m))" for z
    using b by (simp add: m')
  have "mf_ok size_of m' \<and>
    (\<forall>z y. z \<noteq> u \<longrightarrow> z \<noteq> w \<longrightarrow> slot_at z (mvars m) = Some y \<longrightarrow> held_by size_of h y = held_by size_of (mem m) y) \<and>
    held_by size_of h f' = held_by size_of (mem m) g \<and> held_by size_of h g' = None"
  proof (cases "manager g")
    case None
    with mv moveIn_empty [OF o None] have
      r: "f' = f\<lparr>call_fn := None, manager := None\<rparr>" "g' = g\<lparr>call_fn := None, manager := None\<rparr>" "h = mem m"
      by simp_all
    have "mf_ok size_of m'"
      unfolding mf_ok_def holds_cell_def
    proof (intro conjI allI impI)
      show "\<not> mf_broken (mem m')" using ok by (simp add: mf_ok_def m' r)
    next
      fix z y assume "slot_at z (mvars m') = Some y"
      then show "owns size_of (mem m') y"
        using ok_owns [OF ok] by (auto simp: var r m' split: if_splits)
    next
      fix y z i
      assume "\<exists>f. slot_at y (mvars m') = Some f \<and> handle_of size_of f = Some i"
        and "\<exists>f. slot_at z (mvars m') = Some f \<and> handle_of size_of f = Some i"
      then show "y = z" using ok_held_by_one [OF ok] by (auto simp: var r split: if_splits)
    next
      fix i c assume "slot_at i (cells (mem m')) = Some c"
      then obtain z y where z: "slot_at z (mvars m) = Some y" "handle_of size_of y = Some i"
        using ok_held [OF ok, of i c] by (auto simp: m' r)
      then have "z \<noteq> u" "z \<noteq> w" using e g none None by auto
      with z show "\<exists>v f. slot_at v (mvars m') = Some f \<and> handle_of size_of f = Some i" by (auto simp: var)
    qed
    with None show ?thesis by (simp add: r)
  next
    case (Some t)
    obtain j x where j: "handle_of size_of g = Some j" and x: "slot_at j (cells (mem m)) = Some (t, x)"
      using o Some by (rule owns_handle)
    obtain f1 g1 h1 i where mv1: "moveIn size_of f g (mem m) = (f1, g1, h1)"
      and r1: "manager g1 = None" "call_fn g1 = None" "manager f1 = Some t" "call_fn f1 = Some t"
        "handle_of size_of f1 = Some i" "cast_fn size_of t (stor f1) = Some i"
      and ij: "i = j \<or> i = length (cells (mem m))" and br: "mf_broken h1 = mf_broken (mem m)"
      and cell1: "\<And>k. slot_at k (cells h1) = (if k = i then Some (t, x) else if k = j then None else slot_at k (cells (mem m)))"
      by (rule moveIn_moves [OF o Some j x, of f]) (rule that)
    have "f1 = f'" "g1 = g'" "h1 = h" using mv mv1 by simp_all
    note r = r1 [unfolded this] br [unfolded this] and cell = cell1 [unfolded this]
    have ne: "handle_of size_of y \<noteq> Some i" "handle_of size_of y \<noteq> Some j"
      if y: "slot_at z (mvars m) = Some y" and zw: "z \<noteq> w" for z y
    proof -
      show nj: "handle_of size_of y \<noteq> Some j" using ok_held_by_one [OF ok y g _ j] zw by blast
      have "handle_of size_of y = Some k \<Longrightarrow> slot_at k (cells (mem m)) \<noteq> None" for k
        using ok_owns [OF ok y] by (cases "manager y") (auto elim: owns_handle)
      with nj ij show "handle_of size_of y \<noteq> Some i" by auto
    qed
    have keep: "owns size_of h y \<and> held_by size_of h y = held_by size_of (mem m) y"
      if y: "slot_at z (mvars m) = Some y" and zw: "z \<noteq> w" for z y
    proof -
      have "slot_at k (cells h) = slot_at k (cells (mem m))" if "handle_of size_of y = Some k" for k
        using ne [OF y zw] that by (auto simp: cell)
      with owns_keep [OF ok_owns [OF ok y], where h' = h] show ?thesis by blast
    qed
    have "mf_ok size_of m'"
      unfolding mf_ok_def holds_cell_def
    proof (intro conjI allI impI)
      show "\<not> mf_broken (mem m')" using ok by (simp add: mf_ok_def m' r)
    next
      fix z y assume "slot_at z (mvars m') = Some y"
      moreover have "owns size_of h f'" using r cell by (simp add: owns_def)
      ultimately have "owns size_of h y"
        using keep r by (auto simp: var split: if_splits)
      then show "owns size_of (mem m') y" by (simp add: m')
    next
      fix y z k
      assume "\<exists>f. slot_at y (mvars m') = Some f \<and> handle_of size_of f = Some k"
        and "\<exists>f. slot_at z (mvars m') = Some f \<and> handle_of size_of f = Some k"
      then show "y = z"
        using ok_held_by_one [OF ok] ne r by (auto simp: var split: if_splits)
    next
      fix k c assume k: "slot_at k (cells (mem m')) = Some c"
      show "\<exists>v f. slot_at v (mvars m') = Some f \<and> handle_of size_of f = Some k"
      proof (cases "k = i")
        case True
        with r uw show ?thesis by (intro exI [of _ u] exI [of _ f']) (simp add: var)
      next
        case False
        with k have "k \<noteq> j" "slot_at k (cells (mem m)) = Some c" by (auto simp: m' cell split: if_splits)
        with ok_held [OF ok] obtain z y where z: "slot_at z (mvars m) = Some y" "handle_of size_of y = Some k" by blast
        with \<open>k \<noteq> j\<close> j g e none have "z \<noteq> w" "z \<noteq> u" by auto
        with z show ?thesis by (auto simp: var)
      qed
    qed
    moreover have "held_by size_of h f' = held_by size_of (mem m) g" using r j x cell by (simp add: held_by_def)
    ultimately show ?thesis using keep r by auto
  qed
  then show "mf_ok size_of m'"
    and "slots_of size_of m' = (slots_of size_of m)[u := Some (held_by size_of (mem m) g), w := Some None]"
    using b uw by (auto simp: var m' intro!: slot_at_ext option.map_cong)
qed

lemma sim_New_move: "mf_ok size_of m \<Longrightarrow> step_sim size_of app (New_move w) m"
proof -
  assume ok: "mf_ok size_of m"
  show ?thesis
  proof (cases "slot_at w (mvars m)")
    case None
    then show ?thesis by (simp add: step_sim_def)
  next
    case (Some g)
    define m0 where "m0 = m\<lparr>mvars := mvars m @ [Some MoveFunc_empty]\<rparr>"
    have ok0: "mf_ok size_of m0"
      and s0: "slots_of size_of m0 = slots_of size_of m @ [Some None]"
      using sim_New_empty [OF ok, of undefined] by (simp_all add: step_sim_def m0_def)
    have w: "w < length (mvars m)" using Some by (rule slot_at_bound)
    obtain f' g' h where mv: "moveIn size_of MoveFunc_empty g (mem m) = (f', g', h)"
      by (metis prod_cases3)
    define m' where "m' = \<lparr>mem = h, mvars = (mvars m)[w := Some g'] @ [Some f']\<rparr>"
    have m': "m' = \<lparr>mem = h, mvars = (mvars m0)[length (mvars m) := Some f', w := Some g']\<rparr>"
      using w by (simp add: m'_def m0_def list_update_append)
    have e: "slot_at (length (mvars m)) (mvars m0) = Some MoveFunc_empty" "slot_at w (mvars m0) = Some g"
      using Some w by (simp_all add: m0_def)
    have mv0: "moveIn size_of MoveFunc_empty g (mem m0) = (f', g', h)" using mv by (simp add: m0_def)
    have ne: "length (mvars m) \<noteq> w" "manager MoveFunc_empty = None" using w by (simp_all add: MoveFunc_empty_def)
    note res = fill_empty [OF ok0 e(2) e(1) ne(2,1) mv0 m']
    then have "slots_of size_of m' = (slots_of size_of m @ [Some None])[length (mvars m) := Some (held_by size_of (mem m) g), w := Some None]"
      by (simp add: s0) (simp add: m0_def)
    with res(1) show ?thesis
      using w by (simp add: step_sim_def Some mv m'_def [symmetric] list_update_append)
  qed
qed

text \<open>An assignment first destroys what its target holds.\<close>

lemma reuse_ok:
  assumes "mf_ok size_of m" and "slot_at v (mvars m) = None" and "v < length (mvars m)"
  shows "mf_ok size_of (m\<lparr>mvars := (mvars m)[v := Some MoveFunc_empty]\<rparr>)"
    and "slots_of size_of (m\<lparr>mvars := (mvars m)[v := Some MoveFunc_empty]\<rparr>) = (slots_of size_of m)[v := Some None]"
proof -
  let ?m = "m\<lparr>mvars := (mvars m)[v := Some MoveFunc_empty]\<rparr>"
  have "holds_cell size_of ?m z i \<longleftrightarrow> holds_cell size_of m z i" for z i
    using assms(2,3) by (auto simp: holds_cell_def MoveFunc_empty_def)
  then show "mf_ok size_of ?m"
    using assms by (auto simp: mf_ok_def MoveFunc_empty_def)
  show "slots_of size_of ?m = (slots_of size_of m)[v := Some None]"
    using assms by (auto intro!: slot_at_ext simp: MoveFunc_empty_def)
qed

lemma sim_Assign_move: "mf_ok size_of m \<Longrightarrow> step_sim size_of app (Assign_move v w) m"
proof -
  assume ok: "mf_ok size_of m"
  show ?thesis
  proof (cases "v = w \<or> slot_at v (mvars m) = None \<or> slot_at w (mvars m) = None")
    case True
    then show ?thesis by (auto simp: step_sim_def ok split: option.splits)
  next
    case False
    then obtain f g where f: "slot_at v (mvars m) = Some f" and g: "slot_at w (mvars m) = Some g" and vw: "v \<noteq> w"
      by auto
    define m0 where "m0 = \<lparr>mem = mf_deref size_of f (mem m), mvars = (mvars m)[v := Some MoveFunc_empty]\<rparr>"
    let ?m1 = "\<lparr>mem = mf_deref size_of f (mem m), mvars = (mvars m)[v := None]\<rparr>"
    have b: "v < length (mvars m)" "w < length (mvars m)" using f g by (auto dest: slot_at_bound)
    have ok1: "mf_ok size_of ?m1" and s1: "slots_of size_of ?m1 = (slots_of size_of m)[v := None]"
      using sim_End_var [OF ok, of undefined v] by (simp_all add: step_sim_def f)
    have m0: "m0 = ?m1\<lparr>mvars := (mvars ?m1)[v := Some MoveFunc_empty]\<rparr>" by (simp add: m0_def)
    have ok0: "mf_ok size_of m0" and s0: "slots_of size_of m0 = (slots_of size_of m)[v := Some None]"
      using reuse_ok [OF ok1, of v] b by (simp_all add: m0 s1)
    have "slot_at w (slots_of size_of m0) = slot_at w (slots_of size_of m)" using vw by (simp only: s0) simp
    then have hg: "held_by size_of (mem m0) g = held_by size_of (mem m) g"
      using vw by (simp add: g m0_def)
    obtain f' g' h where mv: "moveIn size_of f g (mem m0) = (f', g', h)" by (metis prod_cases3)
    define m' where "m' = \<lparr>mem = h, mvars = (mvars m)[v := Some f', w := Some g']\<rparr>"
    have m': "m' = \<lparr>mem = h, mvars = (mvars m0)[v := Some f', w := Some g']\<rparr>"
      by (simp add: m'_def m0_def)
    have e: "slot_at v (mvars m0) = Some MoveFunc_empty" "slot_at w (mvars m0) = Some g"
      using g b vw by (simp_all add: m0_def)
    note res = fill_empty [OF ok0 e(2) e(1) _ vw mv m']
    have "slots_of size_of m' = (slots_of size_of m)[v := Some (held_by size_of (mem m) g), w := Some None]"
      using res(2) by (simp add: MoveFunc_empty_def s0 hg)
    moreover have "mf_ok size_of m'" using res(1) by (simp add: MoveFunc_empty_def)
    moreover have "mf_step size_of app (Assign_move v w) m = Some (m', None)"
      using vw mv by (simp add: f g MoveFunc_assign_def m0_def m'_def)
    ultimately show ?thesis
      using vw by (simp add: step_sim_def f g)
  qed
qed

lemmas step_sims = sim_New_empty sim_New_from sim_New_move sim_Assign_move sim_Call_var sim_End_var

lemma mf_step_refines: "mf_ok size_of m \<Longrightarrow> step_sim size_of app p m"
  by (cases p) (simp_all add: step_sims)

lemma mf_run_refines:
  "mf_ok size_of m \<Longrightarrow>
   map_option (map_prod (slots_of size_of) id) (mf_run size_of app ps m) = slot_run app ps (slots_of size_of m) \<and>
   (\<forall>m' rs. mf_run size_of app ps m = Some (m', rs) \<longrightarrow> mf_ok size_of m')"
proof (induction ps arbitrary: m)
  case (Cons p ps)
  show ?case
  proof (cases "mf_step size_of app p m")
    case None
    with mf_step_refines [OF Cons.prems, of app p] show ?thesis by (simp add: step_sim_def)
  next
    case (Some q)
    obtain m1 r where q: "q = (m1, r)" by (cases q)
    from mf_step_refines [OF Cons.prems, of app p] Some q
    have "slot_step app p (slots_of size_of m) = Some (slots_of size_of m1, r)" and ok1: "mf_ok size_of m1"
      by (auto simp: step_sim_def)
    moreover have "slot_run app ps (slots_of size_of m1) =
        map_option (map_prod (slots_of size_of) id) (mf_run size_of app ps m1)"
      and "\<forall>m' rs. mf_run size_of app ps m1 = Some (m', rs) \<longrightarrow> mf_ok size_of m'"
      using Cons.IH [OF ok1] by (auto simp only: id_def)
    ultimately show ?thesis
      by (cases "mf_run size_of app ps m1") (auto simp: Some q)
  qed
qed simp

lemma mf_start_ok [simp]: "mf_ok size_of mf_start"
  by (simp add: mf_ok_def mf_start_def holds_cell_def)

lemma slots_start [simp]: "slots_of size_of mf_start = []"
  by (simp add: slots_of_def mf_start_def)

subsection \<open>The property\<close>

text \<open>
  C19: A movable function object is a slot. Whatever a program does with its variables - constructing,
  moving, assigning, also to themselves, calling, ending them - it sees the results it would see if
  every variable simply held its callable or nothing: a moved-from variable is empty, and a call of an
  empty one throws and does nothing else. Nothing undefined happens, every callable in memory is held
  by exactly one living variable, and so once no variable is alive none is left: callables are
  destroyed exactly once, for any sizes on either side of the small buffer.
\<close>

theorem MoveFunc_refines_slots:
  "map_option (map_prod (slots_of size_of) id) (mf_run size_of app ps mf_start) = slot_run app ps [] \<and>
   (\<forall>m rs. mf_run size_of app ps mf_start = Some (m, rs) \<longrightarrow>
      \<not> mf_broken (mem m) \<and>
      (\<forall>i c. slot_at i (cells (mem m)) = Some c \<longrightarrow> (\<exists>!v. holds_cell size_of m v i)) \<and>
      ((\<forall>v. slot_at v (mvars m) = None) \<longrightarrow> (\<forall>c \<in> set (cells (mem m)). c = None)))"
proof -
  note run = mf_run_refines [OF mf_start_ok, of size_of app ps]
  have "\<not> mf_broken (mem m) \<and>
      (\<forall>i c. slot_at i (cells (mem m)) = Some c \<longrightarrow> (\<exists>!v. holds_cell size_of m v i)) \<and>
      ((\<forall>v. slot_at v (mvars m) = None) \<longrightarrow> (\<forall>c \<in> set (cells (mem m)). c = None))"
    if "mf_run size_of app ps mf_start = Some (m, rs)" for m rs
  proof -
    have ok: "mf_ok size_of m" using run that by blast
    have "\<exists>!v. holds_cell size_of m v i" if "slot_at i (cells (mem m)) = Some c" for i c
      using ok that unfolding mf_ok_def by blast
    moreover have "c = None" if dead: "\<forall>v. slot_at v (mvars m) = None" and c: "c \<in> set (cells (mem m))" for c
    proof (rule ccontr)
      assume "c \<noteq> None"
      then obtain d where "c = Some d" by blast
      moreover obtain i where "i < length (cells (mem m))" "cells (mem m) ! i = c"
        using c by (auto simp: in_set_conv_nth)
      ultimately have "slot_at i (cells (mem m)) = Some d" by (simp add: slot_at_def)
      with ok dead show False by (cases d) (auto simp: mf_ok_def holds_cell_def)
    qed
    ultimately show ?thesis using ok by (auto simp: mf_ok_def)
  qed
  with run show ?thesis by simp
qed

subsection \<open>An example\<close>

text \<open>A counter that fits the buffer (8 bytes) and one that does not (64 bytes).\<close>

definition counter_size :: "nat \<Rightarrow> nat" where
  "counter_size t = (if t = 0 then 8 else 64)"

definition counter_app :: "(nat, nat, nat, nat) applies" where
  "counter_app t x a = (x + a, Suc x)"

definition counter_prog :: "(nat, nat, nat) mf_op list" where
  "counter_prog = [New_from 0 5, New_from 1 7, New_empty, Assign_move 2 0, Call_var 0 1, Call_var 2 1, New_move 1,
     Assign_move 2 3, Call_var 2 1, Assign_move 2 2, Call_var 2 1, End_var 0, End_var 1, End_var 2, End_var 3]"

lemma counter_runs:
  "mf_run counter_size counter_app counter_prog mf_start =
     Some (\<lparr>mem = \<lparr>cells = [None, None, None], mf_broken = False\<rparr>, mvars = [None, None, None, None]\<rparr>,
       [None, None, None, None, Some (Inl InvalidMoveFuncCall), Some (Inr 6), None, None, Some (Inr 8), None, Some (Inr 9),
        None, None, None, None])"
  by code_simp

theorem MoveFunc_refines_slots_witness:
  "\<exists>m rs. mf_run counter_size counter_app counter_prog mf_start = Some (m, rs) \<and> \<not> mf_broken (mem m) \<and>
     (\<forall>c \<in> set (cells (mem m)). c = None) \<and>
     slot_run counter_app counter_prog [] = Some ([None, None, None, None], rs)"
proof -
  note run = counter_runs
  have "\<not> mf_broken (mem m) \<and> (\<forall>c \<in> set (cells (mem m)). c = None)"
    if "mf_run counter_size counter_app counter_prog mf_start = Some (m, rs)" for m rs
    using MoveFunc_refines_slots [of counter_size counter_app counter_prog] that
    by (auto simp: run slot_at_def nth_Cons split: nat.splits)
  moreover have "slot_run counter_app counter_prog [] =
      map_option (map_prod (slots_of counter_size) id) (mf_run counter_size counter_app counter_prog mf_start)"
    using MoveFunc_refines_slots [of counter_size counter_app counter_prog] by simp
  ultimately show ?thesis by (simp add: run slots_of_def)
qed

text \<open>
  \<^verbatim>\<open>std::swap\<close> moves through a temporary, here the next variable. It exchanges what the two hold, but a
  small callable ends up in another place: the object that was called through the variable before is
  destroyed by the exchange.
\<close>

definition swap_prog :: "nat \<Rightarrow> nat \<Rightarrow> nat \<Rightarrow> ('t, 's, 'a) mf_op list" where
  "swap_prog a b tmp = [New_move a, Assign_move a b, Assign_move b tmp, End_var tmp]"

lemma swap_slots:
  assumes "slot_at a s = Some x" and "slot_at b s = Some y" and "a \<noteq> b"
  shows "slot_run app (swap_prog a b (length s)) s = Some (s[a := Some y, b := Some x] @ [None], [None, None, None, None])"
  using assms(3) slot_at_bound [OF assms(1)] slot_at_bound [OF assms(2)]
  by (simp add: swap_prog_def assms(1,2) list_update_append)

lemma swap_destroys_small:
  "map_option (\<lambda>(m, _). (slot_at 0 (cells (mem m)), slots_of counter_size m))
     (mf_run counter_size counter_app ([New_from 0 5, New_from 0 7] @ swap_prog 0 1 2) mf_start) =
   Some (None, [Some (Some (0, 7)), Some (Some (0, 5)), None])"
  by code_simp

lemma swap_keeps_big:
  "map_option (\<lambda>(m, _). (slot_at 0 (cells (mem m)), slots_of counter_size m))
     (mf_run counter_size counter_app ([New_from 1 5, New_from 1 7] @ swap_prog 0 1 2) mf_start) =
   Some (Some (1, 5), [Some (Some (1, 7)), Some (Some (1, 5)), None])"
  by code_simp

end
