(* ===== verification/Signal_Slot.thy ===== *)
theory Signal_Slot
  imports Move_Func "HOL-Library.Multiset"
begin

text \<open>
  \<^verbatim>\<open>Signal<T>\<close> (\<^verbatim>\<open>include/future/signal.hpp\<close>): one callback behind a mutex, called directly or by a job given
  to an executor (\<^verbatim>\<open>include/future/executor.hpp\<close>). The callback is the slot that \<^verbatim>\<open>MoveFunc\<close> implements
  (\<^verbatim>\<open>MoveFunc_refines_slots\<close>).

  \<^verbatim>\<open>Invoke\<close> and the two \<^verbatim>\<open>operator()\<close> hold the mutex from begin to end, so each is one step. A job holds
  the shared \<^verbatim>\<open>Impl\<close> and its value but takes no lock: it is a step of its own, which reads the callback
  that is set when it runs. Which of its answers an executor gives is up to it and is part of the step.
\<close>

subsection \<open>Executors\<close>

datatype exec_status = Defer | Cancel | Done

text \<open>\<^verbatim>\<open>StoppableExecutor::Execute\<close>: it runs the job or, once stopped, drops it.\<close>

definition Stoppable_Execute :: "bool \<Rightarrow> exec_status" where
  "Stoppable_Execute dead = (if dead then Cancel else Done)"

subsection \<open>State and operations\<close>

record ('c, 'v) signal =
  sig_func :: "'c option" \<comment> \<open>\<^verbatim>\<open>impl->func\<close>\<close>
  sig_exec :: "nat option"
  deferred :: "(nat \<times> 'v) list" \<comment> \<open>jobs the executors still hold\<close>
  sig_called :: "('c \<times> 'v) list" \<comment> \<open>calls made so far, the latest first\<close>
  refused :: "'v list" \<comment> \<open>values of jobs that found no callback: \<^verbatim>\<open>InvalidMoveFuncCall\<close>\<close>
  sig_dropped :: "'v list" \<comment> \<open>values of jobs an executor did not run\<close>
  dead :: bool \<comment> \<open>\<^verbatim>\<open>std::terminate\<close>: an exception left a \<^verbatim>\<open>noexcept\<close> function\<close>

definition Signal_new :: "('c, 'v) signal" where
  "Signal_new = \<lparr>sig_func = None, sig_exec = None, deferred = [], sig_called = [], refused = [], sig_dropped = [], dead = False\<rparr>"

text \<open>\<^verbatim>\<open>impl->func(std::move(value))\<close>, with whether it throws.\<close>

definition call_func :: "('c \<Rightarrow> 'v \<Rightarrow> bool) \<Rightarrow> 'v \<Rightarrow> ('c, 'v) signal \<Rightarrow> ('c, 'v) signal \<times> bool" where
  "call_func throws v s =
     (case sig_func s of
        None \<Rightarrow> (s\<lparr>refused := v # refused s\<rparr>, True)
      | Some c \<Rightarrow> (s\<lparr>sig_called := (c, v) # sig_called s\<rparr>, throws c v))"

definition noexcept_call :: "('c \<Rightarrow> 'v \<Rightarrow> bool) \<Rightarrow> 'v \<Rightarrow> ('c, 'v) signal \<Rightarrow> ('c, 'v) signal" where
  "noexcept_call throws v s = (let (s', t) = call_func throws v s in if t then s'\<lparr>dead := True\<rparr> else s')"

definition sig_Execute :: "('c \<Rightarrow> 'v \<Rightarrow> bool) \<Rightarrow> nat \<Rightarrow> exec_status \<Rightarrow> 'v \<Rightarrow> ('c, 'v) signal \<Rightarrow> ('c, 'v) signal" where
  "sig_Execute throws e d v s =
     (case d of
        Defer \<Rightarrow> s\<lparr>deferred := deferred s @ [(e, v)]\<rparr>
      | Cancel \<Rightarrow> s\<lparr>sig_dropped := v # sig_dropped s\<rparr>
      | Done \<Rightarrow> noexcept_call throws v s)"

definition Invoke :: "('c \<Rightarrow> 'v \<Rightarrow> bool) \<Rightarrow> exec_status \<Rightarrow> 'v \<Rightarrow> ('c, 'v) signal \<Rightarrow> ('c, 'v) signal \<times> bool" where
  "Invoke throws d v s =
     (if sig_func s = None then (s, False)
      else (case sig_exec s of
          Some e \<Rightarrow> (sig_Execute throws e d v s, True)
        | None \<Rightarrow> (noexcept_call throws v s, True)))"

definition subscribe_on :: "nat option \<Rightarrow> 'c option \<Rightarrow> ('c, 'v) signal \<Rightarrow> ('c, 'v) signal" where
  "subscribe_on e cb s = s\<lparr>sig_func := cb, sig_exec := e\<rparr>"

definition subscribe :: "'c option \<Rightarrow> ('c, 'v) signal \<Rightarrow> ('c, 'v) signal" where
  "subscribe cb s = s\<lparr>sig_func := cb, sig_exec := None\<rparr>"

text \<open>
  An executor takes a job it was given, in any order, and runs or drops it. What a job throws is the
  executor's to handle.
\<close>

definition take_job :: "nat \<Rightarrow> ('c, 'v) signal \<Rightarrow> ('v \<times> ('c, 'v) signal) option" where
  "take_job i s =
     (if i < length (deferred s) then
        Some (snd (deferred s ! i), s\<lparr>deferred := take i (deferred s) @ drop (Suc i) (deferred s)\<rparr>)
      else None)"

datatype ('c, 'v) sig_op = OpInvoke exec_status 'v | OpSubscribe_on "nat option" "'c option"
  | OpSubscribe "'c option" | OpRun nat | OpDrop nat

fun sig_step :: "('c \<Rightarrow> 'v \<Rightarrow> bool) \<Rightarrow> ('c, 'v) sig_op \<Rightarrow> ('c, 'v) signal \<Rightarrow> ('c, 'v) signal \<times> bool option" where
  "sig_step throws (OpInvoke d v) s = (if dead s then (s, None) else map_prod id Some (Invoke throws d v s))"
| "sig_step throws (OpSubscribe_on e cb) s = (if dead s then s else subscribe_on e cb s, None)"
| "sig_step throws (OpSubscribe cb) s = (if dead s then s else subscribe cb s, None)"
| "sig_step throws (OpRun i) s =
     (if dead s then s else case take_job i s of None \<Rightarrow> s | Some (v, s') \<Rightarrow> fst (call_func throws v s'), None)"
| "sig_step throws (OpDrop i) s =
     (if dead s then s else case take_job i s of None \<Rightarrow> s | Some (v, s') \<Rightarrow> s'\<lparr>sig_dropped := v # sig_dropped s'\<rparr>, None)"

text \<open>The values that \<^verbatim>\<open>Invoke\<close> answered with true, in the second component.\<close>

definition accepted :: "('c, 'v) sig_op \<Rightarrow> bool option \<Rightarrow> 'v list" where
  "accepted p r = (case p of OpInvoke _ v \<Rightarrow> if r = Some True then [v] else [] | _ \<Rightarrow> [])"

fun sig_run :: "('c \<Rightarrow> 'v \<Rightarrow> bool) \<Rightarrow> ('c, 'v) sig_op list \<Rightarrow> ('c, 'v) signal \<Rightarrow> ('c, 'v) signal \<times> 'v list" where
  "sig_run throws [] s = (s, [])"
| "sig_run throws (p # ps) s =
     (let (s1, r) = sig_step throws p s; (s2, vs) = sig_run throws ps s1 in (s2, accepted p r @ vs))"

subsection \<open>Accounting\<close>

text \<open>Where the values a signal took are.\<close>

definition accounted :: "('c, 'v) signal \<Rightarrow> 'v multiset" where
  "accounted s = mset (map snd (deferred s)) + mset (map snd (sig_called s)) + mset (refused s) + mset (sig_dropped s)"

lemma accounted_call [simp]:
  "accounted (fst (call_func throws v s)) = accounted s + {#v#}"
  "accounted (noexcept_call throws v s) = accounted s + {#v#}"
  by (auto simp: accounted_def call_func_def noexcept_call_def split: option.splits)

lemma accounted_sig_Execute [simp]: "accounted (sig_Execute throws e d v s) = accounted s + {#v#}"
  by (cases d) (simp_all add: sig_Execute_def, simp_all add: accounted_def)

lemma accounted_Invoke:
  "Invoke throws d v s = (s', b) \<Longrightarrow> accounted s' = accounted s + (if b then {#v#} else {#})"
  by (auto simp: Invoke_def split: if_splits option.splits)

lemma accounted_take: "take_job i s = Some (v, s') \<Longrightarrow> accounted s = accounted s' + {#v#}"
proof -
  assume t: "take_job i s = Some (v, s')"
  then have i: "i < length (deferred s)" by (auto simp: take_job_def split: if_splits)
  then have "mset (deferred s) = mset (take i (deferred s) @ drop (Suc i) (deferred s)) + {#deferred s ! i#}"
    by (metis id_take_nth_drop mset_append mset.simps(2) add_mset_add_single union_mset_add_mset_right)
  then have "image_mset snd (mset (deferred s)) =
      image_mset snd (mset (take i (deferred s) @ drop (Suc i) (deferred s)) + {#deferred s ! i#})"
    by (rule arg_cong)
  with t i show ?thesis by (auto simp: accounted_def take_job_def)
qed

lemma accounted_step:
  "sig_step throws p s = (s', r) \<Longrightarrow> accounted s' = accounted s + mset (accepted p r)"
proof (cases p)
  case (OpInvoke d v)
  assume "sig_step throws p s = (s', r)"
  with OpInvoke show ?thesis
    by (cases "Invoke throws d v s") (auto simp: accepted_def dest: accounted_Invoke split: if_splits)
next
  case (OpSubscribe_on e cb)
  assume "sig_step throws p s = (s', r)"
  with OpSubscribe_on show ?thesis by (auto simp: accepted_def accounted_def subscribe_on_def)
next
  case (OpSubscribe cb)
  assume "sig_step throws p s = (s', r)"
  with OpSubscribe show ?thesis by (auto simp: accepted_def accounted_def subscribe_def)
next
  case (OpRun i)
  assume "sig_step throws p s = (s', r)"
  with OpRun show ?thesis
    by (auto simp: accepted_def split: if_splits option.splits dest!: accounted_take)
next
  case (OpDrop i)
  assume "sig_step throws p s = (s', r)"
  moreover have "accounted (q\<lparr>sig_dropped := v # sig_dropped q\<rparr>) = accounted q + {#v#}" for q :: "('a, 'b) signal" and v
    by (simp add: accounted_def)
  ultimately show ?thesis using OpDrop
    by (auto simp: accepted_def split: if_splits option.splits dest!: accounted_take)
qed

lemma accounted_run: "sig_run throws ps s = (s', vs) \<Longrightarrow> accounted s' = accounted s + mset vs"
proof (induction ps arbitrary: s s' vs)
  case (Cons p ps)
  obtain s1 r where 1: "sig_step throws p s = (s1, r)" by (metis surj_pair)
  obtain s2 ws where 2: "sig_run throws ps s1 = (s2, ws)" by (metis surj_pair)
  from Cons.prems Cons.IH [OF 2] accounted_step [OF 1] show ?case by (auto simp: 1 2)
qed simp

subsection \<open>When nothing is refused, dropped or deferred\<close>

fun subscribes_empty :: "('c, 'v) sig_op \<Rightarrow> bool" where
  "subscribes_empty (OpSubscribe_on _ cb) \<longleftrightarrow> cb = None"
| "subscribes_empty (OpSubscribe cb) \<longleftrightarrow> cb = None"
| "subscribes_empty _ \<longleftrightarrow> False"

fun drops :: "('c, 'v) sig_op \<Rightarrow> bool" where
  "drops (OpInvoke d _) \<longleftrightarrow> d = Cancel"
| "drops (OpDrop _) \<longleftrightarrow> True"
| "drops _ \<longleftrightarrow> False"

fun uses_executor :: "('c, 'v) sig_op \<Rightarrow> bool" where
  "uses_executor (OpSubscribe_on e _) \<longleftrightarrow> e \<noteq> None"
| "uses_executor _ \<longleftrightarrow> False"

text \<open>Once a callback is set it stays one, and before that there is no job.\<close>

definition served :: "('c, 'v) signal \<Rightarrow> bool" where
  "served s \<longleftrightarrow> refused s = [] \<and> (sig_func s = None \<longrightarrow> deferred s = [])"

definition immediate :: "('c, 'v) signal \<Rightarrow> 'v list \<Rightarrow> bool" where
  "immediate s vs \<longleftrightarrow> sig_exec s = None \<and> deferred s = [] \<and> refused s = [] \<and> sig_dropped s = [] \<and> map snd (sig_called s) = rev vs"

lemmas signal_defs = Invoke_def sig_Execute_def noexcept_call_def call_func_def subscribe_on_def subscribe_def take_job_def

lemma served_step:
  "served s \<Longrightarrow> \<not> subscribes_empty p \<Longrightarrow> served (fst (sig_step throws p s))"
  by (cases p) (auto simp: served_def signal_defs split: option.splits exec_status.splits)

lemma dropped_step:
  "sig_dropped s = [] \<Longrightarrow> \<not> drops p \<Longrightarrow> sig_dropped (fst (sig_step throws p s)) = []"
  by (cases p) (auto simp: signal_defs split: option.splits exec_status.splits)

lemma immediate_step:
  "immediate s vs \<Longrightarrow> \<not> uses_executor p \<Longrightarrow> sig_step throws p s = (s', r) \<Longrightarrow> immediate s' (vs @ accepted p r)"
  by (cases p) (auto simp: immediate_def accepted_def signal_defs split: option.splits if_splits)

lemma sig_run_invariant:
  assumes "\<And>p s. p \<in> set ps \<Longrightarrow> I s \<Longrightarrow> I (fst (sig_step throws p s))" and "I s"
  shows "I (fst (sig_run throws ps s))"
  using assms
proof (induction ps arbitrary: s)
  case (Cons p ps)
  then have "I (fst (sig_run throws ps (fst (sig_step throws p s))))" by simp
  then show ?case by (simp add: split_beta)
qed simp

lemma immediate_run:
  "immediate s vs \<Longrightarrow> \<forall>p \<in> set ps. \<not> uses_executor p \<Longrightarrow> sig_run throws ps s = (s', ws) \<Longrightarrow>
   immediate s' (vs @ ws)"
proof (induction ps arbitrary: s vs ws s')
  case (Cons p ps)
  obtain s1 r where 1: "sig_step throws p s = (s1, r)" by (metis surj_pair)
  obtain s2 us where 2: "sig_run throws ps s1 = (s2, us)" by (metis surj_pair)
  have "immediate s1 (vs @ accepted p r)" by (rule immediate_step [OF Cons.prems(1) _ 1]) (use Cons.prems(2) in simp)
  then have "immediate s2 ((vs @ accepted p r) @ us)"
    by (rule Cons.IH) (use Cons.prems(2) 2 in simp_all)
  with Cons.prems(3) show ?case by (auto simp: 1 2)
qed simp

subsection \<open>The property\<close>

text \<open>
  A signal keeps count of its values. \<^verbatim>\<open>Invoke\<close> answers false exactly when there is no callback, and then
  nothing happens; every value it answered with true has reached a callback, waits in an executor, was
  dropped by one, or met an empty callback and raised \<^verbatim>\<open>InvalidMoveFuncCall\<close> there: each exactly once. No
  value is refused unless someone subscribes an empty callback, none is dropped unless an executor does,
  and without executors the callbacks get the values at once, in the order of the calls.
\<close>

theorem Signal_accounts:
  assumes "sig_run throws ps Signal_new = (s, vs)"
  shows "mset vs = mset (map snd (deferred s)) + mset (map snd (sig_called s)) + mset (refused s) + mset (sig_dropped s) \<and>
    (\<forall>d v. (snd (Invoke throws d v s) \<longleftrightarrow> sig_func s \<noteq> None) \<and> (sig_func s = None \<longrightarrow> fst (Invoke throws d v s) = s)) \<and>
    ((\<forall>p \<in> set ps. \<not> subscribes_empty p) \<longrightarrow> refused s = []) \<and>
    ((\<forall>p \<in> set ps. \<not> drops p) \<longrightarrow> sig_dropped s = []) \<and>
    ((\<forall>p \<in> set ps. \<not> uses_executor p) \<longrightarrow> map snd (sig_called s) = rev vs)"
proof (intro conjI impI)
  show "mset vs = mset (map snd (deferred s)) + mset (map snd (sig_called s)) + mset (refused s) + mset (sig_dropped s)"
    using accounted_run [OF assms] by (simp add: accounted_def Signal_new_def)
  show "\<forall>d v. (snd (Invoke throws d v s) \<longleftrightarrow> sig_func s \<noteq> None) \<and> (sig_func s = None \<longrightarrow> fst (Invoke throws d v s) = s)"
    by (auto simp: Invoke_def split: option.splits)
next
  assume "\<forall>p \<in> set ps. \<not> subscribes_empty p"
  then have "served (fst (sig_run throws ps Signal_new))"
    by (intro sig_run_invariant [where I = served] served_step) (simp_all add: served_def Signal_new_def)
  then show "refused s = []" by (simp add: assms served_def)
next
  assume "\<forall>p \<in> set ps. \<not> drops p"
  then have "sig_dropped (fst (sig_run throws ps Signal_new)) = []"
    by (intro sig_run_invariant [where I = "\<lambda>s. sig_dropped s = []"] dropped_step) (simp_all add: Signal_new_def)
  then show "sig_dropped s = []" by (simp add: assms)
next
  assume "\<forall>p \<in> set ps. \<not> uses_executor p"
  from immediate_run [OF _ this assms, of "[]"] show "map snd (sig_called s) = rev vs"
    by (simp add: immediate_def Signal_new_def)
qed

text \<open>
  Two values are invoked for the first callback through an executor that defers; before the jobs run the
  second callback is subscribed, then nothing. The second callback gets the first value, the other value
  is refused.
\<close>

definition late_ops :: "(string, nat) sig_op list" where
  "late_ops = [OpInvoke Defer 0, OpSubscribe_on (Some 0) (Some ''first''), OpInvoke Defer 1, OpInvoke Defer 2,
     OpSubscribe (Some ''second''), OpRun 0, OpInvoke Defer 3, OpSubscribe None, OpRun 0, OpInvoke Defer 4]"

lemma late_run:
  "sig_run (\<lambda>_ _. False) late_ops Signal_new =
     (\<lparr>sig_func = None, sig_exec = None, deferred = [], sig_called = [(''second'', 3), (''second'', 1)], refused = [2],
       sig_dropped = [], dead = False\<rparr>, [1, 2, 3])"
  by code_simp

theorem Signal_accounts_witness:
  "\<exists>s. sig_run (\<lambda>_ _. False) late_ops Signal_new = (s, [1, 2, 3]) \<and> refused s = [2] \<and> sig_dropped s = [] \<and>
     mset [1, 2, 3] = mset (map snd (deferred s)) + mset (map snd (sig_called s)) + mset (refused s) + mset (sig_dropped s)"
  using Signal_accounts [OF late_run] by (simp add: late_run)

text \<open>\<^verbatim>\<open>Invoke\<close> answers true although a stopped executor drops the value.\<close>

lemma stopped_executor_loses:
  "let (s, b) = Invoke throws (Stoppable_Execute True) v (subscribe_on (Some e) (Some c) Signal_new) in
   b \<and> sig_called s = [] \<and> deferred s = [] \<and> sig_dropped s = [v]"
  by (simp add: Invoke_def sig_Execute_def Stoppable_Execute_def subscribe_on_def Signal_new_def)

text \<open>A callback that throws ends the process: \<^verbatim>\<open>Invoke\<close> is \<^verbatim>\<open>noexcept\<close>.\<close>

lemma throwing_callback_terminates:
  "throws c v \<Longrightarrow> dead (fst (Invoke throws d v (subscribe (Some c) Signal_new)))"
  by (simp add: Invoke_def noexcept_call_def call_func_def subscribe_def Signal_new_def)

end
