(* ===== verification/Gen_Ast.thy ===== *)
theory Gen_Ast
  imports Ordered_Map
begin

text \<open>
  The data of the code generator (\<^verbatim>\<open>codegen/include/codegen.hpp\<close>): namespaces, builtin kinds, the type
  variants of the AST, default values, methods and notifications; the values the Lua front end
  leaves on the Lua stack, with the accesses the generator makes to them; errors as values.

  A \<^verbatim>\<open>Type\<close> is a pointer to a \<^verbatim>\<open>TypeVariant\<close>. Every variant is allocated by
  \<^verbatim>\<open>registerIfNeeded(new TypeVariant{..})\<close>, which pushes it to \<^verbatim>\<open>ast.types\<close>, or is the one static
  variant of its builtin kind. So a pointer is null, a builtin, or a position in \<^verbatim>\<open>ast.types\<close>, and the
  list \<^verbatim>\<open>types\<close> of the model is at once the vector and the heap it points into. The variants are
  one datatype over the type of the references to the item types: with \<^verbatim>\<open>tref\<close> they are heap cells,
  and their closure is the tree of types that a pointer denotes.
\<close>

subsection \<open>Errors\<close>

text \<open>
  \<^verbatim>\<open>Err\<close> is the \<^verbatim>\<open>std::runtime_error\<close> of the code. A Lua error raised outside a protected call
  (indexing a value that is not a table) ends the process and no C++ handler sees it. The last
  constructor stands for undefined behaviour the code runs into: a null or dangling \<^verbatim>\<open>Type\<close> read, an
  index out of range.
\<close>

datatype gen_fail = Err string | Lua_panic | Undefined

definition gbind :: "gen_fail + 'a \<Rightarrow> ('a \<Rightarrow> gen_fail + 'b) \<Rightarrow> gen_fail + 'b" where
  "gbind m f = (case m of Inl e \<Rightarrow> Inl e | Inr x \<Rightarrow> f x)"

text \<open>\<^verbatim>\<open>catch (std::exception& e) { throw Err(..e.what()..); }\<close>\<close>

definition rethrow :: "(string \<Rightarrow> string) \<Rightarrow> gen_fail + 'a \<Rightarrow> gen_fail + 'a" where
  "rethrow f m = (case m of Inl (Err e) \<Rightarrow> Inl (Err (f e)) | _ \<Rightarrow> m)"

lemma gbind_simps [simp]: "gbind (Inl e) f = Inl e" "gbind (Inr x) f = f x"
  by (simp_all add: gbind_def)

lemma gbind_cong [fundef_cong]:
  "m = m' \<Longrightarrow> (\<And>x. m' = Inr x \<Longrightarrow> f x = f' x) \<Longrightarrow> gbind m f = gbind m' f'"
  by (cases m') (simp_all add: gbind_def)

lemma gbind_Inr_iff: "gbind m f = Inr y \<longleftrightarrow> (\<exists>x. m = Inr x \<and> f x = Inr y)"
  by (cases m) simp_all

lemma gbind_InrE:
  assumes "gbind m f = Inr y"
  obtains x where "m = Inr x" and "f x = Inr y"
  using assms by (auto simp: gbind_Inr_iff)

lemma rethrow_simps [simp]:
  "rethrow g (Inr x) = Inr x" "rethrow g (Inl (Err e)) = Inl (Err (g e))"
  "rethrow g (Inl Lua_panic) = Inl Lua_panic" "rethrow g (Inl Undefined) = Inl Undefined"
  by (simp_all add: rethrow_def)

lemma rethrow_Inl: "rethrow g (Inl e) = Inl (case e of Err m \<Rightarrow> Err (g m) | _ \<Rightarrow> e)"
  by (simp add: rethrow_def split: gen_fail.splits)

lemma rethrow_Inr_iff [simp]: "rethrow g m = Inr x \<longleftrightarrow> m = Inr x"
  by (auto simp: rethrow_def split: sum.splits gen_fail.splits)

text \<open>The text \<^verbatim>\<open>"\n =>\t"\<close> between the lines of an error.\<close>

definition arrow :: string where
  "arrow = [CHR 0x0A] @ '' =>'' @ [CHR 0x09]"

subsection \<open>Namespaces and builtins\<close>

record namespace =
  sourceFile :: string
  ns_name :: string
  part :: string
  ns_depth :: int

text \<open>\<^verbatim>\<open>operator<\<close> compares the tuples \<^verbatim>\<open>rank()\<close>.\<close>

definition ns_less :: "namespace \<Rightarrow> namespace \<Rightarrow> bool" where
  "ns_less a b \<longleftrightarrow>
     sourceFile a < sourceFile b \<or> sourceFile a = sourceFile b \<and>
     (ns_name a < ns_name b \<or> ns_name a = ns_name b \<and>
      (part a < part b \<or> part a = part b \<and> ns_depth a < ns_depth b))"

record type_base =
  base_ns :: namespace
  base_name :: string

datatype kind = Invalid | KBool | KInt8 | KUint8 | KInt16 | KUint16 | KInt32 | KUint32 | KInt64
  | KUint64 | KFloat | KDouble | KString | KString_View | KBinary | KBinary_View | KJson
  | KJson_View | KVoid

text \<open>\<^verbatim>\<open>populateBuiltins\<close> of \<^verbatim>\<open>codegen.cpp\<close>: the names, each with the variant it points to.\<close>

definition populateBuiltins :: "(string \<times> kind) list" where
  "populateBuiltins =
    [(''void'', KVoid), (''noreturn'', KVoid), (''nothing'', KVoid),
     (''binary'', KBinary), (''binary_view'', KBinary_View),
     (''json'', KJson), (''json_view'', KJson_View),
     (''boolean'', KBool), (''bool'', KBool),
     (''string_view'', KString_View), (''string'', KString), (''str'', KString),
     (''uint64'', KUint64), (''u64'', KUint64),
     (''uint32'', KUint32), (''u32'', KUint32), (''uint'', KUint32),
     (''uint16'', KUint16), (''u16'', KUint16), (''uint8'', KUint8), (''u8'', KUint8),
     (''int64'', KInt64), (''i64'', KInt64),
     (''int32'', KInt32), (''i32'', KInt32), (''int'', KInt32),
     (''int16'', KInt16), (''i16'', KInt16), (''int8'', KInt8), (''i8'', KInt8),
     (''double'', KDouble), (''number'', KDouble), (''f64'', KDouble),
     (''float'', KFloat), (''f32'', KFloat)]"

subsection \<open>Default values\<close>

text \<open>\<^verbatim>\<open>def::Variant\<close>; a table is a \<^verbatim>\<open>std::map\<close>, kept as the list of its entries in key order.\<close>

datatype def_value = DNil | DInt int | DNum u64 | DStr string | DBool bool
  | DTable "(string \<times> def_value) list" | DArr "def_value list"

subsection \<open>Types\<close>

text \<open>A set of attributes is the strictly increasing list of its names (\<^verbatim>\<open>std::set<Attr>\<close>).\<close>

fun set_put :: "string \<Rightarrow> string list \<Rightarrow> string list" where
  "set_put a [] = [a]"
| "set_put a (b # bs) = (if a < b then a # b # bs else if a = b then b # bs else b # set_put a bs)"

lemma set_put_set [simp]: "set (set_put a bs) = insert a (set bs)"
  by (induction a bs rule: set_put.induct) auto

lemma set_put_sorted: "sorted_wrt (<) bs \<Longrightarrow> sorted_wrt (<) (set_put a bs)"
  by (induction a bs rule: set_put.induct) (auto intro: less_trans)

datatype 'r type_variant =
    Enum type_base "string list" "(string \<times> int option) list"
  | Struct type_base "string list" "(string \<times> 'r) list"
  | Arr type_base 'r
  | Mapping type_base 'r
  | Opt type_base 'r
  | Alias type_base 'r
  | WithDefault type_base 'r def_value
  | WithAttrs type_base 'r "string list"

datatype tref = Null | Builtin kind | At nat

text \<open>The types that references denote.\<close>

datatype ty = TBuiltin kind | TNode "ty type_variant"

fun GetBase :: "'r type_variant \<Rightarrow> type_base" where
  "GetBase (Enum b _ _) = b"
| "GetBase (Struct b _ _) = b"
| "GetBase (Arr b _) = b"
| "GetBase (Mapping b _) = b"
| "GetBase (Opt b _) = b"
| "GetBase (Alias b _) = b"
| "GetBase (WithDefault b _ _) = b"
| "GetBase (WithAttrs b _ _) = b"

lemma GetBase_map [simp]: "GetBase (map_type_variant f x) = GetBase x"
  by (cases x) simp_all

subsection \<open>Methods, notifications and the AST\<close>

datatype params = ParamsArray "tref list" | ParamsNamed "(string \<times> tref) list" | ParamsPack tref

record notify_sig =
  service :: string
  call_name :: string
  call_params :: params

record method_sig = notify_sig +
  returns :: tref
  timeout :: nat
  async :: bool

record gen_ast =
  savedTypes :: "namespace \<times> string \<Rightarrow> tref option"
  types :: "tref type_variant list"
  notifies :: "notify_sig list"
  methods :: "method_sig list"

definition new_ast :: gen_ast where
  "new_ast = \<lparr>savedTypes = (\<lambda>_. None), types = [], notifies = [], methods = []\<rparr>"

subsection \<open>Lua values\<close>

text \<open>
  The values the generator reads: a number is an integer or a double, a table the list of its
  entries in the order in which \<^verbatim>\<open>lua_next\<close> visits them, any other value (function, userdata, thread)
  is known by the name of its type. The tables the front end hands over form trees: its types are
  built from types that exist already. They carry no \<^verbatim>\<open>__index\<close> metamethod, apart from the table
  \<^verbatim>\<open>types\<close> of a namespace, which is only iterated, so \<^verbatim>\<open>lua_getfield\<close> is a raw access.
\<close>

datatype lua = LNil | LBool bool | LInt int | LNum u64 | LStr string
  | LTable "(lua \<times> lua) list" | LOther string

fun luaL_typename :: "lua \<Rightarrow> string" where
  "luaL_typename LNil = ''nil''"
| "luaL_typename (LBool _) = ''boolean''"
| "luaL_typename (LInt _) = ''number''"
| "luaL_typename (LNum _) = ''number''"
| "luaL_typename (LStr _) = ''string''"
| "luaL_typename (LTable _) = ''table''"
| "luaL_typename (LOther n) = n"

text \<open>Indexing a string finds the functions of the string library, indexing other values raises.\<close>

definition string_library :: "string list" where
  "string_library = [''byte'', ''char'', ''dump'', ''find'', ''format'', ''gmatch'', ''gsub'', ''len'',
     ''lower'', ''match'', ''pack'', ''packsize'', ''rep'', ''reverse'', ''sub'', ''unpack'', ''upper'']"

fun lua_getfield :: "lua \<Rightarrow> string \<Rightarrow> gen_fail + lua" where
  "lua_getfield (LTable kvs) k =
     Inr (case map_of kvs (LStr k) of Some v \<Rightarrow> v | None \<Rightarrow> LNil)"
| "lua_getfield (LStr _) k =
     Inr (if k \<in> set string_library then LOther ''function'' else LNil)"
| "lua_getfield _ _ = Inl Lua_panic"

fun lua_toboolean :: "lua \<Rightarrow> bool" where
  "lua_toboolean LNil = False"
| "lua_toboolean (LBool b) = b"
| "lua_toboolean _ = True"

text \<open>A measure of Lua values: what a field access finds is smaller than the value it reads.\<close>

fun lua_size :: "lua \<Rightarrow> nat" where
  "lua_size (LTable kvs) = Suc (sum_list (map (\<lambda>(k, v). Suc (lua_size k + lua_size v)) kvs))"
| "lua_size (LStr _) = 1"
| "lua_size _ = 0"

lemma lua_size_entry: "(k, v) \<in> set kvs \<Longrightarrow> lua_size v < lua_size (LTable kvs)"
  by (induction kvs) (auto simp: less_Suc_eq_le trans_le_add1 trans_le_add2)

lemma lua_getfield_size: "lua_getfield v k = Inr x \<Longrightarrow> lua_size x < lua_size v"
proof (induction v k rule: lua_getfield.induct)
  case (1 kvs k)
  show ?case
  proof (cases "map_of kvs (LStr k)")
    case None
    with 1 show ?thesis by auto
  next
    case (Some y)
    with 1 have "(LStr k, x) \<in> set kvs" by (auto dest: map_of_SomeD)
    then show ?thesis by (rule lua_size_entry)
  qed
qed (auto split: if_splits)

end
