(* ===== verification/Gen_Populate.thy ===== *)
theory Gen_Populate
  imports Gen_Ast
begin

text \<open>
  Filling the AST from the values of the Lua front end (\<^verbatim>\<open>codegen/src/populate.cpp\<close>): types are
  resolved depth first, each registered under its namespace and name, and found again by that name;
  methods and notifications refer to the resolved types.

  A function of the code that works on the top of the Lua stack takes that value as its argument;
  the stack is as deep after as before (what \<^verbatim>\<open>iterateTable\<close> checks). \<^verbatim>\<open>lua_tointeger\<close> on floats and
  strings follows the Lua library, so it is the parameter \<^verbatim>\<open>toint\<close>; on an integer it is that integer.
\<close>

subsection \<open>Access to the stack\<close>

text \<open>\<^verbatim>\<open>iterateTable\<close> and \<^verbatim>\<open>iterateTableConsume\<close>: the entries in order, stopping at the first exception.\<close>

definition iterateTable :: "((lua \<times> lua) list \<Rightarrow> gen_fail + 'a) \<Rightarrow> lua \<Rightarrow> gen_fail + 'a" where
  "iterateTable f v = (case v of LTable kvs \<Rightarrow> f kvs | _ \<Rightarrow> Inl (Err ''Table expected''))"

lemma iterateTable_Inr_iff: "iterateTable f v = Inr x \<longleftrightarrow> (\<exists>kvs. v = LTable kvs \<and> f kvs = Inr x)"
  by (cases v) (simp_all add: iterateTable_def)

abbreviation table_entries :: "lua \<Rightarrow> gen_fail + (lua \<times> lua) list" where
  "table_entries \<equiv> iterateTable Inr"

fun getSV :: "lua \<Rightarrow> gen_fail + string" where
  "getSV (LStr s) = Inr s"
| "getSV v = Inl (Err (''Expected string, got: '' @ luaL_typename v))"

text \<open>\<^verbatim>\<open>lua_getfield\<close> followed by \<^verbatim>\<open>popSV\<close>.\<close>

definition getfieldSV :: "lua \<Rightarrow> string \<Rightarrow> gen_fail + string" where
  "getfieldSV v k = gbind (lua_getfield v k) getSV"

definition test :: "lua \<Rightarrow> string \<Rightarrow> gen_fail + bool" where
  "test v k = gbind (lua_getfield v k) (\<lambda>x. Inr (x \<noteq> LNil \<and> lua_toboolean x))"

text \<open>The cast \<^verbatim>\<open>int(lua_Integer)\<close> keeps 32 bits.\<close>

definition int_of_Integer :: "int \<Rightarrow> int" where
  "int_of_Integer i = sint (word_of_int i :: 32 word)"

definition extractNs :: "(lua \<Rightarrow> int) \<Rightarrow> lua \<Rightarrow> gen_fail + namespace" where
  "extractNs toint v =
     gbind (lua_getfield v ''__ns_depth__'') (\<lambda>dep.
     gbind (lua_getfield v ''__ns__'') (\<lambda>ns.
     gbind (lua_getfield v ''__source__'') (\<lambda>src.
     if src \<noteq> LNil \<and> ns \<noteq> LNil \<and> dep \<noteq> LNil then
       gbind (getSV src) (\<lambda>s. gbind (getSV ns) (\<lambda>n.
       Inr \<lparr>sourceFile = s, ns_name = n, part = [], ns_depth = int_of_Integer (toint dep)\<rparr>))
     else Inl (Err ''Invalid namespace received''))))"

subsection \<open>Registered types\<close>

definition registerIfNeeded :: "tref type_variant \<Rightarrow> gen_ast \<Rightarrow> tref \<times> gen_ast" where
  "registerIfNeeded t s =
     (At (length (types s)),
      s\<lparr>savedTypes := (savedTypes s)((base_ns (GetBase t), base_name (GetBase t)) \<mapsto> At (length (types s))),
        types := types s @ [t]\<rparr>)"

definition tryLookup :: "string \<Rightarrow> namespace \<Rightarrow> gen_ast \<Rightarrow> tref option" where
  "tryLookup name ns s = savedTypes s (ns, name)"

subsection \<open>Default values\<close>

text \<open>The scan of the keys: integers so far, and a key that is no integer must be a string.\<close>

fun all_ints :: "bool \<Rightarrow> (lua \<times> lua) list \<Rightarrow> gen_fail + bool" where
  "all_ints a [] = Inr a"
| "all_ints a ((k, _) # kvs) =
     (let a' = (a \<and> (case k of LInt _ \<Rightarrow> True | _ \<Rightarrow> False)) in
      if \<not> a' \<and> (case k of LStr _ \<Rightarrow> False | _ \<Rightarrow> True)
      then Inl (Err ''Non-string/int keys are not supported in tables'')
      else all_ints a' kvs)"

text \<open>The loop over the filled array, from index \<^verbatim>\<open>idx\<close>, that refuses a null element.\<close>

fun all_populated :: "nat \<Rightarrow> def_value option list \<Rightarrow> gen_fail + def_value list" where
  "all_populated idx [] = Inr []"
| "all_populated idx (None # vs) =
     Inl (Err (''Index in default-array #'' @ nat_str idx @ '' not populated''))"
| "all_populated idx (Some v # vs) = gbind (all_populated (Suc idx) vs) (\<lambda>r. Inr (v # r))"

text \<open>\<^verbatim>\<open>if (vec.size() <= idx) vec.resize(idx + 1); vec[idx] = x;\<close>\<close>

definition put_at :: "'a \<Rightarrow> nat \<Rightarrow> 'a \<Rightarrow> 'a list \<Rightarrow> 'a list" where
  "put_at null idx x xs = (xs @ replicate (Suc idx - length xs) null)[idx := x]"

function parseDefault :: "(lua \<Rightarrow> int) \<Rightarrow> lua \<Rightarrow> gen_fail + def_value"
  and parseArr :: "(lua \<Rightarrow> int) \<Rightarrow> (lua \<times> lua) list \<Rightarrow> def_value option list \<Rightarrow> gen_fail + def_value"
  and parseTable :: "(lua \<Rightarrow> int) \<Rightarrow> (lua \<times> lua) list \<Rightarrow> (string \<times> def_value) list \<Rightarrow> gen_fail + def_value"
where
  "parseDefault toint LNil = Inr DNil"
| "parseDefault toint (LStr s) = Inr (DStr s)"
| "parseDefault toint (LBool b) = Inr (DBool b)"
| "parseDefault toint (LInt i) = Inr (DInt i)"
| "parseDefault toint (LNum d) = Inr (DNum d)"
| "parseDefault toint (LTable kvs) =
     gbind (all_ints True kvs) (\<lambda>ints.
     if ints then parseArr toint kvs [] else parseTable toint kvs [])"
| "parseDefault toint (LOther n) = Inl (Err (''Unsupported type for default: '' @ n))"
| "parseArr toint [] res = gbind (all_populated 0 res) (\<lambda>vs. Inr (DArr vs))"
| "parseArr toint ((k, v) # kvs) res =
     (let i = toint k in
      if i < 1 then Inl (Err ''Negative index in default-array'')
      else gbind (parseDefault toint v) (\<lambda>x.
           parseArr toint kvs (put_at None (nat (i - 1)) (Some x) res)))"
| "parseTable toint [] res = Inr (DTable res)"
| "parseTable toint ((k, v) # kvs) res =
     gbind (getSV k) (\<lambda>key.
     gbind (parseDefault toint v) (\<lambda>x. parseTable toint kvs (map_put key x res)))"
  by pat_completeness auto
termination
  by (relation "measure (\<lambda>x. case x of
        Inl (_, v) \<Rightarrow> lua_size v
      | Inr (Inl (_, kvs, _)) \<Rightarrow> sum_list (map (\<lambda>(k, v). Suc (lua_size k + lua_size v)) kvs)
      | Inr (Inr (_, kvs, _)) \<Rightarrow> sum_list (map (\<lambda>(k, v). Suc (lua_size k + lua_size v)) kvs))")
     auto

subsection \<open>Attributes\<close>

text \<open>\<^verbatim>\<open>lua_rawgeti\<close> from index 1 up to the first \<^verbatim>\<open>nil\<close>; the fuel is the number of entries.\<close>

fun attrs_from :: "nat \<Rightarrow> (lua \<times> lua) list \<Rightarrow> int \<Rightarrow> string list \<Rightarrow> gen_fail + string list" where
  "attrs_from 0 kvs idx res = Inr res"
| "attrs_from (Suc n) kvs idx res =
     (case map_of kvs (LInt idx) of
        None \<Rightarrow> Inr res
      | Some LNil \<Rightarrow> Inr res
      | Some (LStr a) \<Rightarrow> attrs_from n kvs (idx + 1) (set_put a res)
      | Some _ \<Rightarrow> Inl (Err ''Only strings supported as attribute names''))"

definition parseAttrs :: "lua \<Rightarrow> gen_fail + string list" where
  "parseAttrs v = (case v of
     LTable kvs \<Rightarrow> attrs_from (Suc (length kvs)) kvs 1 []
   | _ \<Rightarrow> Inl (Err ''Table expected as attributes list''))"

subsection \<open>Resolving types\<close>

fun enum_values :: "string \<Rightarrow> (lua \<times> lua) list \<Rightarrow> gen_fail + (string \<times> int option) list" where
  "enum_values tname [] = Inr []"
| "enum_values tname ((k, v) # kvs) =
     gbind (case k of
         LStr name \<Rightarrow>
           (case v of LInt i \<Rightarrow> Inr (name, Some i)
            | _ \<Rightarrow> Inl (Err (''Expected integer in enum '' @ tname @ '': value: '' @ name)))
       | _ \<Rightarrow> gbind (getSV v) (\<lambda>name. Inr (name, None))) (\<lambda>curr.
     gbind (enum_values tname kvs) (\<lambda>rest. Inr (curr # rest)))"

definition while_resolving :: "string \<Rightarrow> string \<Rightarrow> string" where
  "while_resolving tname e = e @ arrow @ ''While resolving type: '' @ [CHR 0x27] @ tname @ [CHR 0x27]"

definition while_field :: "string \<Rightarrow> string \<Rightarrow> string" where
  "while_field fld e = e @ arrow @ ''While resolving for struct field: '' @ [CHR 0x27] @ fld @ [CHR 0x27]"

text \<open>
  \<^verbatim>\<open>resolveNew\<close> is the chain of branches that \<^verbatim>\<open>resolveType\<close> enters when both lookups have failed: each
  builds one variant and \<^verbatim>\<open>finish\<close>es by registering it.
\<close>

definition finish :: "tref type_variant \<Rightarrow> gen_ast \<Rightarrow> gen_fail + tref \<times> gen_ast" where
  "finish t s = Inr (registerIfNeeded t s)"

function resolveType :: "(lua \<Rightarrow> int) \<Rightarrow> lua \<Rightarrow> string \<Rightarrow> gen_ast \<Rightarrow> gen_fail + tref \<times> gen_ast"
  and resolveNew :: "(lua \<Rightarrow> int) \<Rightarrow> lua \<Rightarrow> string \<Rightarrow> string \<Rightarrow> type_base \<Rightarrow> gen_ast \<Rightarrow>
    gen_fail + tref \<times> gen_ast"
  and resolveNext :: "(lua \<Rightarrow> int) \<Rightarrow> lua \<Rightarrow> gen_ast \<Rightarrow> gen_fail + tref \<times> gen_ast"
  and resolveFields :: "(lua \<Rightarrow> int) \<Rightarrow> string \<Rightarrow> (lua \<times> lua) list \<Rightarrow> gen_ast \<Rightarrow>
    gen_fail + (string \<times> tref) list \<times> gen_ast"
where
  "resolveType toint v tname s = rethrow (while_resolving tname) (
     gbind (test v ''__is_type__'') (\<lambda>is_type.
     if \<not> is_type then Inl (Err (''Type expected: '' @ tname))
     else case map_of populateBuiltins tname of Some k \<Rightarrow> Inr (Builtin k, s) | None \<Rightarrow>
     gbind (getfieldSV v ''__subtype__'') (\<lambda>sub.
     gbind (extractNs toint v) (\<lambda>ns.
     case tryLookup tname ns s of Some found \<Rightarrow> Inr (found, s)
     | None \<Rightarrow> resolveNew toint v tname sub \<lparr>base_ns = ns, base_name = tname\<rparr> s))))"
| "resolveNew toint v tname sub b s =
    (if sub = ''builtin'' then Inl (Err (''Unhandled builtin type: '' @ tname))
     else if sub = ''alias'' then
       gbind (resolveNext toint v s) (\<lambda>(item, s'). finish (Alias b item) s')
     else if sub = ''arr'' then
       gbind (resolveNext toint v s) (\<lambda>(item, s'). finish (Arr b item) s')
     else if sub = ''opt'' then
       gbind (resolveNext toint v s) (\<lambda>(item, s'). finish (Opt b item) s')
     else if sub = ''map'' then
       gbind (resolveNext toint v s) (\<lambda>(item, s'). finish (Mapping b item) s')
     else if sub = ''enum'' then
       gbind (lua_getfield v ''__attrs__'') (\<lambda>av. gbind (parseAttrs av) (\<lambda>attrs.
       gbind (lua_getfield v ''__fields__'') (\<lambda>fv.
       gbind (iterateTable (enum_values tname) fv) (\<lambda>values.
       finish (Enum b attrs (sort_key fst values)) s))))
     else if sub = ''default'' then
       gbind (resolveNext toint v s) (\<lambda>(item, s').
       gbind (lua_getfield v ''__value__'') (\<lambda>dv. gbind (parseDefault toint dv) (\<lambda>value.
       finish (WithDefault b item value) s')))
     else if sub = ''attrs'' then
       gbind (resolveNext toint v s) (\<lambda>(item, s').
       gbind (lua_getfield v ''__attrs__'') (\<lambda>av. gbind (parseAttrs av) (\<lambda>attrs.
       finish (WithAttrs b item attrs) s')))
     else if sub = ''struct'' then
       gbind (lua_getfield v ''__attrs__'') (\<lambda>av. gbind (parseAttrs av) (\<lambda>attrs.
       gbind (lua_getfield v ''__fields__'') (\<lambda>fv.
       gbind (table_entries fv) (\<lambda>kvs.
       gbind (resolveFields toint tname kvs s) (\<lambda>(fields, s'). finish (Struct b attrs fields) s')))))
     else Inl (Err (tname @ '': unknown subtype: '' @ sub)))"
| "resolveNext toint v s =
     gbind (lua_getfield v ''__next__'') (\<lambda>n.
     gbind (getfieldSV n ''__name__'') (\<lambda>name.
     resolveType toint n name s))"
| "resolveFields toint tname [] s = Inr ([], s)"
| "resolveFields toint tname ((k, x) # kvs) s =
     gbind (getSV k) (\<lambda>subname.
     gbind (getfieldSV x ''__name__'') (\<lambda>subtname.
     gbind (rethrow (while_field subname) (resolveType toint x subtname s)) (\<lambda>(found, s').
     if found = Null then Inl (Err (''Error resolving: '' @ tname @ ''.'' @ subname))
     else gbind (resolveFields toint tname kvs s') (\<lambda>(rest, s'').
          Inr ((subname, found) # rest, s'')))))"
  by pat_completeness auto
termination
  by (relation "measures
      [\<lambda>x. case x of Inl (Inl (_, v, _)) \<Rightarrow> lua_size v | Inl (Inr (_, v, _)) \<Rightarrow> lua_size v
         | Inr (Inl (_, v, _)) \<Rightarrow> lua_size v
         | Inr (Inr (_, _, kvs, _)) \<Rightarrow> sum_list (map (\<lambda>(k, v). Suc (lua_size k + lua_size v)) kvs),
       \<lambda>x. case x of Inl (Inl _) \<Rightarrow> 2 | Inl (Inr _) \<Rightarrow> 1 | _ \<Rightarrow> 0]")
     (auto dest: lua_getfield_size simp: iterateTable_Inr_iff)

subsection \<open>Methods, notifications and the root namespace\<close>

text \<open>\<^verbatim>\<open>unsigned(lua_tointeger(L, -2) - 1)\<close>, and the array written at that index.\<close>

definition position :: "int \<Rightarrow> u32" where
  "position i = word_of_int (i - 1)"

definition put_param :: "u32 \<Rightarrow> tref \<Rightarrow> tref list \<Rightarrow> gen_fail + tref list" where
  "put_param idx par arr =
     (let arr' = (if length arr \<le> unat idx
                  then take (unat (idx + 1)) arr @ replicate (unat (idx + 1) - length arr) Null
                  else arr) in
      if unat idx < length arr' then Inr (arr'[unat idx := par]) else Inl Undefined)"

fun is_private :: "lua \<Rightarrow> bool" where
  "is_private (LStr k) \<longleftrightarrow> take 2 k = ''__''"
| "is_private _ \<longleftrightarrow> False"

fun is_table :: "lua \<Rightarrow> bool" where
  "is_table (LTable _) = True"
| "is_table _ = False"

definition add_param :: "(lua \<Rightarrow> int) \<Rightarrow> lua \<Rightarrow> tref \<Rightarrow> params \<Rightarrow> gen_fail + params" where
  "add_param toint k par ps = (case ps of
     ParamsPack _ \<Rightarrow> Inr (ParamsPack par)
   | ParamsArray arr \<Rightarrow> gbind (put_param (position (toint k)) par arr) (\<lambda>arr'. Inr (ParamsArray arr'))
   | ParamsNamed nmd \<Rightarrow> gbind (getSV k) (\<lambda>key. Inr (ParamsNamed (map_put key par nmd))))"

fun resolveParams :: "(lua \<Rightarrow> int) \<Rightarrow> (lua \<times> lua) list \<Rightarrow> params \<Rightarrow> gen_ast \<Rightarrow>
    gen_fail + params \<times> gen_ast" where
  "resolveParams toint [] ps s = Inr (ps, s)"
| "resolveParams toint ((k, x) # kvs) ps s =
     (if is_private k \<or> \<not> is_table x then resolveParams toint kvs ps s
      else gbind (getfieldSV x ''__name__'') (\<lambda>pname.
           gbind (resolveType toint x pname s) (\<lambda>(par, s').
           gbind (add_param toint k par ps) (\<lambda>ps'.
           resolveParams toint kvs ps' s'))))"

definition doResolveNotify :: "(lua \<Rightarrow> int) \<Rightarrow> lua \<Rightarrow> gen_ast \<Rightarrow> gen_fail + notify_sig \<times> gen_ast" where
  "doResolveNotify toint v s =
     gbind (test v ''pack'') (\<lambda>ispack.
     gbind (test v ''named'') (\<lambda>isnamed.
     gbind (getfieldSV v ''service'') (\<lambda>srv.
     gbind (getfieldSV v ''name'') (\<lambda>nm.
     gbind (lua_getfield v ''params'') (\<lambda>pv.
     gbind (iterateTable (\<lambda>kvs. resolveParams toint kvs
         (if ispack then ParamsPack Null else if isnamed then ParamsNamed [] else ParamsArray []) s) pv)
       (\<lambda>(ps, s'). Inr (\<lparr>service = srv, call_name = nm, call_params = ps\<rparr>, s')))))))"

definition resolveMethod :: "(lua \<Rightarrow> int) \<Rightarrow> lua \<Rightarrow> gen_ast \<Rightarrow> gen_fail + gen_ast" where
  "resolveMethod toint v s =
     gbind (doResolveNotify toint v s) (\<lambda>(n, s1).
     gbind (test v ''async'') (\<lambda>is_async.
     gbind (lua_getfield v ''returns'') (\<lambda>rv.
     gbind (getfieldSV rv ''__name__'') (\<lambda>retname.
     gbind (resolveType toint rv retname s1) (\<lambda>(ret, s2).
     Inr (s2\<lparr>methods := methods s2 @
       [\<lparr>service = service n, call_name = call_name n, call_params = call_params n,
         returns = ret, timeout = 10000, async = is_async\<rparr>]\<rparr>))))))"

definition resolveNotify :: "(lua \<Rightarrow> int) \<Rightarrow> lua \<Rightarrow> gen_ast \<Rightarrow> gen_fail + gen_ast" where
  "resolveNotify toint v s =
     gbind (doResolveNotify toint v s) (\<lambda>(n, s1). Inr (s1\<lparr>notifies := notifies s1 @ [n]\<rparr>))"

text \<open>A step for every entry of a table, threading the AST.\<close>

fun for_entries :: "(lua \<Rightarrow> lua \<Rightarrow> gen_ast \<Rightarrow> gen_fail + gen_ast) \<Rightarrow> gen_ast \<Rightarrow> (lua \<times> lua) list \<Rightarrow>
    gen_fail + gen_ast" where
  "for_entries f s [] = Inr s"
| "for_entries f s ((k, x) # kvs) = gbind (f k x s) (\<lambda>s'. for_entries f s' kvs)"

definition resolveEntry :: "(lua \<Rightarrow> int) \<Rightarrow> lua \<Rightarrow> lua \<Rightarrow> gen_ast \<Rightarrow> gen_fail + gen_ast" where
  "resolveEntry toint k x s =
     gbind (getSV k) (\<lambda>name. gbind (resolveType toint x name s) (\<lambda>(_, s'). Inr s'))"

definition parseOneNamespace :: "(lua \<Rightarrow> int) \<Rightarrow> lua \<Rightarrow> gen_ast \<Rightarrow> gen_fail + gen_ast" where
  "parseOneNamespace toint v s =
     gbind (lua_getfield v ''types'') (\<lambda>tv.
     gbind (iterateTable (for_entries (resolveEntry toint) s) tv) (\<lambda>s1.
     gbind (lua_getfield v ''methods'') (\<lambda>mv.
     gbind (iterateTable (for_entries (\<lambda>_. resolveMethod toint) s1) mv) (\<lambda>s2.
     gbind (lua_getfield v ''notify'') (\<lambda>nv.
     iterateTable (for_entries (\<lambda>_. resolveNotify toint) s2) nv)))))"

text \<open>
  The end of \<^verbatim>\<open>PopulateFromFrontend\<close>: \<^verbatim>\<open>all_ns\<close> is what the init script returned, filled by the spec
  file; the result is the AST and the name of the main namespace.
\<close>

definition populate_root :: "(lua \<Rightarrow> int) \<Rightarrow> lua \<Rightarrow> gen_fail + gen_ast \<times> string" where
  "populate_root toint all_ns =
     gbind (lua_getfield all_ns ''__root__'') (\<lambda>root.
     gbind (parseOneNamespace toint root new_ast) (\<lambda>s.
     gbind (getfieldSV root ''ns'') (\<lambda>name. Inr (s, name))))"

text \<open>
  \<^verbatim>\<open>msg.substr(msg.find(": ") + 2)\<close> of the message handler: without a colon \<^verbatim>\<open>npos + 2\<close> is 1, and
  \<^verbatim>\<open>substr\<close> beyond the end throws.
\<close>

fun find_colon :: "string \<Rightarrow> nat option" where
  "find_colon (a # b # cs) =
     (if a = CHR '':'' \<and> b = CHR '' '' then Some 0 else map_option Suc (find_colon (b # cs)))"
| "find_colon _ = None"

definition strip_position :: "string \<Rightarrow> gen_fail + string" where
  "strip_position msg =
     (let from = (case find_colon msg of Some i \<Rightarrow> i + 2 | None \<Rightarrow> 1) in
      if from \<le> length msg then Inr (drop from msg) else Inl (Err ''basic_string_view::substr''))"

end
