(* ===== verification/Gen_Resolve.thy ===== *)
theory Gen_Resolve
  imports Gen_Populate
begin

text \<open>
  The invariant of the AST while types are resolved: a registered type refers only to builtins and to
  types registered before it, and every saved name leads to a type of that name. It holds after the
  whole front end has been read. Then every reference denotes a finite type.
\<close>

declare resolveType.simps [simp del] resolveNew.simps [simp del] resolveNext.simps [simp del] resolveFields.simps [simp del]

text \<open>References that point below a bound.\<close>

fun below :: "nat \<Rightarrow> tref \<Rightarrow> bool" where
  "below n Null \<longleftrightarrow> False"
| "below n (Builtin _) \<longleftrightarrow> True"
| "below n (At i) \<longleftrightarrow> i < n"

lemma below_mono: "below m r \<Longrightarrow> m \<le> n \<Longrightarrow> below n r"
  by (cases r) auto

definition in_order :: "tref type_variant list \<Rightarrow> bool" where
  "in_order ts \<longleftrightarrow> (\<forall>i < length ts. \<forall>r \<in> set_type_variant (ts ! i). below i r)"

definition type_key :: "'r type_variant \<Rightarrow> namespace \<times> string" where
  "type_key t = (base_ns (GetBase t), base_name (GetBase t))"

definition saved_ok :: "gen_ast \<Rightarrow> bool" where
  "saved_ok s \<longleftrightarrow> (\<forall>k r. savedTypes s k = Some r \<longrightarrow>
     (\<exists>i < length (types s). r = At i \<and> type_key (types s ! i) = k))"

definition grown :: "gen_ast \<Rightarrow> gen_ast \<Rightarrow> bool" where
  "grown s s' \<longleftrightarrow> (\<exists>new. types s' = types s @ new) \<and> methods s' = methods s \<and> notifies s' = notifies s \<and>
     dom (savedTypes s) \<subseteq> dom (savedTypes s')"

lemma grown_refl [simp]: "grown s s"
  by (simp add: grown_def)

lemma grown_trans: "grown a b \<Longrightarrow> grown b c \<Longrightarrow> grown a c"
  by (auto simp: grown_def)

definition wf_types :: "gen_ast \<Rightarrow> bool" where
  "wf_types s \<longleftrightarrow> in_order (types s) \<and> saved_ok s"

definition resolved :: "gen_ast \<Rightarrow> tref \<Rightarrow> gen_ast \<Rightarrow> bool" where
  "resolved s r s' \<longleftrightarrow> wf_types s' \<and> grown s s' \<and> below (length (types s')) r"

lemma in_order_snoc:
  assumes "in_order ts" and "\<And>r. r \<in> set_type_variant t \<Longrightarrow> below (length ts) r"
  shows "in_order (ts @ [t])"
  unfolding in_order_def
proof (intro allI impI ballI)
  fix i r assume i: "i < length (ts @ [t])" and r: "r \<in> set_type_variant ((ts @ [t]) ! i)"
  show "below i r"
  proof (cases "i < length ts")
    case True
    with r assms(1) show ?thesis by (simp add: nth_append in_order_def)
  next
    case False
    with i have "i = length ts" by simp
    with r assms(2) show ?thesis by simp
  qed
qed

lemma saved_below:
  assumes "saved_ok s" and "savedTypes s k = Some r"
  shows "below (length (types s)) r"
proof -
  from assms obtain i where "i < length (types s)" "r = At i"
    unfolding saved_ok_def by blast
  then show ?thesis by simp
qed

lemma finish_resolved:
  assumes "finish t s = Inr (r, s')" and "wf_types s" and "grown s0 s"
    and "\<And>q. q \<in> set_type_variant t \<Longrightarrow> below (length (types s)) q"
  shows "resolved s0 r s'"
proof -
  from assms(1) have r: "r = At (length (types s))"
    and s': "s' = s\<lparr>savedTypes := (savedTypes s)(type_key t \<mapsto> At (length (types s))), types := types s @ [t]\<rparr>"
    by (auto simp: finish_def registerIfNeeded_def type_key_def)
  have sv: "saved_ok s" and io: "in_order (types s)" using assms(2) by (auto simp: wf_types_def)
  have "in_order (types s')" using in_order_snoc [OF io assms(4)] s' by simp
  moreover have "saved_ok s'"
    unfolding saved_ok_def
  proof (intro allI impI)
    fix k q assume q: "savedTypes s' k = Some q"
    show "\<exists>i < length (types s'). q = At i \<and> type_key (types s' ! i) = k"
    proof (cases "k = type_key t")
      case True
      with q s' show ?thesis by (auto intro!: exI [of _ "length (types s)"])
    next
      case False
      with q s' have "savedTypes s k = Some q" by simp
      with sv obtain i where i: "i < length (types s)" "q = At i" "type_key (types s ! i) = k"
        unfolding saved_ok_def by blast
      with s' show ?thesis by (auto simp: nth_append)
    qed
  qed
  moreover have "grown s0 s'" using assms(3) s' by (auto simp: grown_def)
  ultimately show ?thesis using r s' by (simp add: resolved_def wf_types_def)
qed

lemma resolved_refl:
  assumes "wf_types s" and "below (length (types s)) r"
  shows "resolved s r s"
  using assms by (simp add: resolved_def)


lemma finish_key:
  assumes "finish t s = Inr (r, s')"
  shows "savedTypes s' (type_key t) = Some r"
  using assms by (auto simp: finish_def registerIfNeeded_def type_key_def)

text \<open>How a successful resolution came about.\<close>

lemma resolveType_returns:
  assumes "resolveType toint v tname s = Inr (r, s')"
  obtains (builtin) k where "test v ''__is_type__'' = Inr True" "map_of populateBuiltins tname = Some k"
      "r = Builtin k" "s' = s"
  | (found) sub ns where "test v ''__is_type__'' = Inr True" "map_of populateBuiltins tname = None"
      "getfieldSV v ''__subtype__'' = Inr sub" "extractNs toint v = Inr ns"
      "savedTypes s (ns, tname) = Some r" "s' = s"
  | (fresh) sub ns where "test v ''__is_type__'' = Inr True" "map_of populateBuiltins tname = None"
      "getfieldSV v ''__subtype__'' = Inr sub" "extractNs toint v = Inr ns"
      "savedTypes s (ns, tname) = None"
      "resolveNew toint v tname sub \<lparr>base_ns = ns, base_name = tname\<rparr> s = Inr (r, s')"
proof -
  note eq = assms [unfolded resolveType.simps [of toint v tname s] rethrow_Inr_iff]
  from eq obtain b where b: "test v ''__is_type__'' = Inr b" by (rule gbind_InrE)
  with eq have t: "test v ''__is_type__'' = Inr True" by (cases b) simp_all
  show thesis
  proof (cases "map_of populateBuiltins tname")
    case (Some k)
    from eq have "r = Builtin k \<and> s' = s" by (simp add: t Some)
    with builtin t Some show thesis by blast
  next
    case None
    from eq obtain sub where sub: "getfieldSV v ''__subtype__'' = Inr sub"
      by (auto simp: t None elim: gbind_InrE)
    from eq obtain ns where ns: "extractNs toint v = Inr ns"
      by (auto simp: t None sub elim: gbind_InrE)
    note eq' = eq [simplified t None sub ns gbind_simps tryLookup_def, simplified]
    show thesis
    proof (cases "savedTypes s (ns, tname)")
      case (Some q)
      with eq' have "savedTypes s (ns, tname) = Some r" and "s' = s" by simp_all
      then show thesis by (rule found [OF t None sub ns])
    next
      case free: None
      with eq' have "resolveNew toint v tname sub \<lparr>base_ns = ns, base_name = tname\<rparr> s = Inr (r, s')" by simp
      then show thesis by (rule fresh [OF t None sub ns free])
    qed
  qed
qed

lemma resolveNew_returns:
  assumes "resolveNew toint v tname sub b s = Inr (r, s')"
  obtains (leaf) attrs vals where "finish (Enum b attrs vals) s = Inr (r, s')"
  | (wrapper) item s1 t where "resolveNext toint v s = Inr (item, s1)" "finish t s1 = Inr (r, s')"
      "set_type_variant t = {item}" "GetBase t = b"
      "sub \<in> {''alias'', ''arr'', ''opt'', ''map'', ''default'', ''attrs''}"
  | (members) av attrs kvs flds s1 where "lua_getfield v ''__attrs__'' = Inr av" "parseAttrs av = Inr attrs" "lua_getfield v ''__fields__'' = Inr (LTable kvs)"
      "resolveFields toint tname kvs s = Inr (flds, s1)" "finish (Struct b attrs flds) s1 = Inr (r, s')"
      "sub = ''struct''"
proof -
  note eq = assms [unfolded resolveNew.simps [of toint v tname sub b s]]
  consider "sub = ''struct''" | "sub = ''enum''" | "sub \<in> {''alias'', ''arr'', ''opt'', ''map'', ''default'', ''attrs''}"
    using eq by (auto split: if_splits)
  then show thesis
  proof cases
    case 1
    with eq show thesis by (auto simp: gbind_Inr_iff iterateTable_Inr_iff intro: members)
  next
    case 2
    with eq show thesis by (auto simp: gbind_Inr_iff intro: leaf)
  next
    case 3
    have w: thesis if "resolveNext toint v s = Inr (a, s1)" and "finish t s1 = Inr (r, s')"
      and "set_type_variant t = {a}" and "GetBase t = b" for a s1 t
      using that 3 by (rule wrapper)
    show thesis
      using 3 eq by (elim insertE emptyE) (clarsimp simp: gbind_Inr_iff, erule (1) w, simp, simp)+
  qed
qed

lemma resolve_resolved:
  "resolveType toint v tname s = Inr (r, s') \<Longrightarrow> wf_types s \<Longrightarrow> resolved s r s'"
  "resolveNew toint v tname sub b s = Inr (r, s') \<Longrightarrow> wf_types s \<Longrightarrow> resolved s r s'"
  "resolveNext toint v s = Inr (r, s') \<Longrightarrow> wf_types s \<Longrightarrow> resolved s r s'"
  "resolveFields toint tname kvs s = Inr (flds, s') \<Longrightarrow> wf_types s \<Longrightarrow>
     wf_types s' \<and> grown s s' \<and> (\<forall>f \<in> set flds. below (length (types s')) (snd f))"
proof (induction toint v tname s and toint v tname sub b s and toint v s and toint tname kvs s
       arbitrary: r s' and r s' and r s' and flds s'
       rule: resolveType_resolveNew_resolveNext_resolveFields.induct)
  case (1 toint v tname s)
  from "1.prems"(1) show ?case
  proof (cases rule: resolveType_returns)
    case (builtin k)
    with "1.prems"(2) show ?thesis by (simp add: resolved_def)
  next
    case (found sub ns)
    with "1.prems"(2) show ?thesis by (auto simp: resolved_def wf_types_def intro: saved_below)
  next
    case (fresh sub ns)
    show ?thesis
      by (rule "1.IH" [OF fresh(1) _ fresh(2-4) _ fresh(6) "1.prems"(2)]) (simp_all add: tryLookup_def fresh(5))
  qed
next
  case (2 toint v tname sub b s)
  have next_IH: "resolved s q s1" if "resolveNext toint v s = Inr (q, s1)"
    and "sub \<in> {''alias'', ''arr'', ''opt'', ''map'', ''default'', ''attrs''}" for q s1
    using that(2) by (elim insertE emptyE) (simp_all add: "2.IH"(1-6) that(1) "2.prems"(2))
  from "2.prems"(1) show ?case
  proof (cases rule: resolveNew_returns)
    case (leaf attrs vals)
    then show ?thesis using "2.prems"(2) by (rule finish_resolved) simp_all
  next
    case (wrapper item s1 t)
    with next_IH have "resolved s item s1" by blast
    with wrapper show ?thesis
      by (intro finish_resolved [OF wrapper(2)]) (simp_all add: resolved_def)
  next
    case (members av attrs kvs flds s1)
    then have "wf_types s1 \<and> grown s s1 \<and> (\<forall>f \<in> set flds. below (length (types s1)) (snd f))"
      by (intro "2.IH"(7) [OF _ _ _ _ _ _ _ _ _ members(1-3) _ members(4) "2.prems"(2)])
        (simp_all add: iterateTable_def)
    then show ?thesis by (intro finish_resolved [OF members(5)]) auto
  qed
next
  case (3 toint v s)
  then show ?case by (auto simp: resolveNext.simps gbind_Inr_iff)
next
  case (4 toint tname s)
  then show ?case by (simp add: resolveFields.simps)
next
  case (5 toint tname k x kvs s)
  from "5.prems"(1) obtain subname subtname found s1 rest where
    k: "getSV k = Inr subname" and sub: "getfieldSV x ''__name__'' = Inr subtname"
    and one: "resolveType toint x subtname s = Inr (found, s1)" and nn: "found \<noteq> Null"
    and all: "resolveFields toint tname kvs s1 = Inr (rest, s')" and flds: "flds = (subname, found) # rest"
    by (auto simp: resolveFields.simps gbind_Inr_iff split: if_splits)
  from "5.IH"(1) [OF k sub one "5.prems"(2)] have r1: "resolved s found s1" .
  then have "wf_types s' \<and> grown s1 s' \<and> (\<forall>f \<in> set rest. below (length (types s')) (snd f))"
    using "5.IH"(2) [OF k sub _ _ nn all] one by (simp add: resolved_def)
  with r1 show ?case
    by (auto simp: flds resolved_def grown_def intro: grown_trans below_mono)
qed

lemmas resolveType_resolved = resolve_resolved(1)

text \<open>A type that has been resolved is found again, and nothing changes.\<close>

lemma resolveType_key:
  assumes "resolveType toint v tname s = Inr (r, s')" and "map_of populateBuiltins tname = None"
  obtains ns where "extractNs toint v = Inr ns" and "savedTypes s' (ns, tname) = Some r"
  using assms(1)
proof (cases rule: resolveType_returns)
  case (builtin k)
  with assms(2) show ?thesis by simp
next
  case (found sub ns)
  with that show ?thesis by simp
next
  case (fresh sub ns)
  from fresh(6) have "savedTypes s' (ns, tname) = Some r"
  proof (cases rule: resolveNew_returns)
    case (leaf attrs vals)
    then show ?thesis using finish_key [of _ s r s'] by (force simp: type_key_def)
  next
    case (wrapper item s1 t)
    then show ?thesis using finish_key [of t s1 r s'] by (simp add: type_key_def)
  next
    case (members av attrs kvs flds s1)
    then show ?thesis using finish_key [of _ s1 r s'] by (force simp: type_key_def)
  qed
  with that fresh(4) show ?thesis by blast
qed

lemma resolve_again:
  assumes "resolveType toint v tname s = Inr (r, s')"
  shows "resolveType toint v tname s' = Inr (r, s')"
  using assms
proof (cases rule: resolveType_returns)
  case (builtin k)
  with assms show ?thesis by simp
next
  case (found sub ns)
  with assms show ?thesis by simp
next
  case (fresh sub ns)
  obtain ns' where "extractNs toint v = Inr ns'" "savedTypes s' (ns', tname) = Some r"
    using assms fresh(2) by (rule resolveType_key)
  with fresh(4) have "savedTypes s' (ns, tname) = Some r" by simp
  with fresh show ?thesis by (simp add: resolveType.simps [of toint v tname s'] tryLookup_def)
qed

text \<open>Methods and notifications.\<close>

fun param_refs :: "params \<Rightarrow> tref set" where
  "param_refs (ParamsArray rs) = set rs"
| "param_refs (ParamsNamed kvs) = snd ` set kvs"
| "param_refs (ParamsPack r) = {r}"

definition ref_ok :: "nat \<Rightarrow> tref \<Rightarrow> bool" where
  "ref_ok n r \<longleftrightarrow> r = Null \<or> below n r"

lemma ref_ok_mono: "ref_ok m r \<Longrightarrow> m \<le> n \<Longrightarrow> ref_ok n r"
  by (auto simp: ref_ok_def intro: below_mono)

definition params_ok :: "nat \<Rightarrow> params \<Rightarrow> bool" where
  "params_ok n ps \<longleftrightarrow> (\<forall>r \<in> param_refs ps. ref_ok n r)"

lemma put_param_refs:
  assumes "put_param idx par arr = Inr arr'"
  shows "set arr' \<subseteq> insert par (insert Null (set arr))"
proof -
  from assms have e: "\<exists>xs. arr' = xs[unat idx := par] \<and> set xs \<subseteq> insert Null (set arr)"
    by (auto simp: put_param_def Let_def split: if_splits dest: in_set_takeD)
  then show ?thesis using set_update_subset_insert by fastforce
qed

lemma add_param_refs:
  assumes "add_param toint k par ps = Inr ps'"
  shows "param_refs ps' \<subseteq> insert par (insert Null (param_refs ps))"
proof (cases ps)
  case (ParamsArray rs)
  with assms show ?thesis by (auto simp: add_param_def gbind_Inr_iff dest: put_param_refs [THEN subsetD])
next
  case (ParamsNamed kvs)
  have "set (map_put key par kvs) \<subseteq> insert (key, par) (set kvs)" for key
    by (induction key par kvs rule: map_put.induct) auto
  with ParamsNamed assms show ?thesis by (fastforce simp: add_param_def gbind_Inr_iff)
next
  case (ParamsPack r)
  with assms show ?thesis by (auto simp: add_param_def)
qed

lemma resolveParams_ok:
  assumes "resolveParams toint kvs ps s = Inr (ps', s')" and "wf_types s" and "params_ok (length (types s)) ps"
  shows "wf_types s' \<and> grown s s' \<and> params_ok (length (types s')) ps'"
  using assms
proof (induction toint kvs ps s rule: resolveParams.induct)
  case (1 toint ps s)
  then show ?case by simp
next
  case (2 toint k x kvs ps s)
  show ?case
  proof (cases "is_private k \<or> \<not> is_table x")
    case True
    with 2 show ?thesis by simp
  next
    case False
    with "2.prems"(1) obtain pname par s1 ps1 where p: "getfieldSV x ''__name__'' = Inr pname"
      and r: "resolveType toint x pname s = Inr (par, s1)" and a: "add_param toint k par ps = Inr ps1"
      and rest: "resolveParams toint kvs ps1 s1 = Inr (ps', s')"
      by (auto simp: gbind_Inr_iff)
    have s1: "resolved s par s1" using resolveType_resolved [OF r "2.prems"(2)] .
    then have len: "length (types s) \<le> length (types s1)" by (auto simp: resolved_def grown_def)
    have "params_ok (length (types s1)) ps1"
      unfolding params_ok_def
    proof
      fix q assume "q \<in> param_refs ps1"
      with add_param_refs [OF a] consider "q = par" | "q = Null" | "q \<in> param_refs ps" by blast
      then show "ref_ok (length (types s1)) q"
        using s1 "2.prems"(3) len
        by cases (auto simp: ref_ok_def resolved_def params_ok_def intro: below_mono)
    qed
    with "2.IH"(2) [OF False p r _ a rest] s1 have "wf_types s' \<and> grown s1 s' \<and> params_ok (length (types s')) ps'"
      by (simp add: resolved_def)
    with s1 show ?thesis by (auto simp: resolved_def intro: grown_trans)
  qed
qed

definition wf_ast :: "gen_ast \<Rightarrow> bool" where
  "wf_ast s \<longleftrightarrow> wf_types s \<and>
     (\<forall>m \<in> set (methods s). params_ok (length (types s)) (call_params m) \<and> below (length (types s)) (returns m)) \<and>
     (\<forall>n \<in> set (notifies s). params_ok (length (types s)) (call_params n))"

lemma params_ok_mono: "params_ok m ps \<Longrightarrow> m \<le> n \<Longrightarrow> params_ok n ps"
  by (auto simp: params_ok_def intro: ref_ok_mono)

lemma grown_wf_ast:
  assumes "grown s s'" and "wf_types s'" and "wf_ast s"
  shows "wf_ast s'"
proof -
  from assms(1) have "length (types s) \<le> length (types s')" by (auto simp: grown_def)
  with assms show ?thesis
    by (auto simp: wf_ast_def grown_def intro: params_ok_mono below_mono)
qed

lemma doResolveNotify_ok:
  assumes "doResolveNotify toint v s = Inr (n, s')" and "wf_types s"
  shows "wf_types s' \<and> grown s s' \<and> params_ok (length (types s')) (call_params n)"
proof -
  from assms(1) obtain ps0 kvs where "params_ok (length (types s)) ps0"
    and "resolveParams toint kvs ps0 s = Inr (call_params n, s')"
    by (force simp: doResolveNotify_def gbind_Inr_iff iterateTable_Inr_iff params_ok_def ref_ok_def
        split: if_splits)
  with assms(2) show ?thesis by (blast dest: resolveParams_ok)
qed

lemma resolveMethod_ok:
  assumes "resolveMethod toint v s = Inr s'" and "wf_ast s"
  shows "wf_ast s'"
proof -
  from assms(1) obtain n s1 rv retname ret s2 a where n: "doResolveNotify toint v s = Inr (n, s1)"
    and r: "resolveType toint rv retname s1 = Inr (ret, s2)"
    and s': "s' = s2\<lparr>methods := methods s2 @
       [\<lparr>service = service n, call_name = call_name n, call_params = call_params n,
         returns = ret, timeout = 10000, async = a\<rparr>]\<rparr>"
    by (auto simp: resolveMethod_def gbind_Inr_iff)
  have wf: "wf_types s" using assms(2) by (simp add: wf_ast_def)
  note one = doResolveNotify_ok [OF n wf]
  then have two: "resolved s1 ret s2" using resolveType_resolved [OF r] by simp
  then have "length (types s1) \<le> length (types s2)" by (auto simp: resolved_def grown_def)
  moreover from one two have "wf_ast s2"
    using assms(2) by (auto simp: resolved_def intro: grown_wf_ast grown_trans)
  ultimately show ?thesis
    using one two s' by (auto simp: wf_ast_def wf_types_def saved_ok_def resolved_def intro: params_ok_mono)
qed

lemma resolveNotify_ok:
  assumes "resolveNotify toint v s = Inr s'" and "wf_ast s"
  shows "wf_ast s'"
proof -
  from assms(1) obtain n s1 where n: "doResolveNotify toint v s = Inr (n, s1)"
    and s': "s' = s1\<lparr>notifies := notifies s1 @ [n]\<rparr>"
    by (auto simp: resolveNotify_def gbind_Inr_iff)
  have wf: "wf_types s" using assms(2) by (simp add: wf_ast_def)
  note one = doResolveNotify_ok [OF n wf]
  with assms(2) have "wf_ast s1" by (blast intro: grown_wf_ast)
  with one s' show ?thesis by (auto simp: wf_ast_def wf_types_def saved_ok_def)
qed

lemma resolveEntry_ok:
  assumes "resolveEntry toint k x s = Inr s'" and "wf_ast s"
  shows "wf_ast s'"
proof -
  from assms(1) obtain name r where "resolveType toint x name s = Inr (r, s')"
    by (auto simp: resolveEntry_def gbind_Inr_iff)
  moreover have "wf_types s" using assms(2) by (simp add: wf_ast_def)
  ultimately have "resolved s r s'" by (rule resolveType_resolved)
  with assms(2) show ?thesis by (auto simp: resolved_def intro: grown_wf_ast)
qed

lemma for_entries_ok:
  assumes "for_entries f s kvs = Inr s'" and "wf_ast s"
    and "\<And>k x a b. f k x a = Inr b \<Longrightarrow> wf_ast a \<Longrightarrow> wf_ast b"
  shows "wf_ast s'"
  using assms(1,2)
proof (induction kvs arbitrary: s)
  case (Cons kx kvs)
  then show ?case by (cases kx) (auto simp: gbind_Inr_iff intro: assms(3))
qed simp

lemma new_ast_wf: "wf_ast new_ast"
  by (simp add: wf_ast_def wf_types_def saved_ok_def in_order_def new_ast_def)

lemma parseOneNamespace_ok:
  assumes "parseOneNamespace toint v s = Inr s'" and "wf_ast s"
  shows "wf_ast s'"
proof -
  from assms(1) obtain tk s1 mk s2 nk where
    t: "for_entries (resolveEntry toint) s tk = Inr s1" and
    m: "for_entries (\<lambda>_. resolveMethod toint) s1 mk = Inr s2" and
    n: "for_entries (\<lambda>_. resolveNotify toint) s2 nk = Inr s'"
    by (auto simp: parseOneNamespace_def gbind_Inr_iff iterateTable_Inr_iff)
  have "wf_ast s1" by (rule for_entries_ok [OF t assms(2) resolveEntry_ok])
  then have "wf_ast s2" by (rule for_entries_ok [OF m _ resolveMethod_ok])
  then show ?thesis by (rule for_entries_ok [OF n _ resolveNotify_ok])
qed

subsection \<open>The types that references denote\<close>

inductive denotes :: "tref type_variant list \<Rightarrow> tref \<Rightarrow> ty \<Rightarrow> bool" for ts where
  denotes_builtin: "denotes ts (Builtin k) (TBuiltin k)"
| denotes_at: "i < length ts \<Longrightarrow> rel_type_variant (denotes ts) (ts ! i) x \<Longrightarrow> denotes ts (At i) (TNode x)"
monos type_variant.rel_mono_strong

inductive_simps denotes_simps: "denotes ts (Builtin k) t" "denotes ts Null t" "denotes ts (At i) t"

lemma denotes_append: "denotes ts r t \<Longrightarrow> denotes (ts @ new) r t"
proof (induction rule: denotes.induct)
  case (denotes_at i x)
  then show ?case
    by (auto intro!: denotes.denotes_at simp: nth_append elim!: type_variant.rel_mono_strong)
qed (rule denotes.denotes_builtin)

lemma denotes_unique: "denotes ts r t \<Longrightarrow> denotes ts r t' \<Longrightarrow> t = t'"
proof (induction arbitrary: t' rule: denotes.induct)
  case (denotes_builtin k)
  then show ?case by (simp add: denotes_simps)
next
  case (denotes_at i x)
  from denotes_at.prems obtain y where y: "t' = TNode y" "rel_type_variant (denotes ts) (ts ! i) y"
    by (auto simp: denotes_simps)
  let ?R = "\<lambda>r t. denotes ts r t \<and> (\<forall>t'. denotes ts r t' \<longrightarrow> t = t')"
  have "rel_type_variant (conversep ?R) x (ts ! i)"
    using denotes_at.IH by (simp add: type_variant.rel_conversep)
  then have "rel_type_variant (conversep ?R OO denotes ts) x y"
    using y(2) by (auto simp: type_variant.rel_compp)
  then have "rel_type_variant (=) x y" by (rule type_variant.rel_mono_strong) auto
  with y show ?case by (simp add: type_variant.rel_eq)
qed

lemma denotes_total:
  assumes "in_order ts" and "below (length ts) r"
  shows "\<exists>t. denotes ts r t"
proof (cases r)
  case (At i)
  with assms(2) have "i < length ts" by simp
  then have "\<exists>t. denotes ts (At i) t"
  proof (induction i rule: less_induct)
    case (less i)
    have "\<exists>t. denotes ts q t" if "q \<in> set_type_variant (ts ! i)" for q
    proof -
      from that assms(1) less.prems have "below i q" by (simp add: in_order_def)
      then show ?thesis using less.IH less.prems by (cases q) (auto intro: denotes.denotes_builtin)
    qed
    then obtain f where "\<forall>q \<in> set_type_variant (ts ! i). denotes ts q (f q)" by metis
    then have "rel_type_variant (denotes ts) (ts ! i) (map_type_variant f (ts ! i))"
      by (simp add: type_variant.rel_map type_variant.rel_refl_strong)
    with less.prems show ?case by (blast intro: denotes.denotes_at)
  qed
  with At show ?thesis by simp
qed (use assms(2) in \<open>auto intro: denotes.denotes_builtin\<close>)

end
