(* ===== verification/Gen_Meaning.thy ===== *)
theory Gen_Meaning
  imports Gen_Resolve
begin

text \<open>
  What a Lua table of a type means on its own, without the table of types found so far: the reference
  for \<^verbatim>\<open>resolveType\<close>. When every name belongs to one table, or is passed on from a type to the type it
  wraps, \<^verbatim>\<open>resolveType\<close> returns a reference to exactly this type, or fails with the same error.
\<close>

subsection \<open>The type of a table\<close>

function typeOf :: "(lua \<Rightarrow> int) \<Rightarrow> lua \<Rightarrow> string \<Rightarrow> gen_fail + ty"
  and typeNew :: "(lua \<Rightarrow> int) \<Rightarrow> lua \<Rightarrow> string \<Rightarrow> string \<Rightarrow> type_base \<Rightarrow> gen_fail + ty"
  and typeNext :: "(lua \<Rightarrow> int) \<Rightarrow> lua \<Rightarrow> gen_fail + ty"
  and typeFields :: "(lua \<Rightarrow> int) \<Rightarrow> (lua \<times> lua) list \<Rightarrow> gen_fail + (string \<times> ty) list"
where
  "typeOf toint v tname = rethrow (while_resolving tname) (
     gbind (test v ''__is_type__'') (\<lambda>is_type.
     if \<not> is_type then Inl (Err (''Type expected: '' @ tname))
     else case map_of populateBuiltins tname of Some k \<Rightarrow> Inr (TBuiltin k) | None \<Rightarrow>
     gbind (getfieldSV v ''__subtype__'') (\<lambda>sub.
     gbind (extractNs toint v) (\<lambda>ns.
     typeNew toint v tname sub \<lparr>base_ns = ns, base_name = tname\<rparr>))))"
| "typeNew toint v tname sub b =
    (if sub = ''builtin'' then Inl (Err (''Unhandled builtin type: '' @ tname))
     else if sub = ''alias'' then gbind (typeNext toint v) (\<lambda>item. Inr (TNode (Alias b item)))
     else if sub = ''arr'' then gbind (typeNext toint v) (\<lambda>item. Inr (TNode (Arr b item)))
     else if sub = ''opt'' then gbind (typeNext toint v) (\<lambda>item. Inr (TNode (Opt b item)))
     else if sub = ''map'' then gbind (typeNext toint v) (\<lambda>item. Inr (TNode (Mapping b item)))
     else if sub = ''enum'' then
       gbind (lua_getfield v ''__attrs__'') (\<lambda>av. gbind (parseAttrs av) (\<lambda>attrs.
       gbind (lua_getfield v ''__fields__'') (\<lambda>fv.
       gbind (iterateTable (enum_values tname) fv) (\<lambda>values.
       Inr (TNode (Enum b attrs (sort_key fst values)))))))
     else if sub = ''default'' then
       gbind (typeNext toint v) (\<lambda>item.
       gbind (lua_getfield v ''__value__'') (\<lambda>dv. gbind (parseDefault toint dv) (\<lambda>value.
       Inr (TNode (WithDefault b item value)))))
     else if sub = ''attrs'' then
       gbind (typeNext toint v) (\<lambda>item.
       gbind (lua_getfield v ''__attrs__'') (\<lambda>av. gbind (parseAttrs av) (\<lambda>attrs.
       Inr (TNode (WithAttrs b item attrs)))))
     else if sub = ''struct'' then
       gbind (lua_getfield v ''__attrs__'') (\<lambda>av. gbind (parseAttrs av) (\<lambda>attrs.
       gbind (lua_getfield v ''__fields__'') (\<lambda>fv.
       gbind (table_entries fv) (\<lambda>kvs.
       gbind (typeFields toint kvs) (\<lambda>fields. Inr (TNode (Struct b attrs fields)))))))
     else Inl (Err (tname @ '': unknown subtype: '' @ sub)))"
| "typeNext toint v =
     gbind (lua_getfield v ''__next__'') (\<lambda>n.
     gbind (getfieldSV n ''__name__'') (\<lambda>name.
     typeOf toint n name))"
| "typeFields toint [] = Inr []"
| "typeFields toint ((k, x) # kvs) =
     gbind (getSV k) (\<lambda>subname.
     gbind (getfieldSV x ''__name__'') (\<lambda>subtname.
     gbind (rethrow (while_field subname) (typeOf toint x subtname)) (\<lambda>t.
     gbind (typeFields toint kvs) (\<lambda>rest. Inr ((subname, t) # rest)))))"
  by pat_completeness auto
termination
  by (relation "measures
      [\<lambda>x. case x of Inl (Inl (_, v, _)) \<Rightarrow> lua_size v | Inl (Inr (_, v, _)) \<Rightarrow> lua_size v
         | Inr (Inl (_, v)) \<Rightarrow> lua_size v
         | Inr (Inr (_, kvs)) \<Rightarrow> sum_list (map (\<lambda>(k, v). Suc (lua_size k + lua_size v)) kvs),
       \<lambda>x. case x of Inl (Inl _) \<Rightarrow> 2 | Inl (Inr _) \<Rightarrow> 1 | _ \<Rightarrow> 0]")
     (auto dest: lua_getfield_size simp: iterateTable_Inr_iff)

declare typeOf.simps [simp del] typeNew.simps [simp del] typeNext.simps [simp del] typeFields.simps [simp del]

subsection \<open>Names that identify their types\<close>

text \<open>
  \<^verbatim>\<open>own\<close> gives every qualified name its table. A table is read under its own name, or under the name
  \<^verbatim>\<open>inn\<close> of the type that wraps it (the front end passes the name of an unnamed type on to the type
  inside).
\<close>

definition wrappers :: "string list" where
  "wrappers = [''alias'', ''arr'', ''opt'', ''map'', ''default'', ''attrs'']"

function named :: "(lua \<Rightarrow> int) \<Rightarrow> (namespace \<times> string \<Rightarrow> lua) \<Rightarrow> (namespace \<times> string) option \<Rightarrow> lua \<Rightarrow> string \<Rightarrow> bool"
  and namedIn :: "(lua \<Rightarrow> int) \<Rightarrow> (namespace \<times> string \<Rightarrow> lua) \<Rightarrow> namespace \<times> string \<Rightarrow> string \<Rightarrow> lua \<Rightarrow> bool"
  and namedFields :: "(lua \<Rightarrow> int) \<Rightarrow> (namespace \<times> string \<Rightarrow> lua) \<Rightarrow> (lua \<times> lua) list \<Rightarrow> bool"
where
  "named toint own inn v tname \<longleftrightarrow>
     (case (test v ''__is_type__'', map_of populateBuiltins tname, getfieldSV v ''__subtype__'', extractNs toint v) of
        (Inr True, None, Inr sub, Inr ns) \<Rightarrow>
          (inn = Some (ns, tname) \<or> own (ns, tname) = v) \<and> namedIn toint own (ns, tname) sub v
      | _ \<Rightarrow> True)"
| "namedIn toint own k sub v \<longleftrightarrow>
     (if sub \<in> set wrappers then
        (case lua_getfield v ''__next__'' of
           Inr n \<Rightarrow> (case getfieldSV n ''__name__'' of Inr name \<Rightarrow> named toint own (Some k) n name | Inl _ \<Rightarrow> True)
         | Inl _ \<Rightarrow> True)
      else if sub = ''struct'' then
        (case lua_getfield v ''__fields__'' of
           Inr f \<Rightarrow> (case f of LTable kvs \<Rightarrow> namedFields toint own kvs | _ \<Rightarrow> True)
         | Inl _ \<Rightarrow> True)
      else True)"
| "namedFields toint own [] \<longleftrightarrow> True"
| "namedFields toint own ((k, x) # kvs) \<longleftrightarrow>
     (case getfieldSV x ''__name__'' of Inr name \<Rightarrow> named toint own None x name | Inl _ \<Rightarrow> True) \<and>
     namedFields toint own kvs"
  by pat_completeness auto
termination
  by (relation "measures
      [\<lambda>x. case x of Inl (_, _, _, v, _) \<Rightarrow> lua_size v | Inr (Inl (_, _, _, _, v)) \<Rightarrow> lua_size v
         | Inr (Inr (_, _, kvs)) \<Rightarrow> sum_list (map (\<lambda>(k, v). Suc (lua_size k + lua_size v)) kvs),
       \<lambda>x. case x of Inl _ \<Rightarrow> 1 | _ \<Rightarrow> 0]")
     (auto dest: lua_getfield_size)

declare named.simps [simp del] namedIn.simps [simp del] namedFields.simps [simp del]

subsection \<open>The saved types agree with the reference\<close>

definition agrees :: "(lua \<Rightarrow> int) \<Rightarrow> (namespace \<times> string \<Rightarrow> lua) \<Rightarrow> (namespace \<times> string) option \<Rightarrow> gen_ast \<Rightarrow> bool" where
  "agrees toint own ex s \<longleftrightarrow> (\<forall>k r. ex \<noteq> Some k \<longrightarrow> savedTypes s k = Some r \<longrightarrow>
     (\<exists>t. typeOf toint (own k) (snd k) = Inr t \<and> denotes (types s) r t))"

definition same_type :: "(lua \<Rightarrow> int) \<Rightarrow> (namespace \<times> string \<Rightarrow> lua) \<Rightarrow> (namespace \<times> string) option \<Rightarrow>
    gen_fail + tref \<times> gen_ast \<Rightarrow> gen_fail + ty \<Rightarrow> bool" where
  "same_type toint own ex res ref \<longleftrightarrow> (case res of
     Inl e \<Rightarrow> ref = Inl e
   | Inr (r, s') \<Rightarrow> \<exists>t. ref = Inr t \<and> denotes (types s') r t \<and> agrees toint own ex s' \<and>
       (\<forall>k. ex = Some k \<longrightarrow> savedTypes s' k = Some r))"

definition same_item :: "(lua \<Rightarrow> int) \<Rightarrow> (namespace \<times> string \<Rightarrow> lua) \<Rightarrow> (namespace \<times> string) option \<Rightarrow>
    gen_fail + tref \<times> gen_ast \<Rightarrow> gen_fail + ty \<Rightarrow> bool" where
  "same_item toint own ex res ref \<longleftrightarrow> (case res of
     Inl e \<Rightarrow> ref = Inl e
   | Inr (r, s') \<Rightarrow> \<exists>t. ref = Inr t \<and> denotes (types s') r t \<and> agrees toint own ex s')"

definition same_fields :: "(lua \<Rightarrow> int) \<Rightarrow> (namespace \<times> string \<Rightarrow> lua) \<Rightarrow>
    gen_fail + (string \<times> tref) list \<times> gen_ast \<Rightarrow> gen_fail + (string \<times> ty) list \<Rightarrow> bool" where
  "same_fields toint own res ref \<longleftrightarrow> (case res of
     Inl e \<Rightarrow> ref = Inl e
   | Inr (fs, s') \<Rightarrow> \<exists>ts. ref = Inr ts \<and> list_all2 (rel_prod (=) (denotes (types s'))) fs ts \<and> agrees toint own None s')"

lemma agrees_weaken: "agrees toint own None s \<Longrightarrow> agrees toint own ex s"
  by (simp add: agrees_def)

lemma finish_same:
  assumes "rel_type_variant (denotes (types s)) x y" and "type_key x = k" and "agrees toint own (Some k) s"
  shows "same_type toint own (Some k) (finish x s) (Inr (TNode y))"
proof -
  let ?s = "s\<lparr>savedTypes := (savedTypes s)(k \<mapsto> At (length (types s))), types := types s @ [x]\<rparr>"
  have "rel_type_variant (denotes (types s @ [x])) x y"
    using assms(1) by (rule type_variant.rel_mono_strong) (rule denotes_append)
  then have "denotes (types s @ [x]) (At (length (types s))) (TNode y)"
    by (simp add: denotes_at)
  moreover have "agrees toint own (Some k) ?s"
    using assms(3) by (fastforce simp: agrees_def intro: denotes_append)
  ultimately show ?thesis
    using assms(2) by (simp add: same_type_def finish_def registerIfNeeded_def type_key_def)
qed

lemma item_same:
  assumes "same_item toint own ex res ref"
    and "\<And>r s t. res = Inr (r, s) \<Longrightarrow> denotes (types s) r t \<Longrightarrow> agrees toint own ex s \<Longrightarrow>
      same_type toint own ex' (f (r, s)) (g t)"
  shows "same_type toint own ex' (gbind res f) (gbind ref g)"
proof (cases res)
  case (Inl e)
  with assms(1) show ?thesis by (simp add: same_item_def same_type_def)
next
  case (Inr p)
  with assms show ?thesis by (cases p) (auto simp: same_item_def)
qed

lemma gbind_same:
  assumes "\<And>x. m = Inr x \<Longrightarrow> same_type toint own ex (f x) (g x)"
  shows "same_type toint own ex (gbind m f) (gbind m g)"
  using assms by (cases m) (simp_all add: same_type_def)

lemma denotes_grown: "grown s s' \<Longrightarrow> denotes (types s) r t \<Longrightarrow> denotes (types s') r t"
  by (auto simp: grown_def intro: denotes_append)


lemma rethrow_same: "same_item toint own ex res ref \<Longrightarrow> same_item toint own ex (rethrow f res) (rethrow f ref)"
  by (cases res) (auto simp: same_item_def rethrow_Inl)

lemma same_item_Inl [simp]: "same_item toint own ex (Inl e) (Inl e)"
  by (simp add: same_item_def)

lemma saved_same:
  assumes "agrees toint own None s" and "savedTypes s k = Some r"
  shows "same_item toint own ex (Inr (r, s)) (typeOf toint (own k) (snd k))"
proof -
  from assms obtain t where "typeOf toint (own k) (snd k) = Inr t" "denotes (types s) r t"
    unfolding agrees_def by blast
  with assms(1) show ?thesis by (simp add: same_item_def agrees_weaken)
qed

text \<open>Once an owner is registered, its entry agrees too.\<close>

lemma same_type_owner:
  assumes "same_type toint own (Some k) res (typeOf toint (own k) (snd k))"
  shows "same_item toint own None res (typeOf toint (own k) (snd k))"
proof (cases res)
  case (Inl e)
  with assms show ?thesis by (simp add: same_item_def same_type_def)
next
  case (Inr p)
  obtain r s where p: "p = (r, s)" by (cases p)
  with assms Inr obtain t where t: "typeOf toint (own k) (snd k) = Inr t" "denotes (types s) r t"
    and ag: "agrees toint own (Some k) s" and k: "savedTypes s k = Some r"
    by (auto simp: same_type_def)
  have "agrees toint own None s"
    unfolding agrees_def
  proof (intro allI impI)
    fix k' r' assume k': "savedTypes s k' = Some r'"
    show "\<exists>t. typeOf toint (own k') (snd k') = Inr t \<and> denotes (types s) r' t"
    proof (cases "k' = k")
      case True
      with t k k' show ?thesis by auto
    next
      case False
      with ag [unfolded agrees_def, rule_format, of k' r'] k' show ?thesis by simp
    qed
  qed
  with t Inr p show ?thesis by (simp add: same_item_def)
qed

lemma same_type_item: "same_type toint own ex res ref \<Longrightarrow> same_item toint own ex res ref"
  by (auto simp: same_item_def same_type_def split: sum.splits)

lemma same_item_weaken: "same_item toint own None res ref \<Longrightarrow> same_item toint own ex res ref"
  by (auto simp: same_item_def agrees_weaken split: sum.splits)

subsection \<open>Resolution yields the reference type\<close>

lemma resolve_same:
  "named toint own inn v tname \<Longrightarrow> wf_types s \<Longrightarrow> agrees toint own None s \<Longrightarrow>
     (\<forall>k. inn = Some k \<longrightarrow> savedTypes s k = None) \<Longrightarrow>
     same_item toint own inn (resolveType toint v tname s) (typeOf toint v tname)"
  "namedIn toint own (base_ns b, base_name b) sub v \<Longrightarrow> wf_types s \<Longrightarrow> agrees toint own None s \<Longrightarrow>
     savedTypes s (base_ns b, base_name b) = None \<Longrightarrow>
     same_type toint own (Some (base_ns b, base_name b)) (resolveNew toint v tname sub b s) (typeNew toint v tname sub b)"
  "namedIn toint own k sub v \<Longrightarrow> sub \<in> set wrappers \<Longrightarrow> wf_types s \<Longrightarrow> agrees toint own None s \<Longrightarrow>
     savedTypes s k = None \<Longrightarrow>
     same_item toint own (Some k) (resolveNext toint v s) (typeNext toint v)"
  "namedFields toint own kvs \<Longrightarrow> wf_types s \<Longrightarrow> agrees toint own None s \<Longrightarrow>
     same_fields toint own (resolveFields toint tname kvs s) (typeFields toint kvs)"
proof (induction toint v tname s and toint v tname sub b s and toint v s and toint tname kvs s
       arbitrary: inn and and k sub and
       rule: resolveType_resolveNew_resolveNext_resolveFields.induct)
  case (1 toint v tname s)
  show ?case
  proof (cases "test v ''__is_type__''")
    case (Inl e)
    then show ?thesis
      by (cases e) (simp_all add: same_item_def resolveType.simps [of toint v tname s] typeOf.simps [of toint v tname])
  next
    case b: (Inr b)
    show ?thesis
    proof (cases b)
      case False
      with b show ?thesis
        by (simp add: resolveType.simps [of toint v tname s] typeOf.simps [of toint v tname])
    next
      case True
      with b have t: "test v ''__is_type__'' = Inr True" by simp
      show ?thesis
      proof (cases "map_of populateBuiltins tname")
        case (Some k)
        with t "1.prems"(3) show ?thesis
          by (simp add: resolveType.simps [of toint v tname s] typeOf.simps [of toint v tname]
              same_item_def denotes_builtin agrees_weaken)
      next
        case none: None
        show ?thesis
        proof (cases "getfieldSV v ''__subtype__''")
          case (Inl e)
          with t none show ?thesis
            by (cases e) (simp_all add: resolveType.simps [of toint v tname s] typeOf.simps [of toint v tname])
        next
          case sub: (Inr sub)
          show ?thesis
          proof (cases "extractNs toint v")
            case (Inl e)
            with t none sub show ?thesis
              by (cases e) (simp_all add: resolveType.simps [of toint v tname s] typeOf.simps [of toint v tname])
          next
            case ns: (Inr ns)
            note facts = t none sub ns
            have nm: "inn = Some (ns, tname) \<or> own (ns, tname) = v" and inside: "namedIn toint own (ns, tname) sub v"
              using "1.prems"(1) by (simp_all add: named.simps facts)
            show ?thesis
            proof (cases "savedTypes s (ns, tname)")
              case (Some r)
              with nm "1.prems"(4) have own: "own (ns, tname) = v" by auto
              have "resolveType toint v tname s = Inr (r, s)"
                by (simp add: resolveType.simps [of toint v tname s] facts tryLookup_def Some)
              with saved_same [OF "1.prems"(3) Some] own show ?thesis by simp
            next
              case free: None
              let ?b = "\<lparr>base_ns = ns, base_name = tname\<rparr>"
              have st: "same_type toint own (Some (ns, tname)) (resolveNew toint v tname sub ?b s) (typeNew toint v tname sub ?b)"
                using "1.IH" [OF t _ none sub ns _ _ "1.prems"(2,3)] inside free
                by (simp add: tryLookup_def)
              let ?res = "rethrow (while_resolving tname) (resolveNew toint v tname sub ?b s)"
              have res: "resolveType toint v tname s = ?res"
                by (simp add: resolveType.simps [of toint v tname s] facts tryLookup_def free)
              have ref: "typeOf toint v tname = rethrow (while_resolving tname) (typeNew toint v tname sub ?b)"
                by (simp add: typeOf.simps [of toint v tname] facts)
              have st': "same_type toint own (Some (ns, tname)) ?res (typeOf toint v tname)"
                using st ref by (cases "resolveNew toint v tname sub ?b s") (auto simp: same_type_def rethrow_Inl)
              from nm show ?thesis
              proof
                assume "inn = Some (ns, tname)"
                with st' res show ?thesis by (simp add: same_type_item)
              next
                assume "own (ns, tname) = v"
                with st' same_type_owner [of toint own "(ns, tname)" ?res] res show ?thesis
                  by (simp add: same_item_weaken)
              qed
            qed
          qed
        qed
      qed
    qed
  qed
next
  case (2 toint v tname sub b s)
  let ?k = "(base_ns b, base_name b)"
  have next_IH: "same_item toint own (Some ?k) (resolveNext toint v s) (typeNext toint v)"
    if "sub \<in> set wrappers"
  proof -
    note IH = "2.prems"(1) that "2.prems"(2-4)
    from that consider "sub = ''alias''" | "sub = ''arr''" | "sub = ''opt''" | "sub = ''map''"
      | "sub = ''default''" | "sub = ''attrs''"
      by (auto simp: wrappers_def)
    then show ?thesis
    proof cases
      case 1
      show ?thesis by (rule "2.IH"(1) [OF _ _ IH]) (simp_all add: 1)
    next
      case 2
      show ?thesis by (rule "2.IH"(2) [OF _ _ _ IH]) (simp_all add: 2)
    next
      case 3
      show ?thesis by (rule "2.IH"(3) [OF _ _ _ _ IH]) (simp_all add: 3)
    next
      case 4
      show ?thesis by (rule "2.IH"(4) [OF _ _ _ _ _ IH]) (simp_all add: 4)
    next
      case 5
      show ?thesis by (rule "2.IH"(5) [OF _ _ _ _ _ _ _ IH]) (simp_all add: 5)
    next
      case 6
      show ?thesis by (rule "2.IH"(6) [OF _ _ _ _ _ _ _ _ IH]) (simp_all add: 6)
    qed
  qed
  have single: "same_type toint own (Some ?k) (gbind (resolveNext toint v s) (\<lambda>(item, s'). finish (C item) s'))
      (gbind (typeNext toint v) (\<lambda>item. Inr (TNode (D item))))"
    if "sub \<in> set wrappers"
      and "\<And>R item t. R item t \<Longrightarrow> rel_type_variant R (C item) (D t)" and "\<And>item. GetBase (C item) = b" for C D
    using next_IH [OF that(1)] by (rule item_same) (auto intro!: finish_same that simp: type_key_def that(3))
  consider "sub = ''alias''" | "sub = ''arr''" | "sub = ''opt''" | "sub = ''map''"
      | "sub = ''default''" | "sub = ''attrs''" | "sub = ''enum''" | "sub = ''struct''"
      | "sub \<notin> {''alias'', ''arr'', ''opt'', ''map'', ''default'', ''attrs'', ''enum'', ''struct''}"
    by auto
  then show ?case
  proof cases
    case 1
    then show ?thesis by (auto simp: resolveNew.simps typeNew.simps wrappers_def intro!: single)
  next
    case 2
    then show ?thesis by (auto simp: resolveNew.simps typeNew.simps wrappers_def intro!: single)
  next
    case 3
    then show ?thesis by (auto simp: resolveNew.simps typeNew.simps wrappers_def intro!: single)
  next
    case 4
    then show ?thesis by (auto simp: resolveNew.simps typeNew.simps wrappers_def intro!: single)
  next
    case 5
    then show ?thesis
      by (auto simp: resolveNew.simps typeNew.simps wrappers_def type_key_def
          intro!: item_same [OF next_IH] gbind_same finish_same)
  next
    case 6
    then show ?thesis
      by (auto simp: resolveNew.simps typeNew.simps wrappers_def type_key_def
          intro!: item_same [OF next_IH] gbind_same finish_same)
  next
    case 7
    with "2.prems"(3) show ?thesis
      by (auto simp: resolveNew.simps typeNew.simps type_key_def intro!: gbind_same finish_same agrees_weaken)
  next
    case 8
    have "same_type toint own (Some ?k)
        (gbind (resolveFields toint tname kvs s) (\<lambda>(fields, s'). finish (Struct b attrs fields) s'))
        (gbind (typeFields toint kvs) (\<lambda>fields. Inr (TNode (Struct b attrs fields))))"
      if av: "lua_getfield v ''__attrs__'' = Inr av" "parseAttrs av = Inr attrs"
        and fv: "lua_getfield v ''__fields__'' = Inr fv" "table_entries fv = Inr kvs" for av attrs fv kvs
    proof -
      from fv(2) have "fv = LTable kvs" by (simp add: iterateTable_Inr_iff)
      with "2.prems"(1) 8 fv have "namedFields toint own kvs"
        by (simp add: namedIn.simps [of toint own ?k] wrappers_def)
      with "2.IH"(7) [OF _ _ _ _ _ _ _ _ _ av fv _ "2.prems"(2,3)] 8
      have "same_fields toint own (resolveFields toint tname kvs s) (typeFields toint kvs)" by simp
      then show ?thesis
        by (cases "resolveFields toint tname kvs s")
          (auto simp: same_fields_def same_type_def [of _ _ _ "Inl _"] type_key_def agrees_weaken list.rel_mono_strong
            intro!: finish_same)
    qed
    with 8 show ?thesis
      by (simp add: resolveNew.simps typeNew.simps gbind_same)
  next
    case 9
    then show ?thesis by (auto simp: resolveNew.simps typeNew.simps same_type_def)
  qed
next
  case (3 toint v s)
  show ?case
  proof (cases "lua_getfield v ''__next__''")
    case (Inl e)
    then show ?thesis by (simp add: same_item_def resolveNext.simps typeNext.simps)
  next
    case n: (Inr n)
    show ?thesis
    proof (cases "getfieldSV n ''__name__''")
      case (Inl e)
      with n show ?thesis by (simp add: same_item_def resolveNext.simps typeNext.simps)
    next
      case name: (Inr name)
      have "named toint own (Some k) n name"
        using "3.prems"(1,2) n name by (simp add: namedIn.simps)
      with "3.IH" [OF n name this] "3.prems" n name show ?thesis
        by (simp add: resolveNext.simps typeNext.simps)
    qed
  qed
next
  case (4 toint tname s)
  then show ?case by (simp add: resolveFields.simps typeFields.simps same_fields_def)
next
  case (5 toint tname k x kvs s)
  show ?case
  proof (cases "getSV k")
    case (Inl e)
    then show ?thesis by (simp add: resolveFields.simps typeFields.simps same_fields_def)
  next
    case k: (Inr subname)
    show ?thesis
    proof (cases "getfieldSV x ''__name__''")
      case (Inl e)
      with k show ?thesis by (simp add: resolveFields.simps typeFields.simps same_fields_def)
    next
      case nm: (Inr subtname)
      have "named toint own None x subtname" and rest: "namedFields toint own kvs"
        using "5.prems"(1) nm by (simp_all add: namedFields.simps)
      then have one: "same_item toint own None (resolveType toint x subtname s) (typeOf toint x subtname)"
        using "5.IH"(1) [OF k nm _ "5.prems"(2,3)] by simp
      show ?thesis
      proof (cases "resolveType toint x subtname s")
        case (Inl e)
        with one k nm show ?thesis
          by (simp add: resolveFields.simps typeFields.simps same_fields_def same_item_def rethrow_Inl)
      next
        case (Inr p)
        obtain r s1 where p: "p = (r, s1)" by (cases p)
        with one Inr obtain t where t: "typeOf toint x subtname = Inr t" "denotes (types s1) r t"
          and ag: "agrees toint own None s1"
          by (auto simp: same_item_def)
        have r: "resolved s r s1" using resolveType_resolved [OF _ "5.prems"(2)] Inr p by simp
        then have wf: "wf_types s1" and nn: "r \<noteq> Null" by (auto simp: resolved_def)
        have two: "same_fields toint own (resolveFields toint tname kvs s1) (typeFields toint kvs)"
          using "5.IH"(2) [OF k nm _ _ nn rest wf ag] Inr p by simp
        show ?thesis
        proof (cases "resolveFields toint tname kvs s1")
          case (Inl e)
          with two k nm Inr p t nn show ?thesis
            by (simp add: resolveFields.simps typeFields.simps same_fields_def)
        next
          case all: (Inr q)
          obtain fs s2 where q: "q = (fs, s2)" by (cases q)
          have "denotes (types s2) r t"
            using resolve_resolved(4) [OF _ wf] all q t(2) by (blast intro: denotes_grown)
          with two all q k nm Inr p t nn show ?thesis
            by (auto simp: resolveFields.simps typeFields.simps same_fields_def)
        qed
      qed
    qed
  qed
qed

subsection \<open>The types of a namespace\<close>

text \<open>The types of all entries, and the condition on their names.\<close>

fun typeEntries :: "(lua \<Rightarrow> int) \<Rightarrow> (lua \<times> lua) list \<Rightarrow> gen_fail + ty list" where
  "typeEntries toint [] = Inr []"
| "typeEntries toint ((k, x) # kvs) =
     gbind (getSV k) (\<lambda>name. gbind (typeOf toint x name) (\<lambda>t.
     gbind (typeEntries toint kvs) (\<lambda>ts. Inr (t # ts))))"

fun namedEntries :: "(lua \<Rightarrow> int) \<Rightarrow> (namespace \<times> string \<Rightarrow> lua) \<Rightarrow> (lua \<times> lua) list \<Rightarrow> bool" where
  "namedEntries toint own [] \<longleftrightarrow> True"
| "namedEntries toint own ((k, x) # kvs) \<longleftrightarrow>
     (case getSV k of Inr name \<Rightarrow> named toint own None x name | Inl _ \<Rightarrow> True) \<and> namedEntries toint own kvs"

definition found_as :: "(lua \<Rightarrow> int) \<Rightarrow> gen_ast \<Rightarrow> lua \<times> lua \<Rightarrow> ty \<Rightarrow> bool" where
  "found_as toint s e t \<longleftrightarrow> (\<exists>name r. fst e = LStr name \<and>
     resolveType toint (snd e) name s = Inr (r, s) \<and> denotes (types s) r t)"

lemma getSV_Inr [simp]: "getSV v = Inr x \<longleftrightarrow> v = LStr x"
  by (cases v) auto

text \<open>A type resolved once is found in every later state, as the same type.\<close>

lemma found_later:
  assumes "resolveType toint v tname s = Inr (r, s1)" and "typeOf toint v tname = Inr t"
    and "named toint own None v tname" and "grown s1 s2" and "agrees toint own None s2"
  shows "\<exists>q. resolveType toint v tname s2 = Inr (q, s2) \<and> denotes (types s2) q t"
proof (cases "map_of populateBuiltins tname")
  case (Some k)
  from assms(1) Some have "test v ''__is_type__'' = Inr True"
    by (cases rule: resolveType_returns) simp_all
  with Some assms(2) show ?thesis
    by (auto simp: resolveType.simps [of toint v tname s2] typeOf.simps [of toint v tname] denotes_builtin)
next
  case None
  obtain ns where ns: "extractNs toint v = Inr ns" "savedTypes s1 (ns, tname) = Some r"
    using assms(1) None by (rule resolveType_key)
  then obtain q where q: "savedTypes s2 (ns, tname) = Some q"
    using assms(4) by (auto simp: grown_def)
  from assms(1) None obtain sub where t: "test v ''__is_type__'' = Inr True"
    and sub: "getfieldSV v ''__subtype__'' = Inr sub"
    by (cases rule: resolveType_returns) simp_all
  have "own (ns, tname) = v" using assms(3) by (simp add: named.simps t None sub ns(1))
  with assms(2,5) q have "denotes (types s2) q t"
    unfolding agrees_def by fastforce
  moreover have "resolveType toint v tname s2 = Inr (q, s2)"
    by (simp add: resolveType.simps [of toint v tname s2] t None sub ns(1) tryLookup_def q)
  ultimately show ?thesis by blast
qed

lemma resolveEntries_same:
  assumes "namedEntries toint own kvs" and "wf_types s" and "agrees toint own None s"
  shows "case for_entries (resolveEntry toint) s kvs of
      Inl e \<Rightarrow> typeEntries toint kvs = Inl e
    | Inr s' \<Rightarrow> grown s s' \<and> agrees toint own None s' \<and>
        (\<exists>ts. typeEntries toint kvs = Inr ts \<and> list_all2 (found_as toint s') kvs ts)"
  using assms
proof (induction kvs arbitrary: s)
  case (Cons e kvs)
  obtain k x where e: "e = (k, x)" by (cases e)
  show ?case
  proof (cases "getSV k")
    case (Inl f)
    then show ?thesis by (simp add: e resolveEntry_def)
  next
    case (Inr name)
    with Cons.prems(1) have k: "k = LStr name" and nm: "named toint own None x name"
      and rest: "namedEntries toint own kvs" by (simp_all add: e)
    have one: "same_item toint own None (resolveType toint x name s) (typeOf toint x name)"
      using resolve_same(1) [OF nm Cons.prems(2,3)] by simp
    show ?thesis
    proof (cases "resolveType toint x name s")
      case (Inl f)
      with one k show ?thesis by (simp add: e resolveEntry_def same_item_def)
    next
      case (Inr p)
      obtain r s1 where p: "p = (r, s1)" by (cases p)
      with Inr have res: "resolveType toint x name s = Inr (r, s1)" by simp
      from one res obtain t where t: "typeOf toint x name = Inr t" and ag: "agrees toint own None s1"
        by (auto simp: same_item_def)
      have r: "wf_types s1" "grown s s1" using resolveType_resolved [OF res Cons.prems(2)] by (simp_all add: resolved_def)
      have step: "for_entries (resolveEntry toint) s (e # kvs) = for_entries (resolveEntry toint) s1 kvs"
        by (simp add: e k resolveEntry_def res)
      show ?thesis
      proof (cases "for_entries (resolveEntry toint) s1 kvs")
        case (Inl f)
        with Cons.IH [OF rest r(1) ag] step t show ?thesis by (simp add: e k)
      next
        case all: (Inr s2)
        with Cons.IH [OF rest r(1) ag] obtain ts where ih: "grown s1 s2" "agrees toint own None s2"
          "typeEntries toint kvs = Inr ts" "list_all2 (found_as toint s2) kvs ts"
          by auto
        have "found_as toint s2 e t"
          using found_later [OF res t nm ih(1,2)] by (auto simp: found_as_def e k)
        moreover have "grown s s2" using grown_trans [OF r(2) ih(1)] .
        ultimately show ?thesis using ih step all t by (simp add: e k)
      qed
    qed
  qed
qed simp

lemma new_ast_agrees: "agrees toint own None new_ast"
  by (simp add: agrees_def new_ast_def)

subsection \<open>Properties\<close>

text \<open>
  C23: After the front end's namespace has been read, every registered type refers only to builtins
  and to types registered before it, every reference of a method or notification is a registered
  type, a builtin or the gap of a positional signature, and every registered type denotes a finite
  type: no type contains itself.
\<close>

theorem populate_well_formed:
  assumes "populate_root toint all_ns = Inr (s, name)"
  shows "wf_ast s \<and> (\<forall>i < length (types s). \<exists>t. denotes (types s) (At i) t)"
proof -
  from assms obtain root where "parseOneNamespace toint root new_ast = Inr s"
    by (auto simp: populate_root_def gbind_Inr_iff)
  then have "wf_ast s" using new_ast_wf by (rule parseOneNamespace_ok)
  then show ?thesis by (auto simp: wf_ast_def wf_types_def intro: denotes_total)
qed

text \<open>
  C22: Reading the types of a namespace is exact. When every qualified name belongs to one table or is
  passed on from a type to the one it wraps, the generator either stops with the error that the first
  faulty table has on its own, or every entry is found under its name, without change, as exactly the
  type its table describes.
\<close>

theorem resolved_types_exact:
  assumes "namedEntries toint own kvs"
  shows "case for_entries (resolveEntry toint) new_ast kvs of
      Inl e \<Rightarrow> typeEntries toint kvs = Inl e
    | Inr s \<Rightarrow> \<exists>ts. typeEntries toint kvs = Inr ts \<and> list_all2 (found_as toint s) kvs ts"
  using resolveEntries_same [OF assms _ new_ast_agrees] new_ast_wf
  by (simp add: wf_ast_def split: sum.splits)

subsection \<open>A small interface\<close>

fun integer_or_zero :: "lua \<Rightarrow> int" where
  "integer_or_zero (LInt i) = i"
| "integer_or_zero _ = 0"

definition lua_object :: "(string \<times> lua) list \<Rightarrow> lua" where
  "lua_object kvs = LTable (map (\<lambda>(k, v). (LStr k, v)) kvs)"

definition type_table :: "string \<Rightarrow> string \<Rightarrow> (string \<times> lua) list \<Rightarrow> lua" where
  "type_table nm sub rest = lua_object ([(''__is_type__'', LBool True), (''__name__'', LStr nm),
     (''__subtype__'', LStr sub), (''__ns__'', LStr ''app''), (''__source__'', LStr ''app.lua''),
     (''__ns_depth__'', LInt 0)] @ rest)"

definition int_table :: lua where "int_table = type_table ''int'' ''builtin'' []"
definition str_table :: lua where "str_table = type_table ''str'' ''builtin'' []"
definition void_table :: lua where "void_table = type_table ''void'' ''builtin'' []"

definition maybe_table :: "string \<Rightarrow> lua \<Rightarrow> lua" where
  "maybe_table nm x = type_table nm ''opt'' [(''__next__'', x)]"

definition point_table :: lua where
  "point_table = type_table ''Point'' ''struct'' [(''__attrs__'', LTable []),
     (''__fields__'', lua_object [(''x'', int_table), (''tag'', maybe_table ''Point__tag'' str_table)])]"

definition path_table :: lua where
  "path_table = type_table ''Path'' ''arr'' [(''__next__'', point_table)]"

definition method_table :: "string \<Rightarrow> (lua \<times> lua) list \<Rightarrow> lua" where
  "method_table srv ps = lua_object [(''service'', LStr srv), (''name'', LStr ''find''),
     (''params'', LTable ps), (''returns'', void_table)]"

definition spec_table :: "(string \<times> lua) list \<Rightarrow> lua list \<Rightarrow> lua" where
  "spec_table ts ms = lua_object [(''__root__'', lua_object [(''ns'', LStr ''app''),
     (''types'', lua_object ts), (''methods'', LTable (map (\<lambda>m. (LInt 1, m)) ms)), (''notify'', LTable [])])]"

lemmas tables = int_table_def str_table_def void_table_def maybe_table_def point_table_def path_table_def
  method_table_def spec_table_def type_table_def lua_object_def

definition app_ns :: namespace where
  "app_ns = \<lparr>sourceFile = ''app.lua'', ns_name = ''app'', part = [], ns_depth = 0\<rparr>"

abbreviation "app_base nm \<equiv> \<lparr>base_ns = app_ns, base_name = nm\<rparr>"

lemma example_types:
  "(case populate_root integer_or_zero (spec_table [(''Path'', path_table), (''Point'', point_table)] []) of
     Inr (s, name) \<Rightarrow> name = ''app'' \<and> types s =
       [Opt (app_base ''Point__tag'') (Builtin KString),
        Struct (app_base ''Point'') [] [(''x'', Builtin KInt32), (''tag'', At 0)],
        Arr (app_base ''Path'') (At 1)]
   | Inl _ \<Rightarrow> False)"
  by code_simp


theorem populate_well_formed_witness:
  "\<exists>s. populate_root integer_or_zero (spec_table [(''Path'', path_table), (''Point'', point_table)] []) = Inr (s, ''app'') \<and>
     (\<forall>i < 3. \<exists>t. denotes (types s) (At i) t)"
proof -
  obtain s where s: "populate_root integer_or_zero (spec_table [(''Path'', path_table), (''Point'', point_table)] []) = Inr (s, ''app'')"
    and ts: "types s = [Opt (app_base ''Point__tag'') (Builtin KString),
        Struct (app_base ''Point'') [] [(''x'', Builtin KInt32), (''tag'', At 0)],
        Arr (app_base ''Path'') (At 1)]"
    using example_types by (simp split: sum.splits prod.splits)
  from populate_well_formed [OF s] s ts show ?thesis by (simp add: numeral_3_eq_3)
qed

fun example_owner :: "namespace \<times> string \<Rightarrow> lua" where
  "example_owner (_, nm) = (if nm = ''Path'' then path_table else if nm = ''Point'' then point_table
     else maybe_table ''Point__tag'' str_table)"

lemma example_named:
  "namedEntries integer_or_zero example_owner [(LStr ''Path'', path_table), (LStr ''Point'', point_table)]"
  by code_simp

theorem resolved_types_exact_witness:
  "case for_entries (resolveEntry integer_or_zero) new_ast [(LStr ''Path'', path_table), (LStr ''Point'', point_table)] of
      Inl e \<Rightarrow> typeEntries integer_or_zero [(LStr ''Path'', path_table), (LStr ''Point'', point_table)] = Inl e
    | Inr s \<Rightarrow> \<exists>ts. typeEntries integer_or_zero [(LStr ''Path'', path_table), (LStr ''Point'', point_table)] = Inr ts \<and>
        list_all2 (found_as integer_or_zero s) [(LStr ''Path'', path_table), (LStr ''Point'', point_table)] ts"
  by (rule resolved_types_exact [OF example_named])

subsection \<open>What the names do not tell apart\<close>

text \<open>
  The front end names the unnamed type of a parameter after its method and position, not after the
  service. Two services of one namespace with a method of the same name share the first one's type.
\<close>

lemma services_share_parameter_types:
  "(case populate_root integer_or_zero (spec_table []
       [method_table ''A'' [(LInt 1, maybe_table ''find__arg__1'' int_table)],
        method_table ''B'' [(LInt 1, maybe_table ''find__arg__1'' str_table)]]) of
     Inr (s, _) \<Rightarrow> map call_params (methods s) = [ParamsArray [At 0], ParamsArray [At 0]] \<and>
       types s = [Opt (app_base ''find__arg__1'') (Builtin KInt32)]
   | Inl _ \<Rightarrow> False)"
  by code_simp

text \<open>A positional signature with a gap leaves a null type in the list.\<close>

lemma positional_gap_is_null:
  "(case populate_root integer_or_zero (spec_table [] [method_table ''A'' [(LInt 1, int_table), (LInt 3, int_table)]]) of
     Inr (s, _) \<Rightarrow> map call_params (methods s) = [ParamsArray [Builtin KInt32, Null, Builtin KInt32]]
   | Inl _ \<Rightarrow> False)"
  by code_simp

text \<open>Position 0 wraps around to the largest index, for which the vector is resized to nothing.\<close>

lemma position_zero_out_of_range: "put_param (position 0) r rs = Inl Undefined" if "length rs < 2 ^ 32"
proof -
  have "position 0 = - 1" by (simp add: position_def)
  moreover have "unat (- 1 :: u32) = 2 ^ 32 - 1" by (simp add: unsigned_minus_1_eq_mask mask_eq_exp_minus_1)
  ultimately show ?thesis using that by (simp add: put_param_def Let_def)
qed

text \<open>A specification without a namespace has no root; indexing nil ends the process.\<close>

lemma no_namespace_panics: "populate_root toint (LTable []) = Inl Lua_panic"
  by (simp add: populate_root_def parseOneNamespace_def)

text \<open>The default value of an empty table is an empty array, also for maps and structs.\<close>

lemma empty_table_is_array: "parseDefault toint (LTable []) = Inr (DArr [])"
  by simp

text \<open>The handler of Lua errors removes a character of a message that carries no position.\<close>

lemma message_without_position: "strip_position ''boom'' = Inr ''oom''" "strip_position [] = Inl (Err ''basic_string_view::substr'')"
  by (simp_all add: strip_position_def)


end
