(* ===== verification/Gen_Cpp.thy ===== *)
theory Gen_Cpp
  imports Gen_Meaning
begin

text \<open>
  How the generator prints types in C++ (\<^verbatim>\<open>codegen/src/cppgen.cpp\<close>): names of types, namespaces,
  include guards, parameter lists.

  The printers only read the AST. It is well-founded (\<^verbatim>\<open>populate_well_formed\<close>), so a printer that
  follows a \<^verbatim>\<open>Type\<close> pointer is a function of the tree of types the pointer denotes, which \<^verbatim>\<open>type_at\<close>
  computes; null and dangling pointers have none.
\<close>

subsection \<open>Following a pointer\<close>

fun fields_of :: "(string \<times> 'a option) list \<Rightarrow> (string \<times> 'a) list option" where
  "fields_of [] = Some []"
| "fields_of ((_, None) # fs) = None"
| "fields_of ((k, Some t) # fs) = map_option ((#) (k, t)) (fields_of fs)"

fun whole :: "'a option type_variant \<Rightarrow> 'a type_variant option" where
  "whole (Enum b a v) = Some (Enum b a v)"
| "whole (Struct b a fs) = map_option (Struct b a) (fields_of fs)"
| "whole (Arr b x) = map_option (Arr b) x"
| "whole (Mapping b x) = map_option (Mapping b) x"
| "whole (Opt b x) = map_option (Opt b) x"
| "whole (Alias b x) = map_option (Alias b) x"
| "whole (WithDefault b x d) = map_option (\<lambda>t. WithDefault b t d) x"
| "whole (WithAttrs b x a) = map_option (\<lambda>t. WithAttrs b t a) x"

fun type_at :: "nat \<Rightarrow> tref type_variant list \<Rightarrow> tref \<Rightarrow> ty option" where
  "type_at n ts Null = None"
| "type_at n ts (Builtin k) = Some (TBuiltin k)"
| "type_at 0 ts (At i) = None"
| "type_at (Suc n) ts (At i) =
     (if i < length ts then map_option TNode (whole (map_type_variant (type_at n ts) (ts ! i))) else None)"

text \<open>The fuel is one more than the number of types: enough for every pointer of an ordered AST.\<close>

definition deref :: "tref type_variant list \<Rightarrow> tref \<Rightarrow> gen_fail + ty" where
  "deref ts r = (case type_at (Suc (length ts)) ts r of Some t \<Rightarrow> Inr t | None \<Rightarrow> Inl Undefined)"

lemma fields_of_map:
  assumes "\<And>k r. (k, r) \<in> set fs \<Longrightarrow> f r = Some (g r)"
  shows "fields_of (map (map_prod id f) fs) = Some (map (map_prod id g) fs)"
  using assms
proof (induction fs)
  case (Cons e fs)
  obtain k r where e: "e = (k, r)" by (cases e)
  have "fields_of (map (map_prod id f) fs) = Some (map (map_prod id g) fs)"
    by (rule Cons.IH) (use Cons.prems in auto)
  with e Cons.prems [of k r] show ?case by (simp add: id_def)
qed simp

lemma whole_map:
  assumes "\<And>r. r \<in> set_type_variant x \<Longrightarrow> f r = Some (g r)"
  shows "whole (map_type_variant f x) = Some (map_type_variant g x)"
proof (cases x)
  case (Struct b a fs)
  have "fields_of (map (map_prod id f) fs) = Some (map (map_prod id g) fs)"
    by (rule fields_of_map) (use assms Struct in force)
  then show ?thesis by (simp add: Struct)
qed (use assms in auto)

lemma type_at_denotes:
  assumes "in_order ts" and "denotes ts r t" and "below n r" and "n \<le> length ts"
  shows "type_at (Suc n) ts r = Some t"
  using assms(2-4)
proof (induction n arbitrary: r t rule: less_induct)
  case (less n)
  show ?case
  proof (cases r)
    case Null
    with less.prems show ?thesis by (simp add: denotes_simps)
  next
    case (Builtin k)
    with less.prems show ?thesis by (simp add: denotes_simps)
  next
    case (At i)
    with less.prems(1) obtain x where t: "t = TNode x" and i: "i < length ts"
      and rel: "rel_type_variant (denotes ts) (ts ! i) x"
      by (auto simp: denotes_simps)
    obtain m where n: "n = Suc m" using less.prems(2) At by (cases n) auto
    define g where "g q = (THE u. denotes ts q u)" for q
    have g: "denotes ts q u \<Longrightarrow> g q = u" for q u
      unfolding g_def by (rule the_equality) (auto intro: denotes_unique)
    have sub: "type_at n ts q = Some (g q)" if q: "q \<in> set_type_variant (ts ! i)" for q
    proof -
      have bq: "below i q" using assms(1) i q by (simp add: in_order_def)
      have "below (length ts) q" using bq i by (auto intro: below_mono)
      with assms(1) obtain u where u: "denotes ts q u" using denotes_total by blast
      have "below m q" using bq less.prems(2) At n by (auto intro: below_mono)
      with less.IH [of m q u] u less.prems(3) n g [OF u] show ?thesis by simp
    qed
    have "rel_type_variant (\<lambda>q u. g q = u) (ts ! i) x"
      using rel by (rule type_variant.rel_mono_strong) (rule g)
    then have x: "x = map_type_variant g (ts ! i)"
      using type_variant.rel_map(1) [of "(=)" g "ts ! i" x] by (simp add: type_variant.rel_eq)
    have "whole (map_type_variant (type_at n ts) (ts ! i)) = Some (map_type_variant g (ts ! i))"
      by (rule whole_map) (rule sub)
    then show ?thesis by (simp add: At i t x)
  qed
qed

lemma deref_denotes:
  assumes "in_order ts" and "denotes ts r t" and "below (length ts) r"
  shows "deref ts r = Inr t"
  using type_at_denotes [OF assms order_refl] by (simp add: deref_def)

subsection \<open>Names\<close>

text \<open>A character of C++ text that the generator writes inside quotes.\<close>

definition quote :: string where "quote = [CHR 0x22]"
definition nl :: string where "nl = [CHR 0x0A]"

text \<open>\<^verbatim>\<open>std::isalnum\<close> in the C locale.\<close>

definition isalnum :: "char \<Rightarrow> bool" where
  "isalnum c \<longleftrightarrow> CHR ''0'' \<le> c \<and> c \<le> CHR ''9'' \<or> CHR ''A'' \<le> c \<and> c \<le> CHR ''Z'' \<or>
     CHR ''a'' \<le> c \<and> c \<le> CHR ''z''"

fun ToNamespace :: "string \<Rightarrow> string \<Rightarrow> string" where
  "ToNamespace sep [] = []"
| "ToNamespace sep (ch # file) =
     (if \<not> isalnum ch \<and> ch \<noteq> CHR ''_'' then sep @ ToNamespace sep file else ch # ToNamespace sep file)"

abbreviation "colons \<equiv> ''::''"

text \<open>\<^verbatim>\<open>MakeGuard\<close>: the text before and after the guarded part.\<close>

definition guard_name :: "string \<Rightarrow> string \<Rightarrow> string \<Rightarrow> string" where
  "guard_name file ns prt = ''_'' @ ToNamespace ''_'' ns @ ''_G_'' @ ToNamespace ''_'' file @ ''_P_'' @ prt"

definition MakeGuard :: "namespace \<Rightarrow> string \<times> string" where
  "MakeGuard ns =
     (let g = guard_name (sourceFile ns) (ns_name ns) (part ns) in
      (''#ifndef '' @ g @ nl @ ''#define '' @ g, ''#endif //'' @ g))"

fun builtin_name :: "kind \<Rightarrow> gen_fail + string" where
  "builtin_name KJson = Inr ''rpcxx::Json''"
| "builtin_name KJson_View = Inr ''rpcxx::JsonView''"
| "builtin_name KBool = Inr ''bool''"
| "builtin_name KInt8 = Inr ''int8_t''"
| "builtin_name KUint8 = Inr ''uint8_t''"
| "builtin_name KInt16 = Inr ''int16_t''"
| "builtin_name KUint16 = Inr ''uint16_t''"
| "builtin_name KInt32 = Inr ''int32_t''"
| "builtin_name KUint32 = Inr ''uint32_t''"
| "builtin_name KInt64 = Inr ''int64_t''"
| "builtin_name KUint64 = Inr ''uint64_t''"
| "builtin_name KFloat = Inr ''float''"
| "builtin_name KDouble = Inr ''double''"
| "builtin_name KString = Inr ''std::string''"
| "builtin_name KString_View = Inr ''std::string_view''"
| "builtin_name KBinary = Inr ''rpcxx::Binary''"
| "builtin_name KBinary_View = Inr ''rpcxx::BinaryView''"
| "builtin_name KVoid = Inr ''void''"
| "builtin_name Invalid = Inl (Err ''NonBuiltin passed into Builtin Handler'')"

definition qualified_name :: "type_base \<Rightarrow> string" where
  "qualified_name b = ToNamespace colons (ns_name (base_ns b)) @ colons @ base_name b"

fun PrintType_of :: "ty \<Rightarrow> gen_fail + string" where
  "PrintType_of (TBuiltin k) = builtin_name k"
| "PrintType_of (TNode (Opt _ t)) = gbind (PrintType_of t) (\<lambda>s. Inr (''std::optional<'' @ s @ ''>''))"
| "PrintType_of (TNode (Mapping _ t)) = gbind (PrintType_of t) (\<lambda>s. Inr (''rpcxx::Map<'' @ s @ ''>''))"
| "PrintType_of (TNode (Arr _ t)) = gbind (PrintType_of t) (\<lambda>s. Inr (''std::vector<'' @ s @ ''>''))"
| "PrintType_of (TNode (WithDefault _ t _)) = PrintType_of t"
| "PrintType_of (TNode (WithAttrs _ t _)) = PrintType_of t"
| "PrintType_of (TNode (Enum b _ _)) = Inr (qualified_name b)"
| "PrintType_of (TNode (Struct b _ _)) = Inr (qualified_name b)"
| "PrintType_of (TNode (Alias b _)) = Inr (qualified_name b)"

fun isTrivial :: "ty \<Rightarrow> bool" where
  "isTrivial (TBuiltin _) = True"
| "isTrivial (TNode (Enum _ _ _)) = True"
| "isTrivial (TNode (Alias _ t)) = isTrivial t"
| "isTrivial (TNode (Opt _ t)) = isTrivial t"
| "isTrivial _ = False"

subsection \<open>Parameter lists\<close>

definition ifCref :: "bool \<Rightarrow> ty \<Rightarrow> string" where
  "ifCref needCref t = (if needCref \<and> \<not> isTrivial t then '' const&'' else [])"

text \<open>One parameter \<^verbatim>\<open>{type}{cref} {name}\<close>, with a comma before all but the first.\<close>

definition format_param :: "tref type_variant list \<Rightarrow> bool \<Rightarrow> bool \<Rightarrow> tref \<Rightarrow> string \<Rightarrow> gen_fail + string" where
  "format_param ts needCref first r nm =
     gbind (deref ts r) (\<lambda>t. gbind (PrintType_of t) (\<lambda>p.
     Inr ((if first then [] else '', '') @ p @ ifCref needCref t @ '' '' @ nm)))"

fun format_named :: "tref type_variant list \<Rightarrow> bool \<Rightarrow> bool \<Rightarrow> (string \<times> tref) list \<Rightarrow> gen_fail + string" where
  "format_named ts needCref first [] = Inr []"
| "format_named ts needCref first ((k, r) # kvs) =
     gbind (format_param ts needCref first r k) (\<lambda>p.
     gbind (format_named ts needCref False kvs) (\<lambda>rest. Inr (p @ rest)))"

fun format_array :: "tref type_variant list \<Rightarrow> bool \<Rightarrow> nat \<Rightarrow> tref list \<Rightarrow> gen_fail + string" where
  "format_array ts needCref idx [] = Inr []"
| "format_array ts needCref idx (r # rs) =
     gbind (format_param ts needCref (idx = 0) r (''arg'' @ nat_str idx)) (\<lambda>p.
     gbind (format_array ts needCref (Suc idx) rs) (\<lambda>rest. Inr (p @ rest)))"

definition doFormat :: "tref type_variant list \<Rightarrow> params \<Rightarrow> bool \<Rightarrow> gen_fail + string" where
  "doFormat ts ps needCref = (case ps of
     ParamsNamed kvs \<Rightarrow> format_named ts needCref True kvs
   | ParamsArray rs \<Rightarrow> format_array ts needCref 0 rs
   | ParamsPack r \<Rightarrow> gbind (deref ts r) (\<lambda>t. gbind (PrintType_of t) (\<lambda>p.
       Inr (p @ ifCref needCref t @ '' args''))))"

definition server_FormatSignature :: "tref type_variant list \<Rightarrow> params \<Rightarrow> gen_fail + string" where
  "server_FormatSignature ts ps = doFormat ts ps False"

definition client_FormatSignature :: "tref type_variant list \<Rightarrow> params \<Rightarrow> gen_fail + string" where
  "client_FormatSignature ts ps = doFormat ts ps True"

subsection \<open>Guards do not tell all names apart\<close>

text \<open>
  Every character that is no letter, digit or underscore becomes an underscore in a guard, so two
  namespaces can share it; the preprocessor then drops the later type.
\<close>

lemma guards_collide:
  "MakeGuard \<lparr>sourceFile = ''app.lua'', ns_name = ''app.v1'', part = ''Point'', ns_depth = 0\<rparr> =
   MakeGuard \<lparr>sourceFile = ''app.lua'', ns_name = ''app_v1'', part = ''Point'', ns_depth = 0\<rparr>"
  by code_simp

end
