(* ===== verification/Gen_Types.thy ===== *)
theory Gen_Types
  imports Gen_Cpp
begin

text \<open>
  The C++ declarations of the types (\<^verbatim>\<open>codegen/include/cpp/typegen.hpp\<close>): the members of structs are
  ordered by size, the declarations by the depth of their dependencies, default values and attributes
  are printed, and every type is put under an include guard of its own. Printing a \<^verbatim>\<open>double\<close> with
  \<^verbatim>\<open>std::to_string\<close> is the parameter \<^verbatim>\<open>num\<close>, the sizes of the standard library's types are the record \<^verbatim>\<open>abi\<close>.
\<close>

subsection \<open>Default values\<close>

text \<open>\<^verbatim>\<open>catch (..) { throw Err("{}\n =>\tGetting default for '{}'", e.what(), PrintType_of(t)); }\<close>\<close>

definition about_type :: "string \<Rightarrow> ty \<Rightarrow> gen_fail + 'a \<Rightarrow> gen_fail + 'a" where
  "about_type doing t m = (case m of
     Inl (Err e) \<Rightarrow> gbind (PrintType_of t) (\<lambda>p. Inl (Err (e @ arrow @ doing @ '' '' @ [CHR 0x27] @ p @ [CHR 0x27])))
   | _ \<Rightarrow> m)"

fun defaultFromTrivial :: "(u64 \<Rightarrow> string) \<Rightarrow> def_value \<Rightarrow> string" where
  "defaultFromTrivial num (DStr s) = quote @ s @ quote"
| "defaultFromTrivial num (DInt i) = int_str i"
| "defaultFromTrivial num (DNum d) = num d"
| "defaultFromTrivial num (DBool b) = (if b then ''true'' else ''false'')"
| "defaultFromTrivial num _ = []"

fun join_comma :: "string list \<Rightarrow> string" where
  "join_comma [] = []"
| "join_comma [s] = s"
| "join_comma (s # ss) = s @ '', '' @ join_comma ss"

text \<open>The members of an aggregate in the order of the fields, \<^verbatim>\<open>{}\<close> for a field without a value.\<close>

fun struct_text :: "(string \<times> ty) list \<Rightarrow> (string \<times> string) list \<Rightarrow> gen_fail + string" where
  "struct_text [] unordered = Inr []"
| "struct_text ((nm, t) # fs) unordered =
     gbind (case map_of unordered nm of
         Some d \<Rightarrow> gbind (PrintType_of t) (\<lambda>p. Inr (p @ ''{'' @ d @ ''},''))
       | None \<Rightarrow> Inr ''{},'') (\<lambda>s.
     gbind (struct_text fs unordered) (\<lambda>rest. Inr (s @ rest)))"

function defaultFromRaw :: "(u64 \<Rightarrow> string) \<Rightarrow> ty \<Rightarrow> def_value \<Rightarrow> gen_fail + string"
  and defaultFromArray :: "(u64 \<Rightarrow> string) \<Rightarrow> ty \<Rightarrow> def_value list \<Rightarrow> gen_fail + string list"
  and defaultFromTable :: "(u64 \<Rightarrow> string) \<Rightarrow> ty \<Rightarrow> (string \<times> def_value) list \<Rightarrow> gen_fail + string"
  and defaultFromStruct :: "(u64 \<Rightarrow> string) \<Rightarrow> (string \<times> ty) list \<Rightarrow> (string \<times> def_value) list \<Rightarrow>
    gen_fail + (string \<times> string) list"
where
  "defaultFromRaw num t adef = about_type ''Getting default for'' t
     (case t of
        TNode (Mapping _ item) \<Rightarrow>
          (case adef of DTable kvs \<Rightarrow> defaultFromTable num item kvs
           | _ \<Rightarrow> Inl (Err ''Table expected for default value''))
      | TNode (Arr _ item) \<Rightarrow>
          (case adef of DArr vs \<Rightarrow> gbind (defaultFromArray num item vs) (\<lambda>items. Inr (join_comma items))
           | _ \<Rightarrow> Inl (Err ''Table expected for default value''))
      | TNode (Struct _ _ fs) \<Rightarrow>
          (case adef of DTable kvs \<Rightarrow> gbind (defaultFromStruct num fs kvs) (struct_text fs)
           | _ \<Rightarrow> Inl (Err ''Table expected for default value''))
      | TNode (Enum _ _ _) \<Rightarrow>
          (case adef of DStr s \<Rightarrow> gbind (PrintType_of t) (\<lambda>p. Inr (p @ colons @ s))
           | _ \<Rightarrow> Inl (Err ''String expected for default value''))
      | _ \<Rightarrow> Inr (defaultFromTrivial num adef))"
| "defaultFromArray num item [] = Inr []"
| "defaultFromArray num item (v # vs) =
     gbind (defaultFromRaw num item v) (\<lambda>s.
     gbind (defaultFromArray num item vs) (\<lambda>rest. Inr (s # rest)))"
| "defaultFromTable num item [] = Inr []"
| "defaultFromTable num item ((k, v) # kvs) =
     gbind (defaultFromRaw num item v) (\<lambda>s.
     gbind (defaultFromTable num item kvs) (\<lambda>rest. Inr (''{'' @ k @ '', '' @ s @ ''}'' @ '', '' @ rest)))"
| "defaultFromStruct num fs [] = Inr []"
| "defaultFromStruct num fs ((k, v) # kvs) =
     (case map_of fs k of
        None \<Rightarrow> Inl (Err (''Could not find field ('' @ k @ '') for default value in struct''))
      | Some t \<Rightarrow> gbind (defaultFromRaw num t v) (\<lambda>s.
          gbind (defaultFromStruct num fs kvs) (\<lambda>rest. Inr ((k, s) # rest))))"
  by pat_completeness auto
termination
  by (relation "measure (\<lambda>x. case x of
        Inl (Inl (_, _, d)) \<Rightarrow> size d | Inl (Inr (_, _, vs)) \<Rightarrow> size_list size vs
      | Inr (Inl (_, _, kvs)) \<Rightarrow> size_list (size_prod (\<lambda>_. 0) size) kvs
      | Inr (Inr (_, _, kvs)) \<Rightarrow> size_list (size_prod (\<lambda>_. 0) size) kvs)") auto

fun getDefault :: "(u64 \<Rightarrow> string) \<Rightarrow> ty \<Rightarrow> gen_fail + string" where
  "getDefault num (TNode (WithDefault _ t d)) = defaultFromRaw num t d"
| "getDefault num (TNode (Opt _ t)) = getDefault num t"
| "getDefault num (TNode (Alias _ t)) = getDefault num t"
| "getDefault num (TNode (WithAttrs _ t _)) = getDefault num t"
| "getDefault num _ = Inr []"

subsection \<open>Attributes\<close>

definition getAttrNsAndName :: "string \<Rightarrow> string \<times> string" where
  "getAttrNsAndName attr =
     (if CHR ''.'' \<in> set attr then
        let name = rev (takeWhile (\<lambda>c. c \<noteq> CHR ''.'') (rev attr)) in
        (ToNamespace colons (take (length attr - Suc (length name)) attr), name)
      else ([], attr))"

definition attr_text :: "string \<Rightarrow> string" where
  "attr_text a = (let (ns, name) = getAttrNsAndName a in
     if ns = [] then '', '' @ name else '', '' @ ns @ colons @ name)"

definition formatAttrs :: "string list \<Rightarrow> string" where
  "formatAttrs attrs = concat (map attr_text attrs)"

definition put_all :: "string list \<Rightarrow> string list \<Rightarrow> string list" where
  "put_all attrs out = foldl (\<lambda>acc a. set_put a acc) out attrs"

text \<open>\<^verbatim>\<open>every\<close> is \<^verbatim>\<open>COLLECT_ALL\<close>, otherwise \<^verbatim>\<open>COLLECT_FOR_FIELD\<close>.\<close>

fun collectAttrs :: "bool \<Rightarrow> ty \<Rightarrow> string list \<Rightarrow> string list"
  and collectFields :: "(string \<times> ty) list \<Rightarrow> string list \<Rightarrow> string list"
where
  "collectAttrs every (TBuiltin _) out = out"
| "collectAttrs every (TNode (Struct _ attrs fs)) out =
     (if every then put_all attrs (collectFields fs out) else out)"
| "collectAttrs every (TNode (WithAttrs _ _ attrs)) out = put_all attrs out"
| "collectAttrs every (TNode (Enum _ attrs _)) out = (if every then put_all attrs out else out)"
| "collectAttrs every (TNode (Arr _ t)) out = (if every then collectAttrs every t out else out)"
| "collectAttrs every (TNode (Mapping _ t)) out = (if every then collectAttrs every t out else out)"
| "collectAttrs every (TNode (Opt _ t)) out = collectAttrs every t out"
| "collectAttrs every (TNode (Alias _ t)) out = collectAttrs every t out"
| "collectAttrs every (TNode (WithDefault _ t _)) out = collectAttrs every t out"
| "collectFields [] out = out"
| "collectFields ((_, t) # fs) out = collectFields fs (collectAttrs True t out)"

definition declare_attr :: "string \<Rightarrow> string" where
  "declare_attr a = (let (ns, name) = getAttrNsAndName a in
     if ns = [] then nl @ ''struct '' @ name @ '';''
     else nl @ ''namespace '' @ ns @ '' { struct '' @ name @ ''; }'')"

definition forwardDeclareAttrs :: "string list \<Rightarrow> string" where
  "forwardDeclareAttrs attrs =
     (if attrs = [] then [] else nl @ ''//Attributes forward declarations: '' @ nl) @
     concat (map declare_attr attrs) @
     (if attrs = [] then [] else nl @ nl)"

subsection \<open>One declaration\<close>

definition struct_fmt :: "string \<Rightarrow> string \<Rightarrow> string \<Rightarrow> string \<Rightarrow> string \<Rightarrow> string \<Rightarrow> string" where
  "struct_fmt keyword name flds ns cls_attrs names =
     nl @ keyword @ name @ '' {'' @ flds @ nl @ ''};'' @ nl @
     ''DESCRIBE('' @ quote @ ns @ colons @ name @ quote @ '', '' @ name @ cls_attrs @ '') {'' @ names @ nl @ ''}'' @ nl"

definition enum_field :: "string \<times> int option \<Rightarrow> string" where
  "enum_field v = (case v of
     (name, Some n) \<Rightarrow> nl @ ''    '' @ name @ '' = '' @ int_str n @ '',''
   | (name, None) \<Rightarrow> nl @ ''    '' @ name @ '','')"

definition enum_member :: "string \<times> int option \<Rightarrow> string" where
  "enum_member v = nl @ ''    MEMBER('' @ quote @ fst v @ quote @ '', _::'' @ fst v @ '');''"

definition struct_field :: "(u64 \<Rightarrow> string) \<Rightarrow> string \<times> ty \<Rightarrow> gen_fail + string \<times> string" where
  "struct_field num f = (case f of (name, t) \<Rightarrow>
     gbind (PrintType_of t) (\<lambda>p. gbind (getDefault num t) (\<lambda>d.
     Inr (nl @ ''    '' @ p @ '' '' @ name @ '' = {'' @ d @ ''};'',
          nl @ ''    MEMBER('' @ quote @ name @ quote @ '', &_::'' @ name @
            formatAttrs (collectAttrs False t []) @ '');''))))"

fun struct_fields :: "(u64 \<Rightarrow> string) \<Rightarrow> (string \<times> ty) list \<Rightarrow> gen_fail + string \<times> string" where
  "struct_fields num [] = Inr ([], [])"
| "struct_fields num (f # fs) =
     gbind (struct_field num f) (\<lambda>(flds, names).
     gbind (struct_fields num fs) (\<lambda>(flds', names'). Inr (flds @ flds', names @ names')))"

fun formatSingleType :: "(u64 \<Rightarrow> string) \<Rightarrow> ty \<Rightarrow> gen_fail + string" where
  "formatSingleType num (TNode (Alias b t)) =
     gbind (PrintType_of t) (\<lambda>p. Inr (nl @ ''using '' @ base_name b @ '' = '' @ p @ '';'' @ nl))"
| "formatSingleType num (TNode (Enum b attrs vals)) =
     Inr (struct_fmt ''enum class '' (base_name b) (concat (map enum_field vals))
       (ToNamespace colons (ns_name (base_ns b))) (formatAttrs attrs) (concat (map enum_member vals)))"
| "formatSingleType num (TNode (Struct b attrs fs)) =
     gbind (struct_fields num fs) (\<lambda>(flds, names).
     Inr (struct_fmt ''struct '' (base_name b) flds (ToNamespace colons (ns_name (base_ns b)))
       (formatAttrs attrs) names))"
| "formatSingleType num _ = Inl (Err ''Unformattable type passed to cpp formatting'')"

subsection \<open>Depth and order\<close>

definition max_from :: "u32 \<Rightarrow> u32 list \<Rightarrow> u32" where
  "max_from m ds = foldl (\<lambda>m curr. if m < curr then curr else m) m ds"

fun CalcDepth :: "ty \<Rightarrow> u32" where
  "CalcDepth (TBuiltin _) = 0"
| "CalcDepth (TNode (Enum _ _ _)) = 0"
| "CalcDepth (TNode (Struct _ _ fs)) = max_from 1 (map (\<lambda>(_, t). CalcDepth t + 1) fs)"
| "CalcDepth (TNode (Arr _ t)) = CalcDepth t + 1"
| "CalcDepth (TNode (Mapping _ t)) = CalcDepth t + 1"
| "CalcDepth (TNode (Opt _ t)) = CalcDepth t + 1"
| "CalcDepth (TNode (Alias _ t)) = CalcDepth t + 1"
| "CalcDepth (TNode (WithDefault _ t _)) = CalcDepth t + 1"
| "CalcDepth (TNode (WithAttrs _ t _)) = CalcDepth t + 1"

text \<open>A pair of depth and position in \<^verbatim>\<open>types\<close>.\<close>

definition CompareDeps :: "tref type_variant list \<Rightarrow> u32 \<times> nat \<Rightarrow> u32 \<times> nat \<Rightarrow> bool" where
  "CompareDeps ts l r \<longleftrightarrow>
     fst l < fst r \<or> fst l = fst r \<and>
     ns_less (base_ns (GetBase (ts ! snd l))) (base_ns (GetBase (ts ! snd r)))"

text \<open>
  \<^verbatim>\<open>std::sort\<close> promises a permutation in which no element is less than an earlier one (\<^verbatim>\<open>std_sorts\<close>); the
  order of equivalent elements is open. \<^verbatim>\<open>sort_by\<close> is one such function.
\<close>

definition std_sorts :: "('a \<Rightarrow> 'a \<Rightarrow> bool) \<Rightarrow> 'a list \<Rightarrow> 'a list \<Rightarrow> bool" where
  "std_sorts lt xs ys \<longleftrightarrow> mset ys = mset xs \<and> sorted_wrt (\<lambda>a b. \<not> lt b a) ys"

fun insert_by :: "('a \<Rightarrow> 'a \<Rightarrow> bool) \<Rightarrow> 'a \<Rightarrow> 'a list \<Rightarrow> 'a list" where
  "insert_by lt x [] = [x]"
| "insert_by lt x (y # ys) = (if lt y x then y # insert_by lt x ys else x # y # ys)"

definition sort_by :: "('a \<Rightarrow> 'a \<Rightarrow> bool) \<Rightarrow> 'a list \<Rightarrow> 'a list" where
  "sort_by lt xs = foldr (insert_by lt) xs []"

subsection \<open>The order of the members\<close>

record abi =
  sz_string :: u64
  sz_string_view :: u64
  sz_vector :: u64
  sz_map :: u64
  sz_pointer :: u64

fun builtin_size :: "abi \<Rightarrow> kind \<Rightarrow> u64" where
  "builtin_size abi KBool = 1"
| "builtin_size abi KInt8 = 1"
| "builtin_size abi KUint8 = 1"
| "builtin_size abi KInt16 = 2"
| "builtin_size abi KUint16 = 2"
| "builtin_size abi KInt32 = 4"
| "builtin_size abi KUint32 = 4"
| "builtin_size abi KInt64 = 8"
| "builtin_size abi KUint64 = 8"
| "builtin_size abi KFloat = 4"
| "builtin_size abi KDouble = 8"
| "builtin_size abi KBinary = 4"
| "builtin_size abi KString = sz_string abi"
| "builtin_size abi KString_View = sz_string_view abi"
| "builtin_size abi KJson = sz_string_view abi * 2"
| "builtin_size abi KJson_View = sz_string_view abi"
| "builtin_size abi _ = sz_pointer abi"

fun getSizeof :: "abi \<Rightarrow> ty \<Rightarrow> u64" where
  "getSizeof abi (TBuiltin k) = builtin_size abi k"
| "getSizeof abi (TNode (Enum _ _ _)) = 4"
| "getSizeof abi (TNode (Struct _ _ fs)) = sum_list (map (\<lambda>(_, t). getSizeof abi t) fs)"
| "getSizeof abi (TNode (Alias _ t)) = getSizeof abi t"
| "getSizeof abi (TNode (WithDefault _ t _)) = getSizeof abi t"
| "getSizeof abi (TNode (WithAttrs _ t _)) = getSizeof abi t"
| "getSizeof abi (TNode (Arr _ _)) = sz_vector abi"
| "getSizeof abi (TNode (Mapping _ _)) = sz_map abi"
| "getSizeof abi (TNode (Opt _ t)) = getSizeof abi t"

text \<open>A field with its size; the comparison negates an unsigned number.\<close>

definition member_less :: "u64 \<times> string \<times> tref \<Rightarrow> u64 \<times> string \<times> tref \<Rightarrow> bool" where
  "member_less l r \<longleftrightarrow>
     - fst l < - fst r \<or> fst l = fst r \<and> fst (snd l) < fst (snd r)"

text \<open>
  \<^verbatim>\<open>reorderMembers\<close> on the struct at position \<^verbatim>\<open>i\<close> of the heap. The sizes of types do not depend on the
  order of members, so the cached \<^verbatim>\<open>sz\<close> of a field is computed where it is used. The fuel bounds the
  nesting of structs in structs.
\<close>

fun sizes_of :: "abi \<Rightarrow> tref type_variant list \<Rightarrow> (string \<times> tref) list \<Rightarrow>
    gen_fail + (u64 \<times> string \<times> tref) list" where
  "sizes_of abi ts [] = Inr []"
| "sizes_of abi ts ((nm, r) # fs) =
     gbind (deref ts r) (\<lambda>t. gbind (sizes_of abi ts fs) (\<lambda>rest. Inr ((getSizeof abi t, nm, r) # rest)))"

fun reorderMembers :: "nat \<Rightarrow> abi \<Rightarrow> nat \<Rightarrow> tref type_variant list \<Rightarrow> gen_fail + tref type_variant list"
  and reorderNested :: "nat \<Rightarrow> abi \<Rightarrow> (string \<times> tref) list \<Rightarrow> tref type_variant list \<Rightarrow> gen_fail + tref type_variant list"
where
  "reorderMembers 0 abi i ts = Inl Undefined"
| "reorderMembers (Suc n) abi i ts =
     (case ts ! i of
        Struct b a fs \<Rightarrow>
          gbind (reorderNested n abi fs ts) (\<lambda>ts'.
          gbind (sizes_of abi ts' fs) (\<lambda>ms.
          Inr (ts'[i := Struct b a (map snd (sort_by member_less ms))])))
      | _ \<Rightarrow> Inr ts)"
| "reorderNested n abi [] ts = Inr ts"
| "reorderNested n abi ((_, r) # fs) ts =
     gbind (case r of
         At j \<Rightarrow> (case ts ! j of Struct _ _ _ \<Rightarrow> reorderMembers n abi j ts | _ \<Rightarrow> Inr ts)
       | _ \<Rightarrow> Inr ts) (\<lambda>ts'. reorderNested n abi fs ts')"

subsection \<open>All declarations\<close>

fun is_declared :: "'r type_variant \<Rightarrow> bool" where
  "is_declared (Struct _ _ _) = True"
| "is_declared (Alias _ _) = True"
| "is_declared (Enum _ _ _) = True"
| "is_declared _ = False"

fun is_struct :: "'r type_variant \<Rightarrow> bool" where
  "is_struct (Struct _ _ _) = True"
| "is_struct _ = False"

text \<open>The loop over \<^verbatim>\<open>ctx.ast.types\<close>, with the heap, the attributes and the pairs \<^verbatim>\<open>byDepth\<close>.\<close>

fun scan_types :: "abi \<Rightarrow> nat list \<Rightarrow> tref type_variant list \<Rightarrow> string list \<Rightarrow> (u32 \<times> nat) list \<Rightarrow>
    gen_fail + tref type_variant list \<times> string list \<times> (u32 \<times> nat) list" where
  "scan_types abi [] ts attrs byDepth = Inr (ts, attrs, byDepth)"
| "scan_types abi (i # is) ts attrs byDepth =
     gbind (if is_struct (ts ! i) then reorderMembers (Suc (length ts)) abi i ts else Inr ts) (\<lambda>ts'.
     if is_declared (ts' ! i)
     then gbind (deref ts' (At i)) (\<lambda>t.
       scan_types abi is ts' (collectAttrs True t attrs) (byDepth @ [(CalcDepth t, i)]))
     else scan_types abi is ts' attrs byDepth)"

record out_state =
  lastns :: namespace
  guardEnd :: string
  out_text :: string

definition end_ns :: "out_state \<Rightarrow> out_state" where
  "end_ns st =
     (if ns_name (lastns st) = [] then st
      else st\<lparr>out_text := out_text st @ ''} //namespace '' @ ToNamespace colons (ns_name (lastns st)) @ nl @
          guardEnd st @ nl\<rparr>)"

definition start_ns :: "namespace \<Rightarrow> out_state \<Rightarrow> out_state" where
  "start_ns ns st =
     (if lastns st = ns then st
      else let st1 = end_ns st; (gstart, gend) = MakeGuard ns in
        st1\<lparr>lastns := ns, guardEnd := gend,
            out_text := out_text st1 @ gstart @ nl @ ''namespace '' @ ToNamespace colons (ns_name ns) @ '' {''\<rparr>)"

definition type_ns :: "type_base \<Rightarrow> namespace" where
  "type_ns b = (base_ns b)\<lparr>part := base_name b\<rparr>"

definition emit_type :: "(u64 \<Rightarrow> string) \<Rightarrow> tref type_variant list \<Rightarrow> nat \<Rightarrow> out_state \<Rightarrow> gen_fail + out_state" where
  "emit_type num ts i st =
     gbind (deref ts (At i)) (\<lambda>t.
     about_type ''Generating code for type'' t
       (let st1 = start_ns (type_ns (GetBase (ts ! i))) st in
        gbind (formatSingleType num t) (\<lambda>s. Inr (st1\<lparr>out_text := out_text st1 @ s\<rparr>))))"

fun emit_all :: "(u64 \<Rightarrow> string) \<Rightarrow> tref type_variant list \<Rightarrow> (u32 \<times> nat) list \<Rightarrow> out_state \<Rightarrow> gen_fail + out_state" where
  "emit_all num ts [] st = Inr st"
| "emit_all num ts ((_, i) # ds) st = gbind (emit_type num ts i st) (\<lambda>st'. emit_all num ts ds st')"

text \<open>The targets of the command line.\<close>

record targets =
  target_types :: bool
  target_client :: bool
  target_server :: bool

definition no_ns :: namespace where
  "no_ns = \<lparr>sourceFile = [], ns_name = [], part = [], ns_depth = 0\<rparr>"

text \<open>\<^verbatim>\<open>types::Format\<close>; the heap it leaves is what the client and the server are printed from.\<close>

definition types_Format :: "(u64 \<Rightarrow> string) \<Rightarrow> abi \<Rightarrow> targets \<Rightarrow> gen_ast \<Rightarrow> gen_fail + string \<times> gen_ast" where
  "types_Format num abi tg s =
     (if \<not> target_types tg then Inr ([], s)
      else gbind (scan_types abi [0..<length (types s)] (types s) [] []) (\<lambda>(ts, attrs, byDepth).
        gbind (emit_all num ts (sort_by (CompareDeps ts) byDepth)
            \<lparr>lastns = no_ns, guardEnd = [], out_text = forwardDeclareAttrs attrs\<rparr>) (\<lambda>st.
        Inr (out_text (end_ns st), s\<lparr>types := ts\<rparr>))))"

end
