(* ===== verification/Gen_Rpc.thy ===== *)
theory Gen_Rpc
  imports Gen_Types
begin

text \<open>
  The clients and the servers the generator prints (\<^verbatim>\<open>cpp/clientgen.hpp\<close>, \<^verbatim>\<open>cpp/servergen.hpp\<close>) and the
  file they end up in (\<^verbatim>\<open>Format\<close> of \<^verbatim>\<open>cppgen.cpp\<close>). The arguments a client passes on, and the names a
  server registers, are lists first and text second.
\<close>

subsection \<open>Texts\<close>

text \<open>A loop that appends the text of each element to the result.\<close>

fun gconcat :: "('a \<Rightarrow> gen_fail + string) \<Rightarrow> 'a list \<Rightarrow> gen_fail + string" where
  "gconcat f [] = Inr []"
| "gconcat f (x # xs) = gbind (f x) (\<lambda>s. gbind (gconcat f xs) (\<lambda>rest. Inr (s @ rest)))"

definition service_names :: "gen_ast \<Rightarrow> string list" where
  "service_names s = put_all (map service (notifies s)) (put_all (map service (methods s)) [])"

text \<open>
  \<^verbatim>\<open>name == service.substr(0, service.size() - strlen(suffix))\<close>: the difference of sizes is unsigned, so
  for a shorter name the whole of it is compared.
\<close>

definition sameService :: "string \<Rightarrow> string \<Rightarrow> string \<Rightarrow> bool" where
  "sameService suffix name srv \<longleftrightarrow>
     name = (if length srv < length suffix then srv else take (length srv - length suffix) srv)"

subsection \<open>The client\<close>

text \<open>An argument of the call in a client's method: a variable, or a named variable.\<close>

datatype call_arg = Var string | NamedVar string string

definition call_arguments :: "params \<Rightarrow> call_arg list" where
  "call_arguments ps = (case ps of
     ParamsPack _ \<Rightarrow> [Var ''args'']
   | ParamsArray rs \<Rightarrow> map (\<lambda>i. Var (''arg'' @ nat_str i)) [0..<length rs]
   | ParamsNamed kvs \<Rightarrow> map (\<lambda>(name, _). NamedVar name name) kvs)"

fun arg_text :: "call_arg \<Rightarrow> string" where
  "arg_text (Var v) = '','' @ v"
| "arg_text (NamedVar k v) = '',rpcxx::Arg('' @ quote @ k @ quote @ '', '' @ v @ '')''"

definition formatArgs :: "notify_sig \<Rightarrow> string" where
  "formatArgs n = concat (map arg_text (call_arguments (call_params n)))"

definition params_size :: "params \<Rightarrow> nat" where
  "params_size ps = (case ps of ParamsPack _ \<Rightarrow> 1 | ParamsArray rs \<Rightarrow> length rs | ParamsNamed kvs \<Rightarrow> length kvs)"

definition sig :: "tref type_variant list \<Rightarrow> params \<Rightarrow> bool \<Rightarrow> gen_fail + string" where
  "sig ts ps is_method = gbind (client_FormatSignature ts ps) (\<lambda>s.
     Inr (s @ (if is_method \<and> params_size ps \<noteq> 0 then '', '' else [])))"

definition if_pack :: "params \<Rightarrow> string" where
  "if_pack ps = (case ps of ParamsPack _ \<Rightarrow> ''Pack'' | _ \<Rightarrow> [])"

definition PrintRef :: "tref type_variant list \<Rightarrow> tref \<Rightarrow> gen_fail + string" where
  "PrintRef ts r = gbind (deref ts r) PrintType_of"

definition client_method :: "tref type_variant list \<Rightarrow> bool \<Rightarrow> string \<Rightarrow> method_sig \<Rightarrow> gen_fail + string" where
  "client_method ts source name m =
     gbind (PrintRef ts (returns m)) (\<lambda>ret. gbind (sig ts (call_params m) True) (\<lambda>args.
     Inr (if source then
         nl @ ''template<int>'' @ nl @ ''inline rpcxx::Future<'' @ ret @ ''> '' @ name @ colons @ call_name m @
         ''('' @ args @ ''millis __timeout) {'' @ nl @ ''    return Request'' @ if_pack (call_params m) @ ''<'' @ ret @
         ''>(rpcxx::Method{'' @ quote @ call_name m @ quote @ '', __timeout}'' @
         formatArgs (notify_sig.truncate m) @ '');'' @ nl @ ''}''
       else
         nl @ ''    template<int=0>'' @ nl @ ''    rpcxx::Future<'' @ ret @ ''> '' @ call_name m @
         ''('' @ args @ ''millis __timeout = '' @ nat_str (timeout m) @ '');'')))"

definition client_notify :: "tref type_variant list \<Rightarrow> bool \<Rightarrow> string \<Rightarrow> notify_sig \<Rightarrow> gen_fail + string" where
  "client_notify ts source name n =
     gbind (sig ts (call_params n) False) (\<lambda>args.
     Inr (if source then
         nl @ ''template<int>'' @ nl @ ''inline void '' @ name @ colons @ call_name n @ ''('' @ args @ '') {'' @ nl @
         ''    return Notify'' @ if_pack (call_params n) @ ''('' @ quote @ call_name n @ quote @ formatArgs n @ '');'' @
         nl @ ''}''
       else nl @ ''    template<int=0>'' @ nl @ ''    void '' @ call_name n @ ''('' @ args @ '');''))"

definition client_formatMethods :: "gen_ast \<Rightarrow> bool \<Rightarrow> string \<Rightarrow> gen_fail + string" where
  "client_formatMethods s source name =
     gconcat (\<lambda>m. if \<not> sameService ''_Client'' (service m) name then Inr []
                  else client_method (types s) source name m) (methods s)"

definition client_formatNotifications :: "gen_ast \<Rightarrow> bool \<Rightarrow> string \<Rightarrow> gen_fail + string" where
  "client_formatNotifications s source name =
     gconcat (\<lambda>n. if \<not> sameService ''_Client'' (service n) name then Inr []
                  else client_notify (types s) source name n) (notifies s)"

definition client_formatOne :: "gen_ast \<Rightarrow> bool \<Rightarrow> string \<Rightarrow> gen_fail + string" where
  "client_formatOne s source name =
     gbind (client_formatMethods s source name) (\<lambda>ms. gbind (client_formatNotifications s source name) (\<lambda>ns.
     Inr (if source then nl @ ms @ ns
       else nl @ ''struct '' @ name @ '' : public rpcxx::Client'' @ nl @ ''{'' @ nl @
         ''    using rpcxx::Client::Client;'' @ nl @
         ''    '' @ name @ ''* as_'' @ name @ ''() noexcept {return this;}'' @ nl @ ms @ ns @ nl @ ''};'' @ nl)))"

definition client_Format :: "targets \<Rightarrow> gen_ast \<Rightarrow> bool \<Rightarrow> gen_fail + string" where
  "client_Format tg s source =
     (if \<not> target_client tg then Inr []
      else if methods s = [] \<and> notifies s = [] then Inr []
      else gconcat (\<lambda>name. client_formatOne s source (name @ ''_Client'')) (service_names s))"

subsection \<open>The server\<close>

text \<open>The names registered with a method, and their text.\<close>

definition registered_names :: "params \<Rightarrow> string list option" where
  "registered_names ps = (case ps of ParamsNamed kvs \<Rightarrow> Some (map fst kvs) | _ \<Rightarrow> None)"

definition generateNamesMap :: "string list \<Rightarrow> string" where
  "generateNamesMap names =
     '', rpcxx::NamesMap('' @ join_comma (map (\<lambda>name. quote @ name @ quote) names) @ '')''"

definition generateSingleRegister :: "tref type_variant list \<Rightarrow> bool \<Rightarrow> string \<Rightarrow> notify_sig \<Rightarrow> gen_fail + string" where
  "generateSingleRegister ts isMethod server n =
     gbind (case registered_names (call_params n) of
         Some names \<Rightarrow> Inr (generateNamesMap names)
       | None \<Rightarrow> (case call_params n of
           ParamsPack r \<Rightarrow> gbind (PrintRef ts r) (\<lambda>p. Inr ('', rpcxx::PackParams<'' @ p @ ''>()''))
         | _ \<Rightarrow> Inr [])) (\<lambda>names.
     Inr (nl @ ''    '' @ (if isMethod then ''Method'' else ''Notify'') @ ''<&'' @ server @ colons @ call_name n @
       ''>('' @ quote @ call_name n @ quote @ names @ '');''))"

definition formatMethodRegister :: "gen_ast \<Rightarrow> string \<Rightarrow> gen_fail + string" where
  "formatMethodRegister s server =
     gbind (gconcat (\<lambda>m. if \<not> sameService ''_Server'' (service m) server then Inr []
         else generateSingleRegister (types s) True server (notify_sig.truncate m)) (methods s)) (\<lambda>ms.
     gbind (gconcat (\<lambda>n. if \<not> sameService ''_Server'' (service n) server then Inr []
         else generateSingleRegister (types s) False server n) (notifies s)) (\<lambda>ns.
     Inr (ms @ ns)))"

definition virtual_method :: "string \<Rightarrow> string \<Rightarrow> string \<Rightarrow> string" where
  "virtual_method ret name args = nl @ ''    virtual '' @ ret @ '' '' @ name @ ''('' @ args @ '') = 0;''"

definition server_formatMethods :: "gen_ast \<Rightarrow> string \<Rightarrow> gen_fail + string" where
  "server_formatMethods s server =
     gbind (gconcat (\<lambda>m. if \<not> sameService ''_Server'' (service m) server then Inr []
         else gbind (PrintRef (types s) (returns m)) (\<lambda>ret.
              gbind (server_FormatSignature (types s) (call_params m)) (\<lambda>args.
              Inr (virtual_method (if async m then ''rpcxx::Future<'' @ ret @ ''>'' else ret) (call_name m) args))))
         (methods s)) (\<lambda>ms.
     gbind (gconcat (\<lambda>n. if \<not> sameService ''_Server'' (service n) server then Inr []
         else gbind (server_FormatSignature (types s) (call_params n)) (\<lambda>args.
              Inr (virtual_method ''void'' (call_name n) args)))
         (notifies s)) (\<lambda>ns.
     Inr (ms @ ns)))"

text \<open>The names of all calls, a line break after every fifth.\<close>

fun printed_methods :: "nat \<Rightarrow> string list \<Rightarrow> string" where
  "printed_methods dontSplit [] = []"
| "printed_methods dontSplit (name # names) =
     '',&_::'' @ name @ (if Suc dontSplit = 5 then nl @ printed_methods 0 names
                         else printed_methods (Suc dontSplit) names)"

definition printMethods :: "gen_ast \<Rightarrow> string \<Rightarrow> string" where
  "printMethods s server = printed_methods 0
     (map call_name (filter (\<lambda>n. sameService ''_Server'' (service n) server) (notifies s)) @
      map call_name (filter (\<lambda>m. sameService ''_Server'' (service m) server) (methods s)))"

definition server_formatOne :: "gen_ast \<Rightarrow> string \<Rightarrow> bool \<Rightarrow> bool \<Rightarrow> string \<Rightarrow> gen_fail + string" where
  "server_formatOne s main describeServer source name =
     gbind (if source then formatMethodRegister s name else Inr []) (\<lambda>register.
     gbind (if source then Inr [] else server_formatMethods s name) (\<lambda>ms.
     Inr (if source then
         nl @ ''template<int>'' @ nl @ ''inline '' @ name @ colons @ name @ ''() : Server() {'' @ register @ nl @
         ''}'' @ nl
       else
         nl @ ''struct '' @ name @ '' : public rpcxx::Server'' @ nl @ ''{'' @ nl @ ''    template<int=0>'' @ nl @
         ''    '' @ name @ ''();'' @ nl @
         ''    '' @ name @ ''* as_'' @ name @ ''() noexcept {return this;}'' @ nl @ ms @ nl @ ''};'' @
         (if describeServer
          then nl @ ''DESCRIBE('' @ ToNamespace colons main @ colons @ name @ printMethods s name @ '')'' else []) @ nl)))"

definition server_Format :: "targets \<Rightarrow> gen_ast \<Rightarrow> string \<Rightarrow> bool \<Rightarrow> bool \<Rightarrow> gen_fail + string" where
  "server_Format tg s main describeServer source =
     (if \<not> target_server tg then Inr []
      else if methods s = [] \<and> notifies s = [] then Inr []
      else gconcat (\<lambda>name. server_formatOne s main describeServer source (name @ ''_Server'')) (service_names s))"

subsection \<open>The file\<close>

record gen_params =
  gen_targets :: targets
  extraIncludes :: "string list"
  main_ns :: namespace
  describeServer :: bool

text \<open>The arguments of the template of a file.\<close>

record file_parts =
  source_file :: string
  extra_includes :: string
  guard :: "string \<times> string"
  type_gen :: string
  wrapping_ns :: string
  headers :: "string \<times> string"
  sources :: "string \<times> string"

definition common_template :: "file_parts \<Rightarrow> string" where
  "common_template f =
     (let ns = wrapping_ns f in
     ''// THIS FILE IS GENERATED. Do not modify. Generated from: '' @ source_file f @ nl @
     fst (guard f) @ nl @ extra_includes f @ nl @ ''#include <rpcxx/rpcxx.hpp>'' @ nl @ type_gen f @ nl @
     (if ns = [] then [] else ''namespace '' @ ns @ '' '' @ nl @ ''{'') @ nl @
     fst (headers f) @ nl @ snd (headers f) @ nl @ nl @ fst (sources f) @ nl @ snd (sources f) @ nl @
     (if ns = [] then [] else ''} //namespace '' @ ns) @ nl @ nl @ snd (guard f) @ nl)"

definition cpp_Format :: "(u64 \<Rightarrow> string) \<Rightarrow> abi \<Rightarrow> string \<Rightarrow> gen_params \<Rightarrow> gen_ast \<Rightarrow> gen_fail + string" where
  "cpp_Format num abi spec gp s =
     (let tg = gen_targets gp;
          mainns = ToNamespace colons (ns_name (main_ns gp));
          extra = nl @ concat (map (\<lambda>i. ''#include '' @ quote @ i @ quote @ nl) (extraIncludes gp));
          types_only = (target_types tg \<and> \<not> target_client tg \<and> \<not> target_server tg);
          (gstart, gend) = (if types_only then ([], []) else MakeGuard (main_ns gp));
          wrapping = (if types_only then [] else mainns) in
      gbind (types_Format num abi tg s) (\<lambda>(type_gen, s').
      gbind (client_Format tg s' False) (\<lambda>clientHeader.
      gbind (server_Format tg s' (ns_name (main_ns gp)) (describeServer gp) False) (\<lambda>serverHeader.
      gbind (client_Format tg s' True) (\<lambda>clientSrc.
      gbind (server_Format tg s' (ns_name (main_ns gp)) (describeServer gp) True) (\<lambda>serverSrc.
      Inr (common_template \<lparr>source_file = spec, extra_includes = extra, guard = (gstart, gend),
        type_gen = type_gen, wrapping_ns = wrapping, headers = (serverHeader, clientHeader),
        sources = (serverSrc, clientSrc)\<rparr>)))))))"

end
