(* ===== verification/Gen_Order.thy ===== *)
theory Gen_Order
  imports Gen_Types
begin

text \<open>
  The declarations come in an order in which C++ accepts them: each type after all types that its
  declaration mentions, each attribute declared before it is used. Reordering the members of structs,
  which happens in place while the types are scanned, changes nothing else.
\<close>

subsection \<open>Types up to the order of members\<close>

inductive perm_ty :: "ty \<Rightarrow> ty \<Rightarrow> bool" where
  perm_builtin: "perm_ty (TBuiltin k) (TBuiltin k)"
| perm_node: "rel_type_variant perm_ty x y \<Longrightarrow> perm_ty (TNode x) (TNode y)"
| perm_struct: "list_all2 (rel_prod (=) perm_ty) fs gs' \<Longrightarrow> mset gs' = mset gs \<Longrightarrow>
    perm_ty (TNode (Struct b a fs)) (TNode (Struct b a gs))"
monos type_variant.rel_mono_strong list.rel_mono_strong prod.rel_mono_strong

text \<open>Heaps whose cells differ in the order of members only.\<close>

definition same_cell :: "tref type_variant \<Rightarrow> tref type_variant \<Rightarrow> bool" where
  "same_cell x y \<longleftrightarrow> x = y \<or>
     (\<exists>b a fs gs. x = Struct b a fs \<and> y = Struct b a gs \<and> mset fs = mset gs)"

definition same_types :: "tref type_variant list \<Rightarrow> tref type_variant list \<Rightarrow> bool" where
  "same_types ts ts' \<longleftrightarrow> length ts' = length ts \<and> (\<forall>i < length ts. same_cell (ts ! i) (ts' ! i))"

lemma same_cell_refl [simp]: "same_cell x x"
  by (simp add: same_cell_def)

lemma same_cell_trans: "same_cell x y \<Longrightarrow> same_cell y z \<Longrightarrow> same_cell x z"
  by (auto simp: same_cell_def)

lemma same_types_refl [simp]: "same_types ts ts"
  by (simp add: same_types_def)

lemma same_types_trans: "same_types a b \<Longrightarrow> same_types b c \<Longrightarrow> same_types a c"
  unfolding same_types_def by (metis same_cell_trans)

lemma same_cell_facts:
  assumes "same_cell x y"
  shows "set_type_variant y = set_type_variant x" and "GetBase y = GetBase x"
    and "is_declared y = is_declared x" and "is_struct y = is_struct x"
  using assms by (auto simp: same_cell_def dest: mset_eq_setD)

lemma same_types_in_order: "same_types ts ts' \<Longrightarrow> in_order ts \<Longrightarrow> in_order ts'"
  unfolding same_types_def in_order_def by (metis same_cell_facts(1))

lemma denotes_same:
  assumes "same_types ts ts'" and "denotes ts r t" and "denotes ts' r t'"
  shows "perm_ty t t'"
  using assms(2,3)
proof (induction arbitrary: t' rule: denotes.induct)
  case (denotes_builtin k)
  then show ?case by (simp add: denotes_simps perm_builtin)
next
  case (denotes_at i x)
  let ?R = "\<lambda>r t. denotes ts r t \<and> (\<forall>t'. denotes ts' r t' \<longrightarrow> perm_ty t t')"
  have R: "rel_type_variant ?R (ts ! i) x" using denotes_at.IH .
  from denotes_at.prems obtain y where y: "t' = TNode y" "rel_type_variant (denotes ts') (ts' ! i) y"
    by (auto simp: denotes_simps)
  have cell: "same_cell (ts ! i) (ts' ! i)" using assms(1) denotes_at.hyps(1) by (simp add: same_types_def)
  show ?case
  proof (cases "ts ! i = ts' ! i")
    case True
    have "rel_type_variant (conversep ?R) x (ts ! i)" using R by (simp add: type_variant.rel_conversep)
    then have "rel_type_variant (conversep ?R OO denotes ts') x y"
      using y(2) True by (auto simp: type_variant.rel_compp)
    then have "rel_type_variant perm_ty x y" by (rule type_variant.rel_mono_strong) auto
    then show ?thesis by (simp add: y(1) perm_node)
  next
    case False
    with cell obtain b a fs gs where c: "ts ! i = Struct b a fs" "ts' ! i = Struct b a gs" "mset fs = mset gs"
      by (auto simp: same_cell_def)
    from R c(1) obtain F where F: "x = Struct b a F" "list_all2 (rel_prod (=) ?R) fs F"
      by (cases x) auto
    from y(2) c(2) obtain G where G: "y = Struct b a G" "list_all2 (rel_prod (=) (denotes ts')) gs G"
      by (cases y) auto
    define tr where "tr q = (THE u. denotes ts' q u)" for q
    have tr: "denotes ts' q u \<Longrightarrow> u = tr q" for q u
      unfolding tr_def by (rule the_equality [symmetric]) (auto intro: denotes_unique)
    have "list_all2 (\<lambda>p q. q = map_prod id tr p) gs G"
      using G(2) by (rule list.rel_mono_strong) (auto simp: rel_prod_sel dest: tr)
    then have Geq: "G = map (map_prod id tr) gs"
      by (simp add: list_all2_conv_all_nth list_eq_iff_nth_eq)
    have ex: "\<exists>u. denotes ts' (snd p) u" if "p \<in> set gs" for p
      using G(2) that by (auto simp: list_all2_conv_all_nth in_set_conv_nth rel_prod_sel)
    have "list_all2 (\<lambda>q p. rel_prod (=) perm_ty q (map_prod id tr p)) F fs"
    proof -
      have "list_all2 (\<lambda>p q. rel_prod (=) ?R p q \<and> p \<in> set fs) fs F"
        using F(2) by (simp add: list_all2_conv_all_nth)
      then have "list_all2 (\<lambda>p q. rel_prod (=) perm_ty q (map_prod id tr p)) fs F"
      proof (rule list.rel_mono_strong)
        fix p q assume pq: "rel_prod (=) ?R p q \<and> p \<in> set fs"
        then have "p \<in> set gs" using c(3) by (auto dest: mset_eq_setD)
        with ex obtain u where "denotes ts' (snd p) u" by blast
        with pq tr [of "snd p" u] show "rel_prod (=) perm_ty q (map_prod id tr p)"
          by (auto simp: rel_prod_sel)
      qed
      then show ?thesis by (simp add: list_all2_conv_all_nth)
    qed
    then have "list_all2 (rel_prod (=) perm_ty) F (map (map_prod id tr) fs)"
      by (simp add: list.rel_map)
    moreover have "mset (map (map_prod id tr) fs) = mset G" by (simp add: Geq c(3) [symmetric])
    ultimately show ?thesis by (simp add: y(1) F(1) G(1) perm_struct)
  qed
qed

subsection \<open>Sorting\<close>

lemma mset_insert_by [simp]: "mset (insert_by lt x ys) = add_mset x (mset ys)"
  by (induction ys) auto

lemma mset_sort_by [simp]: "mset (sort_by lt xs) = mset xs"
  by (induction xs) (auto simp: sort_by_def)

lemma set_insert_by [simp]: "set (insert_by lt x ys) = insert x (set ys)"
  by (induction ys) auto

lemma insert_by_sorted:
  assumes asym: "\<And>a b. lt a b \<Longrightarrow> \<not> lt b a"
    and trans: "\<And>a b c. \<not> lt b a \<Longrightarrow> \<not> lt c b \<Longrightarrow> \<not> lt c a"
    and "sorted_wrt (\<lambda>a b. \<not> lt b a) ys"
  shows "sorted_wrt (\<lambda>a b. \<not> lt b a) (insert_by lt x ys)"
  using assms(3)
proof (induction ys)
  case (Cons y ys)
  show ?case
  proof (cases "lt y x")
    case True
    with Cons asym show ?thesis by simp
  next
    case False
    have "\<not> lt z x" if "z \<in> set ys" for z
      using trans [OF False] Cons.prems that by simp
    with False Cons.prems show ?thesis by simp
  qed
qed simp

lemma sort_by_std_sorts:
  assumes "\<And>a b. lt a b \<Longrightarrow> \<not> lt b a"
    and "\<And>a b c. \<not> lt b a \<Longrightarrow> \<not> lt c b \<Longrightarrow> \<not> lt c a"
  shows "std_sorts lt xs (sort_by lt xs)"
proof -
  have "sorted_wrt (\<lambda>a b. \<not> lt b a) (sort_by lt xs)"
    by (induction xs) (simp_all add: sort_by_def insert_by_sorted [of lt, OF assms])
  then show ?thesis by (simp add: std_sorts_def)
qed

lemma std_sorts_before:
  assumes "std_sorts lt xs (as @ x # bs)" and "y \<in> set xs" and "lt y x" and "\<not> lt x x"
  shows "y \<in> set as"
proof -
  have "y \<in> set (as @ x # bs)" using assms(1,2) by (metis mset_eq_setD std_sorts_def)
  then consider "y \<in> set as" | "y = x" | "y \<in> set bs" by auto
  then show ?thesis
  proof cases
    case 3
    with assms(1) have "\<not> lt y x" by (auto simp: std_sorts_def sorted_wrt_append)
    with assms(3) show ?thesis by simp
  qed (use assms(3,4) in auto)
qed

subsection \<open>Depth\<close>

fun height_ty :: "ty \<Rightarrow> nat" where
  "height_ty (TBuiltin _) = 0"
| "height_ty (TNode (Enum _ _ _)) = 0"
| "height_ty (TNode (Struct _ _ fs)) = Max (insert 1 (set (map (\<lambda>(_, t). Suc (height_ty t)) fs)))"
| "height_ty (TNode (Arr _ t)) = Suc (height_ty t)"
| "height_ty (TNode (Mapping _ t)) = Suc (height_ty t)"
| "height_ty (TNode (Opt _ t)) = Suc (height_ty t)"
| "height_ty (TNode (Alias _ t)) = Suc (height_ty t)"
| "height_ty (TNode (WithDefault _ t _)) = Suc (height_ty t)"
| "height_ty (TNode (WithAttrs _ t _)) = Suc (height_ty t)"

lemma height_perm: "perm_ty t t' \<Longrightarrow> height_ty t' = height_ty t"
proof (induction rule: perm_ty.induct)
  case (perm_node x y)
  let ?R = "\<lambda>t t'. perm_ty t t' \<and> height_ty t' = height_ty t"
  show ?case
  proof (cases x)
    case (Struct b a fs)
    with perm_node obtain gs where y: "y = Struct b a gs" and fg: "list_all2 (rel_prod (=) ?R) fs gs"
      by (cases y) auto
    have "map (\<lambda>(_, t). Suc (height_ty t)) gs = map (\<lambda>(_, t). Suc (height_ty t)) fs"
      using fg by (induction rule: list_all2_induct) auto
    then show ?thesis using Struct y by (simp only: height_ty.simps)
  qed (use perm_node in \<open>cases y; auto\<close>)+
next
  case (perm_struct fs gs' gs b a)
  let ?h = "\<lambda>(_, t). Suc (height_ty t)"
  have "map ?h gs' = map ?h fs"
    using perm_struct.IH by (induction rule: list_all2_induct) auto
  moreover have "?h ` set gs' = ?h ` set gs" using perm_struct.hyps by (metis mset_eq_setD)
  ultimately have "set (map ?h gs) = set (map ?h fs)" by (metis list.set_map)
  then show ?case by (simp only: height_ty.simps)
qed simp

lemma unat_add_one: "Suc (unat w) < 2 ^ 32 \<Longrightarrow> unat (w + 1) = Suc (unat w)" for w :: u32
  by (simp add: unat_word_ariths)

lemma unat_max_from:
  "unat (max_from m ds) = fold max (map unat ds) (unat m)"
  unfolding max_from_def
  by (induction ds arbitrary: m) (auto simp: word_less_nat_alt max_def)

text \<open>The 32 bits of the depth are enough as long as they can count the types.\<close>

lemma unat_CalcDepth:
  assumes "height_ty t < 2 ^ 32"
  shows "unat (CalcDepth t) = height_ty t"
  using assms
proof (induction t rule: CalcDepth.induct)
  case (3 b a fs)
  let ?h = "\<lambda>(_, t). Suc (height_ty t)"
  have lt: "?h f < 2 ^ 32" if "f \<in> set fs" for f
  proof -
    have "?h f \<le> height_ty (TNode (Struct b a fs))" using that by (auto intro!: Max_ge)
    from this "3.prems" show ?thesis by (rule le_less_trans)
  qed
  have "map (\<lambda>(_, t). unat (CalcDepth t + 1)) fs = map ?h fs"
  proof (rule map_cong)
    fix f assume f: "f \<in> set fs"
    obtain k t where kt: "f = (k, t)" by (cases f)
    with lt [OF f] have "Suc (height_ty t) < 2 ^ 32" by simp
    moreover from this "3.IH" [OF f kt [symmetric]] have "unat (CalcDepth t) = height_ty t" by simp
    ultimately show "(case f of (_, t) \<Rightarrow> unat (CalcDepth t + 1)) = ?h f" by (simp add: kt unat_add_one)
  qed simp
  then have "map unat (map (\<lambda>(_, t). CalcDepth t + 1) fs) = map ?h fs"
    by (simp add: case_prod_unfold comp_def)
  then have "unat (CalcDepth (TNode (Struct b a fs))) = fold max (map ?h fs) 1"
    by (simp only: CalcDepth.simps unat_max_from unsigned_1)
  then show ?case by (simp only: height_ty.simps Max.set_eq_fold [symmetric] list.simps(15))
qed (simp_all add: unat_add_one)

subsection \<open>The types inside a type\<close>

inductive part_of :: "ty \<Rightarrow> ty \<Rightarrow> bool" where
  part_child: "u \<in> set_type_variant x \<Longrightarrow> part_of u (TNode x)"
| part_below: "u \<in> set_type_variant x \<Longrightarrow> part_of w u \<Longrightarrow> part_of w (TNode x)"

lemma struct_children: "set_type_variant (Struct b a fs) = snd ` set fs"
proof -
  have "Basic_BNFs.snds f = {snd f}" for f :: "string \<times> 'a" by (cases f) (auto elim: snds.cases intro: snds.intros)
  then show ?thesis by auto
qed

lemma height_child:
  assumes "u \<in> set_type_variant x"
  shows "height_ty u < height_ty (TNode x)"
proof (cases x)
  case (Struct b a fs)
  with assms obtain k where "(k, u) \<in> set fs" by (auto simp: struct_children)
  then have "Suc (height_ty u) \<in> insert 1 (set (map (\<lambda>(_, t). Suc (height_ty t)) fs))" by force
  then have "Suc (height_ty u) \<le> height_ty (TNode x)"
    by (simp only: Struct height_ty.simps) (rule Max_ge, simp_all)
  then show ?thesis by simp
qed (use assms in auto)

lemma height_part: "part_of u t \<Longrightarrow> height_ty u < height_ty t"
  by (induction rule: part_of.induct) (auto dest: height_child intro: less_trans)

lemma rel_type_variant_child:
  assumes "rel_type_variant R x y" and "u \<in> set_type_variant y"
  shows "\<exists>q \<in> set_type_variant x. R q u"
proof (cases y)
  case (Struct b a gs)
  with assms(1) obtain fs where x: "x = Struct b a fs" and l: "list_all2 (rel_prod (=) R) fs gs"
    by (cases x) auto
  from assms(2) Struct obtain g where "g \<in> set gs" "snd g = u" by (auto simp: struct_children)
  then obtain i where i: "i < length gs" "snd (gs ! i) = u" by (auto simp: in_set_conv_nth)
  with l have "fs ! i \<in> set fs" "R (snd (fs ! i)) u"
    by (auto simp: list_all2_conv_all_nth rel_prod_sel)
  then show ?thesis by (auto simp only: x struct_children)
qed (use assms in \<open>cases x; auto\<close>)+

lemma part_denoted:
  assumes "in_order ts"
  shows "part_of u t \<Longrightarrow> denotes ts (At i) t \<Longrightarrow> \<exists>q. below i q \<and> denotes ts q u"
proof (induction arbitrary: i rule: part_of.induct)
  case (part_child u x)
  then have i: "i < length ts" "rel_type_variant (denotes ts) (ts ! i) x" by (auto simp: denotes_simps)
  with rel_type_variant_child [OF i(2) part_child.hyps] assms show ?case
    by (auto simp: in_order_def)
next
  case (part_below u x w)
  then have i: "i < length ts" "rel_type_variant (denotes ts) (ts ! i) x" by (auto simp: denotes_simps)
  with rel_type_variant_child [OF i(2) part_below.hyps(1)] assms obtain q where
    q: "below i q" "denotes ts q u" by (auto simp: in_order_def)
  show ?case
  proof (cases q)
    case (At j)
    with q part_below.IH obtain q' where "below j q'" "denotes ts q' w" by blast
    moreover from this(1) q(1) At have "below i q'" by (auto intro: below_mono)
    ultimately show ?thesis by blast
  next
    case (Builtin k)
    with q(2) part_below.hyps(2) show ?thesis by (auto simp: denotes_simps elim: part_of.cases)
  qed (use q in simp)
qed

lemma height_le:
  assumes "in_order ts"
  shows "denotes ts (At i) t \<Longrightarrow> height_ty t \<le> Suc i"
proof (induction i arbitrary: t rule: less_induct)
  case (less i)
  then obtain x where t: "t = TNode x" and i: "i < length ts" "rel_type_variant (denotes ts) (ts ! i) x"
    by (auto simp: denotes_simps)
  have child: "height_ty u \<le> i" if u: "u \<in> set_type_variant x" for u
  proof -
    from rel_type_variant_child [OF i(2) u] assms i(1) obtain q where q: "below i q" "denotes ts q u"
      by (auto simp: in_order_def)
    show ?thesis
    proof (cases q)
      case (At j)
      with q less.IH [of j u] show ?thesis by simp
    qed (use q in \<open>auto simp: denotes_simps\<close>)
  qed
  show ?case
  proof (cases x)
    case (Struct b a fs)
    have "Suc (height_ty u) \<le> Suc i" if "(k, u) \<in> set fs" for k u
      using child [of u] that by (force simp: Struct struct_children)
    then have "\<forall>h \<in> insert 1 (set (map (\<lambda>(_, t). Suc (height_ty t)) fs)). h \<le> Suc i" by auto
    then show ?thesis by (simp only: t Struct height_ty.simps) (subst Max_le_iff, simp_all)
  qed (use child in \<open>auto simp: t\<close>)
qed

subsection \<open>Scanning the types\<close>

lemma sizes_of_ok:
  assumes "in_order ts" and "\<forall>f \<in> set fs. below (length ts) (snd f)"
  shows "\<exists>ms. sizes_of abi ts fs = Inr ms \<and> map snd ms = fs"
  using assms(2)
proof (induction fs)
  case (Cons f fs)
  obtain nm r where f: "f = (nm, r)" by (cases f)
  with Cons.prems assms(1) obtain t where "denotes ts r t" using denotes_total by force
  with assms(1) Cons.prems f have "deref ts r = Inr t" by (auto intro: deref_denotes)
  with Cons f show ?case by auto
qed simp

lemma update_same_types:
  assumes "ts ! i = Struct b a fs" and "mset gs = mset fs" and "i < length ts"
  shows "same_types ts (ts[i := Struct b a gs])"
  using assms by (auto simp: same_types_def same_cell_def nth_list_update)

lemma reorder_ok:
  "in_order ts \<Longrightarrow> i < length ts \<Longrightarrow> i < n \<Longrightarrow>
     \<exists>ts'. reorderMembers n abi i ts = Inr ts' \<and> same_types ts ts'"
  "in_order ts \<Longrightarrow> \<forall>f \<in> set fs. below (min n (length ts)) (snd f) \<Longrightarrow>
     \<exists>ts'. reorderNested n abi fs ts = Inr ts' \<and> same_types ts ts'"
proof (induction n abi i ts and n abi fs ts rule: reorderMembers_reorderNested.induct)
  case (2 n abi i ts)
  show ?case
  proof (cases "ts ! i")
    case (Struct b a fs)
    have "below i (snd f)" if "f \<in> set fs" for f
    proof -
      have "snd f \<in> set_type_variant (ts ! i)" using that by (simp only: Struct struct_children) (rule imageI)
      with 2 show ?thesis by (auto simp: in_order_def)
    qed
    then have bl: "\<forall>f \<in> set fs. below (min n (length ts)) (snd f)" "\<forall>f \<in> set fs. below (length ts) (snd f)"
      using "2.prems"(2,3) by (meson below_mono less_Suc_eq_le less_imp_le_nat min.boundedI)+
    then obtain ts1 where ts1: "reorderNested n abi fs ts = Inr ts1" "same_types ts ts1"
      using "2.IH" [OF Struct "2.prems"(1)] by blast
    then have len: "length ts1 = length ts" by (simp add: same_types_def)
    have "in_order ts1" using ts1(2) "2.prems"(1) by (rule same_types_in_order)
    then obtain ms where ms: "sizes_of abi ts1 fs = Inr ms" "map snd ms = fs"
      using sizes_of_ok bl(2) len by metis
    have "same_cell (ts ! i) (ts1 ! i)" using ts1(2) "2.prems"(2) by (simp add: same_types_def)
    then obtain gs where gs: "ts1 ! i = Struct b a gs" "mset fs = mset gs"
      by (auto simp: Struct same_cell_def eq_commute [of "Struct b a fs"])
    have "mset (map snd (sort_by member_less ms)) = mset (map snd ms)"
      by simp
    then have "same_types ts1 (ts1[i := Struct b a (map snd (sort_by member_less ms))])"
      using gs ms(2) len "2.prems"(2) by (intro update_same_types [OF gs(1)]) simp_all
    with ts1 ms Struct show ?thesis by (auto intro: same_types_trans)
  qed auto
next
  case (4 n abi k r fs ts)
  have "\<exists>ts1. (case r of At j \<Rightarrow> (case ts ! j of Struct _ _ _ \<Rightarrow> reorderMembers n abi j ts | _ \<Rightarrow> Inr ts) | _ \<Rightarrow> Inr ts)
      = Inr ts1 \<and> same_types ts ts1"
  proof (cases r)
    case (At j)
    with "4.prems" have "j < length ts" "j < n" by auto
    with "4.IH"(1) [OF At _ "4.prems"(1)] At show ?thesis by (cases "ts ! j") auto
  qed simp_all
  then obtain ts1 where ts1: "(case r of At j \<Rightarrow> (case ts ! j of Struct _ _ _ \<Rightarrow> reorderMembers n abi j ts | _ \<Rightarrow> Inr ts) | _ \<Rightarrow> Inr ts)
      = Inr ts1" "same_types ts ts1" by blast
  then have "\<exists>ts'. reorderNested n abi fs ts1 = Inr ts' \<and> same_types ts1 ts'"
    using "4.IH"(2) [OF ts1(1) same_types_in_order [OF ts1(2) "4.prems"(1)]] "4.prems"(2) ts1(2)
    by (simp add: same_types_def)
  with ts1 show ?case by (auto intro: same_types_trans)
qed simp_all

subsection \<open>Attributes\<close>

lemma put_all_set [simp]: "set (put_all attrs out) = set attrs \<union> set out"
  unfolding put_all_def by (induction attrs arbitrary: out) auto

text \<open>The attributes of a type, as a set.\<close>

fun attr_set :: "bool \<Rightarrow> ty \<Rightarrow> string set" where
  "attr_set every (TBuiltin _) = {}"
| "attr_set every (TNode (Struct _ attrs fs)) =
     (if every then set attrs \<union> \<Union> (set (map (\<lambda>(_, t). attr_set True t) fs)) else {})"
| "attr_set every (TNode (WithAttrs _ _ attrs)) = set attrs"
| "attr_set every (TNode (Enum _ attrs _)) = (if every then set attrs else {})"
| "attr_set every (TNode (Arr _ t)) = (if every then attr_set every t else {})"
| "attr_set every (TNode (Mapping _ t)) = (if every then attr_set every t else {})"
| "attr_set every (TNode (Opt _ t)) = attr_set every t"
| "attr_set every (TNode (Alias _ t)) = attr_set every t"
| "attr_set every (TNode (WithDefault _ t _)) = attr_set every t"

lemma collectAttrs_set:
  "set (collectAttrs every t out) = attr_set every t \<union> set out"
  "set (collectFields fs out) = \<Union> (set (map (\<lambda>(_, t). attr_set True t) fs)) \<union> set out"
  by (induction every t out and fs out rule: collectAttrs_collectFields.induct) auto

lemma attr_set_field: "attr_set False t \<subseteq> attr_set True t"
  by (induction True t rule: attr_set.induct) auto

lemma attr_set_perm: "perm_ty t t' \<Longrightarrow> attr_set every t' = attr_set every t"
proof (induction arbitrary: every rule: perm_ty.induct)
  case (perm_node x y)
  let ?R = "\<lambda>t t'. perm_ty t t' \<and> (\<forall>every. attr_set every t' = attr_set every t)"
  show ?case
  proof (cases x)
    case (Struct b a fs)
    with perm_node obtain gs where y: "y = Struct b a gs" and fg: "list_all2 (rel_prod (=) ?R) fs gs"
      by (cases y) auto
    have "map (\<lambda>(_, t). attr_set True t) gs = map (\<lambda>(_, t). attr_set True t) fs"
      using fg by (induction rule: list_all2_induct) auto
    then show ?thesis using Struct y by (simp only: attr_set.simps)
  qed (use perm_node in \<open>cases y; auto\<close>)+
next
  case (perm_struct fs gs' gs b a)
  let ?h = "\<lambda>(_, t). attr_set True t"
  have "map ?h gs' = map ?h fs"
    using perm_struct.IH by (induction rule: list_all2_induct) auto
  moreover have "?h ` set gs' = ?h ` set gs" using perm_struct.hyps by (metis mset_eq_setD)
  ultimately have "set (map ?h gs) = set (map ?h fs)" by (metis list.set_map)
  then show ?case by (simp only: attr_set.simps)
qed simp

subsection \<open>What the scan collects\<close>

definition tree_of :: "tref type_variant list \<Rightarrow> nat \<Rightarrow> ty" where
  "tree_of ts i = (THE t. denotes ts (At i) t)"

lemma tree_of_denotes:
  assumes "in_order ts" and "i < length ts"
  shows "denotes ts (At i) (tree_of ts i)"
proof -
  obtain t where "denotes ts (At i) t" using denotes_total [of ts "At i"] assms by auto
  then show ?thesis unfolding tree_of_def by (metis denotes_unique the_equality)
qed

lemma tree_of_same:
  assumes "same_types ts ts'" and "in_order ts" and "i < length ts"
  shows "perm_ty (tree_of ts i) (tree_of ts' i)"
proof -
  have "in_order ts'" "i < length ts'" using assms by (auto simp: same_types_in_order same_types_def)
  then have "denotes ts' (At i) (tree_of ts' i)" by (rule tree_of_denotes)
  then show ?thesis using denotes_same [OF assms(1) tree_of_denotes [OF assms(2,3)]] by blast
qed

text \<open>The entry of \<^verbatim>\<open>byDepth\<close> for the type at position \<^verbatim>\<open>i\<close>.\<close>

definition depth_entry :: "tref type_variant list \<Rightarrow> u32 \<times> nat \<Rightarrow> bool" where
  "depth_entry ts p \<longleftrightarrow> unat (fst p) = height_ty (tree_of ts (snd p))"

lemma scan_ok:
  assumes "in_order ts0" and "length ts0 < 2 ^ 32 - 1"
  shows "same_types ts0 ts \<Longrightarrow> \<forall>i \<in> set is. i < length ts0 \<Longrightarrow>
    \<exists>ts' attrs' new. scan_types abi is ts attrs byDepth = Inr (ts', attrs', byDepth @ new) \<and>
      same_types ts0 ts' \<and> map snd new = filter (\<lambda>i. is_declared (ts0 ! i)) is \<and>
      (\<forall>p \<in> set new. depth_entry ts0 p) \<and>
      set attrs' = set attrs \<union> (\<Union>p \<in> set new. attr_set True (tree_of ts0 (snd p)))"
proof (induction "is" arbitrary: ts attrs byDepth)
  case (Cons i js)
  have i: "i < length ts0" using Cons.prems(2) by simp
  have len: "length ts = length ts0" and io: "in_order ts"
    using Cons.prems(1) assms(1) by (auto simp: same_types_def same_types_in_order)
  have "\<exists>ts1. (if is_struct (ts ! i) then reorderMembers (Suc (length ts)) abi i ts else Inr ts) = Inr ts1 \<and> same_types ts ts1"
    using reorder_ok(1) [OF io, of i "Suc (length ts)" abi] i len by auto
  then obtain ts1 where ts1: "(if is_struct (ts ! i) then reorderMembers (Suc (length ts)) abi i ts else Inr ts) = Inr ts1"
    and s01: "same_types ts0 ts1"
    using same_types_trans [OF Cons.prems(1)] by blast
  have dec: "is_declared (ts1 ! i) = is_declared (ts0 ! i)"
    using s01 i by (auto simp: same_types_def same_cell_facts)
  show ?case
  proof (cases "is_declared (ts0 ! i)")
    case False
    with Cons.IH [OF s01] Cons.prems(2) ts1 dec show ?thesis by simp
  next
    case True
    have io1: "in_order ts1" and i1: "i < length ts1"
      using s01 assms(1) i by (auto simp: same_types_def same_types_in_order)
    let ?t = "tree_of ts1 i" and ?old = "tree_of ts0 i"
    have d: "deref ts1 (At i) = Inr ?t"
      using deref_denotes [OF io1 tree_of_denotes [OF io1 i1]] i1 by simp
    have perm: "perm_ty ?old ?t" using s01 assms(1) i by (rule tree_of_same)
    have "height_ty ?old \<le> Suc i" using height_le [OF assms(1) tree_of_denotes [OF assms(1) i]] .
    then have "height_ty ?t < 2 ^ 32" using height_perm [OF perm] i assms(2) by simp
    then have "unat (CalcDepth ?t) = height_ty ?old" using unat_CalcDepth height_perm [OF perm] by simp
    then have e: "depth_entry ts0 (CalcDepth ?t, i)" by (simp add: depth_entry_def)
    obtain ts' attrs' new where ih: "scan_types abi js ts1 (collectAttrs True ?t attrs) (byDepth @ [(CalcDepth ?t, i)])
        = Inr (ts', attrs', (byDepth @ [(CalcDepth ?t, i)]) @ new)"
      "same_types ts0 ts'" "map snd new = filter (\<lambda>i. is_declared (ts0 ! i)) js" "\<forall>p \<in> set new. depth_entry ts0 p"
      "set attrs' = set (collectAttrs True ?t attrs) \<union> (\<Union>p \<in> set new. attr_set True (tree_of ts0 (snd p)))"
      using Cons.IH [OF s01, of "collectAttrs True ?t attrs" "byDepth @ [(CalcDepth ?t, i)]"] Cons.prems(2) by auto
    have "scan_types abi (i # js) ts attrs byDepth = Inr (ts', attrs', byDepth @ (CalcDepth ?t, i) # new)"
      using ts1 dec True d ih(1) by simp
    moreover have "set attrs' = set attrs \<union> (\<Union>p \<in> set ((CalcDepth ?t, i) # new). attr_set True (tree_of ts0 (snd p)))"
      using ih(5) attr_set_perm [OF perm] by (auto simp: collectAttrs_set)
    ultimately show ?thesis using ih(2-4) e True
      by (intro exI [of _ ts'] exI [of _ attrs'] exI [of _ "(CalcDepth ?t, i) # new"]) simp
  qed
qed simp

subsection \<open>The order of the declarations\<close>

lemma ns_less_asym: "ns_less a b \<Longrightarrow> \<not> ns_less b a"
  by (auto simp: ns_less_def)

lemma ns_less_negtrans: "\<not> ns_less b a \<Longrightarrow> \<not> ns_less c b \<Longrightarrow> \<not> ns_less c a"
  by (auto simp: ns_less_def not_less)

lemma CompareDeps_asym: "CompareDeps ts a b \<Longrightarrow> \<not> CompareDeps ts b a"
  by (auto simp: CompareDeps_def dest: ns_less_asym)

text \<open>The comparison is a strict weak order, which \<^verbatim>\<open>std::sort\<close> requires.\<close>

lemma CompareDeps_std_sorts: "std_sorts (CompareDeps ts) xs (sort_by (CompareDeps ts) xs)"
proof (rule sort_by_std_sorts)
  fix a b c assume ba: "\<not> CompareDeps ts b a" and cb: "\<not> CompareDeps ts c b"
  let ?n = "\<lambda>p. base_ns (GetBase (ts ! snd p))"
  from ba cb have le: "fst a \<le> fst b" "fst b \<le> fst c" by (auto simp: CompareDeps_def not_less)
  show "\<not> CompareDeps ts c a"
  proof
    assume ca: "CompareDeps ts c a"
    with le have eq: "fst b = fst a" "fst c = fst a" by (auto simp: CompareDeps_def)
    with ba cb have "\<not> ns_less (?n b) (?n a)" "\<not> ns_less (?n c) (?n b)" by (auto simp: CompareDeps_def)
    then have "\<not> ns_less (?n c) (?n a)" by (rule ns_less_negtrans)
    with ca eq show False by (simp add: CompareDeps_def)
  qed
qed (rule CompareDeps_asym)

fun declared_ty :: "ty \<Rightarrow> bool" where
  "declared_ty (TBuiltin _) = False"
| "declared_ty (TNode x) = is_declared x"

fun printed_attrs :: "ty \<Rightarrow> string set" where
  "printed_attrs (TNode (Struct _ attrs fs)) =
     set attrs \<union> \<Union> (set (map (\<lambda>(_, t). set (collectAttrs False t [])) fs))"
| "printed_attrs (TNode (Enum _ attrs _)) = set attrs"
| "printed_attrs _ = {}"

lemma printed_attrs_sub: "printed_attrs t \<subseteq> attr_set True t"
proof (cases t rule: printed_attrs.cases)
  case (1 b attrs fs)
  have "set (collectAttrs False u []) \<subseteq> attr_set True u" for u
    using attr_set_field by (simp add: collectAttrs_set)
  with 1 show ?thesis by fastforce
qed auto

lemma is_declared_rel: "rel_type_variant R x y \<Longrightarrow> is_declared y = is_declared x"
  by (cases x; cases y) auto

lemma denotes_declared: "denotes ts (At j) u \<Longrightarrow> declared_ty u = is_declared (ts ! j)"
  by (auto simp: denotes_simps dest: is_declared_rel)

text \<open>The scan of a populated AST.\<close>

lemma scan_populated:
  assumes "populate_root toint all_ns = Inr (s, name)" and "length (types s) < 2 ^ 32 - 1"
  obtains ts attrs byDepth where
    "scan_types abi [0..<length (types s)] (types s) [] [] = Inr (ts, attrs, byDepth)"
    "in_order (types s)" "same_types (types s) ts"
    "map snd byDepth = filter (\<lambda>i. is_declared (ts ! i)) [0..<length ts]"
    "\<forall>p \<in> set byDepth. unat (fst p) = height_ty (tree_of ts (snd p))"
    "set attrs = (\<Union>p \<in> set byDepth. attr_set True (tree_of ts (snd p)))"
proof -
  obtain root where "parseOneNamespace toint root new_ast = Inr s"
    using assms(1) by (auto simp: populate_root_def gbind_Inr_iff)
  then have "wf_ast s" using new_ast_wf by (rule parseOneNamespace_ok)
  then have io: "in_order (types s)" by (simp add: wf_ast_def wf_types_def)
  obtain ts attrs byDepth where sc: "scan_types abi [0..<length (types s)] (types s) [] [] = Inr (ts, attrs, byDepth)"
    and st: "same_types (types s) ts"
    and mp: "map snd byDepth = filter (\<lambda>i. is_declared (types s ! i)) [0..<length (types s)]"
    and de: "\<forall>p \<in> set byDepth. depth_entry (types s) p"
    and at: "set attrs = (\<Union>p \<in> set byDepth. attr_set True (tree_of (types s) (snd p)))"
    using scan_ok [OF io assms(2) same_types_refl, of "[0..<length (types s)]" abi "[]" "[]"] by auto
  have lt: "snd p < length (types s)" if "p \<in> set byDepth" for p
  proof -
    have "snd p \<in> set (map snd byDepth)" using that by simp
    then show ?thesis unfolding mp by simp
  qed
  have pm: "perm_ty (tree_of (types s) (snd p)) (tree_of ts (snd p))" if "p \<in> set byDepth" for p
    using st io lt [OF that] by (rule tree_of_same)
  have "filter (\<lambda>i. is_declared (types s ! i)) [0..<length (types s)] = filter (\<lambda>i. is_declared (ts ! i)) [0..<length ts]"
    using st by (auto simp: same_types_def same_cell_facts intro!: filter_cong)
  moreover have "\<forall>p \<in> set byDepth. unat (fst p) = height_ty (tree_of ts (snd p))"
    using de height_perm [OF pm] by (auto simp: depth_entry_def)
  moreover have "set attrs = (\<Union>p \<in> set byDepth. attr_set True (tree_of ts (snd p)))"
    using at attr_set_perm [OF pm] by auto
  ultimately show thesis using sc io st mp that by metis
qed

text \<open>
  C20: C++ accepts the order of the generated declarations. The scan of a populated AST returns, and in
  every order that \<^verbatim>\<open>std::sort\<close> may give its result, each struct, alias and enum is declared once,
  after every struct, alias and enum that occurs inside it.
\<close>

theorem declared_before_use:
  assumes "populate_root toint all_ns = Inr (s, name)" and "length (types s) < 2 ^ 32 - 1"
  shows "\<exists>ts attrs byDepth. scan_types abi [0..<length (types s)] (types s) [] [] = Inr (ts, attrs, byDepth) \<and>
     same_types (types s) ts \<and>
     (\<forall>order. std_sorts (CompareDeps ts) byDepth order \<longrightarrow>
        distinct (map snd order) \<and> set (map snd order) = {i. i < length ts \<and> is_declared (ts ! i)} \<and>
        (\<forall>before d i after t u. order = before @ (d, i) # after \<longrightarrow> denotes ts (At i) t \<longrightarrow>
           part_of u t \<longrightarrow> declared_ty u \<longrightarrow> (\<exists>p \<in> set before. denotes ts (At (snd p)) u)))"
proof -
  obtain ts attrs byDepth where sc: "scan_types abi [0..<length (types s)] (types s) [] [] = Inr (ts, attrs, byDepth)"
    and io: "in_order (types s)" and st: "same_types (types s) ts"
    and mp: "map snd byDepth = filter (\<lambda>i. is_declared (ts ! i)) [0..<length ts]"
    and de: "\<forall>p \<in> set byDepth. unat (fst p) = height_ty (tree_of ts (snd p))"
    using assms by (rule scan_populated)
  have iot: "in_order ts" using st io by (rule same_types_in_order)
  have tree: "height_ty (tree_of ts i) = height_ty t" if "denotes ts (At i) t" for i t
    using that by (metis denotes_unique the_equality tree_of_def)
  have once: "distinct (map snd order) \<and> set (map snd order) = {i. i < length ts \<and> is_declared (ts ! i)}"
    if so: "std_sorts (CompareDeps ts) byDepth order" for order
  proof -
    have "mset (map snd order) = mset (map snd byDepth)" using so by (simp add: std_sorts_def)
    then have "distinct (map snd order) = distinct (map snd byDepth)" "set (map snd order) = set (map snd byDepth)"
      by (rule mset_eq_imp_distinct_iff, rule mset_eq_setD)
    then show ?thesis unfolding mp by auto
  qed
  have before: "\<exists>p \<in> set as. denotes ts (At (snd p)) u"
    if so: "std_sorts (CompareDeps ts) byDepth (as @ (d, i) # bs)" and t: "denotes ts (At i) t"
      and u: "part_of u t" "declared_ty u" for as d i bs t u
  proof -
    obtain q where q: "below i q" "denotes ts q u" using part_denoted [OF iot u(1) t] by blast
    with u(2) obtain j where j: "q = At j" by (cases q) (auto simp: denotes_simps)
    then have dj: "is_declared (ts ! j)" "j < length ts"
      using q(2) u(2) denotes_declared by (auto simp: denotes_simps)
    then have "j \<in> set (map snd byDepth)" unfolding mp by simp
    then obtain e where e: "(e, j) \<in> set byDepth" by auto
    have "(d, i) \<in> set byDepth" using so by (metis in_set_conv_decomp mset_eq_setD std_sorts_def)
    with de e have "unat d = height_ty t" "unat e = height_ty u"
      using tree [OF t] tree q(2) j by force+
    with height_part [OF u(1)] have "CompareDeps ts (e, j) (d, i)"
      by (simp add: CompareDeps_def word_less_nat_alt)
    then have "(e, j) \<in> set as"
      using std_sorts_before [OF so e] CompareDeps_asym by blast
    with q j show ?thesis by force
  qed
  show ?thesis
    using sc st once before by blast
qed

text \<open>
  Every attribute is declared before it is used: the attributes of a declared type and those
  printed for its members are among the ones declared forward.
\<close>

theorem attributes_declared:
  assumes "populate_root toint all_ns = Inr (s, name)" and "length (types s) < 2 ^ 32 - 1"
    and "scan_types abi [0..<length (types s)] (types s) [] [] = Inr (ts, attrs, byDepth)"
    and "(d, i) \<in> set byDepth" and "denotes ts (At i) t"
  shows "printed_attrs t \<subseteq> set attrs"
proof -
  have "set attrs = (\<Union>p \<in> set byDepth. attr_set True (tree_of ts (snd p)))"
    using scan_populated [OF assms(1,2), of abi] assms(3) by (metis Inr_inject Pair_inject)
  moreover have "tree_of ts i = t"
    using assms(5) by (metis denotes_unique the_equality tree_of_def)
  ultimately show ?thesis using assms(4) printed_attrs_sub [of t] by force
qed

subsection \<open>Examples\<close>

definition route_alias :: lua where
  "route_alias = type_table ''Route'' ''alias'' [(''__next__'', path_table)]"

definition route_spec :: lua where
  "route_spec = spec_table [(''Route'', route_alias), (''Point'', point_table)] []"

definition linux_abi :: abi where
  "linux_abi = \<lparr>sz_string = 32, sz_string_view = 16, sz_vector = 24, sz_map = 48, sz_pointer = 8\<rparr>"

lemma route_types:
  "(case populate_root integer_or_zero route_spec of
     Inr (s, name) \<Rightarrow> name = ''app'' \<and> types s =
       [Opt (app_base ''Point__tag'') (Builtin KString),
        Struct (app_base ''Point'') [] [(''x'', Builtin KInt32), (''tag'', At 0)],
        Arr (app_base ''Path'') (At 1), Alias (app_base ''Route'') (At 2)]
   | Inl _ \<Rightarrow> False)"
  by code_simp

lemma route_scan:
  "scan_types linux_abi [0..<4]
       [Opt (app_base ''Point__tag'') (Builtin KString),
        Struct (app_base ''Point'') [] [(''x'', Builtin KInt32), (''tag'', At 0)],
        Arr (app_base ''Path'') (At 1), Alias (app_base ''Route'') (At 2)] [] [] =
   Inr ([Opt (app_base ''Point__tag'') (Builtin KString),
        Struct (app_base ''Point'') [] [(''tag'', At 0), (''x'', Builtin KInt32)],
        Arr (app_base ''Path'') (At 1), Alias (app_base ''Route'') (At 2)], [], [(2, 1), (4, 3)])"
  by code_simp

theorem declared_before_use_witness:
  "\<exists>s. populate_root integer_or_zero route_spec = Inr (s, ''app'') \<and>
     (\<exists>ts attrs byDepth. scan_types linux_abi [0..<4] (types s) [] [] = Inr (ts, attrs, byDepth) \<and>
        set (map snd (sort_by (CompareDeps ts) byDepth)) = {i. i < 4 \<and> is_declared (ts ! i)})"
proof -
  obtain s where s: "populate_root integer_or_zero route_spec = Inr (s, ''app'')" and len: "length (types s) = 4"
    using route_types by (simp split: sum.splits prod.splits)
  obtain ts attrs byDepth where sc: "scan_types linux_abi [0..<length (types s)] (types s) [] [] = Inr (ts, attrs, byDepth)"
    and st: "same_types (types s) ts"
    and all: "\<forall>order. std_sorts (CompareDeps ts) byDepth order \<longrightarrow> set (map snd order) = {i. i < length ts \<and> is_declared (ts ! i)}"
    using declared_before_use [OF s, of linux_abi] len by auto
  then have "set (map snd (sort_by (CompareDeps ts) byDepth)) = {i. i < length ts \<and> is_declared (ts ! i)}"
    using CompareDeps_std_sorts by blast
  moreover have "length ts = 4" using st len by (simp add: same_types_def)
  ultimately show ?thesis using s sc len by auto
qed

definition row_spec :: lua where
  "row_spec = spec_table [(''Row'', type_table ''Row'' ''struct'' [(''__attrs__'', LTable [(LInt 1, LStr ''db.table'')]),
     (''__fields__'', lua_object [(''id'', type_table ''Row__id'' ''attrs'' [(''__attrs__'', LTable [(LInt 1, LStr ''key'')]),
        (''__next__'', int_table)])])])] []"

abbreviation "row_types \<equiv> [WithAttrs (app_base ''Row__id'') (Builtin KInt32) [''key''],
        Struct (app_base ''Row'') [''db.table''] [(''id'', At 0)]]"

lemma row_populated:
  "(case populate_root integer_or_zero row_spec of
     Inr (s, name) \<Rightarrow> name = ''app'' \<and> types s = row_types | Inl _ \<Rightarrow> False)"
  by code_simp

lemma row_scan:
  "scan_types linux_abi [0..<2] row_types [] [] = Inr (row_types, [''db.table'', ''key''], [(2, 1)])"
  by code_simp

lemma row_denotes:
  "denotes row_types (At 1) (TNode (Struct (app_base ''Row'') [''db.table'']
     [(''id'', TNode (WithAttrs (app_base ''Row__id'') (TBuiltin KInt32) [''key'']))]))"
proof -
  have "denotes row_types (At 0) (TNode (WithAttrs (app_base ''Row__id'') (TBuiltin KInt32) [''key'']))"
    by (rule denotes_at) (simp_all add: denotes_builtin)
  then show ?thesis by (intro denotes_at) simp_all
qed

theorem attributes_declared_witness:
  "printed_attrs (TNode (Struct (app_base ''Row'') [''db.table'']
     [(''id'', TNode (WithAttrs (app_base ''Row__id'') (TBuiltin KInt32) [''key'']))])) \<subseteq> set [''db.table'', ''key'']"
proof -
  obtain s where s: "populate_root integer_or_zero row_spec = Inr (s, ''app'')" and ts: "types s = row_types"
    using row_populated by (simp split: sum.splits prod.splits)
  have len: "length (types s) = 2" by (simp add: ts)
  have sc: "scan_types linux_abi [0..<length (types s)] (types s) [] [] = Inr (row_types, [''db.table'', ''key''], [(2, 1)])"
    by (simp only: len) (simp only: ts row_scan)
  have small: "length (types s) < 2 ^ 32 - 1" by (simp add: len)
  show ?thesis
    by (rule attributes_declared [OF s small sc _ row_denotes, of 2]) simp
qed

text \<open>
  What printing does to default values: the keys of a map come out without quotes, a string is not
  escaped, and a table given to an alias of a struct is dropped.
\<close>

lemma map_default_keys_unquoted:
  "getDefault num (TNode (WithDefault (app_base ''M'') (TNode (Mapping (app_base ''M'') (TBuiltin KInt32)))
     (DTable [(''a'', DInt 1)]))) = Inr ''{a, 1}, ''"
  by code_simp

lemma alias_default_dropped:
  "getDefault num (TNode (WithDefault (app_base ''D'') (TNode (Alias (app_base ''P'')
     (TNode (Struct (app_base ''P'') [] [(''x'', TBuiltin KInt32)])))) (DTable [(''x'', DInt 1)]))) = Inr []"
  by (simp add: about_type_def)

lemma string_default_unescaped: "defaultFromTrivial num (DStr s) = quote @ s @ quote"
  by simp

text \<open>Attributes of a wrapped type are dropped where a type with attributes wraps a default.\<close>

lemma inner_attributes_dropped:
  "collectAttrs False (TNode (WithAttrs b (TNode (WithDefault b (TNode (WithAttrs b (TBuiltin KInt32) [''b'']))
     (DInt 1))) [''a''])) [] = [''a'']"
  by (simp add: put_all_def)

text \<open>A struct without members has size 0, and 0 is its own negation: it is ordered before all others.\<close>

lemma empty_member_first: "member_less (0, ''e'', r) (8, ''d'', q)"
  by (simp add: member_less_def word_less_nat_alt)

end
