(* ===== verification/Gen_Call.thy ===== *)
theory Gen_Call
  imports Gen_Rpc Gen_Order Rpc_Roundtrip
begin

text \<open>
  The generated client and the generated server of a service fit together: what the client's method
  sends for its arguments, the server's handler is called with. The meaning of the printed call is its
  list of arguments, read in the scope of the method's parameters; the runtime's side is the model of
  \<^verbatim>\<open>server.hpp\<close> in \<^verbatim>\<open>Rpc_Server\<close>.
\<close>

text \<open>The names under which \<^verbatim>\<open>doFormat\<close> prints the parameters.\<close>

definition param_names :: "params \<Rightarrow> string list" where
  "param_names ps = (case ps of
     ParamsNamed kvs \<Rightarrow> map fst kvs
   | ParamsArray rs \<Rightarrow> map (\<lambda>i. ''arg'' @ nat_str i) [0..<length rs]
   | ParamsPack _ \<Rightarrow> [''args''])"

text \<open>The values of the arguments in a scope, with their names if they have any.\<close>

fun arg_values :: "(string \<Rightarrow> json option) \<Rightarrow> call_arg list \<Rightarrow> (string option \<times> json) list option" where
  "arg_values env [] = Some []"
| "arg_values env (Var v # args) =
     (case env v of Some j \<Rightarrow> map_option (Cons (None, j)) (arg_values env args) | None \<Rightarrow> None)"
| "arg_values env (NamedVar k v # args) =
     (case env v of Some j \<Rightarrow> map_option (Cons (Some k, j)) (arg_values env args) | None \<Rightarrow> None)"

text \<open>
  What the body of the client's method sends when it is called with \<open>vals\<close>: a pack as it is, other
  arguments through \<^verbatim>\<open>IntoParams\<close>.
\<close>

definition sent_params :: "params \<Rightarrow> json list \<Rightarrow> json option" where
  "sent_params ps vals =
     map_option (\<lambda>as. case ps of
         ParamsPack _ \<Rightarrow> snd (hd as)
       | ParamsArray _ \<Rightarrow> IntoParams (Unnamed (map snd as))
       | ParamsNamed _ \<Rightarrow> IntoParams (NamedArgs (map (\<lambda>(k, j). (the k, j)) as)))
       (arg_values (map_of (zip (param_names ps) vals)) (call_arguments ps))"

text \<open>What the registration of the server's method gives: \<^verbatim>\<open>NamesMap\<close>, \<^verbatim>\<open>PackParams\<close> or nothing.\<close>

definition registered :: "params \<Rightarrow> string list \<Rightarrow> names" where
  "registered ps pack_fields = (case ps of
     ParamsPack _ \<Rightarrow> Pack pack_fields
   | _ \<Rightarrow> (case registered_names ps of Some ks \<Rightarrow> Names ks | None \<Rightarrow> NoNames))"

text \<open>The frames under which the parameters are read.\<close>

definition arg_frames :: "params \<Rightarrow> frame list" where
  "arg_frames ps = (case ps of
     ParamsPack _ \<Rightarrow> [params_frame]
   | ParamsArray rs \<Rightarrow> map (\<lambda>i. Frame (KIdx (word_of_nat i)) params_frame) [0..<length rs]
   | ParamsNamed kvs \<Rightarrow> map (\<lambda>(k, _). Frame (KStr k) params_frame) kvs)"

lemma arg_values_vars:
  assumes "distinct ns" and "length vals = length ns"
  shows "arg_values (map_of (zip ns vals)) (map Var ns) = Some (map (Pair None) vals)"
proof -
  have "arg_values env (map Var ns) = Some (map (\<lambda>n. (None, the (env n))) ns)"
    if "\<forall>n \<in> set ns. env n \<noteq> None" for env ns
    using that by (induction ns) auto
  moreover have "\<forall>n \<in> set ns. map_of (zip ns vals) n \<noteq> None"
    using assms(2) by (auto simp: map_of_zip_is_None)
  moreover have "map (\<lambda>n. (None :: string option, the (map_of (zip ns vals) n))) ns = map (Pair None) vals"
    using assms by (auto simp: list_eq_iff_nth_eq map_of_zip_nth)
  ultimately show ?thesis by simp
qed

lemma arg_values_named:
  assumes "distinct ns" and "length vals = length ns"
  shows "arg_values (map_of (zip ns vals)) (map (\<lambda>n. NamedVar n n) ns) = Some (zip (map Some ns) vals)"
proof -
  have "arg_values env (map (\<lambda>n. NamedVar n n) ns) = Some (map (\<lambda>n. (Some n, the (env n))) ns)"
    if "\<forall>n \<in> set ns. env n \<noteq> None" for env ns
    using that by (induction ns) auto
  moreover have "\<forall>n \<in> set ns. map_of (zip ns vals) n \<noteq> None"
    using assms(2) by (auto simp: map_of_zip_is_None)
  moreover have "map (\<lambda>n. (Some n, the (map_of (zip ns vals) n))) ns = zip (map Some ns) vals"
    using assms by (auto simp: list_eq_iff_nth_eq map_of_zip_nth)
  ultimately show ?thesis by simp
qed

lemma arg_names_distinct: "distinct (map (\<lambda>i. ''arg'' @ nat_str i) [0..<n])"
  by (auto simp: distinct_map inj_on_def dest: arg_cong [of _ _ str_nat])

text \<open>A handler's parameter is read from the value of the client's argument.\<close>

definition read_param :: "'a param \<Rightarrow> json \<times> frame \<Rightarrow> jv_error + 'a" where
  "read_param p jf = pget p (fst jf) (snd jf)"

lemma get_args_each:
  assumes "length ps = length ks" and "length vs = length ks" and "length fs = length ks"
    and "\<And>i. i < length ks \<Longrightarrow> f (ps ! i) (ks ! i) = pget (ps ! i) (vs ! i) (fs ! i)"
  shows "get_args f (zip ps ks) = get_args read_param (zip ps (zip vs fs))"
  using assms
proof (induction ps arbitrary: ks vs fs)
  case (Cons p ps)
  obtain k ks' v vs' fr fs' where e: "ks = k # ks'" "vs = v # vs'" "fs = fr # fs'"
    using Cons.prems(1-3) by (cases ks; cases vs; cases fs) auto
  have "get_args f (zip ps ks') = get_args read_param (zip ps (zip vs' fs'))"
  proof (rule Cons.IH)
    show "f (ps ! i) (ks' ! i) = pget (ps ! i) (vs' ! i) (fs' ! i)" if "i < length ks'" for i
      using Cons.prems(4) [of "Suc i"] that e by simp
  qed (use Cons.prems e in simp_all)
  moreover have "f p k = read_param p (v, fr)" using Cons.prems(4) [of 0] e by (simp add: read_param_def)
  ultimately show ?case by (simp add: e split: sum.split)
qed simp

lemma get_positional_array:
  assumes "i < length vs" and "length vs < 2 ^ 32"
  shows "get_positional p (JArray vs) (word_of_nat i) fr = pget p (vs ! i) (Frame (KIdx (word_of_nat i)) fr)"
proof -
  have u: "unat (word_of_nat i :: u32) = i" using assms by (simp add: unat_of_nat take_bit_nat_eq_self)
  have le: "\<not> (word_of_nat (length vs) :: u32) \<le> word_of_nat i"
    using assms by (simp add: data_size_le_iff u)
  then show ?thesis
    by (simp add: get_positional_def Value_idx_def At_idx_def Find_idx_def Let_def u linorder_not_le [symmetric])
qed

lemma get_named_object:
  assumes "distinct (map fst kvs)" and "(k, v) \<in> set kvs"
  shows "get_named p (obj_view kvs) k fr = pget p v (Frame (KStr k) fr)"
proof -
  have f: "FindVal (obj_view kvs) k fr' = Inr (Some v)" for fr'
    using assms by (simp add: obj_view_find)
  obtain xs where "obj_view kvs = JObject xs" using obj_view_JObject [OF assms(1)] by blast
  then show ?thesis
    using f by (simp add: get_named_def Value_key_def At_key_def Let_def)
qed

text \<open>
  C21: The generated client and the generated server agree. For the parameters of a method or
  notification, with values for all of them, what the client's function sends is accepted by the
  server's check, and each parameter of the handler is read from the value of the argument in its
  place.
\<close>

theorem generated_call_binds:
  assumes "length vals = params_size ps" and "length handler = params_size ps" and "params_size ps < 2 ^ 32"
    and "case ps of ParamsNamed kvs \<Rightarrow> kvs \<noteq> [] \<and> sorted_keys kvs | ParamsPack _ \<Rightarrow> Is (hd vals) t_object | _ \<Rightarrow> True"
  shows "\<exists>sent. sent_params ps vals = Some sent \<and>
     validateRequest (names_of (registered ps pf)) (names_count (registered ps pf) handler) is_method sent (\<not> is_method) = None \<and>
     call_values (registered ps pf) handler sent = get_args read_param (zip handler (zip vals (arg_frames ps)))"
proof (cases ps)
  case (ParamsArray rs)
  let ?ns = "map (\<lambda>i. ''arg'' @ nat_str i) [0..<length rs]"
  have n: "length vals = length rs" "length handler = length rs" "length rs < 2 ^ 32"
    using assms(1-3) by (simp_all add: ParamsArray params_size_def)
  have "call_arguments ps = map Var ?ns" by (simp add: call_arguments_def ParamsArray)
  then have "sent_params ps vals = Some (IntoParams (Unnamed vals))"
    using arg_values_vars [OF arg_names_distinct, of vals "length rs"] n(1)
    by (simp add: sent_params_def param_names_def ParamsArray comp_def)
  moreover have into: "IntoParams (Unnamed vals) = JArray vals" by (cases vals) (simp_all add: EmptyArray_def)
  moreover have "call_values NoNames handler (JArray vals) = get_args read_param (zip handler (zip vals (arg_frames ps)))"
    unfolding call_values_def names.case
    by (rule get_args_each) (use n in \<open>auto simp: ParamsArray arg_frames_def get_positional_array\<close>)
  ultimately show ?thesis
    by (auto simp: ParamsArray registered_def registered_names_def validateRequest_def names_of_def Is_def t_defs)
next
  case (ParamsNamed kvs)
  let ?ks = "map fst kvs"
  have n: "length vals = length ?ks" "length handler = length ?ks" and ne: "vals \<noteq> []"
    and d: "distinct ?ks"
    using assms by (auto simp: ParamsNamed params_size_def sorted_keys_distinct)
  have ca: "call_arguments ps = map (\<lambda>n. NamedVar n n) ?ks"
    by (simp add: call_arguments_def ParamsNamed comp_def case_prod_unfold)
  have "map (\<lambda>(k, j). (the k, j)) (zip (map Some ?ks) vals) = zip ?ks vals"
    by (simp add: zip_map1 comp_def case_prod_unfold)
  then have "sent_params ps vals = Some (IntoParams (NamedArgs (zip ?ks vals)))"
    using arg_values_named [OF d n(1)] ca by (simp add: sent_params_def param_names_def ParamsNamed)
  moreover obtain x xs where z: "zip ?ks vals = x # xs"
    using n(1) ne by (cases "zip ?ks vals") (auto simp: zip_eq_Nil_iff)
  then have into: "IntoParams (NamedArgs (zip ?ks vals)) = obj_view (zip ?ks vals)" by simp
  moreover have dz: "distinct (map fst (zip ?ks vals))" using d n(1) by (simp add: map_fst_zip)
  then have "Is (obj_view (zip ?ks vals)) t_object" by (rule obj_view_Is)
  moreover have "call_values (Names ?ks) handler (obj_view (zip ?ks vals)) =
      get_args read_param (zip handler (zip vals (arg_frames ps)))"
    unfolding call_values_def names.case
  proof (rule get_args_each)
    fix i assume i: "i < length ?ks"
    with n(1) have "(?ks ! i, vals ! i) \<in> set (zip ?ks vals)" by (auto simp: set_zip intro!: exI [of _ i])
    with get_named_object [OF dz this] i
    show "get_named (handler ! i) (obj_view (zip ?ks vals)) (?ks ! i) params_frame =
        pget (handler ! i) (vals ! i) (arg_frames ps ! i)"
      by (simp add: ParamsNamed arg_frames_def case_prod_unfold)
  qed (use n in \<open>simp_all add: ParamsNamed arg_frames_def\<close>)
  ultimately show ?thesis
    by (auto simp: ParamsNamed registered_def registered_names_def validateRequest_def names_of_def)
next
  case (ParamsPack r)
  then obtain v p where v: "vals = [v]" and p: "handler = [p]"
    using assms(1,2) by (auto simp: params_size_def length_Suc_conv)
  have "sent_params ps vals = Some v"
    by (simp add: sent_params_def param_names_def call_arguments_def ParamsPack v)
  moreover have "Is v t_object" using assms(4) by (simp add: ParamsPack v)
  ultimately show ?thesis
    by (simp add: ParamsPack registered_def validateRequest_def names_of_def call_values_def v p
        arg_frames_def read_param_def split: sum.split)
qed

theorem generated_call_binds_witness:
  "\<exists>sent. sent_params (ParamsNamed [(''from'', Builtin KInt32), (''to'', Builtin KString)]) [JSigned 1, JString ''x''] = Some sent \<and>
     call_values (Names [''from'', ''to'']) [int_param, int_param] sent =
       get_args read_param (zip [int_param, int_param] (zip [JSigned 1, JString ''x'']
         (arg_frames (ParamsNamed [(''from'', Builtin KInt32), (''to'', Builtin KString)]))))"
proof -
  let ?ps = "ParamsNamed [(''from'', Builtin KInt32), (''to'', Builtin KString)]"
  have "sorted_keys [(''from'', Builtin KInt32), (''to'', Builtin KString)]"
    by (simp add: less_list_code less_char_def)
  then have "case ?ps of ParamsNamed kvs \<Rightarrow> kvs \<noteq> [] \<and> sorted_keys kvs
      | ParamsPack _ \<Rightarrow> Is (hd [JSigned 1, JString ''x'']) t_object | _ \<Rightarrow> True" by simp
  from generated_call_binds [OF _ _ _ this, of "[int_param, int_param]" "[]" True]
  show ?thesis by (auto simp: params_size_def registered_def registered_names_def)
qed

subsection \<open>Every method has one service\<close>

lemma sameService_iff [simp]: "sameService suffix srv (name @ suffix) \<longleftrightarrow> srv = name"
  by (simp add: sameService_def)

lemma gconcat_cong: "(\<And>x. x \<in> set xs \<Longrightarrow> f x = g x) \<Longrightarrow> gconcat f xs = gconcat g xs"
  by (induction xs) auto

lemma gconcat_filter: "gconcat (\<lambda>x. if \<not> P x then Inr [] else f x) xs = gconcat f (filter P xs)"
  by (induction xs) (auto simp: gbind_def split: sum.splits)

text \<open>
  The client and the server of a service declare its methods, each once and in the order of the
  specification, and the services are those that some method or notification names.
\<close>

lemma client_methods_of_service:
  "client_formatMethods s source (name @ ''_Client'') =
     gconcat (client_method (types s) source (name @ ''_Client'')) (filter (\<lambda>m. service m = name) (gen_ast.methods s))"
  unfolding client_formatMethods_def sameService_iff by (rule gconcat_filter)

lemma service_names_set: "set (service_names s) = service ` set (gen_ast.methods s) \<union> service ` set (notifies s)"
  by (auto simp: service_names_def)

end
