(* ===== verification/Gen_Go.thy ===== *)
theory Gen_Go
  imports Gen_Order
begin

text \<open>
  The Go printer (\<^verbatim>\<open>codegen/src/gogen.cpp\<close>): the structs of each namespace go to a file of their own, as
  a package, in the order of their names.
\<close>

subsection \<open>Names of types\<close>

fun go_builtin :: "kind \<Rightarrow> gen_fail + string" where
  "go_builtin KJson = Inr ''any''"
| "go_builtin KJson_View = Inr ''any''"
| "go_builtin KBool = Inr ''bool''"
| "go_builtin KInt8 = Inr ''int8''"
| "go_builtin KUint8 = Inr ''uint8''"
| "go_builtin KInt16 = Inr ''int16''"
| "go_builtin KUint16 = Inr ''uint16''"
| "go_builtin KInt32 = Inr ''int32''"
| "go_builtin KUint32 = Inr ''uint32''"
| "go_builtin KInt64 = Inr ''int64''"
| "go_builtin KUint64 = Inr ''uint64''"
| "go_builtin KFloat = Inr ''float32''"
| "go_builtin KDouble = Inr ''float64''"
| "go_builtin KString = Inr ''string''"
| "go_builtin KString_View = Inr ''string''"
| "go_builtin KBinary = Inr ''any''"
| "go_builtin KBinary_View = Inr ''any''"
| "go_builtin KVoid = Inr []"
| "go_builtin Invalid = Inl (Err ''NonBuiltin passed into Builtin Handler'')"

definition go_name :: "type_base \<Rightarrow> string" where
  "go_name b = (if ns_depth (base_ns b) \<noteq> 0 then ns_name (base_ns b) @ ''.'' else []) @ base_name b"

fun go_PrintType :: "ty \<Rightarrow> gen_fail + string" where
  "go_PrintType (TBuiltin k) = go_builtin k"
| "go_PrintType (TNode (Opt _ t)) = gbind (go_PrintType t) (\<lambda>s. Inr (''*'' @ s))"
| "go_PrintType (TNode (Mapping _ t)) = gbind (go_PrintType t) (\<lambda>s. Inr (''map[string]'' @ s))"
| "go_PrintType (TNode (Arr _ t)) = gbind (go_PrintType t) (\<lambda>s. Inr (''[]'' @ s))"
| "go_PrintType (TNode (WithDefault _ t _)) = go_PrintType t"
| "go_PrintType (TNode (WithAttrs _ t _)) = go_PrintType t"
| "go_PrintType (TNode (Enum b _ _)) = Inr (go_name b)"
| "go_PrintType (TNode (Struct b _ _)) = Inr (go_name b)"
| "go_PrintType (TNode (Alias b _)) = Inr (go_name b)"

subsection \<open>Names of members\<close>

text \<open>\<^verbatim>\<open>std::toupper\<close> in the C locale.\<close>

definition toupper :: "char \<Rightarrow> char" where
  "toupper c = (if CHR ''a'' \<le> c \<and> c \<le> CHR ''z'' then char_of (of_char c - 32 :: nat) else c)"

text \<open>The loop rewrites the string in place: \<^verbatim>\<open>in\<close> reads ahead of \<^verbatim>\<open>out\<close>.\<close>

function pascal_loop :: "string \<Rightarrow> nat \<Rightarrow> nat \<Rightarrow> string \<times> nat" where
  "pascal_loop res i out =
     (if i < length res then
        (let ch = res ! i in
         if ch = CHR ''_'' \<and> i \<noteq> length res - 1 then
           pascal_loop (res[out := toupper (res ! Suc i)]) (Suc (Suc i)) (Suc out)
         else pascal_loop (res[out := ch]) (Suc i) (Suc out))
      else (res, out))"
  by pat_completeness auto
termination by (relation "measure (\<lambda>(res, i, _). length res - i)") auto

declare pascal_loop.simps [simp del]

definition pascalCase :: "string \<Rightarrow> string" where
  "pascalCase src =
     (let res = (case src of [] \<Rightarrow> [] | c # cs \<Rightarrow> toupper c # cs);
          (res', out) = pascal_loop res 0 0 in
      take out res')"

text \<open>What it computes: an underscore that is not the last character goes, and the next character is raised.\<close>

fun pascal_spec :: "string \<Rightarrow> string" where
  "pascal_spec [] = []"
| "pascal_spec [c] = [c]"
| "pascal_spec (c # d # cs) = (if c = CHR ''_'' then toupper d # pascal_spec cs else c # pascal_spec (d # cs))"

lemma pascal_loop_take:
  assumes "out \<le> i" and "i \<le> length res"
  shows "(let (r, out') = pascal_loop res i out in take out' r) = take out res @ pascal_spec (drop i res)"
  using assms
proof (induction res i out rule: pascal_loop.induct)
  case (1 res i out)
  show ?case
  proof (cases "i < length res")
    case False
    with "1.prems" show ?thesis by (subst pascal_loop.simps) simp
  next
    case True
    show ?thesis
    proof (cases "res ! i = CHR ''_'' \<and> i \<noteq> length res - 1")
      case skip: True
      then have i: "Suc i < length res" using True by linarith
      have "drop i res = res ! i # res ! Suc i # drop (Suc (Suc i)) res"
        using i by (simp add: Cons_nth_drop_Suc)
      then have spec: "pascal_spec (drop i res) = toupper (res ! Suc i) # pascal_spec (drop (Suc (Suc i)) res)"
        using skip by simp
      have "(let (r, out') = pascal_loop (res[out := toupper (res ! Suc i)]) (Suc (Suc i)) (Suc out) in take out' r) =
          take (Suc out) (res[out := toupper (res ! Suc i)]) @ pascal_spec (drop (Suc (Suc i)) res)"
        using "1.IH"(1) [OF True refl skip] "1.prems" i by simp
      then show ?thesis
        using "1.prems" True skip by (subst pascal_loop.simps) (simp add: spec take_Suc_conv_app_nth)
    next
      case keep: False
      have d: "drop i res = res ! i # drop (Suc i) res" using True by (simp add: Cons_nth_drop_Suc)
      have "res ! i \<noteq> CHR ''_'' \<or> drop (Suc i) res = []" using keep by auto
      then have spec: "pascal_spec (drop i res) = res ! i # pascal_spec (drop (Suc i) res)"
        unfolding d by (cases "drop (Suc i) res") auto
      have "(let (r, out') = pascal_loop (res[out := res ! i]) (Suc i) (Suc out) in take out' r) =
          take (Suc out) (res[out := res ! i]) @ pascal_spec (drop (Suc i) res)"
        using "1.IH"(2) [OF True refl keep] "1.prems" True by simp
      then show ?thesis
        using "1.prems" True keep by (subst pascal_loop.simps) (auto simp: Let_def spec take_Suc_conv_app_nth)
    qed
  qed
qed

lemma pascalCase_spec:
  "pascalCase s = pascal_spec (case s of [] \<Rightarrow> [] | c # cs \<Rightarrow> toupper c # cs)"
  using pascal_loop_take [of 0 0 "case s of [] \<Rightarrow> [] | c # cs \<Rightarrow> toupper c # cs"]
  by (simp add: pascalCase_def Let_def split_beta)

text \<open>Two members of a struct can get one name in Go.\<close>

lemma pascalCase_collides: "pascalCase ''foo_bar'' = ''FooBar'' \<and> pascalCase ''fooBar'' = ''FooBar''"
  by code_simp

subsection \<open>Files\<close>

text \<open>\<^verbatim>\<open>{:<{}}\<close>: padded on the right.\<close>

definition pad_right :: "nat \<Rightarrow> string \<Rightarrow> string" where
  "pad_right n s = s @ replicate (n - length s) CHR '' ''"

definition tab :: string where "tab = ''    ''"

fun go_types :: "(string \<times> ty) list \<Rightarrow> gen_fail + (string \<times> string \<times> string) list" where
  "go_types [] = Inr []"
| "go_types ((nm, t) # fs) =
     gbind (go_PrintType t) (\<lambda>p. gbind (go_types fs) (\<lambda>rest. Inr ((nm, pascalCase nm, p) # rest)))"

definition go_field :: "nat \<Rightarrow> nat \<Rightarrow> string \<times> string \<times> string \<Rightarrow> string" where
  "go_field maxNameLen maxTypeLen f = (case f of (nm, pascal, p) \<Rightarrow>
     nl @ tab @ pad_right maxNameLen pascal @ '' '' @ pad_right maxTypeLen p @ '' `json:'' @ quote @ nm @ quote @ ''`'')"

definition formatFields :: "(string \<times> ty) list \<Rightarrow> gen_fail + string" where
  "formatFields fs =
     gbind (go_types (sort_by (\<lambda>l r. fst l < fst r) fs)) (\<lambda>rows.
     (let maxNameLen = foldr (\<lambda>(_, n, _) m. max (length n) m) rows 0;
          maxTypeLen = foldr (\<lambda>(_, _, p) m. max (length p) m) rows 0 in
      Inr (concat (map (go_field maxNameLen maxTypeLen) rows))))"

text \<open>\<^verbatim>\<open>byNs[ns].push_back(t)\<close> on a \<^verbatim>\<open>std::map\<close>, kept in the order of its keys.\<close>

fun ns_push :: "namespace \<Rightarrow> 'a \<Rightarrow> (namespace \<times> 'a list) list \<Rightarrow> (namespace \<times> 'a list) list" where
  "ns_push k x [] = [(k, [x])]"
| "ns_push k x ((k', xs) # es) =
     (if ns_less k k' then (k, [x]) # (k', xs) # es
      else if ns_less k' k then (k', xs) # ns_push k x es
      else (k', xs @ [x]) # es)"

fun group_types :: "nat \<Rightarrow> tref type_variant list \<Rightarrow> (namespace \<times> nat list) list \<Rightarrow>
    gen_fail + (namespace \<times> nat list) list" where
  "group_types i [] byNs = Inr byNs"
| "group_types i (Alias _ _ # ts) byNs = Inl (Err ''Enums or aliases not supported yet'')"
| "group_types i (Enum _ _ _ # ts) byNs = Inl (Err ''Enums or aliases not supported yet'')"
| "group_types i (Struct b _ _ # ts) byNs = group_types (Suc i) ts (ns_push (base_ns b) i byNs)"
| "group_types i (_ # ts) byNs = group_types (Suc i) ts byNs"

text \<open>The part of a name after its last dot; \<^verbatim>\<open>npos + 1\<close> is 0.\<close>

definition after_dot :: "string \<Rightarrow> string" where
  "after_dot s = rev (takeWhile (\<lambda>c. c \<noteq> CHR ''.'') (rev s))"

definition go_struct :: "tref type_variant list \<Rightarrow> nat \<Rightarrow> gen_fail + string" where
  "go_struct ts i =
     gbind (deref ts (At i)) (\<lambda>t. case t of
        TNode (Struct b _ fs) \<Rightarrow> gbind (formatFields fs) (\<lambda>body.
          Inr (''type '' @ base_name b @ '' struct {'' @ body @ nl @ ''}'' @ nl @ nl))
      | _ \<Rightarrow> Inr [])"

fun go_structs :: "tref type_variant list \<Rightarrow> nat list \<Rightarrow> gen_fail + string" where
  "go_structs ts [] = Inr []"
| "go_structs ts (i # is) = gbind (go_struct ts i) (\<lambda>s. gbind (go_structs ts is) (\<lambda>rest. Inr (s @ rest)))"

definition name_less :: "tref type_variant list \<Rightarrow> nat \<Rightarrow> nat \<Rightarrow> bool" where
  "name_less ts l r \<longleftrightarrow> base_name (GetBase (ts ! l)) < base_name (GetBase (ts ! r))"

text \<open>\<^verbatim>\<open>fs::path::operator/\<close> on POSIX.\<close>

definition path_append :: "string \<Rightarrow> string \<Rightarrow> string" where
  "path_append p q =
     (if q \<noteq> [] \<and> hd q = CHR ''/'' then q
      else if p = [] \<or> last p = CHR ''/'' then p @ q
      else p @ ''/'' @ q)"

definition go_file :: "tref type_variant list \<Rightarrow> namespace \<times> nat list \<Rightarrow> gen_fail + (string \<times> string)" where
  "go_file ts e =
     (let pkg = after_dot (ns_name (fst e));
          pref = map (\<lambda>c. if c = CHR ''.'' then CHR ''/'' else c) (ns_name (fst e)) in
      gbind (go_structs ts (sort_by (name_less ts) (snd e))) (\<lambda>body.
      Inr (path_append pref (pkg @ ''.gen.go''), ''package '' @ pkg @ nl @ nl @ body)))"

text \<open>
  The files are written as they are made: the ones before an error are there. The first component
  lists what was handed to the writer.
\<close>

fun go_files :: "tref type_variant list \<Rightarrow> (namespace \<times> nat list) list \<Rightarrow>
    (string \<times> string) list \<times> gen_fail option" where
  "go_files ts [] = ([], None)"
| "go_files ts (e # es) =
     (case go_file ts e of
        Inl err \<Rightarrow> ([], Some err)
      | Inr f \<Rightarrow> (let (fs, err) = go_files ts es in (f # fs, err)))"

definition go_Format :: "tref type_variant list \<Rightarrow> (string \<times> string) list \<times> gen_fail option" where
  "go_Format ts = (case group_types 0 ts [] of Inl e \<Rightarrow> ([], Some e) | Inr byNs \<Rightarrow> go_files ts byNs)"

subsection \<open>What is printed\<close>

text \<open>The structs of a namespace, by position, and the files in terms of them.\<close>

definition structs_in :: "tref type_variant list \<Rightarrow> namespace \<Rightarrow> nat list" where
  "structs_in ts ns = filter (\<lambda>i. case ts ! i of Struct b _ _ \<Rightarrow> base_ns b = ns | _ \<Rightarrow> False) [0..<length ts]"

definition entries :: "(namespace \<times> 'a list) list \<Rightarrow> namespace \<Rightarrow> 'a list" where
  "entries es ns = (case map_of es ns of Some xs \<Rightarrow> xs | None \<Rightarrow> [])"

lemma ns_less_total: "\<not> ns_less a b \<Longrightarrow> \<not> ns_less b a \<Longrightarrow> a = b"
  by (auto simp: ns_less_def)

lemma ns_less_trans: "ns_less a b \<Longrightarrow> ns_less b c \<Longrightarrow> ns_less a c"
  by (auto simp: ns_less_def intro: less_trans)

lemma ns_less_irrefl [simp]: "\<not> ns_less a a"
  by (simp add: ns_less_def)

lemma ns_push_keys [simp]: "fst ` set (ns_push k x es) = insert k (fst ` set es)"
  by (induction k x es rule: ns_push.induct) (auto dest: ns_less_total)

lemma ns_push_sorted: "sorted_wrt ns_less (map fst es) \<Longrightarrow> sorted_wrt ns_less (map fst (ns_push k x es))"
proof (induction k x es rule: ns_push.induct)
  case (2 k x k' xs es)
  have "fst ` set (ns_push k x es) = insert k (fst ` set es)" by simp
  with 2 show ?case by (auto simp: image_iff intro: ns_less_trans)
qed simp

lemma entries_push [simp]:
  "sorted_wrt ns_less (map fst es) \<Longrightarrow>
   entries (ns_push k x es) ns = entries es ns @ (if ns = k then [x] else [])"
proof (induction k x es rule: ns_push.induct)
  case (2 k x k' xs es)
  have "map_of es k = None" if "ns_less k k'"
    using that "2.prems" by (auto simp: map_of_eq_None_iff dest: ns_less_asym)
  with 2 show ?case by (auto simp: entries_def dest: ns_less_total)
qed (simp add: entries_def)

lemma structs_in_Nil [simp]: "structs_in [] ns = []"
  by (simp add: structs_in_def)

lemma structs_in_Cons [simp]:
  "structs_in (x # ts) ns =
     (case x of Struct b _ _ \<Rightarrow> if base_ns b = ns then [0] else [] | _ \<Rightarrow> []) @ map Suc (structs_in ts ns)"
proof -
  have "[0..<length (x # ts)] = 0 # map Suc [0..<length ts]"
    by (simp add: upt_conv_Cons map_Suc_upt del: upt_Suc)
  then show ?thesis
    by (simp add: structs_in_def filter_map comp_def del: upt_Suc split: type_variant.splits)
qed

lemma group_types_groups:
  "group_types i ts byNs = Inr out \<Longrightarrow> sorted_wrt ns_less (map fst byNs) \<Longrightarrow>
   sorted_wrt ns_less (map fst out) \<and>
   fst ` set out = fst ` set byNs \<union> {base_ns b |b a fs. Struct b a fs \<in> set ts} \<and>
   (\<forall>ns. entries out ns = entries byNs ns @ map ((+) i) (structs_in ts ns))"
proof (induction i ts byNs rule: group_types.induct)
  case (4 i b a fs ts byNs)
  then show ?case by (auto simp: ns_push_sorted)
qed auto

lemma go_files_all:
  "go_files ts es = (out, None) \<Longrightarrow> list_all2 (\<lambda>e f. go_file ts e = Inr f) es out"
  by (induction es arbitrary: out) (auto split: sum.splits prod.splits)

lemma go_files_prefix:
  "go_files ts es = (out, err) \<Longrightarrow> \<exists>es'. list_all2 (\<lambda>e f. go_file ts e = Inr f) (take (length out) es) out \<and>
     (err \<noteq> None \<longrightarrow> length out < length es)"
  by (induction es arbitrary: out) (auto split: sum.splits prod.splits)

lemma group_types_refuses:
  "group_types i ts byNs = Inl e \<longleftrightarrow>
   e = Err ''Enums or aliases not supported yet'' \<and> (\<exists>x \<in> set ts. case x of Alias _ _ \<Rightarrow> True | Enum _ _ _ \<Rightarrow> True | _ \<Rightarrow> False)"
  by (induction i ts byNs rule: group_types.induct) auto

text \<open>
  A successful run writes one file for each namespace that has a struct, in the order of the namespaces,
  with exactly the structs of that namespace; a specification with an enum or an alias is refused before
  anything is written.
\<close>

theorem go_Format_complete:
  "case go_Format ts of
     (out, None) \<Rightarrow> \<exists>nss. sorted_wrt ns_less nss \<and> set nss = {base_ns b |b a fs. Struct b a fs \<in> set ts} \<and>
       list_all2 (\<lambda>ns f. go_file ts (ns, structs_in ts ns) = Inr f) nss out
   | (out, Some e) \<Rightarrow> (\<exists>x \<in> set ts. case x of Alias _ _ \<Rightarrow> True | Enum _ _ _ \<Rightarrow> True | _ \<Rightarrow> False) \<longrightarrow> out = []"
proof (cases "group_types 0 ts []")
  case (Inl e)
  then show ?thesis by (simp add: go_Format_def)
next
  case (Inr byNs)
  from group_types_groups [OF Inr] have keys: "sorted_wrt ns_less (map fst byNs)"
    "fst ` set byNs = {base_ns b |b a fs. Struct b a fs \<in> set ts}"
    and ent: "\<And>ns. entries byNs ns = structs_in ts ns"
    by (auto simp: entries_def cong: map_cong)
  have noenum: "\<not> (\<exists>x \<in> set ts. case x of Alias _ _ \<Rightarrow> True | Enum _ _ _ \<Rightarrow> True | _ \<Rightarrow> False)"
    using group_types_refuses [of 0 ts "[]"] Inr by auto
  obtain out err where run: "go_files ts byNs = (out, err)" by (cases "go_files ts byNs")
  have e: "e = (fst e, structs_in ts (fst e))" if "e \<in> set byNs" for e
  proof -
    have "distinct (map fst byNs)"
      using keys(1) by (auto simp: distinct_conv_nth sorted_wrt_iff_nth_less) (metis nat_neq_iff ns_less_irrefl)
    then have "map_of byNs (fst e) = Some (snd e)" using that by (metis map_of_eq_Some_iff prod.collapse)
    with ent [of "fst e"] have "snd e = structs_in ts (fst e)" by (simp add: entries_def)
    then show ?thesis by (metis prod.collapse)
  qed
  show ?thesis
  proof (cases err)
    case None
    with go_files_all run have all: "list_all2 (\<lambda>e f. go_file ts e = Inr f) byNs out" by blast
    have "list_all2 (\<lambda>ns f. go_file ts (ns, structs_in ts ns) = Inr f) (map fst byNs) out"
      unfolding list.rel_map by (rule list.rel_mono_strong [OF all]) (use e in metis)
    moreover have "set (map fst byNs) = {base_ns b |b a fs. Struct b a fs \<in> set ts}" using keys(2) by simp
    ultimately have "\<exists>nss. sorted_wrt ns_less nss \<and> set nss = {base_ns b |b a fs. Struct b a fs \<in> set ts} \<and>
        list_all2 (\<lambda>ns f. go_file ts (ns, structs_in ts ns) = Inr f) nss out"
      using keys(1) by blast
    then show ?thesis by (simp only: go_Format_def Inr run None sum.case prod.case option.case)
  next
    case (Some x)
    with noenum show ?thesis by (simp add: go_Format_def Inr run)
  qed
qed

subsection \<open>Examples\<close>

text \<open>
  Two structs of a nested namespace. The reference of the second to the first carries the full name of
  the namespace although both are in one package, and no import is printed: Go knows no such name.
\<close>

definition shop_base :: "string \<Rightarrow> type_base" where
  "shop_base n = \<lparr>base_ns = \<lparr>sourceFile = ''shop.lua'', ns_name = ''shop.cart'', part = [], ns_depth = 1\<rparr>, base_name = n\<rparr>"

definition shop_types :: "tref type_variant list" where
  "shop_types =
    [Struct (shop_base ''Item'') [] [(''unit_price'', Builtin KDouble), (''id'', Builtin KInt32)],
     Arr (shop_base ''Cart__items'') (At 0),
     Struct (shop_base ''Cart'') [] [(''items'', At 1)]]"

lemma shop_cart_refers:
  "gbind (deref shop_types (At 2)) (\<lambda>t. case t of TNode (Struct _ _ fs) \<Rightarrow> formatFields fs | _ \<Rightarrow> Inr []) =
   Inr (nl @ ''    Items []shop.cart.Item `json:'' @ quote @ ''items'' @ quote @ ''`'')"
  by code_simp

end
