(* ===== verification/Gen_Main.thy ===== *)
theory Gen_Main
  imports Gen_Rpc Gen_Go
begin

text \<open>
  The program (\<^verbatim>\<open>codegen/src/codegen.cpp\<close>): from the options to the files written. The parsing of the
  command line (argparse), the Lua VM with the front end, and the file system are parameters: the file
  system answers by what was done so far, and every effect is an event.
\<close>

subsection \<open>Paths\<close>

text \<open>\<^verbatim>\<open>std::filesystem::path\<close> on POSIX, for paths without repeated slashes.\<close>

definition filename :: "string \<Rightarrow> string" where
  "filename p = rev (takeWhile (\<lambda>c. c \<noteq> CHR ''/'') (rev p))"

definition parent_path :: "string \<Rightarrow> string" where
  "parent_path p =
     (case dropWhile (\<lambda>c. c \<noteq> CHR ''/'') (rev p) of
        [] \<Rightarrow> []
      | [c] \<Rightarrow> [c]
      | c # cs \<Rightarrow> rev cs)"

definition stem :: "string \<Rightarrow> string" where
  "stem p =
     (let f = filename p; ext = takeWhile (\<lambda>c. c \<noteq> CHR ''.'') (rev f) in
      if f = ''.'' \<or> f = ''..'' \<or> Suc (length ext) \<ge> length f then f
      else take (length f - Suc (length ext)) f)"

definition is_absolute :: "string \<Rightarrow> bool" where
  "is_absolute p \<longleftrightarrow> p \<noteq> [] \<and> hd p = CHR ''/''"

subsection \<open>The environment\<close>

datatype gen_event =
    Chdir string | Mkdirs string | Wrote string string | Printed string | Touched string string

type_synonym gen_trace = "gen_event list"

text \<open>
  The right answers are those of the calls; a left one is the \<^verbatim>\<open>filesystem_error\<close> they throw. An output
  stream that fails throws nothing: \<open>accepted\<close> tells how many characters of a text get into the file
  before the stream is closed. \<^verbatim>\<open>fmt::print\<close> throws when it cannot print all of its text.
\<close>

record gen_fs =
  chdir_to :: "gen_trace \<Rightarrow> string \<Rightarrow> gen_fail + unit"
  is_directory :: "gen_trace \<Rightarrow> string \<Rightarrow> gen_fail + bool"
  path_exists :: "gen_trace \<Rightarrow> string \<Rightarrow> gen_fail + bool"
  create_directories :: "gen_trace \<Rightarrow> string \<Rightarrow> gen_fail + bool"
  can_open :: "gen_trace \<Rightarrow> string \<Rightarrow> bool"
  accepted :: "gen_trace \<Rightarrow> string \<Rightarrow> string \<Rightarrow> nat"
  printed :: "gen_trace \<Rightarrow> string \<Rightarrow> nat \<times> gen_fail option"

text \<open>The specification as the front end leaves it: the table of all namespaces.\<close>

type_synonym front_end = "gen_trace \<Rightarrow> string \<Rightarrow> gen_fail + lua"

datatype lang = Lang_cpp | Lang_go

record cli_args =
  cli_spec :: string
  cli_name :: string
  cli_output_dir :: string
  cli_describe_server :: bool
  cli_marker :: "string option"
  cli_no_client :: bool
  cli_no_server :: bool
  cli_opts :: "string list"
  cli_lang :: string
  cli_stdout :: bool

text \<open>The action of \<^verbatim>\<open>--lang\<close>.\<close>

definition parse_lang :: "string \<Rightarrow> gen_fail + lang" where
  "parse_lang l =
     (if l = ''cpp'' then Inr Lang_cpp else if l = ''go'' then Inr Lang_go
      else Inl (Err (''Invalid lang param: '' @ l)))"

subsection \<open>Options of a language\<close>

text \<open>
  \<^verbatim>\<open>find_first_of\<close> never returns the size, so the second part of the test in the code is never true.
\<close>

fun iterOpts :: "(string \<Rightarrow> string \<Rightarrow> 'a \<Rightarrow> 'a) \<Rightarrow> string list \<Rightarrow> 'a \<Rightarrow> gen_fail + 'a" where
  "iterOpts f [] s = Inr s"
| "iterOpts f (opt # opts) s =
     (let pos = length (takeWhile (\<lambda>c. c \<noteq> CHR ''='') opt) in
      if pos = length opt then Inl (Err ''incorrect 'opt' format: expected key=val'')
      else iterOpts f opts (f (take pos opt) (drop (Suc pos) opt) s))"

definition go_option :: "string \<Rightarrow> string \<Rightarrow> string \<Rightarrow> string" where
  "go_option key val pkgPrefix = (if key = ''pkg_prefix'' then val else pkgPrefix)"

subsection \<open>Output\<close>

type_synonym gen_result = "gen_trace \<times> gen_fail option"

text \<open>\<^verbatim>\<open>writeOutput\<close>; the trace grows to the right.\<close>

definition squoted :: "string \<Rightarrow> string" where
  "squoted s = [CHR 0x27] @ s @ [CHR 0x27]"

text \<open>The stream is not looked at after \<^verbatim>\<open>out << res\<close>.\<close>

definition save_file :: "gen_fs \<Rightarrow> string \<Rightarrow> string \<Rightarrow> gen_trace \<Rightarrow> gen_result" where
  "save_file fs file res tr =
     (if can_open fs tr file then (tr @ [Wrote file (take (accepted fs tr file res) res)], None)
      else (tr, Some (Err (''Could not open: '' @ file))))"

definition make_dir :: "gen_fs \<Rightarrow> string \<Rightarrow> gen_trace \<Rightarrow> gen_result" where
  "make_dir fs d tr =
     (case path_exists fs tr d of
        Inl e \<Rightarrow> (tr, Some e)
      | Inr True \<Rightarrow> (tr, None)
      | Inr False \<Rightarrow>
          (case create_directories fs tr d of
             Inl e \<Rightarrow> (tr, Some e)
           | Inr False \<Rightarrow> (tr, Some (Err (''Could not create directories for: '' @ d)))
           | Inr True \<Rightarrow> (tr @ [Mkdirs d], None)))"

definition writeOutput :: "gen_fs \<Rightarrow> cli_args \<Rightarrow> string \<Rightarrow> string \<Rightarrow> gen_trace \<Rightarrow> gen_result" where
  "writeOutput fs cli name res tr =
     (let file = path_append (cli_output_dir cli) name in
      if cli_stdout cli then
        (let t = ''// ===> '' @ file @ nl @ res @ nl @ nl; (n, x) = printed fs tr t in (tr @ [Printed (take n t)], x))
      else
        (case is_directory fs tr file of
           Inl e \<Rightarrow> (tr, Some e)
         | Inr True \<Rightarrow> (tr, Some (Err (''Output file '' @ squoted file @ '' is a directory'')))
         | Inr False \<Rightarrow>
             (case make_dir fs (parent_path file) tr of
                (tr1, Some e) \<Rightarrow> (tr1, Some e)
              | (tr1, None) \<Rightarrow> save_file fs file res tr1)))"

fun write_all :: "gen_fs \<Rightarrow> cli_args \<Rightarrow> (string \<times> string) list \<Rightarrow> gen_trace \<Rightarrow> gen_result" where
  "write_all fs cli [] tr = (tr, None)"
| "write_all fs cli ((name, res) # outs) tr =
     (case writeOutput fs cli name res tr of
        (tr1, Some e) \<Rightarrow> (tr1, Some e)
      | (tr1, None) \<Rightarrow> write_all fs cli outs tr1)"

text \<open>The marker: an \<^verbatim>\<open>ofstream\<close> that does not open, or does not write, is not noticed.\<close>

definition touch_marker :: "gen_fs \<Rightarrow> cli_args \<Rightarrow> gen_trace \<Rightarrow> gen_result" where
  "touch_marker fs cli tr =
     (case cli_marker cli of
        None \<Rightarrow> (tr, None)
      | Some m \<Rightarrow>
          (case create_directories fs tr (parent_path m) of
             Inl e \<Rightarrow> (tr, Some e)
           | Inr made \<Rightarrow>
               (let tr1 = (if made then tr @ [Mkdirs (parent_path m)] else tr) in
                (if can_open fs tr1 m then tr1 @ [Touched m (take (accepted fs tr1 m ''1'') ''1'')] else tr1, None))))"

subsection \<open>\<^verbatim>\<open>main\<close>\<close>

definition cli_targets :: "cli_args \<Rightarrow> targets" where
  "cli_targets cli = \<lparr>target_types = True, target_client = \<not> cli_no_client cli, target_server = \<not> cli_no_server cli\<rparr>"

definition main_name :: "cli_args \<Rightarrow> string" where
  "main_name cli = (if cli_name cli = [] then stem (cli_spec cli) else cli_name cli)"

definition cli_params :: "cli_args \<Rightarrow> string \<Rightarrow> gen_params" where
  "cli_params cli name =
     \<lparr>gen_targets = cli_targets cli, extraIncludes = [],
      main_ns = \<lparr>sourceFile = cli_spec cli, ns_name = name, part = [], ns_depth = 0\<rparr>,
      describeServer = cli_describe_server cli\<rparr>"

text \<open>The outputs with the error that stops them, after \<^verbatim>\<open>PopulateFromFrontend\<close>.\<close>

definition print_all :: "(u64 \<Rightarrow> string) \<Rightarrow> abi \<Rightarrow> cli_args \<Rightarrow> lang \<Rightarrow> gen_ast \<Rightarrow> string \<Rightarrow>
    (string \<times> string) list \<times> gen_fail option" where
  "print_all num abi cli l s name =
     (case l of
        Lang_cpp \<Rightarrow>
          (case cpp_Format num abi (cli_spec cli) (cli_params cli name) s of
             Inl e \<Rightarrow> ([], Some e)
           | Inr t \<Rightarrow> ([(main_name cli @ ''.hpp'', t)], None))
      | Lang_go \<Rightarrow>
          (case iterOpts go_option (cli_opts cli) [] of
             Inl e \<Rightarrow> ([], Some e)
           | Inr _ \<Rightarrow> go_Format (types s)))"

definition read_spec :: "gen_fs \<Rightarrow> front_end \<Rightarrow> (lua \<Rightarrow> int) \<Rightarrow> cli_args \<Rightarrow> gen_trace \<Rightarrow>
    gen_trace \<times> (gen_fail + gen_ast \<times> string)" where
  "read_spec fs fe toint cli tr =
     (case chdir_to fs tr (parent_path (cli_spec cli)) of
        Inl e \<Rightarrow> (tr, Inl e)
      | Inr _ \<Rightarrow>
          (let tr1 = tr @ [Chdir (parent_path (cli_spec cli))] in
           (tr1, gbind (fe tr1 (cli_spec cli)) (populate_root toint))))"

definition generate :: "(u64 \<Rightarrow> string) \<Rightarrow> abi \<Rightarrow> gen_fs \<Rightarrow> front_end \<Rightarrow> (lua \<Rightarrow> int) \<Rightarrow> cli_args \<Rightarrow> lang \<Rightarrow>
    gen_trace \<Rightarrow> gen_result" where
  "generate num abi fs fe toint cli l tr =
     (case read_spec fs fe toint cli tr of
        (tr1, Inl e) \<Rightarrow> (tr1, Some e)
      | (tr1, Inr (s, name)) \<Rightarrow>
          (let (outs, err) = print_all num abi cli l s name in
           case write_all fs cli outs tr1 of
             (tr2, Some e) \<Rightarrow> (tr2, Some e)
           | (tr2, None) \<Rightarrow>
               (case err of Some e \<Rightarrow> (tr2, Some e) | None \<Rightarrow> touch_marker fs cli tr2)))"

text \<open>
  How the process ends: status 0, 1 from \<^verbatim>\<open>parseCli\<close>, -1 from the handler of \<^verbatim>\<open>main\<close>; an error that is no C++
  exception aborts it.
\<close>

datatype gen_exit = Exit int | Aborted

definition exit_of :: "gen_fail option \<Rightarrow> gen_exit" where
  "exit_of r = (case r of None \<Rightarrow> Exit 0 | Some (Err _) \<Rightarrow> Exit (-1) | Some _ \<Rightarrow> Aborted)"

definition gen_main :: "(u64 \<Rightarrow> string) \<Rightarrow> abi \<Rightarrow> gen_fs \<Rightarrow> front_end \<Rightarrow> (lua \<Rightarrow> int) \<Rightarrow> cli_args \<Rightarrow>
    gen_trace \<times> gen_exit" where
  "gen_main num abi fs fe toint cli =
     (case parse_lang (cli_lang cli) of
        Inl _ \<Rightarrow> ([], Exit 1)
      | Inr l \<Rightarrow> (let (tr, r) = generate num abi fs fe toint cli l [] in (tr, exit_of r)))"

subsection \<open>What a run leaves behind\<close>

fun is_output :: "gen_event \<Rightarrow> bool" where
  "is_output (Wrote _ _) = True"
| "is_output (Printed _) = True"
| "is_output _ = False"

fun is_touch :: "gen_event \<Rightarrow> bool" where
  "is_touch (Touched _ _) = True"
| "is_touch _ = False"

definition output_event :: "cli_args \<Rightarrow> string \<times> string \<Rightarrow> gen_event" where
  "output_event cli f = (let file = path_append (cli_output_dir cli) (fst f) in
     if cli_stdout cli then Printed (''// ===> '' @ file @ nl @ snd f @ nl @ nl) else Wrote file (snd f))"

abbreviation "outputs tr \<equiv> filter is_output tr"
abbreviation "touches tr \<equiv> filter is_touch tr"

text \<open>What a call leaves in a file, or on the screen, is an initial part of what it should.\<close>

fun cut_of :: "gen_event \<Rightarrow> gen_event \<Rightarrow> bool" where
  "cut_of (Wrote f d) (Wrote g c) = (f = g \<and> (\<exists>n. d = take n c))"
| "cut_of (Printed d) (Printed c) = (\<exists>n. d = take n c)"
| "cut_of _ _ = False"

definition takes_all :: "gen_fs \<Rightarrow> bool" where
  "takes_all fs \<longleftrightarrow> (\<forall>tr f d. length d \<le> accepted fs tr f d) \<and> (\<forall>tr t. length t \<le> fst (printed fs tr t))"

definition leaves_of :: "gen_fs \<Rightarrow> gen_event list \<Rightarrow> gen_event list \<Rightarrow> bool" where
  "leaves_of fs evs wanted \<longleftrightarrow> list_all2 cut_of evs wanted \<and> (takes_all fs \<longrightarrow> evs = wanted)"

lemma leaves_of_Nil [simp]: "leaves_of fs [] []"
  by (simp add: leaves_of_def)

lemma leaves_of_append: "leaves_of fs a b \<Longrightarrow> leaves_of fs a' b' \<Longrightarrow> leaves_of fs (a @ a') (b @ b')"
  by (auto simp: leaves_of_def intro: list_all2_appendI)

lemma make_dir_events: "make_dir fs d tr = (tr', r) \<Longrightarrow> outputs tr' = outputs tr \<and> touches tr' = touches tr"
  by (auto simp: make_dir_def split: sum.splits bool.splits)

lemma save_file_events:
  "save_file fs file res tr = (tr', r) \<Longrightarrow> touches tr' = touches tr \<and>
     (\<exists>evs. outputs tr' = outputs tr @ evs \<and> leaves_of fs evs (if r = None then [Wrote file res] else []))"
  by (auto simp: save_file_def leaves_of_def takes_all_def split: if_splits)

lemma writeOutput_events:
  assumes "writeOutput fs cli name res tr = (tr', r)"
  shows "\<exists>k \<le> 1. \<exists>evs. outputs tr' = outputs tr @ evs \<and> leaves_of fs evs (take k [output_event cli (name, res)]) \<and>
      (r = None \<longrightarrow> k = 1)" and "touches tr' = touches tr"
proof -
  let ?file = "path_append (cli_output_dir cli) name"
  have "touches tr' = touches tr \<and> (\<exists>k \<le> 1. \<exists>evs. outputs tr' = outputs tr @ evs \<and>
      leaves_of fs evs (take k [output_event cli (name, res)]) \<and> (r = None \<longrightarrow> k = 1))"
  proof (cases "cli_stdout cli")
    case True
    let ?t = "''// ===> '' @ ?file @ nl @ res @ nl @ nl"
    obtain n x where pr: "printed fs tr ?t = (n, x)" by fastforce
    then have "leaves_of fs [Printed (take n ?t)] [Printed ?t]"
      unfolding leaves_of_def takes_all_def by (metis cut_of.simps(2) fst_conv list.rel_inject(2) list_all2_Nil take_all)
    with True pr assms show ?thesis
      by (intro conjI exI [of _ "1 :: nat"] exI [of _ "[Printed (take n ?t)]"])
        (auto simp: writeOutput_def output_event_def Let_def)
  next
    case False
    consider (early) "outputs tr' = outputs tr" "touches tr' = touches tr" "r \<noteq> None"
      | (save) tr1 where "make_dir fs (parent_path ?file) tr = (tr1, None)" "save_file fs ?file res tr1 = (tr', r)"
      using assms False
      by (auto simp: writeOutput_def Let_def split: sum.splits bool.splits option.splits prod.splits dest: make_dir_events)
    then show ?thesis
    proof cases
      case early
      then show ?thesis by (intro conjI exI [of _ "0 :: nat"] exI [of _ "[]"]) auto
    next
      case save
      from make_dir_events [OF save(1)] save_file_events [OF save(2)] False show ?thesis
        by (cases "r = None")
          (auto simp: output_event_def intro!: exI [of _ "if r = None then 1 else 0 :: nat"])
    qed
  qed
  then show "\<exists>k \<le> 1. \<exists>evs. outputs tr' = outputs tr @ evs \<and> leaves_of fs evs (take k [output_event cli (name, res)]) \<and>
      (r = None \<longrightarrow> k = 1)" and "touches tr' = touches tr" by blast+
qed

lemma write_all_events:
  assumes "write_all fs cli outs tr = (tr', r)"
  shows "\<exists>k \<le> length outs. \<exists>evs. outputs tr' = outputs tr @ evs \<and> leaves_of fs evs (map (output_event cli) (take k outs)) \<and>
      (r = None \<longrightarrow> k = length outs)" and "touches tr' = touches tr"
proof -
  have "(\<exists>k \<le> length outs. \<exists>evs. outputs tr' = outputs tr @ evs \<and> leaves_of fs evs (map (output_event cli) (take k outs)) \<and>
      (r = None \<longrightarrow> k = length outs)) \<and> touches tr' = touches tr"
    using assms
  proof (induction outs arbitrary: tr)
    case (Cons f outs)
    obtain name res where f: "f = (name, res)" by (cases f)
    obtain tr1 r1 where w: "writeOutput fs cli name res tr = (tr1, r1)" by (metis surj_pair)
    from writeOutput_events [OF w] obtain k1 evs1 where ev: "k1 \<le> 1" "outputs tr1 = outputs tr @ evs1"
      "leaves_of fs evs1 (take k1 [output_event cli f])" "r1 = None \<longrightarrow> k1 = 1" "touches tr1 = touches tr"
      unfolding f by blast
    show ?case
    proof (cases r1)
      case None
      with Cons.prems f w have "write_all fs cli outs tr1 = (tr', r)" by simp
      from Cons.IH [OF this] obtain k evs where "k \<le> length outs" "outputs tr' = outputs tr1 @ evs"
        "leaves_of fs evs (map (output_event cli) (take k outs))" "r = None \<longrightarrow> k = length outs"
        "touches tr' = touches tr1" by blast
      with ev None leaves_of_append [of fs evs1 "[output_event cli f]" evs] show ?thesis
        by (intro conjI exI [of _ "Suc k"] exI [of _ "evs1 @ evs"]) auto
    next
      case (Some e)
      have "map (output_event cli) (take k1 (f # outs)) = take k1 [output_event cli f]"
        using ev(1) by (cases k1) auto
      with Some Cons.prems f w ev show ?thesis
        by (intro conjI exI [of _ k1] exI [of _ evs1]) auto
    qed
  qed simp
  then show "\<exists>k \<le> length outs. \<exists>evs. outputs tr' = outputs tr @ evs \<and> leaves_of fs evs (map (output_event cli) (take k outs)) \<and>
      (r = None \<longrightarrow> k = length outs)" and "touches tr' = touches tr" by blast+
qed

lemma no_touch: "touches tr = [] \<Longrightarrow> Touched m d \<notin> set tr"
  by (auto simp: filter_empty_conv)

lemma touch_marker_events:
  assumes "touch_marker fs cli tr = (tr', r)" and "touches tr = []"
  shows "outputs tr' = outputs tr"
    and "Touched m d \<in> set tr' \<Longrightarrow> r = None \<and> last tr' = Touched m d \<and> cli_marker cli = Some m"
  using assms no_touch [OF assms(2), of m]
  by (auto simp: touch_marker_def Let_def split: option.splits sum.splits if_splits)

lemma exit_0_iff [simp]: "exit_of r = Exit 0 \<longleftrightarrow> r = None"
  by (auto simp: exit_of_def split: option.splits gen_fail.splits)

lemma read_spec_events: "read_spec fs fe toint cli [] = (tr, r) \<Longrightarrow> outputs tr = [] \<and> touches tr = []"
  by (auto simp: read_spec_def Let_def split: sum.splits)

text \<open>The outputs of a run against those the printer makes, and its end.\<close>

definition run_leaves :: "gen_fs \<Rightarrow> cli_args \<Rightarrow> gen_trace \<Rightarrow> (string \<times> string) list \<times> gen_fail option \<Rightarrow> bool \<Rightarrow> bool" where
  "run_leaves fs cli tr p ok \<longleftrightarrow>
     (case p of (outs, err) \<Rightarrow>
        \<exists>k \<le> length outs. leaves_of fs (outputs tr) (map (output_event cli) (take k outs)) \<and>
          (ok \<longrightarrow> k = length outs \<and> err = None))"

lemma generate_events:
  assumes "generate num abi fs fe toint cli l [] = (tr, r)"
  shows "\<forall>m d. Touched m d \<in> set tr \<longrightarrow> r = None \<and> last tr = Touched m d \<and> cli_marker cli = Some m"
    and "case snd (read_spec fs fe toint cli []) of
        Inl e \<Rightarrow> outputs tr = [] \<and> r = Some e
      | Inr (s, name) \<Rightarrow> run_leaves fs cli tr (print_all num abi cli l s name) (r = None)"
proof -
  obtain tr1 q where rd: "read_spec fs fe toint cli [] = (tr1, q)" by (metis surj_pair)
  note rde = read_spec_events [OF rd]
  have "(\<forall>m d. Touched m d \<in> set tr \<longrightarrow> r = None \<and> last tr = Touched m d \<and> cli_marker cli = Some m) \<and>
    (case q of
        Inl e \<Rightarrow> outputs tr = [] \<and> r = Some e
      | Inr (s, name) \<Rightarrow> run_leaves fs cli tr (print_all num abi cli l s name) (r = None))"
  proof (cases q)
    case (Inl e)
    with assms rd rde show ?thesis by (auto simp: generate_def no_touch)
  next
    case (Inr z)
    obtain s name where z: "z = (s, name)" by (cases z)
    obtain outs err where pr: "print_all num abi cli l s name = (outs, err)" by (metis surj_pair)
    obtain tr2 r2 where wr: "write_all fs cli outs tr1 = (tr2, r2)" by (metis surj_pair)
    from write_all_events [OF wr] rde obtain k where k: "k \<le> length outs"
      "leaves_of fs (outputs tr2) (map (output_event cli) (take k outs))" "r2 = None \<longrightarrow> k = length outs"
      and t2: "touches tr2 = []" by auto
    have l: "run_leaves fs cli tr (outs, err) (r = None)"
      if "outputs tr = outputs tr2" "r = None \<longrightarrow> r2 = None \<and> err = None"
      using k that unfolding run_leaves_def by auto
    show ?thesis
    proof (cases "r2 = None \<and> err = None")
      case True
      with assms rd Inr z pr wr have t: "touch_marker fs cli tr2 = (tr, r)" by (simp add: generate_def)
      with touch_marker_events [OF t t2] l True Inr z pr show ?thesis by auto
    next
      case False
      with assms rd Inr z pr wr have "tr = tr2" "r \<noteq> None"
        by (auto simp: generate_def split: option.splits)
      with l t2 Inr z pr show ?thesis by (auto simp: no_touch)
    qed
  qed
  then show "\<forall>m d. Touched m d \<in> set tr \<longrightarrow> r = None \<and> last tr = Touched m d \<and> cli_marker cli = Some m"
    and "case snd (read_spec fs fe toint cli []) of
        Inl e \<Rightarrow> outputs tr = [] \<and> r = Some e
      | Inr (s, name) \<Rightarrow> run_leaves fs cli tr (print_all num abi cli l s name) (r = None)"
    by (simp_all add: rd)
qed

text \<open>
  C40: What a run of the generator leaves behind, for any file system and any front end. The marker file,
  which a build system takes for success, is touched only as the last act of a run that ends with status 0.
  When the specification cannot be read nothing is written, and the status tells the error. Otherwise
  the files written, in order, are the first of those the printer makes, and all of them without a
  printing error if the status is 0; each holds an initial part of its text, the whole of it as long as
  the file system takes all that is written (nothing tells when it does not). Another language than the
  two is refused with status 1 before anything happens.
\<close>

theorem gen_main_outcome:
  assumes "gen_main num abi fs fe toint cli = (tr, status)"
  shows "(\<forall>m d. Touched m d \<in> set tr \<longrightarrow> status = Exit 0 \<and> last tr = Touched m d \<and> cli_marker cli = Some m) \<and>
    (case parse_lang (cli_lang cli) of
        Inl _ \<Rightarrow> tr = [] \<and> status = Exit 1
      | Inr l \<Rightarrow>
          (case snd (read_spec fs fe toint cli []) of
              Inl e \<Rightarrow> outputs tr = [] \<and> status = exit_of (Some e)
            | Inr (s, name) \<Rightarrow> (case print_all num abi cli l s name of (outs, err) \<Rightarrow>
                \<exists>k \<le> length outs.
                  list_all2 cut_of (outputs tr) (map (output_event cli) (take k outs)) \<and>
                  (takes_all fs \<longrightarrow> outputs tr = map (output_event cli) (take k outs)) \<and>
                  (status = Exit 0 \<longrightarrow> k = length outs \<and> err = None))))"
proof (cases "parse_lang (cli_lang cli)")
  case (Inl e)
  with assms show ?thesis by (simp add: gen_main_def)
next
  case (Inr l)
  obtain tr1 r where g: "generate num abi fs fe toint cli l [] = (tr1, r)" by (metis surj_pair)
  with assms Inr have tr: "tr1 = tr" "status = exit_of r" by (simp_all add: gen_main_def)
  from generate_events [OF g] show ?thesis
    by (auto simp: Inr tr run_leaves_def leaves_of_def split: sum.splits prod.splits)
qed

subsection \<open>Examples\<close>

text \<open>A file system in which only the directories that were made exist; like POSIX it refuses the empty path.\<close>

definition fresh_fs :: gen_fs where
  "fresh_fs =
    \<lparr>chdir_to = (\<lambda>_ d. if d = [] then Inl (Err ''cannot set current path'') else Inr ()),
     is_directory = (\<lambda>tr d. Inr (Mkdirs d \<in> set tr)),
     path_exists = (\<lambda>tr d. Inr (Mkdirs d \<in> set tr)),
     create_directories = (\<lambda>tr d. if d = [] then Inl (Err ''cannot create directories'') else Inr (Mkdirs d \<notin> set tr)),
     can_open = (\<lambda>tr f. parent_path f = [] \<or> Mkdirs (parent_path f) \<in> set tr),
     accepted = (\<lambda>_ _ d. length d), printed = (\<lambda>_ t. (length t, None))\<rparr>"

definition go_cli :: cli_args where
  "go_cli = \<lparr>cli_spec = ''/w/app.lua'', cli_name = [], cli_output_dir = ''gen'', cli_describe_server = False,
     cli_marker = Some ''out/done'', cli_no_client = False, cli_no_server = False, cli_opts = [''pkg_prefix=x''],
     cli_lang = ''go'', cli_stdout = False\<rparr>"

definition app_front :: front_end where
  "app_front _ _ = Inr (spec_table [(''Path'', path_table), (''Point'', point_table)] [])"

definition app_go :: string where
  "app_go = ''package app'' @ nl @ nl @ ''type Point struct {'' @
     nl @ ''    Tag *string `json:'' @ quote @ ''tag'' @ quote @ ''`'' @
     nl @ ''    X   int32   `json:'' @ quote @ ''x'' @ quote @ ''`'' @ nl @ ''}'' @ nl @ nl"

lemma app_read:
  "\<exists>s. read_spec fresh_fs app_front integer_or_zero go_cli [] = ([Chdir ''/w''], Inr (s, ''app'')) \<and>
     types s = [Opt (app_base ''Point__tag'') (Builtin KString),
        Struct (app_base ''Point'') [] [(''x'', Builtin KInt32), (''tag'', At 0)],
        Arr (app_base ''Path'') (At 1)]"
  using example_types
  by (auto simp: read_spec_def fresh_fs_def go_cli_def app_front_def parent_path_def split: sum.splits)

lemma app_go_files:
  "go_Format [Opt (app_base ''Point__tag'') (Builtin KString),
      Struct (app_base ''Point'') [] [(''x'', Builtin KInt32), (''tag'', At 0)],
      Arr (app_base ''Path'') (At 1)] = ([(''app/app.gen.go'', app_go)], None)"
  by code_simp

lemma app_printed:
  "types s = [Opt (app_base ''Point__tag'') (Builtin KString),
      Struct (app_base ''Point'') [] [(''x'', Builtin KInt32), (''tag'', At 0)],
      Arr (app_base ''Path'') (At 1)] \<Longrightarrow>
   print_all num abi go_cli Lang_go s name = ([(''app/app.gen.go'', app_go)], None)"
  by (simp add: print_all_def go_cli_def app_go_files [unfolded One_nat_def])

lemma app_run:
  "gen_main num abi fresh_fs app_front integer_or_zero go_cli =
     ([Chdir ''/w'', Mkdirs ''gen/app'', Wrote ''gen/app/app.gen.go'' app_go, Mkdirs ''out'', Touched ''out/done'' ''1''], Exit 0)"
proof -
  obtain s where rd: "read_spec fresh_fs app_front integer_or_zero go_cli [] = ([Chdir ''/w''], Inr (s, ''app''))"
    and pr: "print_all num abi go_cli Lang_go s ''app'' = ([(''app/app.gen.go'', app_go)], None)"
    using app_read app_printed by metis
  have "parse_lang (cli_lang go_cli) = Inr Lang_go" by (simp add: go_cli_def parse_lang_def)
  then show ?thesis
    by (simp add: gen_main_def generate_def rd pr)
      (simp add: writeOutput_def make_dir_def save_file_def touch_marker_def fresh_fs_def go_cli_def
        path_append_def parent_path_def exit_of_def)
qed

theorem gen_main_outcome_witness:
  "\<exists>tr. gen_main (\<lambda>_. []) linux_abi fresh_fs app_front integer_or_zero go_cli = (tr, Exit 0) \<and>
     last tr = Touched ''out/done'' ''1'' \<and> outputs tr = [output_event go_cli (''app/app.gen.go'', app_go)]"
proof -
  obtain s where rd: "read_spec fresh_fs app_front integer_or_zero go_cli [] = ([Chdir ''/w''], Inr (s, ''app''))"
    and pr: "print_all (\<lambda>_. []) linux_abi go_cli Lang_go s ''app'' = ([(''app/app.gen.go'', app_go)], None)"
    using app_read app_printed by metis
  have "parse_lang (cli_lang go_cli) = Inr Lang_go" by (simp add: go_cli_def parse_lang_def)
  with gen_main_outcome [OF app_run [of "\<lambda>_. []" linux_abi]] show ?thesis
    by (simp add: app_run rd pr) (simp add: output_event_def go_cli_def path_append_def)
qed

text \<open>
  On a full disk the files are empty, and still the status is 0 and the marker is touched: the streams
  are never checked.
\<close>

lemma full_disk_unnoticed:
  "gen_main num abi (fresh_fs\<lparr>accepted := \<lambda>_ _ _. 0\<rparr>) app_front integer_or_zero go_cli =
     ([Chdir ''/w'', Mkdirs ''gen/app'', Wrote ''gen/app/app.gen.go'' [], Mkdirs ''out'', Touched ''out/done'' []], Exit 0)"
proof -
  obtain s where rd: "read_spec fresh_fs app_front integer_or_zero go_cli [] = ([Chdir ''/w''], Inr (s, ''app''))"
    and pr: "print_all num abi go_cli Lang_go s ''app'' = ([(''app/app.gen.go'', app_go)], None)"
    using app_read app_printed by metis
  have "read_spec (fresh_fs\<lparr>accepted := \<lambda>_ _ _. 0\<rparr>) app_front integer_or_zero go_cli [] = ([Chdir ''/w''], Inr (s, ''app''))"
    using rd by (simp add: read_spec_def)
  moreover have "parse_lang (cli_lang go_cli) = Inr Lang_go" by (simp add: go_cli_def parse_lang_def)
  ultimately show ?thesis
    by (simp add: gen_main_def generate_def pr)
      (simp add: writeOutput_def make_dir_def save_file_def touch_marker_def fresh_fs_def go_cli_def
        path_append_def parent_path_def exit_of_def)
qed

text \<open>
  A specification is named relative to the working directory, but the program enters its directory
  before it is loaded under the same name: the name of a file in the working directory itself has no
  directory to enter, and that of a file in another one is looked up below it a second time.
\<close>

lemma bare_spec_fails:
  assumes "chdir_to fs [] [] = Inl (Err e)" and "cli_spec cli = ''app.lua''" and "cli_lang cli = ''cpp''"
  shows "gen_main num abi fs fe toint cli = ([], Exit (- 1))"
  using assms by (simp add: gen_main_def parse_lang_def generate_def read_spec_def parent_path_def exit_of_def)

lemma relative_spec_after_chdir:
  assumes "chdir_to fs [] ''specs'' = Inr ()" and "cli_spec cli = ''specs/app.lua''"
  shows "read_spec fs fe toint cli [] =
    ([Chdir ''specs''], gbind (fe [Chdir ''specs''] ''specs/app.lua'') (populate_root toint))"
  using assms by (simp add: read_spec_def parent_path_def Let_def)

text \<open>
  A marker without a directory makes a run fail after its files are written, if the library refuses to
  create a directory with an empty name.
\<close>

lemma bare_marker_fails:
  assumes "create_directories fs tr [] = Inl (Err e)" and "cli_marker cli = Some ''done''"
  shows "touch_marker fs cli tr = (tr, Some (Err e))"
  using assms by (simp add: touch_marker_def parent_path_def)

text \<open>Options without a key or without a value pass; those for C++ are not looked at.\<close>

lemma options_accepted:
  "iterOpts go_option [''=x'', ''pkg_prefix=''] ''p'' = Inr []"
  "iterOpts go_option [''pkg_prefix''] ''p'' = Inl (Err ''incorrect 'opt' format: expected key=val'')"
  by (simp_all add: go_option_def)

lemma cpp_ignores_options:
  "print_all num abi (cli\<lparr>cli_opts := opts\<rparr>) Lang_cpp s name = print_all num abi cli Lang_cpp s name"
  by (simp add: print_all_def cli_params_def cli_targets_def main_name_def split: sum.split)

end
