(* ===== verification/Spec2Isabelle.thy ===== *)
theory Spec2Isabelle
  imports Json_Pointer Json_Dump Msgpack_Parse Mut_Destroy Rpc_Batch Convert_Reads Membuff Arena_Alloc
    Fut_Laws Fut_Gather Rc_Counting Signal_Slot Gen_Call Gen_Main
begin

text \<open>
  \<^bold>\<open>The program.\<close> rpcxx is a C++ library for JSON-RPC 2.0 over any transport. Documents
  (\<^verbatim>\<open>include/json_view\<close>, \<^verbatim>\<open>src/json_view\<close>) are trees of a tagged union whose strings, arrays and
  objects lie in an arena; they are read from and written to JSON text and MessagePack, and
  converted from and to C++ values. On top (\<^verbatim>\<open>include/rpcxx\<close>, \<^verbatim>\<open>src/rpcxx\<close>) a net of handlers
  routes requests to servers, which bind the parameters to C++ functions; transports carry
  requests and replies, and clients make them. Results travel through futures
  (\<^verbatim>\<open>include/future\<close>, \<^verbatim>\<open>src/future.cpp\<close>), whose states are counted by \<^verbatim>\<open>include/rc\<close>; bytes go through
  the buffers of \<^verbatim>\<open>include/membuff\<close>. (All paths are under \<^verbatim>\<open>src/\<close>.)

  \<^bold>\<open>Conventions.\<close> Integers of the code are words of their width where they can wrap or are
  converted, otherwise naturals; doubles and floats are their bit patterns (\<^verbatim>\<open>Ieee_Double\<close>); a
  \<^verbatim>\<open>std::string_view\<close> is a list of characters, compared as the code compares it. An exception is the
  left side of a sum. State is passed explicitly; what the code does to shared objects is done to
  numbered objects of a store. User functions, the sender of a transport, RapidJSON's tokenizer and
  number formatting and \<^verbatim>\<open>::operator new\<close> are parameters.

  \<^bold>\<open>Documents.\<close>
  \<^item> \<^verbatim>\<open>Rpcxx_Prelude\<close>: integer types, printing and reading decimals, key-sorted lists, the
    collections \<^verbatim>\<open>objs\<close> and \<^verbatim>\<open>wf_rules\<close>.
  \<^item> \<^verbatim>\<open>Trace_Frame\<close>, \<^verbatim>\<open>Json_Value\<close>, \<^verbatim>\<open>Json_Access\<close>: keys and the trace of an error (\<^verbatim>\<open>key.hpp\<close>,
    \<^verbatim>\<open>trace_frame.hpp\<close>), the document \<^verbatim>\<open>json\<close> (\<^verbatim>\<open>data.hpp\<close>) with well-formedness (objects sorted with
    unique keys) and height, the accessors of \<^verbatim>\<open>JsonView\<close> and the exceptions they throw.
  \<^item> \<^verbatim>\<open>Sorted_Object\<close>, \<^verbatim>\<open>Ordered_Map\<close>: the binary search and sorted insertion behind objects, and
    \<^verbatim>\<open>std::map\<close>. Both provide the interface \<^verbatim>\<open>sorted_object\<close> (what a lookup returns after an
    insertion), whose lemmas are proved once and used under \<^verbatim>\<open>ob\<close> and \<^verbatim>\<open>om\<close>.
  \<^item> \<^verbatim>\<open>Json_Pointer\<close>: \<^verbatim>\<open>JsonPointer\<close> of \<^verbatim>\<open>pointer.cpp\<close>: parsing, joining, lookup, iteration; that the
    tokenizer writes inside its storage on every input, rejected ones included, and what of the round
    trip holds. With a tilde as separator a token may be longer than its characters
    (\<^verbatim>\<open>tilde_separator_overreads\<close>).
  \<^item> \<^verbatim>\<open>Ieee_Double\<close>, \<^verbatim>\<open>Json_Algo\<close>: \<^verbatim>\<open>Copy\<close>, \<^verbatim>\<open>DeepEqual\<close>, \<^verbatim>\<open>Flatten\<close> of \<^verbatim>\<open>algo.cpp\<close>; the requests to the arena
    are logged, and a policy says which of them it refuses; a copy is exact for every policy.
  \<^item> \<^verbatim>\<open>Msgpack_Dump\<close>, \<^verbatim>\<open>Msgpack_Parse\<close>: the writer and the reader of MessagePack. The reader
    records whether it ever reads behind the end of the input, so that a missing check of the end shows; it
    stays within every input, and what was written is read back.
  \<^item> \<^verbatim>\<open>Json_Sax\<close>, \<^verbatim>\<open>Json_Dump\<close>: the event handler of \<^verbatim>\<open>parse_json.cpp\<close>, with its arrays
    in blocks of a capacity that grow by copying,
    refines a builder on lists; the visitor of \<^verbatim>\<open>dump_json.cpp\<close>, which asserts that keys are not
    empty; the two together, where a double is read back within 3 units in the last place.
  \<^item> \<^verbatim>\<open>Mut_Json\<close>: \<^verbatim>\<open>BasicMutJson\<close> of \<^verbatim>\<open>json.hpp\<close>: copies, views, assignment at a pointer, merge patch against
    RFC 7396.
  \<^item> \<^verbatim>\<open>Mut_Destroy\<close>: its iterative destructor on a heap of blocks, with a work list that may run out of memory.
  \<^item> \<^verbatim>\<open>Json_Convert\<close>, \<^verbatim>\<open>Convert_Laws\<close>, \<^verbatim>\<open>Convert_Reads\<close>: \<^verbatim>\<open>Convert<T>\<close> of \<^verbatim>\<open>json_view.hpp\<close> as interpreters of a datatype of
    C++ types; the round trip, the range checks, static views, and a relation
    that says without recursion over readers what is read, which \<^verbatim>\<open>from_json\<close> decides. Lengths of views are 32 bits.
  \<^item> \<^verbatim>\<open>Membuff\<close>, \<^verbatim>\<open>Arena_Alloc\<close>: buffers and arena. The loops of a buffer need not end, so they are
    partial functions, and that they return is part of the theorems; outputs share the interface
    \<^verbatim>\<open>out_buffer\<close>, provided by \<^verbatim>\<open>StringOut\<close> and \<^verbatim>\<open>FuncOut\<close>.

  \<^bold>\<open>Remote calls.\<close>
  \<^item> \<^verbatim>\<open>Rpc_Protocol\<close>: the messages of both dialects, made and taken apart.
  \<^item> \<^verbatim>\<open>Rpc_Route\<close>: the sanitizer of method names and the table of routes.
  \<^item> \<^verbatim>\<open>Rpc_World\<close>, \<^verbatim>\<open>Rpc_Promise\<close>: all handler objects, batches and unresolved user futures in one
    record; a promise is the chain of closures that resolving it runs. A user method that returns an
    invalid future ends the process, which the record notes (\<^verbatim>\<open>terminated\<close>).
  \<^item> \<^verbatim>\<open>Rpc_Server\<close>: \<^verbatim>\<open>server.hpp\<close>, \<^verbatim>\<open>server.cpp\<close>: registration, binding of parameters, middlewares, handlers of
    exceptions. Its handler refines a function from a request to its answer.
  \<^item> \<^verbatim>\<open>Rpc_Pending\<close>, \<^verbatim>\<open>Rpc_Handler\<close>, \<^verbatim>\<open>Rpc_Transport\<close>: the pending table of \<^verbatim>\<open>transport.cpp\<close> with a clock
    in nanoseconds, which the checks cut to milliseconds; dispatch over the
    net, and the receiving side. Handlers may be routed in a circle, so dispatch is recursive on
    fuel; one unit for each handler passed, and for a ranked net the length of the name times the
    ranks is enough.
  \<^item> \<^verbatim>\<open>Rpc_Roundtrip\<close>, \<^verbatim>\<open>Rpc_Batch\<close>: a call from a client through two transports to a server and back; the
    answer to a batch.

  \<^bold>\<open>Futures.\<close>
  \<^item> \<^verbatim>\<open>Fut_Core\<close>: the shared state of \<^verbatim>\<open>future.hpp\<close>, its critical sections as tasks, \<^verbatim>\<open>continueChain\<close>, the
    operations of a program, and the steps of threads and executors.
  \<^item> \<^verbatim>\<open>Fut_Inv\<close>, \<^verbatim>\<open>Fut_Laws\<close>: the invariant of all interleavings and what follows: no lost wakeup, one call
    of each continuation, abandoned futures resolve, threads end, chains deliver.
  \<^item> \<^verbatim>\<open>Fut_Gather\<close>: \<^verbatim>\<open>gather.hpp\<close>, \<^verbatim>\<open>multi_future.hpp\<close>, \<^verbatim>\<open>cancel_token.hpp\<close>, for every order of completion.
  \<^item> \<^verbatim>\<open>Rc_Counting\<close>: \<^verbatim>\<open>Strong\<close> and \<^verbatim>\<open>Weak\<close> of \<^verbatim>\<open>rc.hpp\<close>.
  \<^item> \<^verbatim>\<open>Move_Func\<close>, \<^verbatim>\<open>Signal_Slot\<close>: the function objects of \<^verbatim>\<open>move_func.hpp\<close> with the memory of what they hold,
    refined to slots; the callback of \<^verbatim>\<open>signal.hpp\<close> over such a slot, for every order in which executors
    run its jobs.
  The promises of \<^verbatim>\<open>Rpc_Promise\<close> are those of \<^verbatim>\<open>Fut_Core\<close> in one thread, where a resolution runs its closure
  at once.

  \<^bold>\<open>The code generator\<close> (\<^verbatim>\<open>codegen\<close>) reads an interface description written in Lua.
  \<^item> \<^verbatim>\<open>Gen_Ast\<close>: \<^verbatim>\<open>codegen.hpp\<close>, the AST with its types as cells of a heap, and the Lua values read.
  \<^item> \<^verbatim>\<open>Gen_Populate\<close>, \<^verbatim>\<open>Gen_Resolve\<close>, \<^verbatim>\<open>Gen_Meaning\<close>: \<^verbatim>\<open>populate.cpp\<close>; the AST stays well-founded, and resolving
    types through the table of saved names equals the reading of each table on its own.
  \<^item> \<^verbatim>\<open>Gen_Cpp\<close>, \<^verbatim>\<open>Gen_Types\<close>, \<^verbatim>\<open>Gen_Order\<close>: \<^verbatim>\<open>cppgen.cpp\<close>, \<^verbatim>\<open>typegen.hpp\<close>: names, guards, default values,
    attributes, the order of members and of declarations. A pointer is followed on fuel, one more
    than the number of types, which is enough because each type refers to earlier ones.
  \<^item> \<^verbatim>\<open>Gen_Rpc\<close>, \<^verbatim>\<open>Gen_Call\<close>: \<^verbatim>\<open>clientgen.hpp\<close>, \<^verbatim>\<open>servergen.hpp\<close>: the printed clients and servers, and that a
    printed call meets the printed registration in the runtime of \<^verbatim>\<open>Rpc_Server\<close>.

  \<^item> \<^verbatim>\<open>Gen_Go\<close>, \<^verbatim>\<open>Gen_Main\<close>: \<^verbatim>\<open>gogen.cpp\<close> and \<^verbatim>\<open>codegen.cpp\<close>: the packages for Go, and a run from the options to
    the files, over any file system and front end; a stream may take any part of a text only.

  \<^bold>\<open>Not modelled.\<close> The Lua front end and the Lua VM of the code generator and the library that parses
  its command line; the tests and benchmarks; the
  compile-time reflection (\<^verbatim>\<open>meta\<close> and the library \<^verbatim>\<open>describe\<close>), whose result is the datatype of types;
  \<^verbatim>\<open>to_std_fut.hpp\<close>; a callback of a signal that uses the signal while it runs; the selection of byte-swapping macros; addresses
  and lifetimes, but for the arena, the reference counts, the stored callables and the destruction of mutable documents
  (the states of futures are never freed in \<^verbatim>\<open>Fut_Core\<close>, and the deletion of a continuation by
  the destructor of its state is left out); the spin lock of weak blocks; memory
  orders of atomics: the sections of a thread are interleaved sequentially.
\<close>

end
